(* ===== verification/Prelude.thy ===== *)
theory Prelude
  imports Main "HOL-Library.Word"
begin

text \<open>
  Shared vocabulary of the development: C++ faults as values, the parts of the C++ standard
  library the program uses on strings (\<open>std::to_string\<close>, \<open>std::stoi\<close>, \<open>find\<close>, \<open>substr\<close>,
  \<open>resize\<close>, hexadecimal stream output) and on input file streams, and two interfaces stated as
  locales: an encoding that a decoder inverts, and a deterministic machine with an invariant.
  Byte strings (\<open>std::string\<close>) are lists of \<open>char\<close>.
\<close>

named_theorems fault_simps \<open>evaluation of the fault monad\<close>
named_theorems frame_simps \<open>fields an operation leaves alone\<close>

section \<open>Faults\<close>

text \<open>
  \<open>exn\<close> is a C++ exception that a handler can catch; \<open>Abort\<close> stands for what no handler
  catches: a failed \<open>CHECK\<close> (\<open>std::abort\<close>), a failed \<open>assert\<close>, an access out of bounds.
\<close>

datatype exn =
    Runtime_Error string
  | Invalid_Argument string
  | Out_Of_Range string
  | System_Error string
  | Json_Parse_Error nat
  | Json_Type_Error nat string
  | Json_Out_Of_Range nat
  | Json_Other_Error nat
  | Db_Error string

datatype fault = Throw exn | Abort string

type_synonym 'a result = "fault + 'a"

definition bind_result :: "'a result \<Rightarrow> ('a \<Rightarrow> 'b result) \<Rightarrow> 'b result" where
  "bind_result m f = (case m of Inl e \<Rightarrow> Inl e | Inr x \<Rightarrow> f x)"

lemma bind_result_simps [simp, fault_simps]:
  "bind_result (Inl e) f = Inl e"
  "bind_result (Inr x) f = f x"
  by (simp_all add: bind_result_def)

lemma bind_result_Inr_iff [fault_simps]:
  "bind_result m f = Inr y \<longleftrightarrow> (\<exists>x. m = Inr x \<and> f x = Inr y)"
  by (cases m) simp_all

text \<open>\<open>try { m } catch (std::exception& e) { h e }\<close>: an abort is not caught.\<close>

definition catch_exn :: "'a result \<Rightarrow> (exn \<Rightarrow> 'a result) \<Rightarrow> 'a result" where
  "catch_exn m h = (case m of Inl (Throw e) \<Rightarrow> h e | _ \<Rightarrow> m)"

lemma catch_exn_simps [simp, fault_simps]:
  "catch_exn (Inr x) h = Inr x"
  "catch_exn (Inl (Throw e)) h = h e"
  "catch_exn (Inl (Abort a)) h = Inl (Abort a)"
  by (simp_all add: catch_exn_def)

section \<open>Decimal numbers\<close>

definition digit_char :: "nat \<Rightarrow> char" where
  "digit_char d = char_of (48 + d)"

definition digit_value :: "char \<Rightarrow> nat" where
  "digit_value c = of_char c - 48"

definition is_digit :: "char \<Rightarrow> bool" where
  "is_digit c = ((48::nat) \<le> of_char c \<and> (of_char c :: nat) \<le> 57)"

text \<open>\<open>std::to_string\<close> of an unsigned number.\<close>

fun to_string :: "nat \<Rightarrow> string" where
  "to_string n = (if n < 10 then [digit_char n] else to_string (n div 10) @ [digit_char (n mod 10)])"

declare to_string.simps [simp del]

definition decimal_value :: "nat \<Rightarrow> string \<Rightarrow> nat" where
  "decimal_value = foldl (\<lambda>v c. 10 * v + digit_value c)"

lemma digit_char_value [simp]: "d < 10 \<Longrightarrow> digit_value (digit_char d) = d"
  by (simp add: digit_value_def digit_char_def)

lemma digit_chars:
  "digit_char 1 = CHR ''1''" "digit_char 2 = CHR ''2''" "digit_char 3 = CHR ''3''" "digit_char 4 = CHR ''4''"
  "digit_char 5 = CHR ''5''" "digit_char 6 = CHR ''6''" "digit_char 7 = CHR ''7''" "digit_char 8 = CHR ''8''"
  "digit_char 9 = CHR ''9''" "digit_char (Suc 0) = CHR ''1''"
  by code_simp+

lemma is_digit_digit_char [simp]: "d < 10 \<Longrightarrow> is_digit (digit_char d)"
  by (simp add: is_digit_def digit_char_def)

lemma to_string_nonempty [simp]: "to_string n \<noteq> []"
  by (subst to_string.simps) simp

lemma to_string_digits: "list_all is_digit (to_string n)"
proof (induction n rule: to_string.induct)
  case (1 n)
  then show ?case by (subst to_string.simps) simp
qed

lemma decimal_value_append:
  "decimal_value v (xs @ ys) = decimal_value (decimal_value v xs) ys"
  by (simp add: decimal_value_def)

lemma decimal_value_to_string [simp]: "decimal_value 0 (to_string n) = n"
proof (induction n rule: to_string.induct)
  case (1 n)
  show ?case
  proof (cases "n < 10")
    case True
    then show ?thesis by (subst to_string.simps) (simp add: decimal_value_def)
  next
    case False
    with 1 have "decimal_value 0 (to_string (n div 10)) = n div 10" by simp
    with False show ?thesis
      by (subst to_string.simps) (simp add: decimal_value_append, simp add: decimal_value_def)
  qed
qed

text \<open>
  \<open>std::stoi\<close> (base 10, 32-bit \<open>int\<close>): leading white space and a sign are accepted, the longest
  run of digits is read and what follows it is ignored.
\<close>

definition is_space :: "char \<Rightarrow> bool" where
  "is_space c = ((of_char c :: nat) = 32 \<or> ((9::nat) \<le> of_char c \<and> (of_char c :: nat) \<le> 13))"

definition stoi_digits :: "int \<Rightarrow> string \<Rightarrow> int result" where
  "stoi_digits sign s =
     (let ds = takeWhile is_digit s; v = sign * int (decimal_value 0 ds)
      in if ds = [] then Inl (Throw (Invalid_Argument ''stoi''))
         else if v < - (2 ^ 31) \<or> 2 ^ 31 \<le> v then Inl (Throw (Out_Of_Range ''stoi''))
         else Inr v)"

definition stoi :: "string \<Rightarrow> int result" where
  "stoi s =
     (case dropWhile is_space s of
        [] \<Rightarrow> stoi_digits 1 []
      | c # cs \<Rightarrow> if c = CHR ''-'' then stoi_digits (-1) cs
                 else if c = CHR ''+'' then stoi_digits 1 cs
                 else stoi_digits 1 (c # cs))"

lemma digit_not_space: "is_digit c \<Longrightarrow> \<not> is_space c \<and> c \<noteq> CHR ''-'' \<and> c \<noteq> CHR ''+''"
  by (auto simp: is_digit_def is_space_def)

lemma takeWhile_all: "list_all P xs \<Longrightarrow> takeWhile P xs = xs"
  by (simp add: list_all_iff)

lemma stoi_to_string:
  assumes "n < 2 ^ 31"
  shows "stoi (to_string n) = Inr (int n)"
proof -
  obtain c cs where s: "to_string n = c # cs" by (cases "to_string n") auto
  have ds: "list_all is_digit (c # cs)" using to_string_digits [of n] by (simp only: s)
  then have "is_digit c" by simp
  then have c: "\<not> is_space c" "c \<noteq> CHR ''-''" "c \<noteq> CHR ''+''" by (simp_all add: digit_not_space)
  have "decimal_value 0 (c # cs) = n" using decimal_value_to_string [of n] by (simp only: s)
  moreover have "int n < 2 ^ 31" using assms by simp
  ultimately show ?thesis
    using c takeWhile_all [OF ds] by (simp add: s stoi_def stoi_digits_def Let_def)
qed

lemma stoi_range: "stoi s = Inr v \<Longrightarrow> - (2 ^ 31) \<le> v \<and> v < 2 ^ 31"
  by (auto simp: stoi_def stoi_digits_def Let_def split: list.splits if_splits)

section \<open>Strings\<close>

text \<open>\<open>std::string::find(c)\<close>: the position of the first \<open>c\<close>, \<open>None\<close> for \<open>npos\<close>.\<close>

fun find_char :: "char \<Rightarrow> string \<Rightarrow> nat option" where
  "find_char c [] = None"
| "find_char c (x # xs) = (if x = c then Some 0 else map_option Suc (find_char c xs))"

lemma find_char_None [simp]: "find_char c xs = None \<longleftrightarrow> c \<notin> set xs"
  by (induction xs) auto

lemma find_char_append: "c \<notin> set xs \<Longrightarrow> find_char c (xs @ c # ys) = Some (length xs)"
  by (induction xs) auto

lemma find_char_Some_less: "find_char c xs = Some i \<Longrightarrow> i < length xs \<and> xs ! i = c"
  by (induction xs arbitrary: i) (auto split: if_splits)

text \<open>\<open>std::string::resize\<close> and writing \<open>out\<close> at the start of a buffer of fixed size.\<close>

definition resize :: "nat \<Rightarrow> string \<Rightarrow> string" where
  "resize n s = take n s @ replicate (n - length s) (char_of (0::nat))"

definition store_into :: "string \<Rightarrow> string \<Rightarrow> string" where
  "store_into buf out = take (length buf) out @ drop (length out) buf"

lemma length_store_into [simp]: "length (store_into buf out) = length buf"
  by (simp add: store_into_def)

lemma store_into_exact [simp]: "length out = length buf \<Longrightarrow> store_into buf out = out"
  by (simp add: store_into_def)

lemma length_resize [simp]: "length (resize n s) = n"
  by (simp add: resize_def)

lemma resize_same [simp]: "resize (length s) s = s"
  by (simp add: resize_def)

lemma resize_exact: "n = length s \<Longrightarrow> resize n s = s"
  by simp

section \<open>Hexadecimal output\<close>

text \<open>\<open>std::hex << std::setfill('0') << std::setw(w)\<close>: lower-case digits, padded on the left.\<close>

definition hex_digit :: "nat \<Rightarrow> char" where
  "hex_digit d = (if d < 10 then char_of (48 + d) else char_of (87 + d))"

fun to_hex :: "nat \<Rightarrow> string" where
  "to_hex n = (if n < 16 then [hex_digit n] else to_hex (n div 16) @ [hex_digit (n mod 16)])"

declare to_hex.simps [simp del]

definition hex_setw :: "nat \<Rightarrow> nat \<Rightarrow> string" where
  "hex_setw w n = replicate (w - length (to_hex n)) (CHR ''0'') @ to_hex n"

definition is_hex_char :: "char \<Rightarrow> bool" where
  "is_hex_char c = (is_digit c \<or> ((97::nat) \<le> of_char c \<and> (of_char c :: nat) \<le> 102))"

definition hex_char_value :: "char \<Rightarrow> nat" where
  "hex_char_value c = (if is_digit c then of_char c - 48 else of_char c - 87)"

definition hex_value :: "nat \<Rightarrow> string \<Rightarrow> nat" where
  "hex_value = foldl (\<lambda>v c. 16 * v + hex_char_value c)"

lemma hex_digit_ok [simp]: "d < 16 \<Longrightarrow> is_hex_char (hex_digit d)"
  by (simp add: is_hex_char_def hex_digit_def is_digit_def)

lemma hex_digit_value [simp]: "d < 16 \<Longrightarrow> hex_char_value (hex_digit d) = d"
  by (simp add: hex_char_value_def hex_digit_def is_digit_def)

lemma to_hex_chars: "list_all is_hex_char (to_hex n)"
proof (induction n rule: to_hex.induct)
  case (1 n)
  then show ?case by (subst to_hex.simps) simp
qed

lemma to_hex_nonempty [simp]: "to_hex n \<noteq> []"
  by (subst to_hex.simps) simp

lemma length_to_hex: "n < 16 ^ w \<Longrightarrow> 0 < w \<Longrightarrow> length (to_hex n) \<le> w"
proof (induction n arbitrary: w rule: to_hex.induct)
  case (1 n)
  show ?case
  proof (cases "n < 16")
    case True
    then show ?thesis using "1.prems" by (subst to_hex.simps) simp
  next
    case False
    obtain w' where w: "w = Suc w'" using "1.prems" by (cases w) auto
    with "1.prems" False have pos: "0 < w'" by (cases w') auto
    from w "1.prems" have "n div 16 < 16 ^ w'" by (simp add: less_mult_imp_div_less mult.commute)
    with False pos "1.IH" have "length (to_hex (n div 16)) \<le> w'" by simp
    with False w show ?thesis by (subst to_hex.simps) simp
  qed
qed

lemma hex_value_append: "hex_value v (xs @ ys) = hex_value (hex_value v xs) ys"
  by (simp add: hex_value_def)

lemma hex_value_to_hex [simp]: "hex_value 0 (to_hex n) = n"
proof (induction n rule: to_hex.induct)
  case (1 n)
  show ?case
  proof (cases "n < 16")
    case True
    then show ?thesis by (subst to_hex.simps) (simp add: hex_value_def)
  next
    case False
    with 1 have "hex_value 0 (to_hex (n div 16)) = n div 16" by simp
    with False show ?thesis
      by (subst to_hex.simps) (simp add: hex_value_append, simp add: hex_value_def)
  qed
qed

lemma hex_value_zeros: "hex_value 0 (replicate k (CHR ''0'')) = 0"
  by (induction k) (simp_all add: hex_value_def hex_char_value_def is_digit_def)

lemma hex_value_setw [simp]: "hex_value 0 (hex_setw w n) = n"
  by (simp add: hex_setw_def hex_value_append hex_value_zeros)

lemma hex_setw_chars: "list_all is_hex_char (hex_setw w n)"
proof -
  have "is_hex_char (CHR ''0'')" by (simp add: is_hex_char_def is_digit_def)
  then show ?thesis using to_hex_chars [of n] by (auto simp: hex_setw_def list_all_iff)
qed

lemma length_hex_setw: "n < 16 ^ w \<Longrightarrow> 0 < w \<Longrightarrow> length (hex_setw w n) = w"
  using length_to_hex [of n w] by (simp add: hex_setw_def)

section \<open>Bits\<close>

unbundle bit_operations_syntax

lemma or_top: "k < 2 ^ m \<Longrightarrow> k OR 2 ^ m * j = k + 2 ^ m * j" for k j :: nat
proof -
  assume k: "k < 2 ^ m"
  have "k AND push_bit m j = 0"
  proof (rule bit_eqI)
    fix i
    have "k = take_bit m k" using k by (simp add: take_bit_nat_eq_self)
    then have "bit k i \<Longrightarrow> i < m" by (metis bit_take_bit_iff)
    then show "bit (k AND push_bit m j) i = bit (0::nat) i" by (auto simp: bit_simps)
  qed
  then show ?thesis by (simp add: disjunctive_add_eq_or push_bit_eq_mult mult.commute)
qed

lemma and_mask: "n AND mask m = n mod 2 ^ m" for n :: nat
  by (simp add: take_bit_eq_mod flip: take_bit_eq_mask)

section \<open>Interfaces\<close>

text \<open>
  An encoding of the values satisfying \<open>ok\<close> that a decoder inverts. Interpreted below on decimal
  and hexadecimal text, and by the components on their wire formats.
\<close>

locale coding =
  fixes enc :: "'a \<Rightarrow> 'b"
    and dec :: "'b \<Rightarrow> 'a option"
    and ok :: "'a \<Rightarrow> bool"
  assumes dec_enc: "ok x \<Longrightarrow> dec (enc x) = Some x"
begin

lemma enc_inj: "ok x \<Longrightarrow> ok y \<Longrightarrow> enc x = enc y \<longleftrightarrow> x = y"
  using dec_enc by (metis option.inject)

lemma dec_enc_eq: "ok x \<Longrightarrow> e = enc x \<Longrightarrow> dec e = Some x"
  by (simp add: dec_enc)

end

interpretation decimal: coding to_string "\<lambda>s. Some (decimal_value 0 s)" "\<lambda>_. True"
  by unfold_locales simp

interpretation hexadecimal: coding "hex_setw w" "\<lambda>s. Some (hex_value 0 s)" "\<lambda>_. True" for w
  by unfold_locales simp

text \<open>
  A deterministic machine that reads a list of events, collects its outputs and stops at the first
  fault; the locale is the contract of a step that keeps an invariant.
\<close>

fun run_steps :: "('e \<Rightarrow> 's \<Rightarrow> ('s \<times> 'o list) result) \<Rightarrow> 'e list \<Rightarrow> 's \<Rightarrow> ('s \<times> 'o list) result" where
  "run_steps step [] s = Inr (s, [])"
| "run_steps step (e # es) s =
     bind_result (step e s) (\<lambda>(t, os).
     bind_result (run_steps step es t) (\<lambda>(u, os'). Inr (u, os @ os')))"

lemma run_steps_Cons_Inr [fault_simps]:
  "run_steps step (e # es) s = Inr (u, os) \<longleftrightarrow>
     (\<exists>t os1 os2. step e s = Inr (t, os1) \<and> run_steps step es t = Inr (u, os2) \<and> os = os1 @ os2)"
  by (auto simp: bind_result_Inr_iff)

locale machine =
  fixes step :: "'e \<Rightarrow> 's \<Rightarrow> ('s \<times> 'o list) result"
    and inv :: "'s \<Rightarrow> bool"
  assumes inv_step: "inv s \<Longrightarrow> step e s = Inr (t, os) \<Longrightarrow> inv t"
begin

lemma run_inv: "inv s \<Longrightarrow> run_steps step es s = Inr (t, os) \<Longrightarrow> inv t"
proof (induction es arbitrary: s os)
  case Nil
  then show ?case by simp
next
  case (Cons e es)
  from Cons.prems(2) obtain u os1 os2
    where "step e s = Inr (u, os1)" "run_steps step es u = Inr (t, os2)"
    unfolding run_steps_Cons_Inr by blast
  then show ?case using Cons.IH inv_step [OF Cons.prems(1)] by blast
qed

lemma run_outputs:
  assumes out: "\<And>s e t os. inv s \<Longrightarrow> step e s = Inr (t, os) \<Longrightarrow> list_all P os"
  shows "inv s \<Longrightarrow> run_steps step es s = Inr (t, os) \<Longrightarrow> list_all P os"
proof (induction es arbitrary: s os)
  case Nil
  then show ?case by simp
next
  case (Cons e es)
  from Cons.prems(2) obtain u os1 os2
    where st: "step e s = Inr (u, os1)" "run_steps step es u = Inr (t, os2)" "os = os1 @ os2"
    unfolding run_steps_Cons_Inr by blast
  have "list_all P os2" using Cons.IH [OF inv_step [OF Cons.prems(1) st(1)] st(2)] .
  then show ?case using st(3) out [OF Cons.prems(1) st(1)] by simp
qed

end

end
