(* ===== verification/Transfer_Types.thy ===== *)
theory Transfer_Types
  imports Prelude
begin

text \<open>
  The constants and the transfer record of \<open>cli_tool/include/types.h\<close>, the IP endpoints of the
  socket library, and \<open>PublicEndpoint\<close> of \<open>cli_tool/include/utils.hpp\<close>.
\<close>

section \<open>types.h\<close>

definition SEND :: string where "SEND = ''send''"

definition GET :: string where "GET = ''get''"

definition MAX_PACKET_SIZE :: nat where "MAX_PACKET_SIZE = 1400"

definition HEADER_SIZE :: nat where "HEADER_SIZE = 128"

definition PAYLOAD_SIZE :: nat where "PAYLOAD_SIZE = MAX_PACKET_SIZE - HEADER_SIZE"

definition RETRY_TIMEOUT_MS :: nat where "RETRY_TIMEOUT_MS = 200"

definition MAX_RETRIES :: nat where "MAX_RETRIES = 20"

record TRANSFERS =
  transfer_id :: string
  sender_ip :: string
  sender_port :: "32 word"
  sender_local_ip :: string
  sender_local_port :: "32 word"
  protocol :: string
  file_name :: string
  file_size :: "64 word"
  file_hash :: string
  token :: string

text \<open>\<open>TRANSFERS t{}\<close>: every field value-initialised.\<close>

definition TRANSFERS_init :: TRANSFERS where
  "TRANSFERS_init =
     \<lparr>transfer_id = [], sender_ip = [], sender_port = 0, sender_local_ip = [], sender_local_port = 0,
      protocol = [], file_name = [], file_size = 0, file_hash = [], token = []\<rparr>"

lemma PAYLOAD_SIZE_eq: "PAYLOAD_SIZE = 1272"
  by (simp add: PAYLOAD_SIZE_def MAX_PACKET_SIZE_def HEADER_SIZE_def)

section \<open>Endpoints\<close>

text \<open>
  \<open>asio::ip::udp::endpoint\<close>: an address and a 16-bit port. Parsing the text of an address
  (\<open>asio::ip::make_address\<close>) belongs to the socket library and is a parameter where it is used.
\<close>

datatype address = V4 "32 word" | V6 "128 word"

datatype endpoint = Endpoint (ep_address: address) (ep_port: "16 word")

record PublicEndpoint =
  ip :: string
  port :: "16 word"
  local_ip :: string
  local_port :: "16 word"

end
