(* ===== verification/Wire.thy ===== *)
theory Wire
  imports Transfer_Types
begin

text \<open>
  The messages of \<open>proto/v1/common.proto\<close>, \<open>handshake.proto\<close> and \<open>control.proto\<close>. A message is a
  record of its fields, a \<open>oneof body\<close> a datatype with a case for "not set". The generated
  serialisers are a parameter: the record \<open>codec\<close>; \<open>codec_ok\<close> is what the program relies on.
\<close>

section \<open>common.proto\<close>

text \<open>Proto3 enumerations are open: a number without a name survives parsing.\<close>

datatype ProtocolVersion =
    PROTOCOL_VERSION_UNSPECIFIED
  | PROTOCOL_VERSION_1
  | ProtocolVersion_unknown nat

text \<open>The number \<open>std::to_string\<close> prints for a version.\<close>

fun version_number :: "ProtocolVersion \<Rightarrow> nat" where
  "version_number PROTOCOL_VERSION_UNSPECIFIED = 0"
| "version_number PROTOCOL_VERSION_1 = 1"
| "version_number (ProtocolVersion_unknown n) = n"

datatype ErrorCode =
    ERROR_CODE_UNSPECIFIED
  | ERROR_CODE_INVALID_TOKEN
  | ERROR_CODE_HANDSHAKE_FAILED
  | ERROR_CODE_UNAUTHORIZED_PEER
  | ERROR_CODE_BAD_PACKET
  | ERROR_CODE_TRANSFER_NOT_FOUND
  | ERROR_CODE_OFFSET_MISMATCH
  | ERROR_CODE_INTEGRITY_CHECK_FAILED
  | ErrorCode_unknown nat

record PeerIdentity =
  long_term_public_key :: string
  ephemeral_public_key :: string

section \<open>handshake.proto\<close>

record ClientHello =
  ch_version :: ProtocolVersion
  ch_transfer_id :: string
  ch_token :: string
  ch_receiver_nonce :: string
  ch_receiver_identity :: PeerIdentity
  ch_receiver_signature :: string

record ServerHello =
  sh_version :: ProtocolVersion
  sh_transfer_id :: string
  sh_sender_nonce :: string
  sh_sender_identity :: PeerIdentity
  sh_sender_signature :: string

record HandshakeFinish =
  hf_transfer_id :: string
  hf_transcript_proof :: string

record HandshakeError =
  he_code :: ErrorCode
  he_message :: string

datatype HandshakePacket =
    HP_not_set
  | HP_client_hello ClientHello
  | HP_server_hello ServerHello
  | HP_handshake_finish HandshakeFinish
  | HP_error HandshakeError

section \<open>control.proto\<close>

record GetRequest =
  get_transfer_id :: string

record Ack =
  ack_transfer_id :: string
  next_offset :: "64 word"

record DataChunk =
  data_transfer_id :: string
  data_offset :: "64 word"
  payload :: string

record Done =
  done_transfer_id :: string
  final_size :: "64 word"
  done_file_hash :: string

record TransferError =
  te_transfer_id :: string
  te_code :: ErrorCode
  te_message :: string

datatype ControlPacket =
    CP_not_set
  | CP_get GetRequest
  | CP_ack Ack
  | CP_data DataChunk
  | CP_done Done
  | CP_error TransferError

section \<open>Serialisation\<close>

text \<open>
  \<open>SerializeToString\<close> reports success and leaves bytes in its output string;
  \<open>ParseFromString\<close> fails or yields a message.
\<close>

record codec =
  ser_handshake :: "HandshakePacket \<Rightarrow> bool \<times> string"
  parse_handshake :: "string \<Rightarrow> HandshakePacket option"
  ser_control :: "ControlPacket \<Rightarrow> bool \<times> string"
  parse_control :: "string \<Rightarrow> ControlPacket option"

text \<open>
  The packets of a transfer: identifiers and hashes are ASCII text (so valid UTF-8, which proto3
  asks of \<open>string\<close> fields) of the lengths the program produces (a 40-character token, a
  64-character hash), payloads fit \<open>PAYLOAD_SIZE\<close>.
\<close>

definition ascii_upto :: "nat \<Rightarrow> string \<Rightarrow> bool" where
  "ascii_upto n s = (length s \<le> n \<and> list_all (\<lambda>c. (of_char c :: nat) < 128) s)"

fun transfer_packet :: "ControlPacket \<Rightarrow> bool" where
  "transfer_packet CP_not_set = False"
| "transfer_packet (CP_get g) = ascii_upto 40 (get_transfer_id g)"
| "transfer_packet (CP_ack a) = ascii_upto 40 (ack_transfer_id a)"
| "transfer_packet (CP_data d) = (ascii_upto 40 (data_transfer_id d) \<and> length (payload d) \<le> PAYLOAD_SIZE)"
| "transfer_packet (CP_done d) = (ascii_upto 40 (done_transfer_id d) \<and> ascii_upto 64 (done_file_hash d))"
| "transfer_packet (CP_error e) = False"

text \<open>
  What the wire format promises for such a packet: it serialises, to something that is not empty
  and fits the receive buffers, and parsing gives the packet back.
\<close>

definition delivers :: "codec \<Rightarrow> ControlPacket \<Rightarrow> bool" where
  "delivers c p =
     (fst (ser_control c p) \<and> snd (ser_control c p) \<noteq> []
      \<and> length (snd (ser_control c p)) \<le> MAX_PACKET_SIZE
      \<and> parse_control c (snd (ser_control c p)) = Some p)"

definition codec_ok :: "codec \<Rightarrow> bool" where
  "codec_ok c = (\<forall>p. transfer_packet p \<longrightarrow> delivers c p)"

lemma codec_okD:
  assumes "codec_ok c" "transfer_packet p"
  shows "fst (ser_control c p)" "snd (ser_control c p) \<noteq> []"
    "length (snd (ser_control c p)) \<le> MAX_PACKET_SIZE"
    "parse_control c (snd (ser_control c p)) = Some p"
  using assms by (auto simp: codec_ok_def delivers_def)

end
