(* ===== verification/File_Stream.thy ===== *)
theory File_Stream
  imports Prelude
begin

text \<open>
  \<open>std::ifstream\<close> and \<open>std::ofstream\<close> in binary mode, as far as the program uses them: the
  get position, \<open>eofbit\<close>, \<open>failbit\<close> and \<open>gcount\<close> of an input stream, and the put position of an
  output stream. The file behind an open input stream does not change.
\<close>

section \<open>Input streams\<close>

record ifstream =
  if_open :: bool
  if_contents :: string
  if_pos :: nat
  if_eof :: bool
  if_fail :: bool
  if_gcount :: nat

text \<open>A default-constructed stream, and \<open>ifstream(path, binary)\<close>: \<open>None\<close> if it cannot be opened.\<close>

definition ifstream_closed :: ifstream where
  "ifstream_closed =
     \<lparr>if_open = False, if_contents = [], if_pos = 0, if_eof = False, if_fail = False, if_gcount = 0\<rparr>"

definition ifstream_open :: "string option \<Rightarrow> ifstream" where
  "ifstream_open f = (case f of
      None \<Rightarrow> ifstream_closed\<lparr>if_fail := True\<rparr>
    | Some c \<Rightarrow> ifstream_closed\<lparr>if_open := True, if_contents := c\<rparr>)"

text \<open>
  \<open>seekg(p)\<close> clears \<open>eofbit\<close> but not \<open>failbit\<close>, does nothing else on a failed stream, and leaves \<open>gcount\<close> alone. The offset is
  a signed 64-bit number: a position of \<open>2 ^ 63\<close> or more is negative and fails.
\<close>

definition seekg :: "64 word \<Rightarrow> ifstream \<Rightarrow> ifstream" where
  "seekg p f =
     (let f = f\<lparr>if_eof := False\<rparr>
      in if if_fail f then f
         else if 2 ^ 63 \<le> unat p then f\<lparr>if_fail := True\<rparr>
         else f\<lparr>if_pos := unat p\<rparr>)"

text \<open>
  \<open>read(buf, n)\<close>: nothing on a stream that is not good; otherwise up to \<open>n\<close> characters, with
  \<open>eofbit\<close> and \<open>failbit\<close> set when fewer than \<open>n\<close> were left. Returns the characters stored.
\<close>

definition if_read :: "nat \<Rightarrow> ifstream \<Rightarrow> string \<times> ifstream" where
  "if_read n f =
     (if if_eof f \<or> if_fail f then ([], f\<lparr>if_fail := True, if_gcount := 0\<rparr>)
      else
        let got = take n (drop (if_pos f) (if_contents f)); k = length got
        in (got, f\<lparr>if_pos := if_pos f + k, if_gcount := k,
                   if_eof := k < n, if_fail := k < n\<rparr>))"

definition if_good :: "ifstream \<Rightarrow> bool" where
  "if_good f = (\<not> if_eof f \<and> \<not> if_fail f)"

lemma ifstream_open_simps [simp]:
  "if_open (ifstream_open f) = (f \<noteq> None)"
  "if_contents (ifstream_open (Some c)) = c"
  "if_pos (ifstream_open f) = 0"
  "if_eof (ifstream_open f) = False"
  "if_fail (ifstream_open f) = (f = None)"
  by (auto simp: ifstream_open_def ifstream_closed_def split: option.splits)

lemma seekg_simps [simp]:
  "if_open (seekg p f) = if_open f"
  "if_contents (seekg p f) = if_contents f"
  "if_eof (seekg p f) = False"
  by (simp_all add: seekg_def Let_def)

lemma seekg_failed [simp]: "if_fail f \<Longrightarrow> if_fail (seekg p f)"
  by (simp add: seekg_def Let_def)

lemma seekg_ok:
  "\<not> if_fail f \<Longrightarrow> unat p < 2 ^ 63 \<Longrightarrow> \<not> if_fail (seekg p f) \<and> if_pos (seekg p f) = unat p"
  by (simp add: seekg_def Let_def)

lemma if_read_frame [simp]:
  "if_open (snd (if_read n f)) = if_open f"
  "if_contents (snd (if_read n f)) = if_contents f"
  by (simp_all add: if_read_def Let_def)

lemma if_read_gcount: "if_gcount (snd (if_read n f)) = length (fst (if_read n f))"
  by (simp add: if_read_def Let_def)

lemma length_if_read: "length (fst (if_read n f)) \<le> n"
  by (simp add: if_read_def Let_def)

lemma if_read_failed: "if_fail f \<Longrightarrow> fst (if_read n f) = [] \<and> if_fail (snd (if_read n f))"
  by (simp add: if_read_def)

lemma if_read_good:
  assumes "if_good f"
  shows "fst (if_read n f) = take n (drop (if_pos f) (if_contents f))"
    and "if_good (snd (if_read n f)) \<longleftrightarrow> length (fst (if_read n f)) = n"
    and "if_fail (snd (if_read n f)) \<longleftrightarrow> length (fst (if_read n f)) < n"
    and "if_pos (snd (if_read n f)) = if_pos f + length (fst (if_read n f))"
  using assms by (auto simp: if_read_def if_good_def Let_def)

section \<open>Output files\<close>

text \<open>
  Writing \<open>p\<close> at position \<open>n\<close> of a file: bytes before \<open>n\<close> that do not exist are zero, bytes
  under \<open>p\<close> are overwritten.
\<close>

definition write_at :: "nat \<Rightarrow> string \<Rightarrow> string \<Rightarrow> string" where
  "write_at n p xs = resize n xs @ p @ drop (n + length p) xs"

lemma write_at_end [simp]: "write_at (length xs) p xs = xs @ p"
  by (simp add: write_at_def)

lemma write_at_end': "n = length xs \<Longrightarrow> write_at n p xs = xs @ p"
  by simp

lemma length_write_at: "length (write_at n p xs) = max (n + length p) (length xs)"
  by (simp add: write_at_def max_def)

end
