(* ===== verification/Session_Crypto.thy ===== *)
theory Session_Crypto
  imports Prelude
begin

text \<open>
  \<open>shared/src/crypto/session_crypto.cpp\<close> over libsodium. The library is a parameter: a record of
  its functions (C style: a return code and the bytes written to the output buffers) and of its
  size constants; its random number generator is a state \<open>'r\<close> passed through the calls that draw
  from it. The laws of the library the code relies on are the predicates of the last section.
\<close>

record 'r sodium =
  sodium_init :: int
  crypto_sign_PUBLICKEYBYTES :: nat
  crypto_sign_SECRETKEYBYTES :: nat
  crypto_sign_BYTES :: nat
  crypto_kx_PUBLICKEYBYTES :: nat
  crypto_kx_SECRETKEYBYTES :: nat
  crypto_kx_SESSIONKEYBYTES :: nat
  aead_KEYBYTES :: nat
  aead_NPUBBYTES :: nat
  aead_ABYTES :: nat
  crypto_sign_keypair :: "'r \<Rightarrow> (int \<times> string \<times> string) \<times> 'r"
  crypto_kx_keypair :: "'r \<Rightarrow> (int \<times> string \<times> string) \<times> 'r"
  randombytes_buf :: "nat \<Rightarrow> 'r \<Rightarrow> string \<times> 'r"
  crypto_sign_detached :: "string \<Rightarrow> string \<Rightarrow> int \<times> string"
  crypto_sign_verify_detached :: "string \<Rightarrow> string \<Rightarrow> string \<Rightarrow> int"
  crypto_kx_client_session_keys :: "string \<Rightarrow> string \<Rightarrow> string \<Rightarrow> int \<times> string \<times> string"
  crypto_kx_server_session_keys :: "string \<Rightarrow> string \<Rightarrow> string \<Rightarrow> int \<times> string \<times> string"
  aead_encrypt :: "string \<Rightarrow> string \<Rightarrow> string \<Rightarrow> string \<Rightarrow> int \<times> string"
  aead_decrypt :: "string \<Rightarrow> string \<Rightarrow> string \<Rightarrow> string \<Rightarrow> int \<times> string"

record IdentityKeyPair =
  id_public_key :: string
  id_private_key :: string

record EphemeralKeyPair =
  eph_public_key :: string
  eph_private_key :: string

record SessionKeys =
  tx_key :: string
  rx_key :: string

section \<open>CHECK and initialisation\<close>

text \<open>\<open>CHECK(condition)\<close> of \<open>utils/check.hpp\<close>: prints and aborts when the condition fails.\<close>

definition CHECK :: "bool \<Rightarrow> string \<Rightarrow> unit result" where
  "CHECK condition text = (if \<not> condition then Inl (Abort (''CHECK failed: '' @ text)) else Inr ())"

definition ensure_libsodium_initialized :: "'r sodium \<Rightarrow> unit result" where
  "ensure_libsodium_initialized S =
     (let initialized = sodium_init S
      in if initialized < 0 then Inl (Throw (Runtime_Error ''libsodium initialization failed''))
         else Inr ())"

definition zeros :: "nat \<Rightarrow> string" where
  "zeros n = replicate n (char_of (0::nat))"

section \<open>Key pairs and nonces\<close>

definition generate_identity_keypair :: "'r sodium \<Rightarrow> 'r \<Rightarrow> (IdentityKeyPair \<times> 'r) result" where
  "generate_identity_keypair S r =
     bind_result (ensure_libsodium_initialized S) (\<lambda>_.
     let ((rc, pk, sk), r') = crypto_sign_keypair S r;
         public_key = store_into (zeros (crypto_sign_PUBLICKEYBYTES S)) pk;
         private_key = store_into (zeros (crypto_sign_SECRETKEYBYTES S)) sk
     in if rc \<noteq> 0 then Inl (Throw (Runtime_Error ''Identity Keypair generation failed''))
        else
          bind_result (CHECK (length public_key = crypto_sign_PUBLICKEYBYTES S)
             ''public_key.size() == crypto_sign_PUBLICKEYBYTES'') (\<lambda>_.
          bind_result (CHECK (length private_key = crypto_sign_SECRETKEYBYTES S)
             ''private_key.size() == crypto_sign_SECRETKEYBYTES'') (\<lambda>_.
          Inr (\<lparr>id_public_key = public_key, id_private_key = private_key\<rparr>, r'))))"

definition generate_ephemeral_keypair :: "'r sodium \<Rightarrow> 'r \<Rightarrow> (EphemeralKeyPair \<times> 'r) result" where
  "generate_ephemeral_keypair S r =
     bind_result (ensure_libsodium_initialized S) (\<lambda>_.
     let ((rc, pk, sk), r') = crypto_kx_keypair S r;
         public_key = store_into (zeros (crypto_kx_PUBLICKEYBYTES S)) pk;
         private_key = store_into (zeros (crypto_kx_SECRETKEYBYTES S)) sk
     in if rc \<noteq> 0 then Inl (Throw (Runtime_Error ''Ephemeral Keypair generation failed''))
        else
          bind_result (CHECK (length public_key = crypto_kx_PUBLICKEYBYTES S)
             ''public_key.size() == crypto_kx_PUBLICKEYBYTES'') (\<lambda>_.
          bind_result (CHECK (length private_key = crypto_kx_SECRETKEYBYTES S)
             ''private_key.size() == crypto_kx_SECRETKEYBYTES'') (\<lambda>_.
          Inr (\<lparr>eph_public_key = public_key, eph_private_key = private_key\<rparr>, r'))))"

definition random_nonce :: "'r sodium \<Rightarrow> nat \<Rightarrow> 'r \<Rightarrow> (string \<times> 'r) result" where
  "random_nonce S n r =
     bind_result (ensure_libsodium_initialized S) (\<lambda>_.
     let (bytes, r') = randombytes_buf S n r
     in Inr (store_into (zeros n) bytes, r'))"

section \<open>Signatures\<close>

definition sign :: "'r sodium \<Rightarrow> string \<Rightarrow> IdentityKeyPair \<Rightarrow> string result" where
  "sign S message identity =
     bind_result (ensure_libsodium_initialized S) (\<lambda>_.
     bind_result (CHECK (length (id_private_key identity) = crypto_sign_SECRETKEYBYTES S)
        ''identity.private_key.size() == crypto_sign_SECRETKEYBYTES'') (\<lambda>_.
     let (rc, sig) = crypto_sign_detached S message (id_private_key identity)
     in if rc \<noteq> 0 then Inl (Throw (Runtime_Error ''Message signing failed''))
        else Inr (store_into (zeros (crypto_sign_BYTES S)) sig)))"

definition verify_signature :: "'r sodium \<Rightarrow> string \<Rightarrow> string \<Rightarrow> string \<Rightarrow> bool result" where
  "verify_signature S message signature public_key =
     bind_result (ensure_libsodium_initialized S) (\<lambda>_.
     if length signature \<noteq> crypto_sign_BYTES S \<or> length public_key \<noteq> crypto_sign_PUBLICKEYBYTES S
     then Inr False
     else Inr (crypto_sign_verify_detached S signature message public_key = 0))"

section \<open>Session keys\<close>

definition derive_client_keys ::
    "'r sodium \<Rightarrow> EphemeralKeyPair \<Rightarrow> string \<Rightarrow> SessionKeys result" where
  "derive_client_keys S client_key_pair server_public_key =
     bind_result (ensure_libsodium_initialized S) (\<lambda>_.
     bind_result (CHECK (length (eph_private_key client_key_pair) = crypto_kx_SECRETKEYBYTES S)
        ''client_key_pair.private_key.size() == crypto_kx_SECRETKEYBYTES'') (\<lambda>_.
     bind_result (CHECK (length (eph_public_key client_key_pair) = crypto_kx_PUBLICKEYBYTES S)
        ''client_key_pair.public_key.size() == crypto_kx_PUBLICKEYBYTES'') (\<lambda>_.
     if length server_public_key \<noteq> crypto_kx_PUBLICKEYBYTES S
     then Inl (Throw (Runtime_Error ''Invalid server public key size''))
     else
       let (rc, rx, tx) = crypto_kx_client_session_keys S
             (eph_public_key client_key_pair) (eph_private_key client_key_pair) server_public_key
       in if rc \<noteq> 0 then Inl (Throw (Runtime_Error ''Client session key derivation failed''))
          else Inr \<lparr>tx_key = store_into (zeros (crypto_kx_SESSIONKEYBYTES S)) tx,
                    rx_key = store_into (zeros (crypto_kx_SESSIONKEYBYTES S)) rx\<rparr>)))"

definition derive_server_keys ::
    "'r sodium \<Rightarrow> EphemeralKeyPair \<Rightarrow> string \<Rightarrow> SessionKeys result" where
  "derive_server_keys S server_key_pair client_public_key =
     bind_result (ensure_libsodium_initialized S) (\<lambda>_.
     bind_result (CHECK (length (eph_private_key server_key_pair) = crypto_kx_SECRETKEYBYTES S)
        ''server_key_pair.private_key.size() == crypto_kx_SECRETKEYBYTES'') (\<lambda>_.
     bind_result (CHECK (length (eph_public_key server_key_pair) = crypto_kx_PUBLICKEYBYTES S)
        ''server_key_pair.public_key.size() == crypto_kx_PUBLICKEYBYTES'') (\<lambda>_.
     if length client_public_key \<noteq> crypto_kx_PUBLICKEYBYTES S
     then Inl (Throw (Runtime_Error ''Invalid client public key size''))
     else
       let (rc, rx, tx) = crypto_kx_server_session_keys S
             (eph_public_key server_key_pair) (eph_private_key server_key_pair) client_public_key
       in if rc \<noteq> 0 then Inl (Throw (Runtime_Error ''Server session key derivation failed''))
          else Inr \<lparr>tx_key = store_into (zeros (crypto_kx_SESSIONKEYBYTES S)) tx,
                    rx_key = store_into (zeros (crypto_kx_SESSIONKEYBYTES S)) rx\<rparr>)))"

section \<open>Packets\<close>

text \<open>
  \<open>std::string(reinterpret_cast<const char*>(&sequence), sizeof(sequence))\<close>: the eight bytes of a
  64-bit number in the order of a little-endian host.
\<close>

definition le_bytes :: "64 word \<Rightarrow> string" where
  "le_bytes w = map (\<lambda>i. char_of (unat (drop_bit (8 * i) w) mod 256)) [0..<8]"

definition encrypt_packet :: "'r sodium \<Rightarrow> string \<Rightarrow> string \<Rightarrow> 64 word \<Rightarrow> 'r \<Rightarrow> (string \<times> 'r) result" where
  "encrypt_packet S plaintext key sequence r =
     bind_result (ensure_libsodium_initialized S) (\<lambda>_.
     bind_result (CHECK (length key = aead_KEYBYTES S)
        ''key.size() == crypto_aead_xchacha20poly1305_ietf_KEYBYTES'') (\<lambda>_.
     let (bytes, r') = randombytes_buf S (aead_NPUBBYTES S) r;
         nonce = store_into (zeros (aead_NPUBBYTES S)) bytes;
         associated_data = le_bytes sequence;
         (rc, c) = aead_encrypt S plaintext associated_data nonce key;
         ciphertext = store_into (zeros (length plaintext + aead_ABYTES S)) c
     in if rc \<noteq> 0 then Inl (Throw (Runtime_Error ''Packet encryption failed''))
        else Inr (nonce @ resize (length c) ciphertext, r')))"

text \<open>\<open>decrypt_packet\<close> returns whether it stored a plaintext, here \<open>Some\<close> of it or \<open>None\<close>.\<close>

definition decrypt_packet :: "'r sodium \<Rightarrow> string \<Rightarrow> string \<Rightarrow> 64 word \<Rightarrow> string option result" where
  "decrypt_packet S ciphertext key sequence =
     bind_result (ensure_libsodium_initialized S) (\<lambda>_.
     bind_result (CHECK (length key = aead_KEYBYTES S)
        ''key.size() == crypto_aead_xchacha20poly1305_ietf_KEYBYTES'') (\<lambda>_.
     if length ciphertext < aead_NPUBBYTES S + aead_ABYTES S then Inr None
     else
       let nonce = take (aead_NPUBBYTES S) ciphertext;
           encrypted_payload = drop (aead_NPUBBYTES S) ciphertext
       in if length encrypted_payload < aead_ABYTES S then Inr None
          else
            let associated_data = le_bytes sequence;
                (rc, m) = aead_decrypt S encrypted_payload associated_data nonce key;
                decrypted_payload = store_into (zeros (length encrypted_payload - aead_ABYTES S)) m
            in if rc \<noteq> 0 then Inr None
               else Inr (Some (resize (length m) decrypted_payload))))"

section \<open>The laws of the library\<close>

text \<open>
  Functions that succeed return 0 and fill their buffers exactly; decryption inverts encryption
  under the same key, nonce and associated data; a signature made with a key pair verifies under
  its public key; both sides of the key exchange derive the same two keys, swapped. That another
  associated data is refused (\<open>aead_authentic\<close>) is the ideal form of authentication.
\<close>

definition sodium_ready :: "'r sodium \<Rightarrow> bool" where
  "sodium_ready S = (0 \<le> sodium_init S)"

definition random_ok :: "'r sodium \<Rightarrow> bool" where
  "random_ok S = (\<forall>n r. length (fst (randombytes_buf S n r)) = n)"

definition aead_ok :: "'r sodium \<Rightarrow> bool" where
  "aead_ok S =
     (\<forall>m ad n k. length n = aead_NPUBBYTES S \<longrightarrow> length k = aead_KEYBYTES S \<longrightarrow>
        (\<exists>c. aead_encrypt S m ad n k = (0, c) \<and> length c = length m + aead_ABYTES S
           \<and> aead_decrypt S c ad n k = (0, m)))"

definition aead_authentic :: "'r sodium \<Rightarrow> bool" where
  "aead_authentic S =
     (\<forall>m ad ad' n k. length ad = 8 \<longrightarrow> length ad' = 8 \<longrightarrow> ad' \<noteq> ad \<longrightarrow>
        fst (aead_decrypt S (snd (aead_encrypt S m ad n k)) ad' n k) \<noteq> 0)"

definition identity_pair :: "'r sodium \<Rightarrow> string \<Rightarrow> string \<Rightarrow> bool" where
  "identity_pair S pk sk = (\<exists>r. fst (crypto_sign_keypair S r) = (0, pk, sk))"

definition sign_ok :: "'r sodium \<Rightarrow> bool" where
  "sign_ok S =
     (\<forall>pk sk. identity_pair S pk sk \<longrightarrow>
         length pk = crypto_sign_PUBLICKEYBYTES S \<and> length sk = crypto_sign_SECRETKEYBYTES S
         \<and> (\<forall>m. \<exists>sig. crypto_sign_detached S m sk = (0, sig) \<and> length sig = crypto_sign_BYTES S
              \<and> crypto_sign_verify_detached S sig m pk = 0))"

definition kx_pair :: "'r sodium \<Rightarrow> string \<Rightarrow> string \<Rightarrow> bool" where
  "kx_pair S pk sk = (\<exists>r. fst (crypto_kx_keypair S r) = (0, pk, sk))"

definition kx_ok :: "'r sodium \<Rightarrow> bool" where
  "kx_ok S =
     ((\<forall>pk sk. kx_pair S pk sk \<longrightarrow>
         length pk = crypto_kx_PUBLICKEYBYTES S \<and> length sk = crypto_kx_SECRETKEYBYTES S) \<and>
      (\<forall>cpk csk spk ssk. kx_pair S cpk csk \<longrightarrow> kx_pair S spk ssk \<longrightarrow>
         (\<exists>k1 k2. length k1 = crypto_kx_SESSIONKEYBYTES S \<and> length k2 = crypto_kx_SESSIONKEYBYTES S
            \<and> crypto_kx_client_session_keys S cpk csk spk = (0, k1, k2)
            \<and> crypto_kx_server_session_keys S spk ssk cpk = (0, k2, k1))))"

section \<open>Lemmas\<close>

lemma length_zeros [simp]: "length (zeros n) = n"
  by (simp add: zeros_def)

lemma CHECK_True [simp]: "CHECK True text = Inr ()"
  by (simp add: CHECK_def)

lemma CHECK_Inr_iff [fault_simps]: "CHECK b text = Inr u \<longleftrightarrow> b"
  by (simp add: CHECK_def)

lemma ready_init [simp]: "sodium_ready S \<Longrightarrow> ensure_libsodium_initialized S = Inr ()"
  by (simp add: sodium_ready_def ensure_libsodium_initialized_def)

lemma not_ready_init:
  "\<not> sodium_ready S \<Longrightarrow>
     ensure_libsodium_initialized S = Inl (Throw (Runtime_Error ''libsodium initialization failed''))"
  by (simp add: sodium_ready_def ensure_libsodium_initialized_def)

text \<open>The sequence number can be read back from its bytes.\<close>

definition le_value :: "string \<Rightarrow> nat" where
  "le_value s = foldr (\<lambda>c v. of_char c + 256 * v) s 0"

lemma length_le_bytes [simp]: "length (le_bytes w) = 8"
  by (simp add: le_bytes_def)

lemma digits_256:
  "n < 256 ^ k \<Longrightarrow> foldr (\<lambda>c v. of_char c + 256 * v)
     (map (\<lambda>i. char_of ((n div 256 ^ i) mod 256 :: nat)) [0..<k]) 0 = n"
proof (induction k arbitrary: n)
  case 0
  then show ?case by simp
next
  case (Suc k)
  have "[0..<Suc k] = 0 # map Suc [0..<k]" by (simp add: map_Suc_upt upt_conv_Cons)
  then have "map (\<lambda>i. char_of ((n div 256 ^ i) mod 256 :: nat)) [0..<Suc k] =
      char_of (n mod 256) # map (\<lambda>i. char_of (((n div 256) div 256 ^ i) mod 256 :: nat)) [0..<k]"
    by (simp add: div_mult2_eq)
  moreover have "n div 256 < 256 ^ k"
    using Suc.prems by (simp add: less_mult_imp_div_less mult.commute)
  ultimately show ?case using Suc.IH [of "n div 256"] by simp
qed

lemma le_value_bytes: "le_value (le_bytes w) = unat w"
proof -
  have "le_bytes w = map (\<lambda>i. char_of ((unat w div 256 ^ i) mod 256)) [0..<8]"
    unfolding le_bytes_def unat_drop_bit_eq by (simp add: drop_bit_eq_div power_mult)
  moreover have "unat w < 256 ^ 8" using unsigned_less [of w] by simp
  ultimately show ?thesis unfolding le_value_def by (simp only: digits_256)
qed

interpretation sequence: coding le_bytes "\<lambda>s. Some (of_nat (le_value s))" "\<lambda>_. True"
  by unfold_locales (simp add: le_value_bytes)

lemma keypair_cases:
  "generate_identity_keypair S r = Inr (kp, r') \<Longrightarrow>
     fst (fst (crypto_sign_keypair S r)) = 0
     \<and> length (id_public_key kp) = crypto_sign_PUBLICKEYBYTES S
     \<and> length (id_private_key kp) = crypto_sign_SECRETKEYBYTES S"
  by (auto simp: generate_identity_keypair_def bind_result_Inr_iff Let_def
        split: prod.splits if_splits)

lemma identity_pair_generated:
  assumes "sodium_ready S" "sign_ok S" "generate_identity_keypair S r = Inr (kp, r')"
  shows "identity_pair S (id_public_key kp) (id_private_key kp)"
proof -
  obtain rc pk sk r2 where c: "crypto_sign_keypair S r = ((rc, pk, sk), r2)"
    by (metis prod.exhaust)
  with assms(3) keypair_cases [OF assms(3)] have rc: "rc = 0" by simp
  with c have "identity_pair S pk sk" by (auto simp: identity_pair_def intro!: exI [of _ r])
  with assms(2) have "length pk = crypto_sign_PUBLICKEYBYTES S" "length sk = crypto_sign_SECRETKEYBYTES S"
    by (auto simp: sign_ok_def)
  with assms(1,3) c rc \<open>identity_pair S pk sk\<close> show ?thesis
    by (auto simp: generate_identity_keypair_def)
qed

lemma kx_pair_generated:
  assumes "sodium_ready S" "kx_ok S" "generate_ephemeral_keypair S r = Inr (kp, r')"
  shows "kx_pair S (eph_public_key kp) (eph_private_key kp)"
proof -
  obtain rc pk sk r2 where c: "crypto_kx_keypair S r = ((rc, pk, sk), r2)"
    by (metis prod.exhaust)
  with assms(1,3) have rc: "rc = 0"
    by (auto simp: generate_ephemeral_keypair_def Let_def split: if_splits)
  with c have "kx_pair S pk sk" by (auto simp: kx_pair_def intro!: exI [of _ r])
  with assms(2) have "length pk = crypto_kx_PUBLICKEYBYTES S" "length sk = crypto_kx_SECRETKEYBYTES S"
    by (auto simp: kx_ok_def)
  with assms(1,3) c rc \<open>kx_pair S pk sk\<close> show ?thesis
    by (auto simp: generate_ephemeral_keypair_def)
qed

lemma nonce_length: "random_nonce S n r = Inr (x, r') \<Longrightarrow> length x = n"
  by (auto simp: random_nonce_def bind_result_Inr_iff split: prod.splits)

text \<open>What \<open>encrypt_packet\<close> returns under the library's laws: nonce, then ciphertext with tag.\<close>

lemma encrypt_packet_frame:
  assumes "sodium_ready S" "random_ok S" "aead_ok S" "length key = aead_KEYBYTES S"
  shows "\<exists>nonce c r'. encrypt_packet S p key sq r = Inr (nonce @ c, r')
           \<and> length nonce = aead_NPUBBYTES S \<and> length c = length p + aead_ABYTES S
           \<and> aead_encrypt S p (le_bytes sq) nonce key = (0, c)
           \<and> aead_decrypt S c (le_bytes sq) nonce key = (0, p)"
proof -
  obtain n r' where n: "randombytes_buf S (aead_NPUBBYTES S) r = (n, r')" by fastforce
  with assms(2) have ln: "length n = aead_NPUBBYTES S" by (metis fst_conv random_ok_def)
  with assms(3,4) obtain c where c: "aead_encrypt S p (le_bytes sq) n key = (0, c)"
      "length c = length p + aead_ABYTES S" "aead_decrypt S c (le_bytes sq) n key = (0, p)"
    unfolding aead_ok_def by blast
  have "encrypt_packet S p key sq r = Inr (n @ c, r')"
    using assms(1,4) n ln c by (simp add: encrypt_packet_def resize_exact)
  then show ?thesis using ln c by blast
qed

lemma decrypt_packet_frame:
  assumes "sodium_ready S" "length key = aead_KEYBYTES S"
    and "length nonce = aead_NPUBBYTES S" "length c = n + aead_ABYTES S"
  shows "decrypt_packet S (nonce @ c) key sq =
     (let (rc, m) = aead_decrypt S c (le_bytes sq) nonce key
      in if rc \<noteq> 0 then Inr None else Inr (Some (resize (length m) (store_into (zeros n) m))))"
  using assms by (simp add: decrypt_packet_def Let_def split: prod.splits)

section \<open>A small instance of the library\<close>

text \<open>
  Satisfies the laws above; the witnesses use it. Tags are the associated data, signatures are
  constant, the generator counts its draws.
\<close>

definition toy_sodium :: "nat sodium" where
  "toy_sodium =
     \<lparr>sodium_init = 0, crypto_sign_PUBLICKEYBYTES = 1, crypto_sign_SECRETKEYBYTES = 2,
      crypto_sign_BYTES = 1, crypto_kx_PUBLICKEYBYTES = 1, crypto_kx_SECRETKEYBYTES = 1,
      crypto_kx_SESSIONKEYBYTES = 2, aead_KEYBYTES = 2, aead_NPUBBYTES = 3, aead_ABYTES = 8,
      crypto_sign_keypair = (\<lambda>r. ((0, ''p'', ''sk''), Suc r)),
      crypto_kx_keypair = (\<lambda>r. ((0, ''e'', ''f''), Suc r)),
      randombytes_buf = (\<lambda>n r. (replicate n (char_of r), Suc r)),
      crypto_sign_detached = (\<lambda>m sk. (0, ''s'')),
      crypto_sign_verify_detached = (\<lambda>sig m pk. 0),
      crypto_kx_client_session_keys = (\<lambda>pk sk spk. (0, ''k1'', ''k2'')),
      crypto_kx_server_session_keys = (\<lambda>pk sk cpk. (0, ''k2'', ''k1'')),
      aead_encrypt = (\<lambda>m ad n k. (0, resize 8 ad @ m)),
      aead_decrypt = (\<lambda>c ad n k. if take 8 c = resize 8 ad then (0, drop 8 c) else (-1, []))\<rparr>"

lemma toy_sodium_simps:
  "sodium_init toy_sodium = 0" "crypto_sign_PUBLICKEYBYTES toy_sodium = 1"
  "crypto_sign_SECRETKEYBYTES toy_sodium = 2" "crypto_sign_BYTES toy_sodium = 1"
  "crypto_kx_PUBLICKEYBYTES toy_sodium = 1" "crypto_kx_SECRETKEYBYTES toy_sodium = 1"
  "aead_KEYBYTES toy_sodium = 2" "aead_NPUBBYTES toy_sodium = 3" "aead_ABYTES toy_sodium = 8"
  "crypto_sign_keypair toy_sodium r = ((0, ''p'', ''sk''), Suc r)"
  "crypto_kx_keypair toy_sodium r = ((0, ''e'', ''f''), Suc r)"
  "randombytes_buf toy_sodium n r = (replicate n (char_of r), Suc r)"
  "crypto_sign_detached toy_sodium m k = (0, ''s'')"
  "aead_encrypt toy_sodium m ad n' k = (0, resize 8 ad @ m)"
  by (simp_all add: toy_sodium_def)

lemma toy_sodium_ok:
  "sodium_ready toy_sodium" "random_ok toy_sodium" "aead_ok toy_sodium"
  "aead_authentic toy_sodium" "sign_ok toy_sodium" "kx_ok toy_sodium"
proof -
  show "aead_authentic toy_sodium"
    by (auto simp: aead_authentic_def toy_sodium_def resize_exact)
  show "sign_ok toy_sodium" "kx_ok toy_sodium"
    by (auto simp: sign_ok_def kx_ok_def identity_pair_def kx_pair_def toy_sodium_def)
qed (auto simp: sodium_ready_def random_ok_def aead_ok_def toy_sodium_def)

section \<open>Properties\<close>

text \<open>
  A packet encrypted under a key and a sequence number decrypts to the plaintext under the
  same key and sequence number; it is the nonce, the ciphertext and the tag long.
\<close>

theorem packet_roundtrip:
  assumes "sodium_ready S" "random_ok S" "aead_ok S" "length key = aead_KEYBYTES S"
  shows "\<exists>packet r'. encrypt_packet S p key sq r = Inr (packet, r')
           \<and> length packet = aead_NPUBBYTES S + length p + aead_ABYTES S
           \<and> decrypt_packet S packet key sq = Inr (Some p)"
proof -
  from encrypt_packet_frame [OF assms] obtain nonce c r' where
    e: "encrypt_packet S p key sq r = Inr (nonce @ c, r')" "length nonce = aead_NPUBBYTES S"
       "length c = length p + aead_ABYTES S" "aead_decrypt S c (le_bytes sq) nonce key = (0, p)"
    by blast
  then have "decrypt_packet S (nonce @ c) key sq = Inr (Some p)"
    using assms(1,4) by (simp add: decrypt_packet_frame resize_exact)
  with e show ?thesis by auto
qed

theorem packet_roundtrip_witness:
  "\<exists>packet r'. encrypt_packet toy_sodium ''data'' ''kk'' 7 0 = Inr (packet, r')
     \<and> length packet = aead_NPUBBYTES toy_sodium + length ''data'' + aead_ABYTES toy_sodium
     \<and> decrypt_packet toy_sodium packet ''kk'' 7 = Inr (Some ''data'')"
  by (rule packet_roundtrip) (simp_all add: toy_sodium_ok toy_sodium_simps)

text \<open>
  The sequence number is authenticated: a packet replayed under another sequence number is
  refused, whatever the two numbers.
\<close>

theorem packet_wrong_sequence:
  assumes "sodium_ready S" "random_ok S" "aead_ok S" "aead_authentic S"
    and "length key = aead_KEYBYTES S" and "sq' \<noteq> sq"
    and "encrypt_packet S p key sq r = Inr (packet, r')"
  shows "decrypt_packet S packet key sq' = Inr None"
proof -
  from encrypt_packet_frame [OF assms(1-3,5)] obtain nonce c r'' where
    f: "encrypt_packet S p key sq r = Inr (nonce @ c, r'')" "length nonce = aead_NPUBBYTES S"
       "length c = length p + aead_ABYTES S" "aead_encrypt S p (le_bytes sq) nonce key = (0, c)"
    by blast
  with assms(7) have e: "packet = nonce @ c" "length nonce = aead_NPUBBYTES S"
      "length c = length p + aead_ABYTES S" "aead_encrypt S p (le_bytes sq) nonce key = (0, c)"
    by simp_all
  have "le_bytes sq' \<noteq> le_bytes sq" using assms(6) by (simp add: sequence.enc_inj)
  with assms(4) have "fst (aead_decrypt S (snd (aead_encrypt S p (le_bytes sq) nonce key))
      (le_bytes sq') nonce key) \<noteq> 0"
    unfolding aead_authentic_def by simp
  then have "fst (aead_decrypt S c (le_bytes sq') nonce key) \<noteq> 0" using e(4) by simp
  then show ?thesis using e assms(1,5)
    by (auto simp: decrypt_packet_frame Let_def split: prod.splits)
qed

theorem packet_wrong_sequence_witness:
  "decrypt_packet toy_sodium (zeros 3 @ le_bytes 7 @ ''data'') ''kk'' 8 = Inr None"
proof -
  have "encrypt_packet toy_sodium ''data'' ''kk'' 7 0 = Inr (zeros 3 @ le_bytes 7 @ ''data'', 1)"
    by (simp add: encrypt_packet_def toy_sodium_ok toy_sodium_simps resize_exact)
       (simp add: zeros_def)
  then show ?thesis
    using packet_wrong_sequence [OF toy_sodium_ok(1-4), of "''kk''" 8 7 "''data''" 0]
    by (simp add: toy_sodium_simps)
qed

text \<open>
  Framing errors: a key of the wrong size aborts the process before anything else, and a
  packet shorter than nonce and tag is refused without a call to the library.
\<close>

theorem packet_framing_errors:
  assumes "sodium_ready S"
  shows "(length key \<noteq> aead_KEYBYTES S \<longrightarrow>
           (\<exists>a. encrypt_packet S p key sq r = Inl (Abort a) \<and> decrypt_packet S c key sq = Inl (Abort a)))
       \<and> (length key = aead_KEYBYTES S \<longrightarrow> length c < aead_NPUBBYTES S + aead_ABYTES S \<longrightarrow>
           decrypt_packet S c key sq = Inr None)"
  using assms by (simp add: encrypt_packet_def decrypt_packet_def CHECK_def)

theorem packet_framing_errors_witness:
  "(\<exists>a. encrypt_packet toy_sodium ''data'' ''k'' 7 0 = Inl (Abort a)
      \<and> decrypt_packet toy_sodium ''short'' ''k'' 7 = Inl (Abort a))
   \<and> decrypt_packet toy_sodium ''short'' ''kk'' 7 = Inr None"
  using packet_framing_errors [OF toy_sodium_ok(1), of "''k''" "''data''" 7 0 "''short''"]
    packet_framing_errors [OF toy_sodium_ok(1), of "''kk''" "''data''" 7 0 "''short''"]
  by (simp add: toy_sodium_simps)

text \<open>
  A generated identity key pair never trips the size checks, and a message signed with it
  verifies under its public key.
\<close>

theorem sign_verify_roundtrip:
  assumes "sodium_ready S" "sign_ok S" "generate_identity_keypair S r = Inr (kp, r')"
  shows "\<exists>sig. sign S m kp = Inr sig \<and> verify_signature S m sig (id_public_key kp) = Inr True"
proof -
  have kp: "identity_pair S (id_public_key kp) (id_private_key kp)"
    using assms by (rule identity_pair_generated)
  with assms(2) obtain sig where
    "crypto_sign_detached S m (id_private_key kp) = (0, sig)" "length sig = crypto_sign_BYTES S"
    "crypto_sign_verify_detached S sig m (id_public_key kp) = 0"
    unfolding sign_ok_def by blast
  moreover have "length (id_private_key kp) = crypto_sign_SECRETKEYBYTES S"
    "length (id_public_key kp) = crypto_sign_PUBLICKEYBYTES S"
    using keypair_cases [OF assms(3)] by simp_all
  ultimately show ?thesis using assms(1)
    by (intro exI [of _ sig]) (simp add: sign_def verify_signature_def)
qed

theorem sign_verify_roundtrip_witness:
  "\<exists>sig. sign toy_sodium ''hello'' \<lparr>id_public_key = ''p'', id_private_key = ''sk''\<rparr> = Inr sig
     \<and> verify_signature toy_sodium ''hello'' sig ''p'' = Inr True"
proof -
  have "generate_identity_keypair toy_sodium 0 =
      Inr (\<lparr>id_public_key = ''p'', id_private_key = ''sk''\<rparr>, 1)"
    by (simp add: generate_identity_keypair_def toy_sodium_ok toy_sodium_simps)
  from sign_verify_roundtrip [OF toy_sodium_ok(1,5) this] show ?thesis by simp
qed

text \<open>
  Both sides of a key exchange between generated pairs derive matching keys: what one
  transmits with is what the other receives with.
\<close>

theorem session_keys_agree:
  assumes "sodium_ready S" "kx_ok S"
    and "generate_ephemeral_keypair S r1 = Inr (client, r1')"
    and "generate_ephemeral_keypair S r2 = Inr (server, r2')"
  shows "\<exists>ck sk. derive_client_keys S client (eph_public_key server) = Inr ck
           \<and> derive_server_keys S server (eph_public_key client) = Inr sk
           \<and> tx_key ck = rx_key sk \<and> rx_key ck = tx_key sk"
proof -
  have c: "kx_pair S (eph_public_key client) (eph_private_key client)"
    and s: "kx_pair S (eph_public_key server) (eph_private_key server)"
    using assms by (auto intro: kx_pair_generated)
  then obtain k1 k2 where k:
    "length k1 = crypto_kx_SESSIONKEYBYTES S" "length k2 = crypto_kx_SESSIONKEYBYTES S"
    "crypto_kx_client_session_keys S (eph_public_key client) (eph_private_key client)
       (eph_public_key server) = (0, k1, k2)"
    "crypto_kx_server_session_keys S (eph_public_key server) (eph_private_key server)
       (eph_public_key client) = (0, k2, k1)"
    using assms(2) unfolding kx_ok_def by blast
  with c s assms(1,2) show ?thesis
    by (simp add: derive_client_keys_def derive_server_keys_def kx_ok_def)
qed

theorem session_keys_agree_witness:
  "\<exists>ck sk. derive_client_keys toy_sodium \<lparr>eph_public_key = ''e'', eph_private_key = ''f''\<rparr> ''e'' = Inr ck
     \<and> derive_server_keys toy_sodium \<lparr>eph_public_key = ''e'', eph_private_key = ''f''\<rparr> ''e'' = Inr sk
     \<and> tx_key ck = rx_key sk \<and> rx_key ck = tx_key sk"
proof -
  have "generate_ephemeral_keypair toy_sodium 0 =
      Inr (\<lparr>eph_public_key = ''e'', eph_private_key = ''f''\<rparr>, 1)"
    by (simp add: generate_ephemeral_keypair_def toy_sodium_ok toy_sodium_simps)
  from session_keys_agree [OF toy_sodium_ok(1,6) this this] show ?thesis by simp
qed

end
