(* ===== verification/Sender_Session.thy ===== *)
theory Sender_Session
  imports Wire File_Stream Session_Crypto
begin

text \<open>
  The sending side of a transfer: class \<open>Session\<close> of \<open>cli_tool/include/session.hpp\<close>, one definition
  per member function. A session is a record of the member variables; an operation returns the new
  session and the datagrams it sends, in order, as pairs of bytes and destination. Log output is
  left out. The library calls it makes (libsodium, the generated serialisers,
  \<open>Utils::get_transfer_metadata\<close>, opening a file) are the fields of \<open>session_env\<close>.
\<close>

section \<open>States\<close>

datatype State = WaitingHello | Authenticated | Transferring | Closed

text \<open>The states in the order a session goes through them.\<close>

instantiation State :: linorder
begin

fun state_rank :: "State \<Rightarrow> nat" where
  "state_rank WaitingHello = 0"
| "state_rank Authenticated = 1"
| "state_rank Transferring = 2"
| "state_rank Closed = 3"

definition less_eq_State :: "State \<Rightarrow> State \<Rightarrow> bool" where
  "less_eq_State a b = (state_rank a \<le> state_rank b)"

definition less_State :: "State \<Rightarrow> State \<Rightarrow> bool" where
  "less_State a b = (state_rank a < state_rank b)"

instance
proof
  fix a b :: State
  show "a \<le> b \<Longrightarrow> b \<le> a \<Longrightarrow> a = b"
    by (cases a; cases b) (simp_all add: less_eq_State_def)
qed (auto simp: less_eq_State_def less_State_def)

end

section \<open>Member variables\<close>

type_synonym sends = "(string \<times> endpoint) list"

record 'r session_env =
  se_sodium :: "'r sodium"
  se_codec :: codec
  se_metadata :: "string \<Rightarrow> TRANSFERS result"
  se_open :: "string \<Rightarrow> string option"

record session =
  m_remote_endpoint :: endpoint
  m_file_path :: string
  m_state :: State
  m_file :: ifstream
  m_file_id :: string
  m_offset :: "64 word"
  m_last_chunk_size :: "64 word"
  m_last_chunk_done :: bool
  m_last_packet_cache :: string
  m_transfer_metadata :: TRANSFERS

definition Session_new :: "endpoint \<Rightarrow> string \<Rightarrow> session" where
  "Session_new remote_endpoint file_path =
     \<lparr>m_remote_endpoint = remote_endpoint, m_file_path = file_path, m_state = WaitingHello,
      m_file = ifstream_closed, m_file_id = [], m_offset = 0, m_last_chunk_size = 0,
      m_last_chunk_done = False, m_last_packet_cache = [], m_transfer_metadata = TRANSFERS_init\<rparr>"

definition is_closed :: "session \<Rightarrow> bool" where
  "is_closed s = (m_state s = Closed)"

section \<open>Sending packets\<close>

definition send_handshake_packet :: "codec \<Rightarrow> session \<Rightarrow> HandshakePacket \<Rightarrow> sends" where
  "send_handshake_packet c s packet =
     (let (ok, bytes) = ser_handshake c packet
      in if \<not> ok then [] else [(bytes, m_remote_endpoint s)])"

definition send_control_packet :: "codec \<Rightarrow> session \<Rightarrow> ControlPacket \<Rightarrow> sends" where
  "send_control_packet c s packet =
     (let (ok, bytes) = ser_control c packet
      in if \<not> ok then [] else [(bytes, m_remote_endpoint s)])"

definition send_handshake_error :: "codec \<Rightarrow> session \<Rightarrow> ErrorCode \<Rightarrow> string \<Rightarrow> sends" where
  "send_handshake_error c s code message =
     send_handshake_packet c s (HP_error \<lparr>he_code = code, he_message = message\<rparr>)"

definition send_control_error :: "codec \<Rightarrow> session \<Rightarrow> string \<Rightarrow> ErrorCode \<Rightarrow> string \<Rightarrow> sends" where
  "send_control_error c s tid code message =
     send_control_packet c s
       (CP_error \<lparr>te_transfer_id = tid, te_code = code, te_message = message\<rparr>)"

definition send_message :: "session \<Rightarrow> string \<Rightarrow> sends" where
  "send_message s msg = [(msg, m_remote_endpoint s)]"

text \<open>The text the sender signs.\<close>

definition server_hello_transcript :: "ServerHello \<Rightarrow> string" where
  "server_hello_transcript hello =
     ''server_hello'' @ to_string (version_number (sh_version hello)) @ sh_transfer_id hello
       @ sh_sender_nonce hello @ long_term_public_key (sh_sender_identity hello)
       @ ephemeral_public_key (sh_sender_identity hello)"

definition sign_server_hello :: "'r sodium \<Rightarrow> ServerHello \<Rightarrow> IdentityKeyPair \<Rightarrow> string result" where
  "sign_server_hello S hello sender_identity = sign S (server_hello_transcript hello) sender_identity"

section \<open>Chunks\<close>

text \<open>
  \<open>send_next_chunk\<close> reads at \<open>m_offset\<close>. Nothing read means the end of the file: a \<open>Done\<close> packet
  with the registered size and hash. In both cases the bytes sent are cached for retransmission.
\<close>

definition send_next_chunk :: "codec \<Rightarrow> session \<Rightarrow> session \<times> sends" where
  "send_next_chunk c s =
     (if \<not> if_open (m_file s) then (s, [])
      else
        let (chunk, f) = if_read PAYLOAD_SIZE (seekg (m_offset s) (m_file s));
            bytes_read = if_gcount f;
            s = s\<lparr>m_file := f\<rparr>
        in if bytes_read = 0 then
             let bytes = snd (ser_control c (CP_done
                   \<lparr>done_transfer_id = transfer_id (m_transfer_metadata s),
                    final_size = file_size (m_transfer_metadata s),
                    done_file_hash = file_hash (m_transfer_metadata s)\<rparr>))
             in (s\<lparr>m_last_packet_cache := bytes, m_last_chunk_done := True, m_last_chunk_size := 0\<rparr>,
                 send_message s bytes)
           else
             let bytes = snd (ser_control c (CP_data
                   \<lparr>data_transfer_id = transfer_id (m_transfer_metadata s),
                    data_offset = m_offset s, payload = take bytes_read chunk\<rparr>))
             in (s\<lparr>m_last_chunk_size := of_nat bytes_read, m_last_chunk_done := False,
                   m_last_packet_cache := bytes\<rparr>,
                 [(bytes, m_remote_endpoint s)]))"

definition resend_current_chunk :: "codec \<Rightarrow> session \<Rightarrow> session \<times> sends" where
  "resend_current_chunk c s =
     (if m_last_packet_cache s = [] then send_next_chunk c s
      else (s, [(m_last_packet_cache s, m_remote_endpoint s)]))"

section \<open>The handshake\<close>

text \<open>\<open>catch (...)\<close> turns every exception of the metadata request into \<open>false\<close>.\<close>

definition validate_token :: "(string \<Rightarrow> TRANSFERS result) \<Rightarrow> string \<Rightarrow> session \<Rightarrow> (bool \<times> session) result" where
  "validate_token get_transfer_metadata tok s =
     catch_exn
       (bind_result (get_transfer_metadata tok) (\<lambda>t. Inr (True, s\<lparr>m_transfer_metadata := t\<rparr>)))
       (\<lambda>_. Inr (False, s))"

definition answer_client_hello ::
    "'r session_env \<Rightarrow> ClientHello \<Rightarrow> session \<Rightarrow> 'r \<Rightarrow> ((session \<times> 'r) \<times> sends) result" where
  "answer_client_hello env hello s r =
     (let S = se_sodium env; c = se_codec env; s = s\<lparr>m_state := Authenticated\<rparr>
      in bind_result (generate_identity_keypair S r) (\<lambda>(server_identity, r).
         bind_result (generate_ephemeral_keypair S r) (\<lambda>(server_ephemeral, r).
         bind_result (random_nonce S 32 r) (\<lambda>(server_nonce, r).
         let server_hello =
               \<lparr>sh_version = PROTOCOL_VERSION_1, sh_transfer_id = ch_transfer_id hello,
                sh_sender_nonce = server_nonce,
                sh_sender_identity = \<lparr>long_term_public_key = id_public_key server_identity,
                                      ephemeral_public_key = eph_public_key server_ephemeral\<rparr>,
                sh_sender_signature = []\<rparr>
         in bind_result (sign_server_hello S server_hello server_identity) (\<lambda>sig.
            Inr ((s, r), send_handshake_packet c s
                  (HP_server_hello (server_hello\<lparr>sh_sender_signature := sig\<rparr>))))))))"

definition handle_handshake_packet ::
    "'r session_env \<Rightarrow> string \<Rightarrow> session \<Rightarrow> 'r \<Rightarrow> ((session \<times> 'r) \<times> sends) result" where
  "handle_handshake_packet env data s r =
     (let c = se_codec env
      in case parse_handshake c data of
           None \<Rightarrow> Inr ((s, r), [])
         | Some packet \<Rightarrow>
           (case packet of
              HP_client_hello hello \<Rightarrow>
                if ch_version hello \<noteq> PROTOCOL_VERSION_1 then
                  Inr ((s\<lparr>m_state := Closed\<rparr>, r),
                       send_handshake_error c s ERROR_CODE_BAD_PACKET ''Unsupported protocol version'')
                else if ch_token hello = [] then
                  Inr ((s\<lparr>m_state := Closed\<rparr>, r),
                       send_handshake_error c s ERROR_CODE_INVALID_TOKEN ''Missing Token!'')
                else
                  bind_result (validate_token (se_metadata env) (ch_token hello) s) (\<lambda>(valid, s).
                  if \<not> valid then
                    Inr ((s\<lparr>m_state := Closed\<rparr>, r),
                         send_handshake_error c s ERROR_CODE_INVALID_TOKEN ''Invalid Token'')
                  else answer_client_hello env hello s r)
            | _ \<Rightarrow> Inr ((s, r),
                        send_handshake_error c s ERROR_CODE_BAD_PACKET ''Expected client hello!'')))"

section \<open>Control packets\<close>

definition handle_get_request :: "'r session_env \<Rightarrow> GetRequest \<Rightarrow> session \<Rightarrow> session \<times> sends" where
  "handle_get_request env get s =
     (let c = se_codec env
      in if m_state s = Authenticated then
           let s = s\<lparr>m_file_id := (if transfer_id (m_transfer_metadata s) = []
                                  then file_name (m_transfer_metadata s)
                                  else transfer_id (m_transfer_metadata s)),
                     m_file := ifstream_open (se_open env (m_file_path s))\<rparr>
           in if \<not> if_open (m_file s) then
                (s\<lparr>m_state := Closed\<rparr>,
                 send_control_error c s (get_transfer_id get) ERROR_CODE_TRANSFER_NOT_FOUND
                   ''Failed to open file'')
              else send_next_chunk c (s\<lparr>m_state := Transferring\<rparr>)
         else if m_state s = Transferring then resend_current_chunk c s
         else (s, []))"

definition handle_ack :: "codec \<Rightarrow> Ack \<Rightarrow> session \<Rightarrow> session \<times> sends" where
  "handle_ack c ack s =
     (if m_state s \<noteq> Transferring then (s, [])
      else
        let ack_offset = next_offset ack;
            expected_offset = m_offset s + m_last_chunk_size s
        in if ack_offset = expected_offset then
             if m_last_chunk_done s then (s\<lparr>m_state := Closed\<rparr>, [])
             else send_next_chunk c (s\<lparr>m_offset := expected_offset\<rparr>)
           else if ack_offset = m_offset s then resend_current_chunk c s
           else (s, []))"

definition handle_control_packet :: "'r session_env \<Rightarrow> string \<Rightarrow> session \<Rightarrow> session \<times> sends" where
  "handle_control_packet env data s =
     (case parse_control (se_codec env) data of
        None \<Rightarrow> (s, [])
      | Some packet \<Rightarrow>
        (case packet of
           CP_get get \<Rightarrow> handle_get_request env get s
         | CP_ack ack \<Rightarrow> handle_ack (se_codec env) ack s
         | CP_error _ \<Rightarrow> (s\<lparr>m_state := Closed\<rparr>, [])
         | _ \<Rightarrow> (s, [])))"

text \<open>
  The entry point: a datagram and the endpoint it came from. The state of the random number
  generator travels with the session.
\<close>

fun handle_packet ::
    "'r session_env \<Rightarrow> string \<times> endpoint \<Rightarrow> session \<times> 'r \<Rightarrow> ((session \<times> 'r) \<times> sends) result" where
  "handle_packet env (data, sender) (s, r) =
     (if m_state s = Closed then Inr ((s, r), [])
      else if m_state s = WaitingHello then
        handle_handshake_packet env data (s\<lparr>m_remote_endpoint := sender\<rparr>) r
      else if m_state s = Authenticated \<or> m_state s = Transferring then
        (let (s', out) = handle_control_packet env data s in Inr ((s', r), out))
      else Inr ((s, r), []))"

declare handle_packet.simps [simp del]

end
