(* ===== verification/Json_Value.thy ===== *)
theory Json_Value
  imports Prelude "HOL-Library.List_Lexorder" "HOL-Library.Char_ord"
begin

text \<open>
  JSON values as \<open>nlohmann::json\<close> (\<open>shared/include/json/json.hpp\<close>) stores them, and the accessors
  the program uses. An object is a \<open>std::map\<close> from strings, here the list of its members in the
  order of their keys (\<open>std::string\<close> compares bytes as unsigned numbers, as does the order on
  lists of characters). A double is its 64 bits; \<open>floats\<close> holds the conversions of the C++ library.
\<close>

section \<open>Values\<close>

type_synonym double = "64 word"

record floats =
  strtod :: "string \<Rightarrow> double"
  to_chars :: "double \<Rightarrow> string"
  truncated :: "double \<Rightarrow> int"

text \<open>\<open>std::isfinite\<close>: the exponent is not all ones.\<close>

definition isfinite :: "double \<Rightarrow> bool" where
  "isfinite d = (take_bit 11 (drop_bit 52 d) \<noteq> mask 11)"

text \<open>A binary value has its bytes and, perhaps, a subtype.\<close>

datatype json =
    J_null
  | J_object "(string \<times> json) list"
  | J_array "json list"
  | J_string string
  | J_boolean bool
  | J_integer "64 word"
  | J_unsigned "64 word"
  | J_float double
  | J_binary "8 word list" "64 word option"
  | J_discarded

section \<open>Objects\<close>

text \<open>\<open>std::map\<close>: inserting or overwriting at a key, and finding it.\<close>

fun object_put :: "string \<Rightarrow> 'a \<Rightarrow> (string \<times> 'a) list \<Rightarrow> (string \<times> 'a) list" where
  "object_put k v [] = [(k, v)]"
| "object_put k v ((k', v') # ms) =
     (if k = k' then (k, v) # ms
      else if k < k' then (k, v) # (k', v') # ms
      else (k', v') # object_put k v ms)"

definition object_find :: "string \<Rightarrow> (string \<times> 'a) list \<Rightarrow> 'a option" where
  "object_find k ms = map_of ms k"

text \<open>The members of a \<open>std::map\<close> are in strictly increasing order of their keys.\<close>

definition sorted_members :: "(string \<times> 'a) list \<Rightarrow> bool" where
  "sorted_members ms = sorted_wrt (<) (map fst ms)"

lemma object_put_keys: "set (map fst (object_put k v ms)) = insert k (set (map fst ms))"
  by (induction k v ms rule: object_put.induct) auto

lemma object_put_sorted: "sorted_members ms \<Longrightarrow> sorted_members (object_put k v ms)"
proof (induction k v ms rule: object_put.induct)
  case (2 k v k' v' ms)
  have "set (map fst (object_put k v ms)) = insert k (set (map fst ms))" by (rule object_put_keys)
  with 2 show ?case by (auto simp: sorted_members_def)
qed (simp add: sorted_members_def)

lemma object_find_put: "object_find k (object_put k' v ms) = (if k = k' then Some v else object_find k ms)"
  unfolding object_find_def by (induction k' v ms rule: object_put.induct) auto

lemma object_put_last:
  "(\<And>k'. k' \<in> set (map fst ms) \<Longrightarrow> k' < k) \<Longrightarrow> object_put k v ms = ms @ [(k, v)]"
  by (induction k v ms rule: object_put.induct) (auto dest: less_asym)

text \<open>
  The contract of a keyed store. Interpreted on JSON objects here and on the signalling store of
  the central server.
\<close>

locale dictionary =
  fixes find :: "'k \<Rightarrow> 's \<Rightarrow> 'v option"
    and put :: "'k \<Rightarrow> 'v \<Rightarrow> 's \<Rightarrow> 's"
  assumes find_put: "find k (put k' v s) = (if k = k' then Some v else find k s)"
begin

lemma find_put_same: "find k (put k v s) = Some v"
  by (simp add: find_put)

lemma find_put_other: "k \<noteq> k' \<Longrightarrow> find k (put k' v s) = find k s"
  by (simp add: find_put)

text \<open>After any sequence of insertions the last one for a key is what is found.\<close>

definition puts :: "('k \<times> 'v) list \<Rightarrow> 's \<Rightarrow> 's" where
  "puts kvs s = foldl (\<lambda>s (k, v). put k v s) s kvs"

lemma find_puts:
  "find k (puts kvs s) = (case map_of (rev kvs) k of Some v \<Rightarrow> Some v | None \<Rightarrow> find k s)"
proof (induction kvs rule: rev_induct)
  case (snoc kv kvs)
  obtain k' v where "kv = (k', v)" by fastforce
  with snoc show ?case by (simp add: puts_def find_put)
qed (simp add: puts_def)

end

interpretation object: dictionary object_find object_put
  by unfold_locales (rule object_find_put)

text \<open>\<open>json{{k, v}, ...}\<close>: an object from a list of pairs; \<open>emplace\<close> keeps the first of equal keys.\<close>

definition json_of_pairs :: "(string \<times> json) list \<Rightarrow> json" where
  "json_of_pairs init =
     J_object (foldl (\<lambda>ms (k, v). if object_find k ms = None then object_put k v ms else ms) [] init)"

section \<open>Accessors\<close>

text \<open>
  \<open>operator[]\<close> on a constant value asserts that the key is there; on a mutable one a missing key is
  added with the value null. Neither works on values that are not objects.
\<close>

definition json_index :: "string \<Rightarrow> json \<Rightarrow> json result" where
  "json_index key j =
     (case j of
        J_object ms \<Rightarrow>
          (case object_find key ms of
             Some v \<Rightarrow> Inr v
           | None \<Rightarrow> Inl (Abort ''assert: it != m_data.m_value.object->end()''))
      | _ \<Rightarrow> Inl (Throw (Json_Type_Error 305 ''cannot use operator[] with a string argument'')))"

definition json_index_mutable :: "string \<Rightarrow> json \<Rightarrow> (json \<times> json) result" where
  "json_index_mutable key j =
     (let j = (if j = J_null then J_object [] else j)
      in case j of
           J_object ms \<Rightarrow>
             (case object_find key ms of
                Some v \<Rightarrow> Inr (v, j)
              | None \<Rightarrow> Inr (J_null, J_object (object_put key J_null ms)))
         | _ \<Rightarrow> Inl (Throw (Json_Type_Error 305 ''cannot use operator[] with a string argument'')))"

definition json_contains :: "string \<Rightarrow> json \<Rightarrow> bool" where
  "json_contains key j = (case j of J_object ms \<Rightarrow> object_find key ms \<noteq> None | _ \<Rightarrow> False)"

text \<open>
  Conversions. A floating-point number outside the range of the target type is undefined behaviour.
\<close>

definition json_string :: "json \<Rightarrow> string result" where
  "json_string j =
     (case j of J_string s \<Rightarrow> Inr s
      | _ \<Rightarrow> Inl (Throw (Json_Type_Error 302 ''type must be string'')))"

definition float_to_unsigned :: "floats \<Rightarrow> nat \<Rightarrow> double \<Rightarrow> nat result" where
  "float_to_unsigned fl w d =
     (if isfinite d \<and> 0 \<le> truncated fl d \<and> truncated fl d < 2 ^ w then Inr (nat (truncated fl d))
      else Inl (Abort ''floating-point value out of range''))"

text \<open>\<open>get_arithmetic_value\<close> at \<open>size_t\<close>, and the general overload (which takes booleans) at the
  narrower unsigned types.\<close>

definition json_size :: "floats \<Rightarrow> json \<Rightarrow> 64 word result" where
  "json_size fl j =
     (case j of
        J_unsigned n \<Rightarrow> Inr n
      | J_integer n \<Rightarrow> Inr n
      | J_float d \<Rightarrow> map_sum id of_nat (float_to_unsigned fl 64 d)
      | _ \<Rightarrow> Inl (Throw (Json_Type_Error 302 ''type must be number'')))"

definition json_unsigned :: "floats \<Rightarrow> json \<Rightarrow> 'w::len word result" where
  "json_unsigned fl j =
     (case j of
        J_unsigned n \<Rightarrow> Inr (ucast n)
      | J_integer n \<Rightarrow> Inr (ucast n)
      | J_float d \<Rightarrow> map_sum id of_nat (float_to_unsigned fl LENGTH('w) d)
      | J_boolean b \<Rightarrow> Inr (of_bool b)
      | _ \<Rightarrow> Inl (Throw (Json_Type_Error 302 ''type must be number'')))"

text \<open>\<open>to_json\<close> of the unsigned integer types.\<close>

definition json_of_unsigned :: "'w::len word \<Rightarrow> json" where
  "json_of_unsigned w = J_unsigned (ucast w)"

lemma json_index_present [simp]:
  "object_find k ms = Some v \<Longrightarrow> json_index k (J_object ms) = Inr v"
  by (simp add: json_index_def)

lemma json_index_Inr: "json_index k j = Inr v \<longleftrightarrow> (\<exists>ms. j = J_object ms \<and> object_find k ms = Some v)"
  by (cases j) (auto simp: json_index_def split: option.splits)

lemma json_string_Inr: "json_string j = Inr s \<longleftrightarrow> j = J_string s"
  by (cases j) (simp_all add: json_string_def)

lemma json_conversions [simp]:
  "json_string (J_string s) = Inr s"
  "json_size fl (J_unsigned n) = Inr n"
  "json_size fl (J_integer n) = Inr n"
  by (simp_all add: json_string_def json_size_def)

lemma json_unsigned_of_unsigned:
  assumes "LENGTH('w::len) \<le> 64"
  shows "json_unsigned fl (json_of_unsigned (w :: 'w word)) = Inr w"
proof -
  have "ucast (ucast w :: 64 word) = w"
    using assms by (intro bit_word_eqI) (simp add: bit_ucast_iff)
  then show ?thesis by (simp add: json_unsigned_def json_of_unsigned_def)
qed

end
