(* ===== verification/Central_DB.thy ===== *)
theory Central_DB
  imports Json_Value
begin

text \<open>
  The transfers table of the central server: \<open>central_server/include/database.hpp\<close>. The table maps
  identifiers (the primary key) to rows whose nullable columns are options; the SQL statements of the
  code are its updates. PostgreSQL is the parameter \<open>postgres\<close>: whether a transaction can be begun,
  whether statements succeed, which texts it can store, the time of insertions and the texts of
  exceptions. Progress messages
  are left out. An exception can leave the table changed, so the operations that change it
  return the table beside their result.
\<close>

section \<open>Data\<close>

record Transfer_Payload =
  pl_id :: string
  pl_sender_ip :: string
  pl_sender_port :: "32 word"
  pl_protocol :: string
  pl_file_name :: string
  pl_file_size :: "64 word"
  pl_file_hash :: string
  pl_token :: string

record TransferRow =
  tr_id :: string
  tr_sender_ip :: string
  tr_sender_port :: "32 word"
  tr_protocol :: string
  tr_file_name :: string
  tr_file_size :: "64 word"
  tr_file_hash :: string
  tr_token :: string
  tr_claimed :: bool
  tr_created_at :: string

text \<open>A row of the table, with the columns of the CREATE statement.\<close>

record stored_row =
  st_id :: string
  st_sender_ip :: string
  st_sender_port :: int
  st_protocol :: string
  st_file_name :: "string option"
  st_file_size :: "int option"
  st_file_hash :: "string option"
  st_token :: string
  st_claimed :: "bool option"
  st_created_at :: "string option"

type_synonym table = "string \<rightharpoonup> stored_row"

record database =
  connection_open :: bool
  transfers :: "table option"

record postgres =
  can_begin :: bool
  statements_ok :: bool
  storable_text :: "string \<Rightarrow> bool"
  now_text :: string
  what_text :: "exn \<Rightarrow> string"

section \<open>Connection and schema\<close>

definition DB_initial :: database where
  "DB_initial = \<lparr>connection_open = False, transfers = None\<rparr>"

text \<open>\<open>DB::init\<close>: \<open>url\<close> is the value of DATABASE_URL, \<open>opened\<close> whether the connection opens.\<close>

definition DB_init :: "string option \<Rightarrow> bool \<Rightarrow> database \<Rightarrow> database result" where
  "DB_init url opened d =
     (case url of
        None \<Rightarrow> Inl (Throw (Runtime_Error ''Missing environment variable: DATABASE_URL''))
      | Some _ \<Rightarrow>
          if opened then Inr (d\<lparr>connection_open := True\<rparr>)
          else Inl (Throw (Runtime_Error ''Failed to open DB connection'')))"

text \<open>\<open>conn()\<close> and the start of a transaction on it.\<close>

definition begin_transaction :: "postgres \<Rightarrow> database \<Rightarrow> unit result" where
  "begin_transaction pg d =
     (if \<not> connection_open d then Inl (Throw (Runtime_Error ''DB not initialized''))
      else if \<not> can_begin pg then Inl (Throw (Db_Error ''connection''))
      else Inr ())"

text \<open>A statement on the table, which must exist.\<close>

definition exec_table :: "postgres \<Rightarrow> database \<Rightarrow> table result" where
  "exec_table pg d =
     (case transfers d of
        Some t \<Rightarrow> if statements_ok pg then Inr t else Inl (Throw (Db_Error ''statement''))
      | None \<Rightarrow> Inl (Throw (Db_Error ''relation does not exist'')))"

definition create_transfers_table :: "postgres \<Rightarrow> database \<Rightarrow> database result" where
  "create_transfers_table pg d =
     bind_result (begin_transaction pg d) (\<lambda>_.
     if \<not> statements_ok pg then Inl (Throw (Db_Error ''statement''))
     else Inr (case transfers d of None \<Rightarrow> d\<lparr>transfers := Some Map.empty\<rparr> | Some _ \<Rightarrow> d))"

section \<open>Rows\<close>

text \<open>\<open>as<T>\<close> on a number: out of range is an exception.\<close>

definition as_uint32 :: "int \<Rightarrow> 32 word result" where
  "as_uint32 n = (if 0 \<le> n \<and> n < 2 ^ 32 then Inr (word_of_int n) else Inl (Throw (Db_Error ''conversion'')))"

definition as_long :: "int \<Rightarrow> 64 word result" where
  "as_long n =
     (if - (2 ^ 63) \<le> n \<and> n < 2 ^ 63 then Inr (word_of_int n) else Inl (Throw (Db_Error ''conversion'')))"

definition to_transfer_row :: "stored_row \<Rightarrow> TransferRow result" where
  "to_transfer_row row =
     bind_result (as_uint32 (st_sender_port row)) (\<lambda>p.
     bind_result (case st_file_size row of None \<Rightarrow> Inr 0 | Some n \<Rightarrow> as_long n) (\<lambda>n.
     Inr \<lparr>tr_id = st_id row, tr_sender_ip = st_sender_ip row, tr_sender_port = p,
          tr_protocol = st_protocol row,
          tr_file_name = (case st_file_name row of None \<Rightarrow> [] | Some x \<Rightarrow> x), tr_file_size = n,
          tr_file_hash = (case st_file_hash row of None \<Rightarrow> [] | Some x \<Rightarrow> x), tr_token = st_token row,
          tr_claimed = (case st_claimed row of None \<Rightarrow> False | Some b \<Rightarrow> b),
          tr_created_at = (case st_created_at row of None \<Rightarrow> [] | Some x \<Rightarrow> x)\<rparr>))"

definition transfer_row_to_json :: "TransferRow \<Rightarrow> json" where
  "transfer_row_to_json t =
     json_of_pairs
       [(''id'', J_string (tr_id t)),
        (''sender_ip'', J_string (tr_sender_ip t)),
        (''sender_port'', json_of_unsigned (tr_sender_port t)),
        (''protocol'', J_string (tr_protocol t)),
        (''file_name'', J_string (tr_file_name t)),
        (''file_size'', J_integer (tr_file_size t)),
        (''file_hash'', J_string (tr_file_hash t)),
        (''token'', J_string (tr_token t)),
        (''claimed'', J_boolean (tr_claimed t)),
        (''created_at'', J_string (tr_created_at t))]"

text \<open>\<open>catch (std::exception& e) { throw std::runtime_error(e.what()); }\<close>\<close>

definition rethrow :: "postgres \<Rightarrow> 'a result \<Rightarrow> 'a result" where
  "rethrow pg m = catch_exn m (\<lambda>e. Inl (Throw (Runtime_Error (what_text pg e))))"

definition string_at :: "json \<Rightarrow> string \<Rightarrow> string result" where
  "string_at data key = bind_result (json_index key data) json_string"

definition transfer_row_from_json :: "floats \<Rightarrow> postgres \<Rightarrow> json \<Rightarrow> Transfer_Payload result" where
  "transfer_row_from_json fl pg data =
     rethrow pg
       (bind_result (string_at data ''id'') (\<lambda>i.
        bind_result (string_at data ''sender_ip'') (\<lambda>sip.
        bind_result (bind_result (json_index ''sender_port'' data) (json_unsigned fl)) (\<lambda>port.
        bind_result (string_at data ''protocol'') (\<lambda>prot.
        bind_result (string_at data ''file_name'') (\<lambda>name.
        bind_result (bind_result (json_index ''file_size'' data) (json_size fl)) (\<lambda>size.
        bind_result (string_at data ''file_hash'') (\<lambda>hash.
        bind_result (string_at data ''token'') (\<lambda>tok.
        Inr \<lparr>pl_id = i, pl_sender_ip = sip, pl_sender_port = port, pl_protocol = prot,
             pl_file_name = name, pl_file_size = size, pl_file_hash = hash, pl_token = tok\<rparr>)))))))))"

section \<open>Operations\<close>

definition lookup_transfer :: "postgres \<Rightarrow> string \<Rightarrow> database \<Rightarrow> bool result" where
  "lookup_transfer pg secret d =
     bind_result (begin_transaction pg d) (\<lambda>_.
     catch_exn (bind_result (exec_table pg d) (\<lambda>t. Inr (t secret \<noteq> None))) (\<lambda>_. Inr False))"

text \<open>UPDATE transfers SET claimed = true WHERE id = secret\<close>

definition set_claimed :: "string \<Rightarrow> table \<Rightarrow> table" where
  "set_claimed secret t =
     (case t secret of None \<Rightarrow> t | Some row \<Rightarrow> t(secret \<mapsto> row\<lparr>st_claimed := Some True\<rparr>))"

definition mark_transfer_claimed :: "postgres \<Rightarrow> string \<Rightarrow> database \<Rightarrow> database result" where
  "mark_transfer_claimed pg secret d =
     bind_result (begin_transaction pg d) (\<lambda>_.
     rethrow pg (bind_result (exec_table pg d) (\<lambda>t. Inr (d\<lparr>transfers := Some (set_claimed secret t)\<rparr>))))"

text \<open>
  \<open>r[0]\<close> is not checked; the fields of a row that is not there are null, and the first \<open>as<std::string>\<close>
  throws.
\<close>

definition get_transfers_metadata ::
    "postgres \<Rightarrow> string \<Rightarrow> database \<Rightarrow> TransferRow result \<times> database" where
  "get_transfers_metadata pg secret d =
     (case begin_transaction pg d of
        Inl e \<Rightarrow> (Inl e, d)
      | Inr _ \<Rightarrow>
         (case exec_table pg d of
            Inl e \<Rightarrow> (rethrow pg (Inl e), d)
          | Inr t \<Rightarrow>
             (case mark_transfer_claimed pg secret d of
                Inl e \<Rightarrow> (rethrow pg (Inl e), d)
              | Inr d1 \<Rightarrow>
                  (rethrow pg
                     (case t secret of
                        None \<Rightarrow> Inl (Throw (Db_Error ''unexpected null''))
                      | Some row \<Rightarrow>
                          bind_result (to_transfer_row row) (\<lambda>r. Inr (r\<lparr>tr_claimed := True\<rparr>))),
                   d1))))"

text \<open>The columns INTEGER and BIGINT, and the texts PostgreSQL accepts.\<close>

definition storable :: "postgres \<Rightarrow> Transfer_Payload \<Rightarrow> bool" where
  "storable pg p \<longleftrightarrow>
     uint (pl_sender_port p) < 2 ^ 31 \<and> uint (pl_file_size p) < 2 ^ 63 \<and>
     list_all (storable_text pg)
       [pl_id p, pl_sender_ip p, pl_protocol p, pl_file_name p, pl_file_hash p, pl_token p]"

text \<open>INSERT ... ON CONFLICT (id) DO UPDATE SET: \<open>claimed\<close> and \<open>created_at\<close> are not in the list.\<close>

definition upsert :: "string \<Rightarrow> Transfer_Payload \<Rightarrow> table \<Rightarrow> table" where
  "upsert time p t =
     t(pl_id p \<mapsto>
        \<lparr>st_id = pl_id p, st_sender_ip = pl_sender_ip p, st_sender_port = uint (pl_sender_port p),
         st_protocol = pl_protocol p, st_file_name = Some (pl_file_name p),
         st_file_size = Some (uint (pl_file_size p)), st_file_hash = Some (pl_file_hash p),
         st_token = pl_token p,
         st_claimed = (case t (pl_id p) of None \<Rightarrow> Some False | Some row \<Rightarrow> st_claimed row),
         st_created_at = (case t (pl_id p) of None \<Rightarrow> Some time | Some row \<Rightarrow> st_created_at row)\<rparr>)"

text \<open>The function has no return statement; its caller does not use the value.\<close>

definition register_transfers :: "floats \<Rightarrow> postgres \<Rightarrow> json \<Rightarrow> database \<Rightarrow> database result" where
  "register_transfers fl pg data d =
     bind_result (begin_transaction pg d) (\<lambda>_.
     rethrow pg
       (bind_result (transfer_row_from_json fl pg data) (\<lambda>payload.
        bind_result (exec_table pg d) (\<lambda>t.
        if \<not> storable pg payload then Inl (Throw (Db_Error ''value''))
        else Inr (d\<lparr>transfers := Some (upsert (now_text pg) payload t)\<rparr>)))))"

section \<open>What the operations keep\<close>

text \<open>Rows are stored under their identifier and their numbers fit their columns.\<close>

definition row_ok :: "string \<Rightarrow> stored_row \<Rightarrow> bool" where
  "row_ok k row \<longleftrightarrow>
     st_id row = k \<and> 0 \<le> st_sender_port row \<and> st_sender_port row < 2 ^ 31 \<and>
     (case st_file_size row of None \<Rightarrow> True | Some n \<Rightarrow> 0 \<le> n \<and> n < 2 ^ 63)"

definition table_ok :: "table \<Rightarrow> bool" where
  "table_ok t \<longleftrightarrow> (\<forall>k row. t k = Some row \<longrightarrow> row_ok k row)"

text \<open>No row is lost, no claim and no creation time forgotten.\<close>

definition keeps_rows :: "table \<Rightarrow> table \<Rightarrow> bool" where
  "keeps_rows t t' \<longleftrightarrow>
     (\<forall>k row. t k = Some row \<longrightarrow>
        (\<exists>row'. t' k = Some row' \<and> st_created_at row' = st_created_at row \<and>
           (st_claimed row' = st_claimed row \<or> st_claimed row' = Some True)))"

definition db_ok :: "database \<Rightarrow> bool" where
  "db_ok d \<longleftrightarrow> (case transfers d of None \<Rightarrow> True | Some t \<Rightarrow> table_ok t)"

definition db_keeps :: "database \<Rightarrow> database \<Rightarrow> bool" where
  "db_keeps d d' \<longleftrightarrow>
     connection_open d' = connection_open d \<and>
     (case transfers d of
        None \<Rightarrow> transfers d' = None
      | Some t \<Rightarrow> (\<exists>t'. transfers d' = Some t' \<and> keeps_rows t t'))"

lemma keeps_rows_refl [simp]: "keeps_rows t t"
  by (simp add: keeps_rows_def)

lemma keeps_rows_trans: "keeps_rows t u \<Longrightarrow> keeps_rows u v \<Longrightarrow> keeps_rows t v"
  unfolding keeps_rows_def by metis

lemma db_keeps_refl [simp]: "db_keeps d d"
  by (simp add: db_keeps_def split: option.splits)

lemma db_keeps_trans: "db_keeps d e \<Longrightarrow> db_keeps e f \<Longrightarrow> db_keeps d f"
  by (auto simp: db_keeps_def split: option.splits intro: keeps_rows_trans)

lemma set_claimed_keeps: "keeps_rows t (set_claimed secret t)"
  by (auto simp: keeps_rows_def set_claimed_def split: option.splits)

lemma set_claimed_ok: "table_ok t \<Longrightarrow> table_ok (set_claimed secret t)"
  by (auto simp: table_ok_def row_ok_def set_claimed_def split: option.splits)

lemma upsert_keeps: "keeps_rows t (upsert time p t)"
  by (auto simp: keeps_rows_def upsert_def split: option.splits)

lemma upsert_ok: "table_ok t \<Longrightarrow> storable pg p \<Longrightarrow> table_ok (upsert time p t)"
  by (auto simp: table_ok_def row_ok_def upsert_def storable_def)

lemma exec_table_Inr: "exec_table pg d = Inr t \<longleftrightarrow> transfers d = Some t \<and> statements_ok pg"
  by (auto simp: exec_table_def split: option.splits if_splits)

lemma exec_table_Inl: "exec_table pg d = Inl e \<Longrightarrow> \<exists>text. e = Throw (Db_Error text)"
  by (auto simp: exec_table_def split: option.splits if_splits)

lemma rethrow_Inr [simp]: "rethrow pg m = Inr x \<longleftrightarrow> m = Inr x"
  by (cases m rule: sum.exhaust) (auto simp: rethrow_def catch_exn_def split: fault.splits)

lemma mark_keeps:
  assumes "mark_transfer_claimed pg secret d = Inr d'"
  shows "db_keeps d d'" "db_ok d \<Longrightarrow> db_ok d'"
proof -
  from assms obtain t where "transfers d = Some t" "d' = d\<lparr>transfers := Some (set_claimed secret t)\<rparr>"
    by (auto simp: mark_transfer_claimed_def bind_result_Inr_iff exec_table_Inr)
  then show "db_keeps d d'" "db_ok d \<Longrightarrow> db_ok d'"
    by (auto simp: db_keeps_def db_ok_def set_claimed_keeps set_claimed_ok)
qed

lemma get_keeps:
  assumes "get_transfers_metadata pg secret d = (r, d')"
  shows "db_keeps d d'" "db_ok d \<Longrightarrow> db_ok d'"
proof -
  have "d' = d \<or> mark_transfer_claimed pg secret d = Inr d'"
    using assms by (auto simp: get_transfers_metadata_def split: sum.splits)
  then show "db_keeps d d'" "db_ok d \<Longrightarrow> db_ok d'" using mark_keeps by auto
qed

lemma register_keeps:
  assumes "register_transfers fl pg data d = Inr d'"
  shows "db_keeps d d'" "db_ok d \<Longrightarrow> db_ok d'"
proof -
  from assms obtain t p where "transfers d = Some t" "storable pg p"
    "d' = d\<lparr>transfers := Some (upsert (now_text pg) p t)\<rparr>"
    by (auto simp: register_transfers_def bind_result_Inr_iff exec_table_Inr split: if_splits)
  then show "db_keeps d d'" "db_ok d \<Longrightarrow> db_ok d'"
    by (auto simp: db_keeps_def db_ok_def upsert_keeps upsert_ok)
qed

end
