(* ===== verification/Json_Lexer.thy ===== *)
theory Json_Lexer
  imports Json_Value
begin

text \<open>
  The lexer of \<open>json.hpp\<close> (class \<open>lexer\<close>) as \<open>json::parse\<close> uses it: comments are not ignored and the
  locale is "C". A scanner takes the input that is left, where the end of the list is EOF, and
  returns a token and the rest; \<open>unget\<close> is returning a rest that still has the character. The
  position counters, used only in the text of error messages, are left out.
\<close>

unbundle bit_operations_syntax

section \<open>Tokens\<close>

datatype token =
    T_literal_true
  | T_literal_false
  | T_literal_null
  | T_string string
  | T_unsigned "64 word"
  | T_integer "64 word"
  | T_float double
  | T_begin_array
  | T_begin_object
  | T_end_array
  | T_end_object
  | T_name_separator
  | T_value_separator
  | T_parse_error string
  | T_end_of_input

type_synonym scanned = "token \<times> string"

definition code :: "char \<Rightarrow> nat" where
  "code c = of_char c"

lemma code_less [simp]: "code c < 256"
  by (simp add: code_def)

section \<open>Strings\<close>

text \<open>Four hexadecimal digits; on a bad character it has been read.\<close>

definition hex_nibble :: "char \<Rightarrow> nat option" where
  "hex_nibble c =
     (if 0x30 \<le> code c \<and> code c \<le> 0x39 then Some (code c - 0x30)
      else if 0x41 \<le> code c \<and> code c \<le> 0x46 then Some (code c - 0x37)
      else if 0x61 \<le> code c \<and> code c \<le> 0x66 then Some (code c - 0x57)
      else None)"

fun codepoint_digits :: "nat list \<Rightarrow> nat \<Rightarrow> string \<Rightarrow> nat option \<times> string" where
  "codepoint_digits [] cp s = (Some cp, s)"
| "codepoint_digits (f # fs) cp [] = (None, [])"
| "codepoint_digits (f # fs) cp (c # s) =
     (case hex_nibble c of
        Some d \<Rightarrow> codepoint_digits fs (cp + push_bit f d) s
      | None \<Rightarrow> (None, s))"

definition get_codepoint :: "string \<Rightarrow> nat option \<times> string" where
  "get_codepoint s = codepoint_digits [12, 8, 4, 0] 0 s"

text \<open>The bytes of a code point in UTF-8.\<close>

definition utf8_encode :: "nat \<Rightarrow> string" where
  "utf8_encode cp =
     (if cp < 0x80 then [char_of cp]
      else if cp \<le> 0x7FF then
        [char_of (0xC0 OR drop_bit 6 cp), char_of (0x80 OR (cp AND 0x3F))]
      else if cp \<le> 0xFFFF then
        [char_of (0xE0 OR drop_bit 12 cp), char_of (0x80 OR (drop_bit 6 cp AND 0x3F)),
         char_of (0x80 OR (cp AND 0x3F))]
      else
        [char_of (0xF0 OR drop_bit 18 cp), char_of (0x80 OR (drop_bit 12 cp AND 0x3F)),
         char_of (0x80 OR (drop_bit 6 cp AND 0x3F)), char_of (0x80 OR (cp AND 0x3F))])"

definition no_hex_message :: string where
  "no_hex_message = ''invalid string: '' @ [CHR 0x27, CHR 0x5C, CHR ''u'', CHR 0x27]
     @ '' must be followed by 4 hex digits''"

definition high_surrogate_message :: string where
  "high_surrogate_message =
     ''invalid string: surrogate U+D800..U+DBFF must be followed by U+DC00..U+DFFF''"

definition low_surrogate_message :: string where
  "low_surrogate_message =
     ''invalid string: surrogate U+DC00..U+DFFF must follow U+D800..U+DBFF''"

text \<open>After \<open>\u\<close>: a code point or a pair of surrogates, as bytes to add.\<close>

definition scan_unicode :: "string \<Rightarrow> (string + string) \<times> string" where
  "scan_unicode s =
     (case get_codepoint s of
        (None, r) \<Rightarrow> (Inl no_hex_message, r)
      | (Some cp1, r) \<Rightarrow>
          if 0xD800 \<le> cp1 \<and> cp1 \<le> 0xDBFF then
            (case r of
               c # r1 \<Rightarrow>
                 if c = CHR 0x5C then
                   (case r1 of
                      u # r2 \<Rightarrow>
                        if u = CHR ''u'' then
                          (case get_codepoint r2 of
                             (None, r3) \<Rightarrow> (Inl no_hex_message, r3)
                           | (Some cp2, r3) \<Rightarrow>
                               if 0xDC00 \<le> cp2 \<and> cp2 \<le> 0xDFFF then
                                 (Inr (utf8_encode (push_bit 10 cp1 + cp2 - 0x35FDC00)), r3)
                               else (Inl high_surrogate_message, r3))
                        else (Inl high_surrogate_message, r2)
                    | [] \<Rightarrow> (Inl high_surrogate_message, []))
                 else (Inl high_surrogate_message, r1)
             | [] \<Rightarrow> (Inl high_surrogate_message, []))
          else if 0xDC00 \<le> cp1 \<and> cp1 \<le> 0xDFFF then (Inl low_surrogate_message, r)
          else (Inr (utf8_encode cp1), r))"

text \<open>After a backslash.\<close>

definition scan_escape :: "string \<Rightarrow> (string + string) \<times> string" where
  "scan_escape s =
     (case s of
        [] \<Rightarrow> (Inl ''invalid string: forbidden character after backslash'', [])
      | c # r \<Rightarrow>
          if c = CHR 0x22 then (Inr [CHR 0x22], r)
          else if c = CHR 0x5C then (Inr [CHR 0x5C], r)
          else if c = CHR ''/'' then (Inr [CHR ''/''], r)
          else if c = CHR ''b'' then (Inr [CHR 0x08], r)
          else if c = CHR ''f'' then (Inr [CHR 0x0C], r)
          else if c = CHR ''n'' then (Inr [CHR 0x0A], r)
          else if c = CHR ''r'' then (Inr [CHR 0x0D], r)
          else if c = CHR ''t'' then (Inr [CHR 0x09], r)
          else if c = CHR ''u'' then scan_unicode r
          else (Inl ''invalid string: forbidden character after backslash'', r))"

text \<open>The messages for unescaped control characters.\<close>

definition control_names :: "string list" where
  "control_names =
     [''NUL'', ''SOH'', ''STX'', ''ETX'', ''EOT'', ''ENQ'', ''ACK'', ''BEL'', ''BS'', ''HT'', ''LF'', ''VT'',
      ''FF'', ''CR'', ''SO'', ''SI'', ''DLE'', ''DC1'', ''DC2'', ''DC3'', ''DC4'', ''NAK'', ''SYN'', ''ETB'',
      ''CAN'', ''EM'', ''SUB'', ''ESC'', ''FS'', ''GS'', ''RS'', ''US'']"

definition upper_hex :: "nat \<Rightarrow> string" where
  "upper_hex n = (let d = (\<lambda>k. if k < 10 then char_of (48 + k) else char_of (55 + k))
                  in [CHR ''0'', CHR ''0'', d (n div 16), d (n mod 16)])"

definition short_escape :: "nat \<Rightarrow> string" where
  "short_escape n =
     (if n = 8 then '' or '' @ [CHR 0x5C, CHR ''b''] else if n = 9 then '' or '' @ [CHR 0x5C, CHR ''t'']
      else if n = 10 then '' or '' @ [CHR 0x5C, CHR ''n''] else if n = 12 then '' or '' @ [CHR 0x5C, CHR ''f'']
      else if n = 13 then '' or '' @ [CHR 0x5C, CHR ''r''] else [])"

definition control_message :: "nat \<Rightarrow> string" where
  "control_message n =
     ''invalid string: control character U+'' @ upper_hex n @ '' ('' @ control_names ! n
       @ '') must be escaped to '' @ [CHR 0x5C, CHR ''u''] @ upper_hex n @ short_escape n"

text \<open>Which bytes must follow the first byte of a multi-byte character.\<close>

definition following_bytes :: "nat \<Rightarrow> (nat \<times> nat) list option" where
  "following_bytes b =
     (if 0xC2 \<le> b \<and> b \<le> 0xDF then Some [(0x80, 0xBF)]
      else if b = 0xE0 then Some [(0xA0, 0xBF), (0x80, 0xBF)]
      else if 0xE1 \<le> b \<and> b \<le> 0xEC \<or> b = 0xEE \<or> b = 0xEF then Some [(0x80, 0xBF), (0x80, 0xBF)]
      else if b = 0xED then Some [(0x80, 0x9F), (0x80, 0xBF)]
      else if b = 0xF0 then Some [(0x90, 0xBF), (0x80, 0xBF), (0x80, 0xBF)]
      else if 0xF1 \<le> b \<and> b \<le> 0xF3 then Some [(0x80, 0xBF), (0x80, 0xBF), (0x80, 0xBF)]
      else if b = 0xF4 then Some [(0x80, 0x8F), (0x80, 0xBF), (0x80, 0xBF)]
      else None)"

text \<open>\<open>next_byte_in_range\<close>: the bytes added so far, and whether all were in range.\<close>

fun next_byte_in_range :: "(nat \<times> nat) list \<Rightarrow> string \<Rightarrow> string \<Rightarrow> bool \<times> string \<times> string" where
  "next_byte_in_range [] buf s = (True, buf, s)"
| "next_byte_in_range ((lo, hi) # ranges) buf [] = (False, buf, [])"
| "next_byte_in_range ((lo, hi) # ranges) buf (c # s) =
     (if lo \<le> code c \<and> code c \<le> hi then next_byte_in_range ranges (buf @ [c]) s
      else (False, buf, s))"

lemma codepoint_digits_length: "length (snd (codepoint_digits fs cp s)) \<le> length s"
  by (induction fs cp s rule: codepoint_digits.induct)
     (auto split: option.splits intro: le_SucI)

lemma scan_unicode_length: "length (snd (scan_unicode s)) \<le> length s"
proof -
  have g: "get_codepoint a = (x, b) \<Longrightarrow> length b \<le> length a" for a b x
    using codepoint_digits_length [of "[12, 8, 4, 0]" 0 a] by (simp add: get_codepoint_def)
  show ?thesis
    unfolding scan_unicode_def
    by (auto split: prod.splits option.splits list.splits dest!: g)
qed

lemma scan_escape_length: "length (snd (scan_escape s)) \<le> length s"
  using scan_unicode_length [of "tl s"] by (auto simp: scan_escape_def split: list.splits intro: le_SucI)

lemma next_byte_in_range_length: "length (snd (snd (next_byte_in_range rs buf s))) \<le> length s"
  by (induction rs buf s rule: next_byte_in_range.induct) auto

text \<open>The body of a string, after the opening quote.\<close>

function scan_string :: "string \<Rightarrow> string \<Rightarrow> scanned" where
  "scan_string buf s =
     (case s of
        [] \<Rightarrow> (T_parse_error ''invalid string: missing closing quote'', [])
      | c # r \<Rightarrow>
          if c = CHR 0x22 then (T_string buf, r)
          else if c = CHR 0x5C then
            (case scan_escape r of
               (Inl message, r1) \<Rightarrow> (T_parse_error message, r1)
             | (Inr bytes, r1) \<Rightarrow> scan_string (buf @ bytes) r1)
          else if code c < 0x20 then (T_parse_error (control_message (code c)), r)
          else if code c < 0x80 then scan_string (buf @ [c]) r
          else
            (case following_bytes (code c) of
               None \<Rightarrow> (T_parse_error ''invalid string: ill-formed UTF-8 byte'', r)
             | Some ranges \<Rightarrow>
                 (case next_byte_in_range ranges (buf @ [c]) r of
                    (ok, buf1, r1) \<Rightarrow>
                      if ok then scan_string buf1 r1
                      else (T_parse_error ''invalid string: ill-formed UTF-8 byte'', r1))))"
  by pat_completeness auto
termination
proof (relation "measure (\<lambda>(buf, s). length s)", goal_cases)
  case (2 buf s c r e r1 bytes)
  then have "snd (scan_escape r) = r1" by (metis snd_conv)
  with 2 show ?case using scan_escape_length [of r] by auto
next
  case (4 buf s c r ranges ok x buf1 r1)
  then have "snd (snd (next_byte_in_range ranges (buf @ [c]) r)) = r1" by (metis snd_conv)
  with 4 show ?case using next_byte_in_range_length [of ranges "buf @ [c]" r] by auto
qed auto

declare scan_string.simps [simp del]


section \<open>Numbers\<close>

text \<open>
  The state machine of \<open>scan_number\<close>, one function per label. A state reads a character; a
  character that does not continue the number is given back.
\<close>

datatype number_kind = K_unsigned | K_integer | K_float

text \<open>
  \<open>scan_number_done\<close>: \<open>strtoull\<close> or \<open>strtoll\<close>, and \<open>strtod\<close> for what they report as out of range.
\<close>

definition scan_number_done :: "floats \<Rightarrow> number_kind \<Rightarrow> string \<Rightarrow> string \<Rightarrow> scanned" where
  "scan_number_done fl kind buf s =
     (case kind of
        K_unsigned \<Rightarrow>
          (let x = decimal_value 0 buf
           in if x < 2 ^ 64 then (T_unsigned (of_nat x), s) else (T_float (strtod fl buf), s))
      | K_integer \<Rightarrow>
          (let x = - int (decimal_value 0 (tl buf))
           in if - (2 ^ 63) \<le> x then (T_integer (of_int x), s) else (T_float (strtod fl buf), s))
      | K_float \<Rightarrow> (T_float (strtod fl buf), s))"

fun scan_number_any2 :: "floats \<Rightarrow> string \<Rightarrow> string \<Rightarrow> scanned" where
  "scan_number_any2 fl buf [] = scan_number_done fl K_float buf []"
| "scan_number_any2 fl buf (c # s) =
     (if is_digit c then scan_number_any2 fl (buf @ [c]) s
      else scan_number_done fl K_float buf (c # s))"

fun scan_number_sign :: "floats \<Rightarrow> string \<Rightarrow> string \<Rightarrow> scanned" where
  "scan_number_sign fl buf [] = (T_parse_error ''invalid number; expected digit after exponent sign'', [])"
| "scan_number_sign fl buf (c # s) =
     (if is_digit c then scan_number_any2 fl (buf @ [c]) s
      else (T_parse_error ''invalid number; expected digit after exponent sign'', s))"

definition exponent_message :: string where
  "exponent_message =
     ''invalid number; expected '' @ [CHR 0x27, CHR ''+'', CHR 0x27] @ '', '' @ [CHR 0x27, CHR ''-'', CHR 0x27]
       @ '', or digit after exponent''"

fun scan_number_exponent :: "floats \<Rightarrow> string \<Rightarrow> string \<Rightarrow> scanned" where
  "scan_number_exponent fl buf [] = (T_parse_error exponent_message, [])"
| "scan_number_exponent fl buf (c # s) =
     (if c = CHR ''+'' \<or> c = CHR ''-'' then scan_number_sign fl (buf @ [c]) s
      else if is_digit c then scan_number_any2 fl (buf @ [c]) s
      else (T_parse_error exponent_message, s))"

fun scan_number_decimal2 :: "floats \<Rightarrow> string \<Rightarrow> string \<Rightarrow> scanned" where
  "scan_number_decimal2 fl buf [] = scan_number_done fl K_float buf []"
| "scan_number_decimal2 fl buf (c # s) =
     (if is_digit c then scan_number_decimal2 fl (buf @ [c]) s
      else if c = CHR ''e'' \<or> c = CHR ''E'' then scan_number_exponent fl (buf @ [c]) s
      else scan_number_done fl K_float buf (c # s))"

definition decimal_message :: string where
  "decimal_message = ''invalid number; expected digit after '' @ [CHR 0x27, CHR ''.'', CHR 0x27]"

fun scan_number_decimal1 :: "floats \<Rightarrow> string \<Rightarrow> string \<Rightarrow> scanned" where
  "scan_number_decimal1 fl buf [] = (T_parse_error decimal_message, [])"
| "scan_number_decimal1 fl buf (c # s) =
     (if is_digit c then scan_number_decimal2 fl (buf @ [c]) s else (T_parse_error decimal_message, s))"

fun scan_number_any1 :: "floats \<Rightarrow> number_kind \<Rightarrow> string \<Rightarrow> string \<Rightarrow> scanned" where
  "scan_number_any1 fl kind buf [] = scan_number_done fl kind buf []"
| "scan_number_any1 fl kind buf (c # s) =
     (if is_digit c then scan_number_any1 fl kind (buf @ [c]) s
      else if c = CHR ''.'' then scan_number_decimal1 fl (buf @ [c]) s
      else if c = CHR ''e'' \<or> c = CHR ''E'' then scan_number_exponent fl (buf @ [c]) s
      else scan_number_done fl kind buf (c # s))"

fun scan_number_zero :: "floats \<Rightarrow> number_kind \<Rightarrow> string \<Rightarrow> string \<Rightarrow> scanned" where
  "scan_number_zero fl kind buf [] = scan_number_done fl kind buf []"
| "scan_number_zero fl kind buf (c # s) =
     (if c = CHR ''.'' then scan_number_decimal1 fl (buf @ [c]) s
      else if c = CHR ''e'' \<or> c = CHR ''E'' then scan_number_exponent fl (buf @ [c]) s
      else scan_number_done fl kind buf (c # s))"

definition minus_message :: string where
  "minus_message = ''invalid number; expected digit after '' @ [CHR 0x27, CHR ''-'', CHR 0x27]"

fun scan_number_minus :: "floats \<Rightarrow> string \<Rightarrow> string \<Rightarrow> scanned" where
  "scan_number_minus fl buf [] = (T_parse_error minus_message, [])"
| "scan_number_minus fl buf (c # s) =
     (if c = CHR ''0'' then scan_number_zero fl K_integer (buf @ [c]) s
      else if is_digit c then scan_number_any1 fl K_integer (buf @ [c]) s
      else (T_parse_error minus_message, s))"

text \<open>The initial state, on the character already read: a minus sign or a digit.\<close>

definition scan_number :: "floats \<Rightarrow> char \<Rightarrow> string \<Rightarrow> scanned" where
  "scan_number fl c s =
     (if c = CHR ''-'' then scan_number_minus fl [c] s
      else if c = CHR ''0'' then scan_number_zero fl K_unsigned [c] s
      else scan_number_any1 fl K_unsigned [c] s)"

section \<open>Literals and the scanner\<close>

fun scan_literal :: "string \<Rightarrow> token \<Rightarrow> string \<Rightarrow> scanned" where
  "scan_literal [] return_type s = (return_type, s)"
| "scan_literal (l # ls) return_type [] = (T_parse_error ''invalid literal'', [])"
| "scan_literal (l # ls) return_type (c # s) =
     (if c = l then scan_literal ls return_type s else (T_parse_error ''invalid literal'', s))"

definition is_whitespace :: "char \<Rightarrow> bool" where
  "is_whitespace c = (c = CHR '' '' \<or> c = CHR 0x09 \<or> c = CHR 0x0A \<or> c = CHR 0x0D)"

definition skip_whitespace :: "string \<Rightarrow> string" where
  "skip_whitespace s = dropWhile is_whitespace s"

definition scan :: "floats \<Rightarrow> string \<Rightarrow> scanned" where
  "scan fl s =
     (case skip_whitespace s of
        [] \<Rightarrow> (T_end_of_input, [])
      | c # r \<Rightarrow>
          if c = CHR ''['' then (T_begin_array, r)
          else if c = CHR '']'' then (T_end_array, r)
          else if c = CHR ''{'' then (T_begin_object, r)
          else if c = CHR ''}'' then (T_end_object, r)
          else if c = CHR '':'' then (T_name_separator, r)
          else if c = CHR '','' then (T_value_separator, r)
          else if c = CHR ''t'' then scan_literal ''rue'' T_literal_true r
          else if c = CHR ''f'' then scan_literal ''alse'' T_literal_false r
          else if c = CHR ''n'' then scan_literal ''ull'' T_literal_null r
          else if c = CHR 0x22 then scan_string [] r
          else if c = CHR ''-'' \<or> is_digit c then scan_number fl c r
          else if c = CHR 0x00 then (T_end_of_input, r)
          else (T_parse_error ''invalid literal'', r))"

text \<open>The first token: a byte order mark is skipped.\<close>

definition skip_bom :: "string \<Rightarrow> string option" where
  "skip_bom s =
     (case s of
        c # r \<Rightarrow>
          if c = CHR 0xEF then
            (case r of c1 # c2 # r2 \<Rightarrow> if c1 = CHR 0xBB \<and> c2 = CHR 0xBF then Some r2 else None
             | _ \<Rightarrow> None)
          else Some s
      | [] \<Rightarrow> Some [])"

definition scan_first :: "floats \<Rightarrow> string \<Rightarrow> scanned" where
  "scan_first fl s =
     (case skip_bom s of
        None \<Rightarrow> (T_parse_error ''invalid BOM; must be 0xEF 0xBB 0xBF if given'', [])
      | Some r \<Rightarrow> scan fl r)"

section \<open>Every token takes input\<close>

text \<open>How a string goes on after its next character.\<close>

lemma scan_string_Nil: "scan_string buf [] = (T_parse_error ''invalid string: missing closing quote'', [])"
  by (simp add: scan_string.simps)

lemma scan_string_Cons:
  shows "scan_string buf (CHR 0x22 # r) = (T_string buf, r)"
    and "scan_escape r = (Inr bytes, r1) \<Longrightarrow> scan_string buf (CHR 0x5C # r) = scan_string (buf @ bytes) r1"
    and "scan_escape r = (Inl message, r1) \<Longrightarrow> scan_string buf (CHR 0x5C # r) = (T_parse_error message, r1)"
    and "code c < 0x20 \<Longrightarrow> scan_string buf (c # r) = (T_parse_error (control_message (code c)), r)"
    and "0x20 \<le> code c \<Longrightarrow> code c < 0x80 \<Longrightarrow> c \<noteq> CHR 0x22 \<Longrightarrow> c \<noteq> CHR 0x5C \<Longrightarrow>
           scan_string buf (c # r) = scan_string (buf @ [c]) r"
    and "0x80 \<le> code c \<Longrightarrow> following_bytes (code c) = None \<Longrightarrow>
           scan_string buf (c # r) = (T_parse_error ''invalid string: ill-formed UTF-8 byte'', r)"
    and "0x80 \<le> code c \<Longrightarrow> following_bytes (code c) = Some ranges \<Longrightarrow>
           next_byte_in_range ranges (buf @ [c]) r = (True, buf1, r1) \<Longrightarrow>
           scan_string buf (c # r) = scan_string buf1 r1"
    and "0x80 \<le> code c \<Longrightarrow> following_bytes (code c) = Some ranges \<Longrightarrow>
           next_byte_in_range ranges (buf @ [c]) r = (False, buf1, r1) \<Longrightarrow>
           scan_string buf (c # r) = (T_parse_error ''invalid string: ill-formed UTF-8 byte'', r1)"
  by (subst scan_string.simps, force simp: code_def)+

lemma scan_string_length: "length (snd (scan_string buf s)) \<le> length s"
proof (induction "length s" arbitrary: buf s rule: less_induct)
  case less
  show ?case
  proof (cases s)
    case Nil
    then show ?thesis by (simp add: scan_string_Nil)
  next
    case (Cons c r)
    have more: ?thesis if "scan_string buf s = scan_string buf1 r1" "length r1 \<le> length r" for buf1 r1
      using less [of r1 buf1] that Cons by simp
    consider "c = CHR 0x22" | "c = CHR 0x5C" | "code c < 0x20"
      | "0x20 \<le> code c" "code c < 0x80" "c \<noteq> CHR 0x22" "c \<noteq> CHR 0x5C" | "0x80 \<le> code c" by linarith
    then show ?thesis
    proof cases
      case 2
      obtain e r1 where e: "scan_escape r = (e, r1)" by fastforce
      then have "length r1 \<le> length r" using scan_escape_length [of r] by simp
      with e 2 Cons more show ?thesis by (cases e) (simp_all add: scan_string_Cons)
    next
      case 4
      with Cons more show ?thesis by (simp add: scan_string_Cons(5))
    next
      case 5
      show ?thesis
      proof (cases "following_bytes (code c)")
        case None
        with 5 Cons show ?thesis by (simp add: scan_string_Cons(6))
      next
        case (Some ranges)
        obtain ok buf1 r1 where n: "next_byte_in_range ranges (buf @ [c]) r = (ok, buf1, r1)"
          using prod_cases3 by blast
        then have "length r1 \<le> length r" using next_byte_in_range_length [of ranges "buf @ [c]" r] by simp
        with n 5 Some Cons more show ?thesis by (cases ok) (simp_all add: scan_string_Cons(7,8))
      qed
    qed (use Cons in \<open>simp_all add: scan_string_Cons\<close>)
  qed
qed

lemma scan_number_done_length: "length (snd (scan_number_done fl kind buf s)) = length s"
  by (simp add: scan_number_done_def Let_def split: number_kind.splits)

lemma scan_number_length:
  "length (snd (scan_number_any2 fl buf s)) \<le> length s"
  "length (snd (scan_number_sign fl buf s)) \<le> length s"
  "length (snd (scan_number_exponent fl buf s)) \<le> length s"
  "length (snd (scan_number_decimal2 fl buf s)) \<le> length s"
  "length (snd (scan_number_decimal1 fl buf s)) \<le> length s"
  "length (snd (scan_number_any1 fl kind buf s)) \<le> length s"
  "length (snd (scan_number_zero fl kind buf s)) \<le> length s"
  "length (snd (scan_number_minus fl buf s)) \<le> length s"
  "length (snd (scan_number fl c s)) \<le> length s"
proof -
  show any2: "length (snd (scan_number_any2 fl buf s)) \<le> length s" for fl buf s
    by (induction fl buf s rule: scan_number_any2.induct) (auto simp: scan_number_done_length intro: le_SucI)
  show sign: "length (snd (scan_number_sign fl buf s)) \<le> length s" for fl buf s
    by (cases s) (auto intro: le_SucI any2)
  show exponent: "length (snd (scan_number_exponent fl buf s)) \<le> length s" for fl buf s
    by (cases s) (auto intro: le_SucI any2 sign)
  show decimal2: "length (snd (scan_number_decimal2 fl buf s)) \<le> length s" for fl buf s
    by (induction fl buf s rule: scan_number_decimal2.induct)
       (auto simp: scan_number_done_length intro: le_SucI exponent)
  show decimal1: "length (snd (scan_number_decimal1 fl buf s)) \<le> length s" for fl buf s
    by (cases s) (auto intro: le_SucI decimal2)
  show any1: "length (snd (scan_number_any1 fl kind buf s)) \<le> length s" for fl kind buf s
    by (induction fl kind buf s rule: scan_number_any1.induct)
       (auto simp: scan_number_done_length intro: le_SucI exponent decimal1)
  show zero: "length (snd (scan_number_zero fl kind buf s)) \<le> length s" for fl kind buf s
    by (cases s) (auto simp: scan_number_done_length intro: le_SucI exponent decimal1)
  show minus: "length (snd (scan_number_minus fl buf s)) \<le> length s" for fl buf s
    by (cases s) (auto intro: le_SucI any1 zero)
  show "length (snd (scan_number fl c s)) \<le> length s"
    by (simp add: scan_number_def any1 zero minus)
qed

lemma scan_literal_length: "length (snd (scan_literal ls t s)) \<le> length s"
  by (induction ls t s rule: scan_literal.induct) auto

text \<open>Every token but the end of the input takes at least one character.\<close>

lemma scan_length:
  "scan fl s = (t, r) \<Longrightarrow> length r < length s \<or> t = T_end_of_input \<and> r = []"
proof (cases "skip_whitespace s")
  case Nil
  then show "scan fl s = (t, r) \<Longrightarrow> ?thesis" by (simp add: scan_def)
next
  case (Cons c r1)
  assume run: "scan fl s = (t, r)"
  have "length (skip_whitespace s) \<le> length s"
    by (simp add: skip_whitespace_def length_dropWhile_le)
  moreover have "length (snd (scan fl s)) \<le> length r1"
    using Cons by (simp add: scan_def scan_literal_length scan_string_length scan_number_length)
  ultimately show ?thesis using Cons run by simp
qed

end
