(* ===== verification/Json_Parser.thy ===== *)
theory Json_Parser
  imports Json_Lexer
begin

text \<open>
  \<open>json::parse\<close> of \<open>json.hpp\<close>: class \<open>parser\<close> in strict mode with exceptions and without callback,
  feeding \<open>json_sax_dom_parser\<close>. The two stacks (\<open>states\<close>: array or object; \<open>ref_stack\<close>: pointers to
  the open containers, with the pending key) are one list of open containers, innermost first. A
  container joins its parent when it is closed; the library builds it in place.
\<close>

section \<open>The value under construction\<close>

datatype container =
    In_array "json list"
  | In_object "(string \<times> json) list" string

definition syntax_error :: "'a result" where
  "syntax_error = Inl (Throw (Json_Parse_Error 101))"

text \<open>
  \<open>handle_value\<close> into an array or an object, \<open>end_array\<close> and \<open>end_object\<close>. \<open>key\<close> has already
  inserted the key with a null that the value replaces: a repeated key keeps its last value.
\<close>

fun handle_value :: "json \<Rightarrow> container \<Rightarrow> container" where
  "handle_value v (In_array xs) = In_array (xs @ [v])"
| "handle_value v (In_object ms k) = In_object (object_put k v ms) k"

fun set_key :: "string \<Rightarrow> container \<Rightarrow> container" where
  "set_key k (In_array xs) = In_array xs"
| "set_key k (In_object ms k') = In_object ms k"

fun container_value :: "container \<Rightarrow> json" where
  "container_value (In_array xs) = J_array xs"
| "container_value (In_object ms k) = J_object ms"

section \<open>The parser\<close>

text \<open>A key and its separator; what follows is the value.\<close>

definition parse_key :: "floats \<Rightarrow> token \<Rightarrow> string \<Rightarrow> (string \<times> string) result" where
  "parse_key fl t s =
     (case t of
        T_string k \<Rightarrow>
          (case scan fl s of
             (T_name_separator, s1) \<Rightarrow> Inr (k, s1)
           | _ \<Rightarrow> syntax_error)
      | _ \<Rightarrow> syntax_error)"

text \<open>
  \<open>parse_value\<close> is the loop of \<open>sax_parse_internal\<close> at the start of a value whose first token has
  been read, \<open>evaluate_state\<close> the part after a complete value. They return the top-level value and
  what follows it.
\<close>

definition opens :: "token \<Rightarrow> bool" where
  "opens t = (t = T_begin_array \<or> t = T_begin_object)"

lemma parse_key_length: "parse_key fl t s = Inr (k, s1) \<Longrightarrow> length s1 < length s"
  using scan_length [of fl s]
  by (auto simp: parse_key_def syntax_error_def split: token.splits prod.splits)

function (sequential)
  parse_value :: "floats \<Rightarrow> token \<Rightarrow> string \<Rightarrow> container list \<Rightarrow> (json \<times> string) result" and
  evaluate_state :: "floats \<Rightarrow> json \<Rightarrow> string \<Rightarrow> container list \<Rightarrow> (json \<times> string) result" where
  "parse_value fl T_begin_object s st =
     (case scan fl s of (t, s1) \<Rightarrow>
        if t = T_end_object then evaluate_state fl (J_object []) s1 st
        else case parse_key fl t s1 of
               Inl e \<Rightarrow> Inl e
             | Inr (k, s2) \<Rightarrow>
                 (case scan fl s2 of (t1, s3) \<Rightarrow> parse_value fl t1 s3 (In_object [] k # st)))"
| "parse_value fl T_begin_array s st =
     (case scan fl s of (t, s1) \<Rightarrow>
        if t = T_end_array then evaluate_state fl (J_array []) s1 st
        else parse_value fl t s1 (In_array [] # st))"
| "parse_value fl (T_float d) s st =
     (if \<not> isfinite d then Inl (Throw (Json_Out_Of_Range 406))
      else evaluate_state fl (J_float d) s st)"
| "parse_value fl T_literal_false s st = evaluate_state fl (J_boolean False) s st"
| "parse_value fl T_literal_null s st = evaluate_state fl J_null s st"
| "parse_value fl T_literal_true s st = evaluate_state fl (J_boolean True) s st"
| "parse_value fl (T_integer n) s st = evaluate_state fl (J_integer n) s st"
| "parse_value fl (T_string x) s st = evaluate_state fl (J_string x) s st"
| "parse_value fl (T_unsigned n) s st = evaluate_state fl (J_unsigned n) s st"
| "parse_value fl t s st = syntax_error"
| "evaluate_state fl v s [] = Inr (v, s)"
| "evaluate_state fl v s (In_array xs # st) =
     (case scan fl s of (t, s1) \<Rightarrow>
        if t = T_value_separator then
          (case scan fl s1 of (t1, s2) \<Rightarrow> parse_value fl t1 s2 (handle_value v (In_array xs) # st))
        else if t = T_end_array then
          evaluate_state fl (container_value (handle_value v (In_array xs))) s1 st
        else syntax_error)"
| "evaluate_state fl v s (In_object ms k # st) =
     (case scan fl s of (t, s1) \<Rightarrow>
        if t = T_value_separator then
          (case scan fl s1 of (t1, s2) \<Rightarrow>
             case parse_key fl t1 s2 of
               Inl e \<Rightarrow> Inl e
             | Inr (k1, s3) \<Rightarrow>
                 (case scan fl s3 of (t2, s4) \<Rightarrow>
                    parse_value fl t2 s4 (set_key k1 (handle_value v (In_object ms k)) # st)))
        else if t = T_end_object then
          evaluate_state fl (container_value (handle_value v (In_object ms k))) s1 st
        else syntax_error)"
  by pat_completeness auto
termination
proof (relation "measures [\<lambda>p. case p of Inl (fl, t, s, st) \<Rightarrow> length s | Inr (fl, v, s, st) \<Rightarrow> length s,
    \<lambda>p. case p of Inl (fl, t, s, st) \<Rightarrow> if opens t then 2 else 1 | Inr _ \<Rightarrow> 0]", goal_cases)
qed (auto simp: opens_def dest!: scan_length parse_key_length sym [of _ "scan _ _"] sym [of _ "parse_key _ _ _"])


text \<open>The whole text is one value, and the token after it the end of the input.\<close>

definition json_parse :: "floats \<Rightarrow> string \<Rightarrow> json result" where
  "json_parse fl s =
     (case scan_first fl s of (t, s1) \<Rightarrow>
        bind_result (parse_value fl t s1 []) (\<lambda>(v, s2).
        case scan fl s2 of (t1, s3) \<Rightarrow> if t1 = T_end_of_input then Inr v else syntax_error))"

section \<open>What the parser can produce\<close>

text \<open>
  Values it builds: the members of objects are sorted and every floating-point number is finite.
\<close>

fun json_built :: "json \<Rightarrow> bool" where
  "json_built (J_object ms) = (sorted_members ms \<and> (\<forall>(k, v) \<in> set ms. json_built v))"
| "json_built (J_array xs) = (\<forall>x \<in> set xs. json_built x)"
| "json_built (J_float d) = isfinite d"
| "json_built _ = True"

fun container_built :: "container \<Rightarrow> bool" where
  "container_built (In_array xs) = (\<forall>x \<in> set xs. json_built x)"
| "container_built (In_object ms k) = (sorted_members ms \<and> (\<forall>(k, v) \<in> set ms. json_built v))"

lemma object_put_set: "set (object_put k v ms) \<subseteq> insert (k, v) (set ms)"
  by (induction k v ms rule: object_put.induct) auto

lemma handle_value_built: "json_built v \<Longrightarrow> container_built c \<Longrightarrow> container_built (handle_value v c)"
proof (cases c)
  case (In_object ms k)
  assume "json_built v" "container_built c"
  with In_object object_put_set [of k v ms] object_put_sorted [of ms k v] show ?thesis by auto
qed auto

lemma container_value_built: "container_built c \<Longrightarrow> json_built (container_value c)"
  by (cases c) auto

lemma set_key_built [simp]: "container_built (set_key k c) = container_built c"
  by (cases c) auto

lemma new_container_built: "container_built (In_array [])" "container_built (In_object [] k)"
  by (simp_all add: sorted_members_def)

lemma parse_value_built:
  "parse_value fl t s st = Inr (v, r) \<Longrightarrow> list_all container_built st \<Longrightarrow> json_built v"
  "evaluate_state fl w s st = Inr (v, r) \<Longrightarrow> list_all container_built st \<Longrightarrow> json_built w \<Longrightarrow> json_built v"
proof (induction fl t s st and fl w s st rule: parse_value_evaluate_state.induct)
qed (auto simp: syntax_error_def new_container_built sorted_members_def handle_value_built container_value_built
      simp del: handle_value.simps container_built.simps container_value.simps set_key.simps
      split: prod.splits sum.splits if_splits)

end
