(* ===== verification/Json_Serializer.thy ===== *)
theory Json_Serializer
  imports Json_Parser
begin

text \<open>
  \<open>json::dump()\<close> of \<open>json.hpp\<close>: class \<open>serializer\<close> as the program uses it, without pretty-printing
  and with the strict handling of invalid UTF-8 (an exception). Escaping to ASCII is a parameter, as
  in the code. The text of a floating-point number comes from \<open>floats\<close>.
\<close>

section \<open>UTF-8\<close>

definition UTF8_ACCEPT :: nat where "UTF8_ACCEPT = 0"

definition UTF8_REJECT :: nat where "UTF8_REJECT = 1"

text \<open>
  The table of \<open>decode\<close>: the types of the bytes 00 to DF (runs of equal entries written as such)
  and E0 to FF, then the transitions of the states 0 to 8, sixteen entries each.
\<close>

definition utf8d_low :: "nat list" where
  "utf8d_low =
     replicate 128 0
     @ replicate 16 1 @ replicate 16 9
     @ replicate 32 7
     @ [8, 8] @ replicate 30 2"

definition utf8d_high :: "nat list" where
  "utf8d_high =
     [0xA, 3, 3, 3, 3, 3, 3, 3, 3, 3, 3, 3, 3, 4, 3, 3,
      0xB, 6, 6, 6, 5, 8, 8, 8, 8, 8, 8, 8, 8, 8, 8, 8]"

definition utf8d_states :: "nat list" where
  "utf8d_states =
     [0, 1, 2, 3, 5, 8, 7, 1, 1, 1, 4, 6, 1, 1, 1, 1,
      1, 1, 1, 1, 1, 1, 1, 1, 1, 1, 1, 1, 1, 1, 1, 1,
      1, 0, 1, 1, 1, 1, 1, 0, 1, 0, 1, 1, 1, 1, 1, 1,
      1, 2, 1, 1, 1, 1, 1, 2, 1, 2, 1, 1, 1, 1, 1, 1,
      1, 1, 1, 1, 1, 1, 1, 2, 1, 1, 1, 1, 1, 1, 1, 1,
      1, 2, 1, 1, 1, 1, 1, 1, 1, 2, 1, 1, 1, 1, 1, 1,
      1, 1, 1, 1, 1, 1, 1, 3, 1, 3, 1, 1, 1, 1, 1, 1,
      1, 3, 1, 1, 1, 1, 1, 3, 1, 3, 1, 1, 1, 1, 1, 1,
      1, 3, 1, 1, 1, 1, 1, 1, 1, 1, 1, 1, 1, 1, 1, 1]"

definition utf8d :: "nat list" where
  "utf8d = utf8d_low @ utf8d_high @ utf8d_states"

definition decode :: "nat \<Rightarrow> nat \<Rightarrow> nat \<Rightarrow> nat \<times> nat" where
  "decode state codep byte =
     (let type = utf8d ! byte
      in (utf8d ! (256 + state * 16 + type),
          if state \<noteq> UTF8_ACCEPT then (byte AND 0x3F) OR take_bit 32 (push_bit 6 codep)
          else drop_bit type 0xFF AND byte))"

section \<open>Strings\<close>

definition backslash_u :: "nat \<Rightarrow> string" where
  "backslash_u n = [CHR 0x5C, CHR ''u''] @ hex_setw 4 n"

text \<open>What is written when a code point is complete; \<open>c\<close> is its last byte.\<close>

definition escape_codepoint :: "bool \<Rightarrow> nat \<Rightarrow> char \<Rightarrow> string" where
  "escape_codepoint ensure_ascii codepoint c =
     (if codepoint = 0x08 then [CHR 0x5C, CHR ''b'']
      else if codepoint = 0x09 then [CHR 0x5C, CHR ''t'']
      else if codepoint = 0x0A then [CHR 0x5C, CHR ''n'']
      else if codepoint = 0x0C then [CHR 0x5C, CHR ''f'']
      else if codepoint = 0x0D then [CHR 0x5C, CHR ''r'']
      else if codepoint = 0x22 then [CHR 0x5C, CHR 0x22]
      else if codepoint = 0x5C then [CHR 0x5C, CHR 0x5C]
      else if codepoint \<le> 0x1F \<or> ensure_ascii \<and> 0x7F \<le> codepoint then
        (if codepoint \<le> 0xFFFF then backslash_u codepoint
         else backslash_u (take_bit 16 (0xD7C0 + drop_bit 10 codepoint))
                @ backslash_u (take_bit 16 (0xDC00 + (codepoint AND 0x3FF))))
      else [c])"

definition hex_bytes :: "nat \<Rightarrow> string" where
  "hex_bytes byte =
     (let nibble_to_hex = ''0123456789ABCDEF'' in [nibble_to_hex ! (byte div 16), nibble_to_hex ! (byte mod 16)])"

text \<open>The loop of \<open>dump_escaped\<close> from index \<open>i\<close>; \<open>prev\<close> is the byte before.\<close>

fun dump_bytes :: "bool \<Rightarrow> nat \<Rightarrow> nat \<Rightarrow> nat \<Rightarrow> nat \<Rightarrow> string \<Rightarrow> string result" where
  "dump_bytes ensure_ascii state codep i prev [] =
     (if state = UTF8_ACCEPT then Inr []
      else Inl (Throw (Json_Type_Error 316 (''incomplete UTF-8 string; last byte: 0x'' @ hex_bytes prev))))"
| "dump_bytes ensure_ascii state codep i prev (c # s) =
     (let (state, codep) = decode state codep (code c)
      in if state = UTF8_ACCEPT then
           bind_result (dump_bytes ensure_ascii state codep (Suc i) (code c) s) (\<lambda>out.
           Inr (escape_codepoint ensure_ascii codep c @ out))
         else if state = UTF8_REJECT then
           Inl (Throw (Json_Type_Error 316
             (''invalid UTF-8 byte at index '' @ to_string i @ '': 0x'' @ hex_bytes (code c))))
         else
           bind_result (dump_bytes ensure_ascii state codep (Suc i) (code c) s) (\<lambda>out.
           Inr ((if ensure_ascii then [] else [c]) @ out)))"

definition dump_escaped :: "bool \<Rightarrow> string \<Rightarrow> string result" where
  "dump_escaped ensure_ascii s = dump_bytes ensure_ascii UTF8_ACCEPT 0 0 0 s"

section \<open>Integers\<close>

function count_digits :: "nat \<Rightarrow> nat" where
  "count_digits x =
     (if x < 10 then 1 else if x < 100 then 2 else if x < 1000 then 3 else if x < 10000 then 4
      else 4 + count_digits (x div 10000))"
  by pat_completeness auto
termination by (relation "measure id") auto

declare count_digits.simps [simp del]

definition digits_to_99 :: "nat \<Rightarrow> char \<times> char" where
  "digits_to_99 i = (digit_char (i div 10), digit_char (i mod 10))"

text \<open>Two digits at a time, backwards from position \<open>p\<close> of the buffer.\<close>

function fill_digits :: "nat \<Rightarrow> nat \<Rightarrow> string \<Rightarrow> string" where
  "fill_digits p abs_value buf =
     (if 100 \<le> abs_value then
        (let (d0, d1) = digits_to_99 (abs_value mod 100)
         in fill_digits (p - 2) (abs_value div 100) (buf[p - 1 := d1, p - 2 := d0]))
      else if 10 \<le> abs_value then
        (let (d0, d1) = digits_to_99 abs_value in buf[p - 1 := d1, p - 2 := d0])
      else buf[p - 1 := digit_char abs_value])"
  by pat_completeness auto
termination by (relation "measure (\<lambda>(p, n, buf). n)") auto

declare fill_digits.simps [simp del]

definition dump_unsigned :: "string \<Rightarrow> 64 word \<Rightarrow> string" where
  "dump_unsigned number_buffer x =
     (if x = 0 then ''0''
      else let n_chars = count_digits (unat x)
           in take n_chars (fill_digits n_chars (unat x) number_buffer))"

definition remove_sign :: "64 word \<Rightarrow> 64 word" where
  "remove_sign x = - (x + 1) + 1"

definition dump_integer :: "string \<Rightarrow> 64 word \<Rightarrow> string" where
  "dump_integer number_buffer x =
     (if x = 0 then ''0''
      else if sint x < 0 then
        (let abs_value = remove_sign x; n_chars = 1 + count_digits (unat abs_value)
         in take n_chars (fill_digits n_chars (unat abs_value) (number_buffer[0 := CHR ''-''])))
      else let n_chars = count_digits (unat x)
           in take n_chars (fill_digits n_chars (unat x) number_buffer))"

definition fresh_buffer :: string where
  "fresh_buffer = replicate 64 (CHR 0x00)"

section \<open>Values\<close>

definition dump_float :: "floats \<Rightarrow> double \<Rightarrow> string" where
  "dump_float fl d = (if \<not> isfinite d then ''null'' else to_chars fl d)"

text \<open>
  Binary values are written as objects; \<open>colon\<close> and \<open>comma\<close> are the separators. The number routine
  at the type of a byte.
\<close>

definition dump_byte :: "8 word \<Rightarrow> string" where
  "dump_byte b = dump_unsigned fresh_buffer (ucast b)"

fun dump_binary_bytes :: "string \<Rightarrow> 8 word list \<Rightarrow> string" where
  "dump_binary_bytes comma [] = []"
| "dump_binary_bytes comma (b # bs) =
     (if bs = [] then dump_byte b else dump_byte b @ comma @ dump_binary_bytes comma bs)"

definition dump_subtype :: "64 word option \<Rightarrow> string" where
  "dump_subtype subtype = (case subtype of Some n \<Rightarrow> dump_unsigned fresh_buffer n | None \<Rightarrow> ''null'')"

definition quoted :: "string \<Rightarrow> string" where
  "quoted s = [CHR 0x22] @ s @ [CHR 0x22]"

fun dump_value :: "floats \<Rightarrow> bool \<Rightarrow> json \<Rightarrow> string result"
  and dump_members :: "floats \<Rightarrow> bool \<Rightarrow> (string \<times> json) list \<Rightarrow> string result"
  and dump_elements :: "floats \<Rightarrow> bool \<Rightarrow> json list \<Rightarrow> string result" where
  "dump_value fl ea (J_object ms) =
     (if ms = [] then Inr ''{}''
      else bind_result (dump_members fl ea ms) (\<lambda>out. Inr (''{'' @ out @ ''}'')))"
| "dump_value fl ea (J_array xs) =
     (if xs = [] then Inr ''[]''
      else bind_result (dump_elements fl ea xs) (\<lambda>out. Inr (''['' @ out @ '']'')))"
| "dump_value fl ea (J_string s) =
     bind_result (dump_escaped ea s) (\<lambda>out. Inr ([CHR 0x22] @ out @ [CHR 0x22]))"
| "dump_value fl ea (J_boolean b) = Inr (if b then ''true'' else ''false'')"
| "dump_value fl ea (J_integer n) = Inr (dump_integer fresh_buffer n)"
| "dump_value fl ea (J_unsigned n) = Inr (dump_unsigned fresh_buffer n)"
| "dump_value fl ea (J_float d) = Inr (dump_float fl d)"
| "dump_value fl ea J_null = Inr ''null''"
| "dump_value fl ea (J_binary bytes subtype) =
     Inr (''{'' @ quoted ''bytes'' @ '':['' @ dump_binary_bytes '','' bytes @ ''],'' @ quoted ''subtype'' @ '':''
       @ dump_subtype subtype @ ''}'')"
| "dump_value fl ea J_discarded = Inr ''<discarded>''"
| "dump_members fl ea [] = Inr []"
| "dump_members fl ea ((k, v) # ms) =
     bind_result (dump_escaped ea k) (\<lambda>key.
     bind_result (dump_value fl ea v) (\<lambda>out.
     if ms = [] then Inr ([CHR 0x22] @ key @ [CHR 0x22, CHR '':''] @ out)
     else bind_result (dump_members fl ea ms) (\<lambda>rest.
          Inr ([CHR 0x22] @ key @ [CHR 0x22, CHR '':''] @ out @ '','' @ rest))))"
| "dump_elements fl ea [] = Inr []"
| "dump_elements fl ea (x # xs) =
     bind_result (dump_value fl ea x) (\<lambda>out.
     if xs = [] then Inr out
     else bind_result (dump_elements fl ea xs) (\<lambda>rest. Inr (out @ '','' @ rest)))"

definition json_dump :: "floats \<Rightarrow> json \<Rightarrow> string result" where
  "json_dump fl j = dump_value fl False j"

end
