(* ===== verification/Central_Http.thy ===== *)
theory Central_Http
  imports Central_DB Json_Serializer
begin

text \<open>
  The central server: the routes and handlers of \<open>central_server/main.cpp\<close> and the part of
  \<open>httplib.h\<close> that dispatches a request to them, turns exceptions into answers and completes the
  status. A request is its method, its path and its body, read from the connection; headers, ranges
  and keep-alive are in \<open>Http_Connection\<close>. Requests are handled one after the other here; \<open>Central_Threads\<close> has the threads.
\<close>

section \<open>Requests, answers and the state of the server\<close>

record request =
  req_method :: string
  req_path :: string
  req_body :: string

definition http_get :: "string \<Rightarrow> request" where
  "http_get path = \<lparr>req_method = ''GET'', req_path = path, req_body = []\<rparr>"

definition http_post :: "string \<Rightarrow> string \<Rightarrow> request" where
  "http_post path body = \<lparr>req_method = ''POST'', req_path = path, req_body = body\<rparr>"

record response =
  res_status :: int
  res_body :: string
  res_content_type :: string

definition fresh_response :: response where
  "fresh_response = \<lparr>res_status = -1, res_body = [], res_content_type = []\<rparr>"

definition set_content :: "string \<Rightarrow> string \<Rightarrow> response \<Rightarrow> response" where
  "set_content s content_type res = res\<lparr>res_body := s, res_content_type := content_type\<rparr>"

text \<open>The database and the signalling store, a \<open>std::map\<close> from identifiers to JSON.\<close>

record central =
  db :: database
  signal_store :: "(string \<times> json) list"

text \<open>The libraries around the handlers.\<close>

record central_env =
  env_floats :: floats
  env_postgres :: postgres

definition signal_find :: "string \<Rightarrow> central \<Rightarrow> json option" where
  "signal_find i c = object_find i (signal_store c)"

definition signal_put :: "string \<Rightarrow> json \<Rightarrow> central \<Rightarrow> central" where
  "signal_put i j c = c\<lparr>signal_store := object_put i j (signal_store c)\<rparr>"

interpretation signals: dictionary signal_find signal_put
  by unfold_locales (simp add: signal_find_def signal_put_def object_find_put)

text \<open>What a handler leaves: an exception that escapes it, the response and the state.\<close>

type_synonym handled = "fault option \<times> response \<times> central"

section \<open>Handlers\<close>

text \<open>GET /lookup\<close>

definition handle_lookup :: "central_env \<Rightarrow> string \<Rightarrow> response \<Rightarrow> central \<Rightarrow> handled" where
  "handle_lookup env secret res c =
     (case lookup_transfer (env_postgres env) secret (db c) of
        Inl e \<Rightarrow> (Some e, res, c)
      | Inr found \<Rightarrow> (None, set_content (if found then ''True'' else ''False'') ''text/plain'' res, c))"

text \<open>GET /getfile: an exception is logged and nothing else.\<close>

definition handle_getfile :: "central_env \<Rightarrow> string \<Rightarrow> response \<Rightarrow> central \<Rightarrow> handled" where
  "handle_getfile env secret res c =
     (case get_transfers_metadata (env_postgres env) secret (db c) of
        (r, d) \<Rightarrow>
          (case bind_result r (\<lambda>row. json_dump (env_floats env) (transfer_row_to_json row)) of
             Inr data \<Rightarrow> (None, (set_content data ''application/json'' res)\<lparr>res_status := 200\<rparr>, c\<lparr>db := d\<rparr>)
           | Inl (Throw _) \<Rightarrow> (None, res, c\<lparr>db := d\<rparr>)
           | Inl (Abort a) \<Rightarrow> (Some (Abort a), res, c\<lparr>db := d\<rparr>)))"

text \<open>POST /register\<close>

definition handle_register :: "central_env \<Rightarrow> string \<Rightarrow> response \<Rightarrow> central \<Rightarrow> handled" where
  "handle_register env body res c =
     (case bind_result (json_parse (env_floats env) body)
             (\<lambda>data. register_transfers (env_floats env) (env_postgres env) data (db c)) of
        Inr d \<Rightarrow> (None, res\<lparr>res_status := 201\<rparr>, c\<lparr>db := d\<rparr>)
      | Inl (Throw _) \<Rightarrow> (None, res, c)
      | Inl (Abort a) \<Rightarrow> (Some (Abort a), res, c))"

text \<open>POST /signal: the value is stored before it is dumped into the log line.\<close>

definition handle_signal_post :: "central_env \<Rightarrow> string \<Rightarrow> string \<Rightarrow> response \<Rightarrow> central \<Rightarrow> handled" where
  "handle_signal_post env i body res c =
     (case json_parse (env_floats env) body of
        Inr data \<Rightarrow>
          (let c1 = signal_put i data c
           in case json_dump (env_floats env) data of
                Inr _ \<Rightarrow> (None, res\<lparr>res_status := 200\<rparr>, c1)
              | Inl (Throw _) \<Rightarrow> (None, res\<lparr>res_status := 400\<rparr>, c1)
              | Inl (Abort a) \<Rightarrow> (Some (Abort a), res, c1))
      | Inl (Throw _) \<Rightarrow> (None, res\<lparr>res_status := 400\<rparr>, c)
      | Inl (Abort a) \<Rightarrow> (Some (Abort a), res, c))"

text \<open>GET /signal\<close>

definition handle_signal_get :: "central_env \<Rightarrow> string \<Rightarrow> response \<Rightarrow> central \<Rightarrow> handled" where
  "handle_signal_get env i res c =
     (case signal_find i c of
        Some j \<Rightarrow>
          (case json_dump (env_floats env) j of
             Inr s \<Rightarrow> (None, set_content s ''application/json'' res, c)
           | Inl e \<Rightarrow> (Some e, res, c))
      | None \<Rightarrow> (None, res\<lparr>res_status := 404\<rparr>, c))"

text \<open>GET /health\<close>

definition health_text :: string where
  "health_text =
     ''Your Server is healthy and running just fine brother!'' @ [CHR 0x0A] @ ''You''
       @ [CHR 0x27] @ ''ve come to right place!''"

definition handle_health :: "response \<Rightarrow> central \<Rightarrow> handled" where
  "handle_health res c = (None, set_content health_text ''text/plain'' res, c)"

section \<open>Routes\<close>

text \<open>
  The patterns of the routes are a fixed path, or a fixed path followed by one or more of the characters
  \<open>[A-Za-z0-9\-]\<close>, which are the match.
\<close>

definition token_char :: "char \<Rightarrow> bool" where
  "token_char c =
     (let n = of_char c :: nat
      in 65 \<le> n \<and> n \<le> 90 \<or> 97 \<le> n \<and> n \<le> 122 \<or> 48 \<le> n \<and> n \<le> 57 \<or> n = 45)"

definition match_token :: "string \<Rightarrow> string \<Rightarrow> string option" where
  "match_token prefix path =
     (if take (length prefix) path = prefix then
        (let s = drop (length prefix) path
         in if s \<noteq> [] \<and> list_all token_char s then Some s else None)
      else None)"

definition match_path :: "string \<Rightarrow> string \<Rightarrow> string option" where
  "match_path fixed path = (if path = fixed then Some [] else None)"

type_synonym handlers =
  "((string \<Rightarrow> string option) \<times> (request \<Rightarrow> string \<Rightarrow> response \<Rightarrow> central \<Rightarrow> handled)) list"

definition get_handlers :: "central_env \<Rightarrow> handlers" where
  "get_handlers env =
     [(match_token ''/lookup/'', \<lambda>req. handle_lookup env),
      (match_token ''/getfile/'', \<lambda>req. handle_getfile env),
      (match_token ''/signal/'', \<lambda>req. handle_signal_get env),
      (match_path ''/health'', \<lambda>req s. handle_health)]"

definition post_handlers :: "central_env \<Rightarrow> handlers" where
  "post_handlers env =
     [(match_path ''/register'', \<lambda>req s. handle_register env (req_body req)),
      (match_token ''/signal/'', \<lambda>req s. handle_signal_post env s (req_body req))]"

section \<open>Dispatch\<close>

text \<open>The first matching handler; \<open>None\<close> when none matches.\<close>

fun dispatch_request :: "request \<Rightarrow> response \<Rightarrow> central \<Rightarrow> handlers \<Rightarrow> handled option" where
  "dispatch_request req res c [] = None"
| "dispatch_request req res c ((matcher, handler) # hs) =
     (case matcher (req_path req) of
        Some m \<Rightarrow> Some (handler req m res c)
      | None \<Rightarrow> dispatch_request req res c hs)"

text \<open>
  \<open>routing\<close>: no handler is registered for the other methods; an unknown one is a bad request. The
  response is the one left when nothing was routed.
\<close>

definition routing :: "central_env \<Rightarrow> request \<Rightarrow> response \<Rightarrow> central \<Rightarrow> handled option \<times> response" where
  "routing env req res c =
     (let m = req_method req
      in if m = ''GET'' \<or> m = ''HEAD'' then (dispatch_request req res c (get_handlers env), res)
         else if m = ''POST'' then (dispatch_request req res c (post_handlers env), res)
         else if m = ''PUT'' \<or> m = ''DELETE'' \<or> m = ''OPTIONS'' \<or> m = ''PATCH''
              then (dispatch_request req res c [], res)
         else (None, res\<lparr>res_status := 400\<rparr>))"

text \<open>The error handler and the exception handler of \<open>main\<close>; \<open>buf\<close> has \<open>BUFSIZ\<close> characters.\<close>

definition BUFSIZ :: nat where "BUFSIZ = 8192"

definition error_handler :: "response \<Rightarrow> response" where
  "error_handler res = set_content (''Error Status: '' @ to_string (nat (res_status res))) ''text/plain'' res"

definition exception_handler :: "central_env \<Rightarrow> exn \<Rightarrow> response \<Rightarrow> response" where
  "exception_handler env e res =
     (set_content (take (BUFSIZ - 1) (''Error 500: '' @ what_text (env_postgres env) e)) ''text/plain'' res)
       \<lparr>res_status := 500\<rparr>"

text \<open>\<open>write_response_core\<close>: the error handler has the last word on the body.\<close>

definition complete_response :: "response \<Rightarrow> response" where
  "complete_response res =
     (let res = (if 400 \<le> res_status res then error_handler res else res)
      in if res_body res \<noteq> [] \<and> res_content_type res = []
         then res\<lparr>res_content_type := ''text/plain''\<rparr> else res)"

definition write_response_core :: "request \<Rightarrow> response \<Rightarrow> response" where
  "write_response_core req res =
     (let res = complete_response res
      in if req_method req = ''HEAD'' then res\<lparr>res_body := []\<rparr> else res)"

text \<open>
  \<open>process_request\<close> from the routing on, without and with the completion of the response. \<open>Inl\<close>: the
  server process aborts.
\<close>

definition route_request ::
    "central_env \<Rightarrow> request \<Rightarrow> central \<Rightarrow> (response \<times> central) result" where
  "route_request env req c =
     (case routing env req fresh_response c of
        (Some (None, res, c1), _) \<Rightarrow>
          Inr (if res_status res = -1 then res\<lparr>res_status := 200\<rparr> else res, c1)
      | (Some (Some (Throw e), res, c1), _) \<Rightarrow> Inr (exception_handler env e res, c1)
      | (Some (Some (Abort a), res, c1), _) \<Rightarrow> Inl (Abort a)
      | (None, res) \<Rightarrow> Inr (if res_status res = -1 then res\<lparr>res_status := 404\<rparr> else res, c))"

definition process_request ::
    "central_env \<Rightarrow> request \<Rightarrow> central \<Rightarrow> (response \<times> central) result" where
  "process_request env req c =
     bind_result (route_request env req c) (\<lambda>(res, c1). Inr (write_response_core req res, c1))"

lemma process_request_cases:
  "process_request env req c =
     (case routing env req fresh_response c of
        (Some (None, res, c1), _) \<Rightarrow>
          Inr (write_response_core req (if res_status res = -1 then res\<lparr>res_status := 200\<rparr> else res), c1)
      | (Some (Some (Throw e), res, c1), _) \<Rightarrow>
          Inr (write_response_core req (exception_handler env e res), c1)
      | (Some (Some (Abort a), res, c1), _) \<Rightarrow> Inl (Abort a)
      | (None, res) \<Rightarrow>
          Inr (write_response_core req (if res_status res = -1 then res\<lparr>res_status := 404\<rparr> else res), c))"
  by (simp add: process_request_def route_request_def split: prod.split option.split fault.split)

text \<open>\<open>main\<close> up to \<open>listen\<close>.\<close>

definition central_main :: "central_env \<Rightarrow> string option \<Rightarrow> bool \<Rightarrow> database \<Rightarrow> central result" where
  "central_main env url opened d =
     bind_result (DB_init url opened d) (\<lambda>d.
     bind_result (create_transfers_table (env_postgres env) d) (\<lambda>d.
     Inr \<lparr>db = d, signal_store = []\<rparr>))"

text \<open>A sequence of requests.\<close>

definition central_step :: "central_env \<Rightarrow> request \<Rightarrow> central \<Rightarrow> (central \<times> response list) result" where
  "central_step env req c =
     bind_result (process_request env req c) (\<lambda>(res, c1). Inr (c1, [res]))"

end
