(* ===== verification/Rendezvous.thy ===== *)
theory Rendezvous
  imports Transfer_Types Central_Http
begin

text \<open>
  What the command-line program asks of the central server: the functions of
  \<open>cli_tool/include/utils.hpp\<close> that use an \<open>httplib::Client\<close>, and the hole punching. The client is a
  parameter: it takes a request and the state of the world and gives the response, or none when the
  request failed. Messages are left out.
\<close>

type_synonym 'w client = "request \<Rightarrow> 'w \<Rightarrow> response option \<times> 'w"

definition DEFAULT_PORT :: nat where "DEFAULT_PORT = 5173"

definition get_env :: "(string \<Rightarrow> string option) \<Rightarrow> string \<Rightarrow> string result" where
  "get_env getenv key =
     (case getenv key of
        None \<Rightarrow> Inl (Throw (Runtime_Error (''Missing environment variable: '' @ key)))
      | Some value \<Rightarrow> Inr value)"

section \<open>Transfer metadata\<close>

text \<open>\<open>PublicIP;LocalIP:LocalPort\<close>\<close>

definition pack_sender_ip :: "TRANSFERS \<Rightarrow> string" where
  "pack_sender_ip t =
     (if sender_local_ip t \<noteq> []
      then sender_ip t @ '';'' @ sender_local_ip t @ '':'' @ to_string (unat (sender_local_port t))
      else sender_ip t)"

text \<open>The three fields that come from the packed text.\<close>

definition unpack_sender_ip :: "string \<Rightarrow> (string \<times> string \<times> 32 word) result" where
  "unpack_sender_ip raw_ip =
     (case find_char (CHR '';'') raw_ip of
        Some semi \<Rightarrow>
          (let local_part = drop (semi + 1) raw_ip
           in case find_char (CHR '':'') local_part of
                Some colon \<Rightarrow>
                  bind_result (stoi (drop (colon + 1) local_part)) (\<lambda>p.
                  Inr (take semi raw_ip, take colon local_part, word_of_int p))
              | None \<Rightarrow> Inr (take semi raw_ip, local_part, of_nat DEFAULT_PORT))
      | None \<Rightarrow> Inr (raw_ip, [], 0))"

text \<open>The explicit fields, used when the packed text has no local address.\<close>

definition fallback_local :: "floats \<Rightarrow> json \<Rightarrow> (string \<times> 32 word) result" where
  "fallback_local fl data =
     bind_result
       (if json_contains ''sender_local_ip'' data then string_at data ''sender_local_ip'' else Inr []) (\<lambda>lip.
     bind_result
       (if json_contains ''sender_local_port'' data
        then bind_result (json_index ''sender_local_port'' data) (json_unsigned fl) else Inr 0) (\<lambda>lport.
     Inr (lip, lport)))"

definition transfer_metadata_from_json :: "floats \<Rightarrow> json \<Rightarrow> TRANSFERS result" where
  "transfer_metadata_from_json fl data =
     bind_result (string_at data ''id'') (\<lambda>i.
     bind_result (string_at data ''sender_ip'') (\<lambda>raw_ip.
     bind_result (unpack_sender_ip raw_ip) (\<lambda>(sip, lip, lport).
     bind_result (bind_result (json_index ''sender_port'' data) (json_unsigned fl)) (\<lambda>sport.
     bind_result (if lip = [] then fallback_local fl data else Inr (lip, lport)) (\<lambda>(lip, lport).
     bind_result (string_at data ''protocol'') (\<lambda>prot.
     bind_result (string_at data ''file_name'') (\<lambda>name.
     bind_result (bind_result (json_index ''file_size'' data) (json_size fl)) (\<lambda>size.
     bind_result (string_at data ''file_hash'') (\<lambda>hash.
     bind_result (string_at data ''token'') (\<lambda>tok.
     Inr \<lparr>transfer_id = i, sender_ip = sip, sender_port = sport, sender_local_ip = lip,
          sender_local_port = lport, protocol = prot, file_name = name, file_size = size,
          file_hash = hash, token = tok\<rparr>))))))))))"

definition look_up :: "'w client \<Rightarrow> string \<Rightarrow> 'w \<Rightarrow> bool \<times> 'w" where
  "look_up cl secret w =
     (case cl (http_get (''/lookup/'' @ secret)) w of
        (Some res, w1) \<Rightarrow> (res_body res = ''True'', w1)
      | (None, w1) \<Rightarrow> (False, w1))"

text \<open>The status of the response is not looked at.\<close>

definition get_transfer_metadata :: "floats \<Rightarrow> 'w client \<Rightarrow> string \<Rightarrow> 'w \<Rightarrow> TRANSFERS result \<times> 'w" where
  "get_transfer_metadata fl cl secret w =
     (case cl (http_get (''/getfile/'' @ secret)) w of
        (Some res, w1) \<Rightarrow> (bind_result (json_parse fl (res_body res)) (transfer_metadata_from_json fl), w1)
      | (None, w1) \<Rightarrow>
          (Inl (Throw (Runtime_Error
             ''[GET TRANSFER METADATA] Error getting metadata for the transfer'')), w1))"

definition registration_payload :: "TRANSFERS \<Rightarrow> json" where
  "registration_payload t =
     json_of_pairs
       [(''id'', J_string (transfer_id t)),
        (''sender_ip'', J_string (pack_sender_ip t)),
        (''sender_port'', json_of_unsigned (sender_port t)),
        (''sender_local_ip'', J_string (sender_local_ip t)),
        (''sender_local_port'', json_of_unsigned (sender_local_port t)),
        (''protocol'', J_string (protocol t)),
        (''file_name'', J_string (file_name t)),
        (''file_size'', json_of_unsigned (file_size t)),
        (''file_hash'', J_string (file_hash t)),
        (''token'', J_string (token t))]"

text \<open>The response is not looked at.\<close>

definition register_transfer :: "floats \<Rightarrow> 'w client \<Rightarrow> TRANSFERS \<Rightarrow> 'w \<Rightarrow> unit result \<times> 'w" where
  "register_transfer fl cl t w =
     (case json_dump fl (registration_payload t) of
        Inl e \<Rightarrow> (Inl e, w)
      | Inr body \<Rightarrow> (Inr (), snd (cl (http_post ''/register'' body) w)))"

section \<open>Signalling\<close>

definition signal_payload :: "PublicEndpoint \<Rightarrow> json" where
  "signal_payload ep =
     json_of_pairs
       [(''public_ip'', J_string (ip ep)),
        (''public_port'', json_of_unsigned (port ep)),
        (''local_ip'', J_string (local_ip ep)),
        (''local_port'', json_of_unsigned (local_port ep))]"

definition signal_receiver_endpoint ::
    "floats \<Rightarrow> 'w client \<Rightarrow> string \<Rightarrow> PublicEndpoint \<Rightarrow> 'w \<Rightarrow> unit result \<times> 'w" where
  "signal_receiver_endpoint fl cl i ep w =
     (case json_dump fl (signal_payload ep) of
        Inl e \<Rightarrow> (Inl e, w)
      | Inr body \<Rightarrow> (Inr (), snd (cl (http_post (''/signal/'' @ i) body) w)))"

text \<open>The body of the \<open>try\<close> block. The value is not constant: a missing key reads as null.\<close>

definition endpoint_from_json :: "floats \<Rightarrow> json \<Rightarrow> PublicEndpoint result" where
  "endpoint_from_json fl data =
     bind_result (json_index_mutable ''public_ip'' data) (\<lambda>(v, data).
     bind_result (json_string v) (\<lambda>a.
     bind_result (json_index_mutable ''public_port'' data) (\<lambda>(v, data).
     bind_result (json_unsigned fl v) (\<lambda>p.
     bind_result
       (if json_contains ''local_ip'' data
        then bind_result (json_index_mutable ''local_ip'' data) (\<lambda>(v, _). json_string v) else Inr []) (\<lambda>la.
     bind_result
       (if json_contains ''local_port'' data
        then bind_result (json_index_mutable ''local_port'' data) (\<lambda>(v, _). json_unsigned fl v)
        else Inr 0) (\<lambda>lp.
     Inr \<lparr>ip = a, port = p, local_ip = la, local_port = lp\<rparr>))))))"

text \<open>One request of the loop: an endpoint, or none when the loop goes on.\<close>

definition poll_once :: "floats \<Rightarrow> 'w client \<Rightarrow> string \<Rightarrow> 'w \<Rightarrow> PublicEndpoint option result \<times> 'w" where
  "poll_once fl cl i w =
     (case cl (http_get (''/signal/'' @ i)) w of
        (Some res, w1) \<Rightarrow>
          (if res_status res = 200
           then catch_exn
                  (bind_result (json_parse fl (res_body res)) (\<lambda>data.
                   bind_result (endpoint_from_json fl data) (\<lambda>ep. Inr (Some ep))))
                  (\<lambda>_. Inr None)
           else Inr None, w1)
      | (None, w1) \<Rightarrow> (Inr None, w1))"

fun poll_rounds :: "nat \<Rightarrow> floats \<Rightarrow> 'w client \<Rightarrow> string \<Rightarrow> 'w \<Rightarrow> PublicEndpoint result \<times> 'w" where
  "poll_rounds 0 fl cl i w = (Inl (Throw (Runtime_Error ''No Signal Received! Timed out'')), w)"
| "poll_rounds (Suc n) fl cl i w =
     (case poll_once fl cl i w of
        (Inl e, w1) \<Rightarrow> (Inl e, w1)
      | (Inr (Some ep), w1) \<Rightarrow> (Inr ep, w1)
      | (Inr None, w1) \<Rightarrow> poll_rounds n fl cl i w1)"

definition poll_for_signal :: "floats \<Rightarrow> 'w client \<Rightarrow> string \<Rightarrow> 'w \<Rightarrow> PublicEndpoint result \<times> 'w" where
  "poll_for_signal = poll_rounds 30"

section \<open>Hole punching\<close>

text \<open>\<open>make_address\<close> of the socket library throws on text that is no address.\<close>

definition punch_candidates :: "(string \<Rightarrow> address result) \<Rightarrow> PublicEndpoint \<Rightarrow> endpoint list result" where
  "punch_candidates make_address peer =
     bind_result (make_address (ip peer)) (\<lambda>a.
     if local_ip peer \<noteq> [] \<and> local_port peer \<noteq> 0
     then bind_result (make_address (local_ip peer)) (\<lambda>l.
          Inr [Endpoint a (port peer), Endpoint l (local_port peer)])
     else Inr [Endpoint a (port peer)])"

text \<open>The datagrams it sends; \<open>Inl\<close> only where nothing catches the fault.\<close>

definition perform_udp_hole_punch ::
    "(string \<Rightarrow> address result) \<Rightarrow> PublicEndpoint \<Rightarrow> (string \<times> endpoint) list result" where
  "perform_udp_hole_punch make_address peer =
     catch_exn
       (bind_result (punch_candidates make_address peer) (\<lambda>candidates.
        Inr (concat (replicate 5 (map (\<lambda>ep. (''PUNCH'', ep)) candidates)))))
       (\<lambda>_. Inr [])"

section \<open>The server as the other end\<close>

text \<open>The client of one program and the central server, when no request is lost.\<close>

definition direct :: "central_env \<Rightarrow> central client" where
  "direct env req c =
     (case process_request env req c of
        Inr (res, c1) \<Rightarrow> (Some res, c1)
      | Inl _ \<Rightarrow> (None, c))"

end
