(* ===== verification/Server.thy ===== *)
theory Server
  imports Sender_Session Rendezvous
begin

text \<open>
  The socket loop around a session: class \<open>Server\<close> of \<open>cli_tool/src/server.cpp\<close>. What completes
  \<open>async_receive_from\<close> is an input. The state is the session, the random generator and the world the
  HTTP client talks to, which a session asks about tokens.
\<close>

section \<open>One datagram\<close>

text \<open>The token that \<open>handle_packet\<close> asks the central server about, if it asks at all.\<close>

definition asked_token :: "codec \<Rightarrow> string \<Rightarrow> session \<Rightarrow> string option" where
  "asked_token c data s =
     (if m_state s \<noteq> WaitingHello then None
      else
        (case parse_handshake c data of
           Some (HP_client_hello hello) \<Rightarrow>
             if ch_version hello = PROTOCOL_VERSION_1 \<and> ch_token hello \<noteq> [] then Some (ch_token hello) else None
         | _ \<Rightarrow> None))"

record ('r, 'w) server_env =
  sv_session :: "'r session_env"
  sv_floats :: floats
  sv_client :: "'w client"

type_synonym ('r, 'w) served = "session \<times> 'r \<times> 'w"

text \<open>\<open>handle_packet\<close> with \<open>Utils::get_transfer_metadata\<close> asking the world as it is now.\<close>

definition metadata_in :: "('r, 'w) server_env \<Rightarrow> 'w \<Rightarrow> 'r session_env" where
  "metadata_in env w =
     (sv_session env)\<lparr>se_metadata :=
        (\<lambda>tok. fst (get_transfer_metadata (sv_floats env) (sv_client env) tok w))\<rparr>"

definition session_packet ::
    "('r, 'w) server_env \<Rightarrow> string \<times> endpoint \<Rightarrow> ('r, 'w) served \<Rightarrow> (('r, 'w) served \<times> sends) result" where
  "session_packet env d st =
     (case st of
        (s, r, w) \<Rightarrow>
          bind_result (handle_packet (metadata_in env w) d (s, r)) (\<lambda>((s1, r1), out).
          let w1 = (case asked_token (se_codec (sv_session env)) (fst d) s of
                      Some tok \<Rightarrow> snd (get_transfer_metadata (sv_floats env) (sv_client env) tok w)
                    | None \<Rightarrow> w)
          in Inr ((s1, r1, w1), out)))"

section \<open>The receive loop\<close>

datatype error_code = Operation_Aborted | Connection_Reset | Other_Error

datatype completion = Received string endpoint | Failed error_code

text \<open>
  The completion handler of \<open>do_receive\<close>: the flag says whether it calls \<open>do_receive\<close> again. A
  datagram longer than the buffer is cut; an empty one is reported as an error and the loop goes on.
\<close>

definition do_receive ::
    "('r, 'w) server_env \<Rightarrow> completion \<Rightarrow> ('r, 'w) served \<Rightarrow> ((bool \<times> ('r, 'w) served) \<times> sends) result" where
  "do_receive env ev st =
     (case ev of
        Received bytes sender \<Rightarrow>
          (let data = take MAX_PACKET_SIZE bytes
           in if data = [] then Inr ((True, st), [])
              else
                bind_result (session_packet env (data, sender) st) (\<lambda>(st1, out).
                Inr ((\<not> is_closed (fst st1), st1), out)))
      | Failed ec \<Rightarrow> Inr ((ec = Connection_Reset, st), []))"

text \<open>\<open>io.run()\<close> over the completions so far: the flag is true while a receive is pending.\<close>

fun io_run ::
    "('r, 'w) server_env \<Rightarrow> completion list \<Rightarrow> ('r, 'w) served \<Rightarrow> ((bool \<times> ('r, 'w) served) \<times> sends) result" where
  "io_run env [] st = Inr ((True, st), [])"
| "io_run env (ev # evs) st =
     bind_result (do_receive env ev st) (\<lambda>((pending, st1), out).
     if pending then bind_result (io_run env evs st1) (\<lambda>(res, out1). Inr (res, out @ out1))
     else Inr ((False, st1), out))"

section \<open>Starting\<close>

text \<open>
  \<open>Server::run\<close> up to the first \<open>do_receive\<close>: the session, talking to the public endpoint of the
  peer, and the punches sent to it.
\<close>

definition Server_run ::
    "floats \<Rightarrow> 'w client \<Rightarrow> (string \<Rightarrow> address result) \<Rightarrow> string \<Rightarrow> string \<Rightarrow> 'w
       \<Rightarrow> (session \<times> sends) result \<times> 'w" where
  "Server_run fl cl make_address file_path i w =
     (case poll_for_signal fl cl i w of
        (Inl e, w1) \<Rightarrow> (Inl e, w1)
      | (Inr peer_ep, w1) \<Rightarrow>
          (bind_result (make_address (ip peer_ep)) (\<lambda>a.
           bind_result (perform_udp_hole_punch make_address peer_ep) (\<lambda>punches.
           Inr (Session_new (Endpoint a (port peer_ep)) file_path, punches))),
           w1))"

section \<open>Lemmas\<close>

text \<open>A session asks about one token at most, so the world it asks decides the step.\<close>

lemma handle_packet_asks:
  assumes "\<And>tok. asked_token (se_codec env) data s = Some tok \<Longrightarrow> f tok = g tok"
  shows "handle_packet (env\<lparr>se_metadata := f\<rparr>) (data, sender) (s, r) =
    handle_packet (env\<lparr>se_metadata := g\<rparr>) (data, sender) (s, r)"
proof -
  have control: "handle_control_packet (env\<lparr>se_metadata := f\<rparr>) data s =
      handle_control_packet (env\<lparr>se_metadata := g\<rparr>) data s"
    by (simp add: handle_control_packet_def handle_get_request_def Let_def split: option.split ControlPacket.split)
  have "answer_client_hello (env\<lparr>se_metadata := f\<rparr>) = answer_client_hello (env\<lparr>se_metadata := g\<rparr>)"
    by (intro ext) (simp add: answer_client_hello_def Let_def)
  then have handshake: "handle_handshake_packet (env\<lparr>se_metadata := f\<rparr>) data (s\<lparr>m_remote_endpoint := sender\<rparr>) r =
      handle_handshake_packet (env\<lparr>se_metadata := g\<rparr>) data (s\<lparr>m_remote_endpoint := sender\<rparr>) r"
    if "m_state s = WaitingHello"
    using assms that
    by (auto simp: asked_token_def handle_handshake_packet_def validate_token_def
          Let_def cong: if_cong split: option.split HandshakePacket.split)
  show ?thesis by (simp add: handle_packet.simps control handshake)
qed

lemma metadata_in_simps [simp]:
  "se_codec (metadata_in env w) = se_codec (sv_session env)"
  "se_sodium (metadata_in env w) = se_sodium (sv_session env)"
  "se_open (metadata_in env w) = se_open (sv_session env)"
  "se_metadata (metadata_in env w) tok = fst (get_transfer_metadata (sv_floats env) (sv_client env) tok w)"
  by (simp_all add: metadata_in_def)

text \<open>Once nothing is pending the session is closed or the socket failed.\<close>

lemma do_receive_ends:
  assumes "do_receive env ev st = Inr ((False, st1), out)"
  shows "is_closed (fst st1) \<or> (\<exists>ec. ev = Failed ec \<and> ec \<noteq> Connection_Reset)"
  using assms
  by (auto simp: do_receive_def bind_result_Inr_iff Let_def split: completion.splits if_splits prod.splits)

lemma io_run_append:
  "io_run env (evs @ rest) st =
     bind_result (io_run env evs st) (\<lambda>((pending, st1), out).
     if pending then bind_result (io_run env rest st1) (\<lambda>(res, out1). Inr (res, out @ out1))
     else Inr ((False, st1), out))"
proof (induction evs arbitrary: st)
  case Nil
  show ?case by (cases "io_run env rest st") auto
next
  case (Cons ev evs)
  show ?case
  proof (cases "do_receive env ev st")
    case (Inr x)
    obtain pending st1 out where x: "x = ((pending, st1), out)" by (metis surj_pair)
    show ?thesis
    proof (cases "pending \<and> (\<exists>y. io_run env evs st1 = Inr y)")
      case True
      then obtain p2 st2 out2 where "io_run env evs st1 = Inr ((p2, st2), out2)" by (metis surj_pair)
      with Inr x True Cons.IH [of st1] show ?thesis by (cases "io_run env rest st2") auto
    next
      case False
      then show ?thesis using Inr x Cons.IH [of st1] by (cases "io_run env evs st1") auto
    qed
  qed simp
qed

end
