(* ===== verification/File_Hash.thy ===== *)
theory File_Hash
  imports File_Stream
begin

text \<open>
  \<open>Crypto::compute_file_hash\<close> of \<open>cli_tool/include/crypto.hpp\<close>: a file is read in blocks of 4096
  bytes, fed to SHA-256 and the digest printed in hexadecimal. OpenSSL's SHA-256 is a parameter;
  \<open>sha_stream\<close> is its law that feeding two pieces is feeding their concatenation.
\<close>

record 'c sha256 =
  SHA256_Init :: 'c
  SHA256_Update :: "'c \<Rightarrow> string \<Rightarrow> 'c"
  SHA256_Final :: "'c \<Rightarrow> nat \<Rightarrow> 8 word"

definition SHA256_DIGEST_LENGTH :: nat where "SHA256_DIGEST_LENGTH = 32"

definition buffer_size :: nat where "buffer_size = 4096"

definition generate_token :: string where "generate_token = []"

text \<open>The reading loop: context, stream and buffer when a read comes up short.\<close>

function hash_blocks :: "'c sha256 \<Rightarrow> ifstream \<Rightarrow> 'c \<Rightarrow> 'c \<times> ifstream \<times> string" where
  "hash_blocks H f ctx =
     (let (buffer, f') = if_read buffer_size f
      in if \<not> if_fail f' then hash_blocks H f' (SHA256_Update H ctx (take (if_gcount f') buffer))
         else (ctx, f', buffer))"
  by pat_completeness auto
termination
  by (relation "measure (\<lambda>(H, f, ctx). length (if_contents f) - if_pos f)")
     (auto simp: if_read_def buffer_size_def Let_def split: if_splits)

declare hash_blocks.simps [simp del]

definition hex_digest :: "(nat \<Rightarrow> 8 word) \<Rightarrow> string" where
  "hex_digest hash = concat (map (\<lambda>i. hex_setw 2 (unat (hash i))) [0..<SHA256_DIGEST_LENGTH])"

definition compute_file_hash :: "'c sha256 \<Rightarrow> string option \<Rightarrow> string result" where
  "compute_file_hash H path_contents =
     (let f = ifstream_open path_contents
      in if \<not> if_open f then Inl (Throw (Runtime_Error ''[CRYPTO] Error opening file: ''))
         else
           let (ctx, f, buffer) = hash_blocks H f (SHA256_Init H);
               ctx = (if 0 < if_gcount f then SHA256_Update H ctx (take (if_gcount f) buffer) else ctx)
           in Inr (hex_digest (SHA256_Final H ctx)))"

section \<open>Lemmas\<close>

definition sha_stream :: "'c sha256 \<Rightarrow> bool" where
  "sha_stream H =
     (\<forall>ctx a b. SHA256_Update H (SHA256_Update H ctx a) b = SHA256_Update H ctx (a @ b))"

text \<open>The digest of a whole byte string, fed at once.\<close>

definition sha_of :: "'c sha256 \<Rightarrow> string \<Rightarrow> nat \<Rightarrow> 8 word" where
  "sha_of H s =
     SHA256_Final H (if s = [] then SHA256_Init H else SHA256_Update H (SHA256_Init H) s)"

definition feed :: "'c sha256 \<Rightarrow> 'c \<Rightarrow> string \<Rightarrow> 'c" where
  "feed H ctx s = (if s = [] then ctx else SHA256_Update H ctx s)"

lemma feed_feed: "sha_stream H \<Longrightarrow> feed H (feed H ctx a) b = feed H ctx (a @ b)"
  by (simp add: feed_def sha_stream_def)

lemma feed_nil [simp]: "feed H ctx [] = ctx"
  by (simp add: feed_def)

lemma hash_blocks_feed:
  "sha_stream H \<Longrightarrow> if_good f \<Longrightarrow> if_pos f \<le> length (if_contents f) \<Longrightarrow>
    (let (ctx', f', buffer) = hash_blocks H f ctx
     in feed H ctx' (take (if_gcount f') buffer) = feed H ctx (drop (if_pos f) (if_contents f)))"
proof (induction H f ctx rule: hash_blocks.induct)
  case (1 H f ctx)
  obtain buffer f' where rd: "if_read buffer_size f = (buffer, f')" by fastforce
  note good = if_read_good [OF "1.prems"(2), of buffer_size, unfolded rd, simplified]
  have g: "if_gcount f' = length buffer" and fc: "if_contents f' = if_contents f"
    using if_read_gcount [of buffer_size f] if_read_frame(2) [of buffer_size f] rd by simp_all
  show ?case
  proof (cases "if_fail f'")
    case True
    with good have "buffer = drop (if_pos f) (if_contents f)" by (simp add: min_def split: if_splits)
    with True rd g show ?thesis by (simp add: hash_blocks.simps [of H f])
  next
    case False
    then have len: "length buffer = buffer_size" using good by (auto simp: buffer_size_def)
    then have ne: "buffer \<noteq> []" by (auto simp: buffer_size_def)
    have eq: "hash_blocks H f ctx = hash_blocks H f' (feed H ctx buffer)"
      using False rd g ne by (simp add: hash_blocks.simps [of H f] feed_def)
    have "buffer @ drop (if_pos f') (if_contents f') = drop (if_pos f) (if_contents f)"
      using good fc len by (metis append_take_drop_id drop_drop add.commute)
    moreover have "if_good f'" "if_pos f' \<le> length (if_contents f')"
      using good fc len "1.prems"(3) by (auto simp: min_def split: if_splits)
    moreover have c1: "SHA256_Update H ctx (take (if_gcount f') buffer) = feed H ctx buffer"
      using g ne by (simp add: feed_def)
    ultimately have "let (ctx', g, b) = hash_blocks H f' (feed H ctx buffer)
        in feed H ctx' (take (if_gcount g) b) = feed H (feed H ctx buffer) (drop (if_pos f') (if_contents f'))"
      using "1.IH" [OF rd [symmetric] refl] "1.prems"(1) False by simp
    then show ?thesis
      using \<open>buffer @ drop (if_pos f') (if_contents f') = drop (if_pos f) (if_contents f)\<close>
      by (auto simp: eq feed_feed [OF "1.prems"(1)] split: prod.splits)
  qed
qed

lemma hash_blocks_gcount:
  "hash_blocks H f ctx = (ctx', f', buffer) \<Longrightarrow> if_gcount f' = length buffer"
proof (induction H f ctx rule: hash_blocks.induct)
  case (1 H f ctx)
  obtain b g where rd: "if_read buffer_size f = (b, g)" by fastforce
  then have "if_gcount g = length b" using if_read_gcount [of buffer_size f] by simp
  with 1 rd show ?case
    by (cases "if_fail g") (simp_all add: hash_blocks.simps [of H f])
qed

lemma length_concat_const:
  "(\<And>x. x \<in> set xs \<Longrightarrow> length (f x) = n) \<Longrightarrow> length (concat (map f xs)) = n * length xs"
  by (induction xs) auto

lemma concat_map_inj:
  "(\<And>x. x \<in> set xs \<Longrightarrow> length (f x) = n) \<Longrightarrow> (\<And>x. x \<in> set xs \<Longrightarrow> length (g x) = n) \<Longrightarrow>
     concat (map f xs) = concat (map g xs) \<longleftrightarrow> (\<forall>x \<in> set xs. f x = g x)"
  by (induction xs) auto

lemma length_hex_byte: "length (hex_setw 2 (unat (b :: 8 word))) = 2"
  using unsigned_less [of b] by (intro length_hex_setw) simp_all

lemma hex_byte_inj: "hex_setw 2 (unat (a :: 8 word)) = hex_setw 2 (unat b) \<longleftrightarrow> a = b"
  by (simp add: hexadecimal.enc_inj word_unat_eq_iff)

text \<open>Hashing in blocks hashes the whole contents.\<close>

lemma compute_file_hash_eq:
  assumes "sha_stream H"
  shows "compute_file_hash H (Some contents) = Inr (hex_digest (sha_of H contents))
     \<and> compute_file_hash H None = Inl (Throw (Runtime_Error ''[CRYPTO] Error opening file: ''))"
proof -
  obtain ctx f buffer where h: "hash_blocks H (ifstream_open (Some contents)) (SHA256_Init H)
      = (ctx, f, buffer)" using prod_cases3 by blast
  have "feed H ctx (take (if_gcount f) buffer) = feed H (SHA256_Init H) contents"
    using hash_blocks_feed [OF assms, of "ifstream_open (Some contents)" "SHA256_Init H"] h
    by (simp add: if_good_def)
  moreover have "if_gcount f = length buffer" using h by (rule hash_blocks_gcount)
  ultimately show ?thesis using h
    by (auto simp: compute_file_hash_def sha_of_def feed_def)
qed

section \<open>Properties\<close>

text \<open>
  C31: The hash of a file is the hexadecimal SHA-256 digest of its whole contents: reading in
  blocks neither drops nor repeats a byte, whatever the length of the file. A file that cannot
  be opened is an exception.
\<close>

theorem compute_file_hash_correct:
  assumes "sha_stream H"
  shows "compute_file_hash H f =
    (case f of
       Some contents \<Rightarrow> Inr (hex_digest (sha_of H contents))
     | None \<Rightarrow> Inl (Throw (Runtime_Error ''[CRYPTO] Error opening file: '')))"
  using compute_file_hash_eq [OF assms] by (cases f) auto

text \<open>A hash function for the witnesses: the context is the text so far, the digest its bytes.\<close>

definition toy_sha :: "string sha256" where
  "toy_sha = \<lparr>SHA256_Init = [], SHA256_Update = (\<lambda>ctx s. ctx @ s),
              SHA256_Final = (\<lambda>ctx i. if i < length ctx then of_char (ctx ! i) else 0)\<rparr>"

lemma toy_sha_stream: "sha_stream toy_sha"
  by (simp add: sha_stream_def toy_sha_def)

theorem compute_file_hash_correct_witness:
  "compute_file_hash toy_sha (Some (replicate 5000 (CHR ''x''))) =
     Inr (hex_digest (sha_of toy_sha (replicate 5000 (CHR ''x''))))"
  using compute_file_hash_correct [OF toy_sha_stream, of "Some (replicate 5000 (CHR ''x''))"] by simp

text \<open>
  A hash is 64 characters out of 0-9 and a-f, and two files have the same hash exactly when
  SHA-256 gives them the same 32 bytes: the textual form loses nothing of the digest.
\<close>

theorem file_hash_text:
  assumes "sha_stream H" "compute_file_hash H (Some a) = Inr ha" "compute_file_hash H (Some b) = Inr hb"
  shows "length ha = 64 \<and> list_all is_hex_char ha
     \<and> (ha = hb \<longleftrightarrow> (\<forall>i < SHA256_DIGEST_LENGTH. sha_of H a i = sha_of H b i))"
proof -
  from assms have ha: "ha = hex_digest (sha_of H a)" and hb: "hb = hex_digest (sha_of H b)"
    by (auto simp: compute_file_hash_eq)
  have "length ha = 2 * length [0..<SHA256_DIGEST_LENGTH]"
    unfolding ha hex_digest_def by (intro length_concat_const length_hex_byte)
  moreover have "list_all is_hex_char ha"
    using hex_setw_chars unfolding ha hex_digest_def by (fastforce simp: list_all_iff)
  moreover have "ha = hb \<longleftrightarrow> (\<forall>i < SHA256_DIGEST_LENGTH. sha_of H a i = sha_of H b i)"
    unfolding ha hb hex_digest_def
    by (subst concat_map_inj [where n = 2]) (auto simp: length_hex_byte hex_byte_inj)
  ultimately show ?thesis by (simp add: SHA256_DIGEST_LENGTH_def)
qed

theorem file_hash_text_witness:
  "length (hex_digest (sha_of toy_sha ''abc'')) = 64"
  using file_hash_text [OF toy_sha_stream, of "''abc''" _ "''abc''"]
    compute_file_hash_eq [OF toy_sha_stream, of "''abc''"] by blast

end
