(* ===== verification/Receiver.thy ===== *)
theory Receiver
  imports Wire File_Stream File_Hash Session_Crypto
begin

text \<open>
  The receiving side of a transfer: \<open>cli_tool/src/client.cpp\<close>. What the socket does is an input:
  one \<open>socket_event\<close> per call of \<open>recv_with_timeout\<close>. An operation returns the datagrams it sends,
  in order. The output file is the contents of a path on the disk, with the state of the stream
  that writes it.
\<close>

type_synonym datagrams = "(string \<times> endpoint) list"

section \<open>Receiving with a timeout\<close>

text \<open>
  What happens before the timer runs out: a datagram, an error reported by the socket, nothing. A
  datagram longer than the buffer is cut; after an error the call still waits for the timer.
\<close>

datatype socket_event = Datagram string endpoint | Receive_Error | Silence

fun recv_with_timeout :: "socket_event \<Rightarrow> (string \<times> endpoint) option" where
  "recv_with_timeout (Datagram bytes sender) = Some (take MAX_PACKET_SIZE bytes, sender)"
| "recv_with_timeout Receive_Error = None"
| "recv_with_timeout Silence = None"

section \<open>The handshake\<close>

definition client_hello_transcript :: "ClientHello \<Rightarrow> string" where
  "client_hello_transcript hello =
     ''client_hello'' @ to_string (version_number (ch_version hello)) @ ch_transfer_id hello
       @ ch_token hello @ ch_receiver_nonce hello
       @ long_term_public_key (ch_receiver_identity hello)
       @ ephemeral_public_key (ch_receiver_identity hello)"

definition sign_client_hello :: "'r sodium \<Rightarrow> ClientHello \<Rightarrow> IdentityKeyPair \<Rightarrow> string result" where
  "sign_client_hello S hello receiver_identity = sign S (client_hello_transcript hello) receiver_identity"

text \<open>\<open>build_peer_candidates\<close>: ports are narrowed to 16 bits; \<open>make_address\<close> may throw.\<close>

definition build_peer_candidates ::
    "(string \<Rightarrow> address result) \<Rightarrow> TRANSFERS \<Rightarrow> endpoint list result" where
  "build_peer_candidates make_address t =
     bind_result (make_address (sender_ip t)) (\<lambda>public.
     let peers = [Endpoint public (ucast (sender_port t))]
     in if sender_local_ip t \<noteq> [] \<and> sender_local_port t \<noteq> 0 then
          bind_result (make_address (sender_local_ip t)) (\<lambda>local.
          Inr (peers @ [Endpoint local (ucast (sender_local_port t))]))
        else Inr peers)"

text \<open>The client's hello packet, signed with a fresh identity.\<close>

definition build_client_hello :: "'r sodium \<Rightarrow> string \<Rightarrow> 'r \<Rightarrow> (ClientHello \<times> 'r) result" where
  "build_client_hello S tok r =
     bind_result (generate_identity_keypair S r) (\<lambda>(receiver_identity, r).
     bind_result (generate_ephemeral_keypair S r) (\<lambda>(receiver_ephemeral, r).
     bind_result (random_nonce S 32 r) (\<lambda>(receiver_nonce, r).
     let hello =
           \<lparr>ch_version = PROTOCOL_VERSION_1, ch_transfer_id = tok, ch_token = tok,
            ch_receiver_nonce = receiver_nonce,
            ch_receiver_identity = \<lparr>long_term_public_key = id_public_key receiver_identity,
                                    ephemeral_public_key = eph_public_key receiver_ephemeral\<rparr>,
            ch_receiver_signature = []\<rparr>
     in bind_result (sign_client_hello S hello receiver_identity) (\<lambda>sig.
        Inr (hello\<lparr>ch_receiver_signature := sig\<rparr>, r)))))"

text \<open>Whether a received datagram completes the handshake.\<close>

definition is_server_hello_for :: "codec \<Rightarrow> string \<Rightarrow> string \<Rightarrow> bool" where
  "is_server_hello_for c tok rx =
     (case parse_handshake c rx of
        Some (HP_server_hello sh) \<Rightarrow> sh_transfer_id sh = tok
      | _ \<Rightarrow> False)"

text \<open>
  The loop of \<open>perform_handshake\<close> from round \<open>i\<close>: the hello goes to every candidate, then one
  datagram is awaited. The second component lists what was sent.
\<close>

function handshake_rounds ::
    "codec \<Rightarrow> endpoint list \<Rightarrow> string \<Rightarrow> string \<Rightarrow> (nat \<Rightarrow> socket_event) \<Rightarrow> nat
       \<Rightarrow> endpoint option \<times> datagrams" where
  "handshake_rounds c peers bytes tok ev i =
     (if \<not> i < MAX_RETRIES then (None, [])
      else
        let out = map (\<lambda>p. (bytes, p)) peers;
            again = handshake_rounds c peers bytes tok ev (Suc i)
        in case recv_with_timeout (ev i) of
             Some (rx, sender) \<Rightarrow>
               if is_server_hello_for c tok rx then (Some sender, out)
               else (fst again, out @ snd again)
           | None \<Rightarrow> (fst again, out @ snd again))"
  by pat_completeness auto
termination
  by (relation "measure (\<lambda>(c, peers, bytes, tok, ev, i). MAX_RETRIES - i)") auto

declare handshake_rounds.simps [simp del]

definition perform_handshake ::
    "'r sodium \<Rightarrow> codec \<Rightarrow> endpoint list \<Rightarrow> string \<Rightarrow> (nat \<Rightarrow> socket_event) \<Rightarrow> 'r
       \<Rightarrow> ((endpoint option \<times> datagrams) \<times> 'r) result" where
  "perform_handshake S c peers tok ev r =
     bind_result (build_client_hello S tok r) (\<lambda>(hello, r).
     let bytes = snd (ser_handshake c (HP_client_hello hello))
     in Inr (handshake_rounds c peers bytes tok ev 0, r))"

section \<open>Requests and acknowledgements\<close>

definition build_get_request :: "codec \<Rightarrow> string \<Rightarrow> string" where
  "build_get_request c tid = snd (ser_control c (CP_get \<lparr>get_transfer_id = tid\<rparr>))"

definition send_ack :: "codec \<Rightarrow> endpoint \<Rightarrow> string \<Rightarrow> 64 word \<Rightarrow> bool \<times> datagrams" where
  "send_ack c peer tid off =
     (let (ok, ack_bytes) = ser_control c (CP_ack \<lparr>ack_transfer_id = tid, next_offset = off\<rparr>)
      in if \<not> ok then (False, []) else (True, [(ack_bytes, peer)]))"

section \<open>Receiving the file\<close>

record receiver =
  out_good :: bool
  out_file :: "string option"
  current_offset :: "64 word"
  retries :: nat

text \<open>The arguments of \<open>receive_file\<close> that stay the same in its loop.\<close>

record 'c receive_env =
  re_codec :: codec
  re_sha :: "'c sha256"
  re_peer :: endpoint
  re_transfer_id :: string
  re_expected_hash :: string
  re_get_bytes :: string

text \<open>\<open>out.seekp(off); out.write(payload)\<close>: an offset beyond the signed range breaks the stream.\<close>

definition write_chunk :: "64 word \<Rightarrow> string \<Rightarrow> receiver \<Rightarrow> receiver" where
  "write_chunk off p st =
     (if \<not> out_good st then st
      else if 2 ^ 63 \<le> unat off then st\<lparr>out_good := False\<rparr>
      else st\<lparr>out_file := map_option (write_at (unat off) p) (out_file st)\<rparr>)"

datatype loop_status = Continue | Return bool

definition ack_now :: "'c receive_env \<Rightarrow> receiver \<Rightarrow> datagrams" where
  "ack_now env st = snd (send_ack (re_codec env) (re_peer env) (re_transfer_id env) (current_offset st))"

text \<open>The three branches on a packet from the peer, then one turn of the loop.\<close>

definition on_data :: "'c receive_env \<Rightarrow> DataChunk \<Rightarrow> receiver \<Rightarrow> receiver \<times> datagrams" where
  "on_data env data st =
     (if data_transfer_id data \<noteq> re_transfer_id env then (st, [])
      else
        let off = data_offset data
        in if off = current_offset st then
             let st = (write_chunk off (payload data) st)
                       \<lparr>current_offset := current_offset st + of_nat (length (payload data))\<rparr>
             in (st, ack_now env st)
           else if off < current_offset st then (st, ack_now env st)
           else (st, []))"

definition on_done ::
    "'c receive_env \<Rightarrow> Done \<Rightarrow> receiver \<Rightarrow> (loop_status \<times> receiver \<times> datagrams) result" where
  "on_done env done st =
     (if done_transfer_id done \<noteq> re_transfer_id env then Inr (Continue, st, [])
      else if current_offset st \<noteq> final_size done then Inr (Continue, st, [])
      else
        bind_result (compute_file_hash (re_sha env) (out_file st)) (\<lambda>hash.
        if hash \<noteq> re_expected_hash env then Inr (Return False, st, [])
        else Inr (Return True, st, ack_now env st)))"

definition receive_step ::
    "'c receive_env \<Rightarrow> socket_event \<Rightarrow> receiver \<Rightarrow> (loop_status \<times> receiver \<times> datagrams) result" where
  "receive_step env ev st =
     (case recv_with_timeout ev of
        Some (rx, sender) \<Rightarrow>
          if sender \<noteq> re_peer env then Inr (Continue, st, [])
          else
            let st = st\<lparr>retries := 0\<rparr>
            in (case parse_control (re_codec env) rx of
                  None \<Rightarrow> Inr (Continue, st, [])
                | Some packet \<Rightarrow>
                  (case packet of
                     CP_data data \<Rightarrow> (let (st, out) = on_data env data st in Inr (Continue, st, out))
                   | CP_done done \<Rightarrow> on_done env done st
                   | CP_error _ \<Rightarrow> Inr (Return False, st, [])
                   | _ \<Rightarrow> Inr (Continue, st, [])))
      | None \<Rightarrow>
          let st = st\<lparr>retries := Suc (retries st)\<rparr>
          in if current_offset st = 0 then Inr (Continue, st, [(re_get_bytes env, re_peer env)])
             else Inr (Continue, st, ack_now env st))"

text \<open>
  The loop over the events so far: \<open>None\<close> when it still waits for the next one, otherwise the
  function's result.
\<close>

fun receive_loop ::
    "'c receive_env \<Rightarrow> socket_event list \<Rightarrow> receiver \<Rightarrow> (bool option \<times> receiver \<times> datagrams) result" where
  "receive_loop env [] st = Inr (if retries st < MAX_RETRIES then None else Some False, st, [])"
| "receive_loop env (ev # evs) st =
     (if \<not> retries st < MAX_RETRIES then Inr (Some False, st, [])
      else
        bind_result (receive_step env ev st) (\<lambda>(status, st, out).
        case status of
          Return b \<Rightarrow> Inr (Some b, st, out)
        | Continue \<Rightarrow>
            bind_result (receive_loop env evs st) (\<lambda>(res, st, out'). Inr (res, st, out @ out'))))"

text \<open>
  \<open>receive_file\<close>: opening the output truncates it, or fails and leaves what is on the disk; the
  request goes out before the loop.
\<close>

definition receiver_init :: "bool \<Rightarrow> string option \<Rightarrow> receiver" where
  "receiver_init can_open disk =
     \<lparr>out_good = can_open, out_file = (if can_open then Some [] else disk),
      current_offset = 0, retries = 0\<rparr>"

definition receive_file ::
    "'c receive_env \<Rightarrow> bool \<Rightarrow> string option \<Rightarrow> socket_event list
       \<Rightarrow> (bool option \<times> receiver \<times> datagrams) result" where
  "receive_file env can_open disk evs =
     bind_result (receive_loop env evs (receiver_init can_open disk)) (\<lambda>(res, st, out).
     Inr (res, st, (re_get_bytes env, re_peer env) # out))"

end
