(* ===== verification/Stun.thy ===== *)
theory Stun
  imports Transfer_Types
begin

unbundle bit_operations_syntax

text \<open>
  Discovery of the public endpoint: \<open>get_public_endpoint_for_socket\<close> of \<open>cli_tool/include/utils.hpp\<close>.
  The receive buffer is the whole array of 1024 bytes, of which the datagram fills the first \<open>n\<close>;
  the rest is not initialised and any list of bytes can stand for it. Reading beyond the array is a
  fault. The random bytes of the request and the answers of the resolver, of the socket and of
  \<open>get_local_ip_address\<close> are parameters.
\<close>

section \<open>The request\<close>

definition stun_request :: "8 word list \<Rightarrow> 8 word list" where
  "stun_request random = [0, 1, 0, 0, 0x21, 0x12, 0xA4, 0x42] @ take 12 random"

section \<open>The response\<close>

definition buf_at :: "8 word list \<Rightarrow> nat \<Rightarrow> 8 word result" where
  "buf_at buf k = (if k < length buf then Inr (buf ! k) else Inl (Abort ''array index out of range''))"

text \<open>\<open>(buf[k] << 8) | buf[k + 1]\<close> and the same with four bytes.\<close>

definition read_16 :: "8 word list \<Rightarrow> nat \<Rightarrow> 16 word result" where
  "read_16 buf k =
     bind_result (buf_at buf k) (\<lambda>hi.
     bind_result (buf_at buf (k + 1)) (\<lambda>lo. Inr (push_bit 8 (ucast hi) OR ucast lo)))"

definition read_32 :: "8 word list \<Rightarrow> nat \<Rightarrow> 32 word result" where
  "read_32 buf k =
     bind_result (buf_at buf k) (\<lambda>b3.
     bind_result (buf_at buf (k + 1)) (\<lambda>b2.
     bind_result (buf_at buf (k + 2)) (\<lambda>b1.
     bind_result (buf_at buf (k + 3)) (\<lambda>b0.
     Inr (push_bit 24 (ucast b3) OR push_bit 16 (ucast b2) OR push_bit 8 (ucast b1) OR ucast b0)))))"

definition magic_cookie :: "32 word" where "magic_cookie = 0x2112A442"

definition dotted_quad :: "32 word \<Rightarrow> string" where
  "dotted_quad a =
     to_string (unat (drop_bit 24 a)) @ ''.'' @ to_string (unat (drop_bit 16 a AND 0xFF)) @ ''.''
       @ to_string (unat (drop_bit 8 a AND 0xFF)) @ ''.'' @ to_string (unat (a AND 0xFF))"

text \<open>What is taken from the attribute at \<open>i\<close>.\<close>

definition mapped_address :: "8 word list \<Rightarrow> nat \<Rightarrow> (string \<times> 16 word) result" where
  "mapped_address buf i =
     bind_result (read_16 buf (i + 6)) (\<lambda>xp.
     bind_result (read_32 buf (i + 8)) (\<lambda>xa.
     Inr (dotted_quad (xa XOR magic_cookie), xp XOR ucast (drop_bit 16 magic_cookie))))"

definition next_attribute :: "nat \<Rightarrow> 16 word \<Rightarrow> nat" where
  "next_attribute i l = i + (4 + unat l + (4 - unat l mod 4) mod 4)"

text \<open>The loop over the attributes. \<open>None\<close>: no attribute of type 0x20 was found.\<close>

function stun_scan :: "8 word list \<Rightarrow> nat \<Rightarrow> nat \<Rightarrow> (string \<times> 16 word) option result" where
  "stun_scan buf n i =
     (if i + 8 \<le> n then
        bind_result (read_16 buf i) (\<lambda>t.
        bind_result (read_16 buf (i + 2)) (\<lambda>l.
        if t = 0x20 \<and> 8 \<le> l then bind_result (mapped_address buf i) (\<lambda>m. Inr (Some m))
        else stun_scan buf n (next_attribute i l)))
      else Inr None)"
  by pat_completeness auto
termination by (relation "measure (\<lambda>(buf, n, i). n - i)") (auto simp: next_attribute_def)

declare stun_scan.simps [simp del]

definition get_public_endpoint_for_socket ::
    "string \<Rightarrow> 16 word \<Rightarrow> 8 word list \<Rightarrow> nat \<Rightarrow> PublicEndpoint result" where
  "get_public_endpoint_for_socket local_address port_of_socket buf n =
     bind_result (stun_scan buf n 20) (\<lambda>found.
     case found of
       Some (a, p) \<Rightarrow> Inr \<lparr>ip = a, port = p, local_ip = local_address, local_port = port_of_socket\<rparr>
     | None \<Rightarrow> Inl (Throw (Runtime_Error ''STUN Parse failed'')))"

section \<open>Reading bytes\<close>

text \<open>The number a list of bytes is, most significant first.\<close>

definition bytes_16 :: "16 word \<Rightarrow> 8 word list" where
  "bytes_16 w = [ucast (drop_bit 8 w), ucast w]"

definition bytes_32 :: "32 word \<Rightarrow> 8 word list" where
  "bytes_32 w = [ucast (drop_bit 24 w), ucast (drop_bit 16 w), ucast (drop_bit 8 w), ucast w]"

lemma length_bytes [simp]: "length (bytes_16 w) = 2" "length (bytes_32 a) = 4"
  by (simp_all add: bytes_16_def bytes_32_def)

lemma join_16: "push_bit 8 (ucast (ucast (drop_bit 8 w) :: 8 word)) OR ucast (ucast w :: 8 word) = w"
  for w :: "16 word"
  by (rule bit_word_eqI) (auto simp: bit_simps not_less)

lemma join_32:
  "push_bit 24 (ucast (ucast (drop_bit 24 w) :: 8 word)) OR push_bit 16 (ucast (ucast (drop_bit 16 w) :: 8 word))
    OR push_bit 8 (ucast (ucast (drop_bit 8 w) :: 8 word)) OR ucast (ucast w :: 8 word) = w"
  for w :: "32 word"
proof (rule bit_word_eqI)
  fix k assume "k < LENGTH(32)"
  then consider "k < 8" | "8 \<le> k" "k < 16" | "16 \<le> k" "k < 24" | "24 \<le> k" "k < 32" by fastforce
  then show "bit (push_bit 24 (ucast (ucast (drop_bit 24 w) :: 8 word))
      OR push_bit 16 (ucast (ucast (drop_bit 16 w) :: 8 word))
      OR push_bit 8 (ucast (ucast (drop_bit 8 w) :: 8 word)) OR ucast (ucast w :: 8 word) :: 32 word) k = bit w k"
    by cases (auto simp: bit_simps)
qed

lemma buf_at_append: "k < length xs \<Longrightarrow> buf_at (us @ xs @ vs) (length us + k) = Inr (xs ! k)"
  by (simp add: buf_at_def nth_append)

lemma read_16_bytes: "read_16 (us @ bytes_16 w @ vs) (length us) = Inr w"
  using buf_at_append [of 0 "bytes_16 w" us vs] buf_at_append [of 1 "bytes_16 w" us vs]
  by (simp add: read_16_def) (simp add: bytes_16_def join_16)

lemma read_32_bytes: "read_32 (us @ bytes_32 w @ vs) (length us) = Inr w"
  using buf_at_append [of 0 "bytes_32 w" us vs] buf_at_append [of 1 "bytes_32 w" us vs]
    buf_at_append [of 2 "bytes_32 w" us vs] buf_at_append [of 3 "bytes_32 w" us vs]
  by (simp add: read_32_def) (simp add: bytes_32_def join_32 numeral_2_eq_2 numeral_3_eq_3)

section \<open>Attributes\<close>

text \<open>A well-formed attribute: type, length, value and padding to a multiple of four bytes.\<close>

definition attribute :: "16 word \<Rightarrow> 8 word list \<Rightarrow> 8 word list" where
  "attribute t value =
     bytes_16 t @ bytes_16 (of_nat (length value)) @ value @ replicate ((4 - length value mod 4) mod 4) 0"

text \<open>XOR-MAPPED-ADDRESS for IPv4 (RFC 5389, section 15.2).\<close>

definition xor_mapped_address :: "32 word \<Rightarrow> 16 word \<Rightarrow> 8 word list" where
  "xor_mapped_address a p =
     attribute 0x20
       ([0, 1] @ bytes_16 (p XOR ucast (drop_bit 16 magic_cookie)) @ bytes_32 (a XOR magic_cookie))"

lemma length_attribute:
  "length (attribute t value) = 4 + length value + (4 - length value mod 4) mod 4"
  by (simp add: attribute_def)

lemma read_header:
  assumes "length value < 2 ^ 16"
  shows "read_16 (us @ attribute t value @ vs) (length us) = Inr t"
    and "read_16 (us @ attribute t value @ vs) (length us + 2) = Inr (of_nat (length value))"
proof -
  show "read_16 (us @ attribute t value @ vs) (length us) = Inr t"
    unfolding attribute_def using read_16_bytes [of us t] by simp
  show "read_16 (us @ attribute t value @ vs) (length us + 2) = Inr (of_nat (length value))"
    unfolding attribute_def using read_16_bytes [of "us @ bytes_16 t" "of_nat (length value)"] by simp
qed

lemma scan_skips:
  assumes "length value < 2 ^ 16" "t \<noteq> 0x20 \<or> length value < 8" "length us + 8 \<le> n"
  shows "stun_scan (us @ attribute t value @ vs) n (length us) =
    stun_scan (us @ attribute t value @ vs) n (length (us @ attribute t value))"
proof -
  have u: "unat (of_nat (length value) :: 16 word) = length value"
    using assms(1) by (simp add: unat_of_nat)
  then have "\<not> 8 \<le> (of_nat (length value) :: 16 word)" if "length value < 8"
    using that by (simp add: word_le_nat_alt)
  moreover have "next_attribute (length us) (of_nat (length value)) = length (us @ attribute t value)"
    by (simp add: next_attribute_def u length_attribute)
  ultimately show ?thesis
    using assms read_header [OF assms(1), of us t vs] by (subst stun_scan.simps) auto
qed

definition attributes :: "(16 word \<times> 8 word list) list \<Rightarrow> 8 word list" where
  "attributes attrs = concat (map (\<lambda>(t, v). attribute t v) attrs)"

text \<open>Attributes that are not the one looked for.\<close>

definition other_attributes :: "(16 word \<times> 8 word list) list \<Rightarrow> bool" where
  "other_attributes attrs =
     (\<forall>(t, v) \<in> set attrs. length v < 2 ^ 16 \<and> (t \<noteq> 0x20 \<or> length v < 8))"

lemma scan_skips_all:
  "other_attributes attrs \<Longrightarrow> length (us @ attributes attrs) + 8 \<le> n \<Longrightarrow>
     stun_scan (us @ attributes attrs @ vs) n (length us) =
       stun_scan (us @ attributes attrs @ vs) n (length (us @ attributes attrs))"
proof (induction attrs arbitrary: us)
  case Nil
  then show ?case by (simp add: attributes_def)
next
  case (Cons a attrs)
  obtain t v where a: "attributes (a # attrs) = attribute t v @ attributes attrs"
      "length v < 2 ^ 16" "t \<noteq> 0x20 \<or> length v < 8" "other_attributes attrs"
    using Cons.prems(1) by (cases a) (auto simp: attributes_def other_attributes_def)
  have "stun_scan (us @ attribute t v @ attributes attrs @ vs) n (length us) =
      stun_scan (us @ attribute t v @ attributes attrs @ vs) n (length (us @ attribute t v))"
    using Cons.prems(2) a by (intro scan_skips) simp_all
  also have "\<dots> = stun_scan (us @ attribute t v @ attributes attrs @ vs) n
      (length (us @ attribute t v @ attributes attrs))"
    using Cons.IH [OF a(4), of "us @ attribute t v"] Cons.prems(2) a(1) by simp
  finally show ?case by (simp add: a(1))
qed

lemma scan_finds:
  assumes "length us + 8 \<le> n"
  shows "stun_scan (us @ xor_mapped_address a p @ vs) n (length us) = Inr (Some (dotted_quad a, p))"
proof -
  let ?xp = "p XOR ucast (drop_bit 16 magic_cookie)" and ?xa = "a XOR magic_cookie"
  let ?v = "[0, 1] @ bytes_16 ?xp @ bytes_32 ?xa"
  let ?buf = "us @ attribute 0x20 ?v @ vs"
  have l: "length ?v = 8" by simp
  then have h: "read_16 ?buf (length us) = Inr 0x20" "read_16 ?buf (length us + 2) = Inr 8"
    using read_header [of ?v us "0x20" vs] by simp_all
  have b: "?buf = (us @ bytes_16 0x20 @ bytes_16 8 @ [0, 1]) @ bytes_16 ?xp @ bytes_32 ?xa @ vs"
    "?buf = (us @ bytes_16 0x20 @ bytes_16 8 @ [0, 1] @ bytes_16 ?xp) @ bytes_32 ?xa @ vs"
    by (simp_all add: attribute_def l)
  have "read_16 ?buf (length us + 6) = Inr ?xp"
    using read_16_bytes [of "us @ bytes_16 0x20 @ bytes_16 8 @ [0, 1]" ?xp "bytes_32 ?xa @ vs"]
    unfolding b(1) by simp
  moreover have "read_32 ?buf (length us + 8) = Inr ?xa"
    using read_32_bytes [of "us @ bytes_16 0x20 @ bytes_16 8 @ [0, 1] @ bytes_16 ?xp" ?xa vs]
    unfolding b(2) by simp
  ultimately have "mapped_address ?buf (length us) = Inr (dotted_quad a, p)"
    by (simp add: mapped_address_def xor.assoc)
  with h assms show ?thesis unfolding xor_mapped_address_def by (subst stun_scan.simps) simp
qed

section \<open>Bounds\<close>

lemma buf_at_cases: "(\<exists>b. buf_at buf k = Inr b) \<longleftrightarrow> k < length buf"
  by (simp add: buf_at_def)

lemma read_defined:
  "k + 1 < length buf \<Longrightarrow> \<exists>w. read_16 buf k = Inr w"
  "k + 3 < length buf \<Longrightarrow> \<exists>w. read_32 buf k = Inr w"
  by (simp_all add: read_16_def read_32_def buf_at_def)

lemma stun_scan_bounds:
  "n + 4 \<le> length buf \<Longrightarrow> \<exists>found. stun_scan buf n i = Inr found"
proof (induction buf n i rule: stun_scan.induct)
  case (1 buf n i)
  show ?case
  proof (cases "i + 8 \<le> n")
    case True
    with 1 obtain t l xp xa where r: "read_16 buf i = Inr t" "read_16 buf (i + 2) = Inr l"
      "read_16 buf (i + 6) = Inr xp" "read_32 buf (i + 8) = Inr xa"
      using read_defined(1) [of i buf] read_defined(1) [of "i + 2" buf] read_defined(1) [of "i + 6" buf]
        read_defined(2) [of "i + 8" buf] by fastforce
    with 1 True show ?thesis by (subst stun_scan.simps) (auto simp: mapped_address_def)
  qed (simp add: stun_scan.simps)
qed

section \<open>Properties\<close>

text \<open>
  C37: A binding response is decoded to the address and the port it carries, whatever its header
  says and whatever other attributes stand before or anything at all after XOR-MAPPED-ADDRESS.
\<close>

theorem stun_response_decoded:
  assumes "length header = 20" "other_attributes attrs"
    "length (header @ attributes attrs @ xor_mapped_address a p) \<le> n"
  shows "get_public_endpoint_for_socket la lp (header @ attributes attrs @ xor_mapped_address a p @ rest) n
    = Inr \<lparr>ip = dotted_quad a, port = p, local_ip = la, local_port = lp\<rparr>"
proof -
  have n: "length (header @ attributes attrs) + 8 \<le> n"
    using assms(3) by (simp add: xor_mapped_address_def length_attribute)
  have "stun_scan (header @ attributes attrs @ xor_mapped_address a p @ rest) n (length header)
      = Inr (Some (dotted_quad a, p))"
    using scan_skips_all [OF assms(2) n] scan_finds [OF n] by simp
  then show ?thesis by (simp add: get_public_endpoint_for_socket_def assms(1))
qed

lemma stun_response_decoded_witness:
  "get_public_endpoint_for_socket ''10.0.0.2'' 40000
     (replicate 20 0 @ attributes [(0x8022, [1, 2, 3, 4, 5])] @ xor_mapped_address 0x01020304 0x1234
       @ replicate 976 0) 44
   = Inr \<lparr>ip = dotted_quad 0x01020304, port = 0x1234, local_ip = ''10.0.0.2'', local_port = 40000\<rparr>"
  by (rule stun_response_decoded)
     (simp_all add: other_attributes_def attributes_def length_attribute xor_mapped_address_def)

text \<open>
  The loop checks eight bytes of an attribute and reads twelve. For datagrams of at most
  1020 bytes this stays inside the array of 1024 bytes: parsing ends, with an endpoint or with
  the exception.
\<close>

theorem stun_short_datagram_safe:
  assumes "length buf = 1024" "n \<le> 1020"
  shows "(\<exists>ep. get_public_endpoint_for_socket la lp buf n = Inr ep) \<or>
    get_public_endpoint_for_socket la lp buf n = Inl (Throw (Runtime_Error ''STUN Parse failed''))"
proof -
  obtain found where "stun_scan buf n 20 = Inr found" using stun_scan_bounds [of n buf 20] assms by auto
  then show ?thesis by (cases found) (auto simp: get_public_endpoint_for_socket_def)
qed

lemma stun_short_datagram_safe_witness:
  "(\<exists>ep. get_public_endpoint_for_socket [] 0 (replicate 1024 0) 100 = Inr ep) \<or>
   get_public_endpoint_for_socket [] 0 (replicate 1024 0) 100
     = Inl (Throw (Runtime_Error ''STUN Parse failed''))"
  by (rule stun_short_datagram_safe) simp_all

definition overrun :: "8 word list" where
  "overrun = replicate 20 0 @ bytes_16 0 @ bytes_16 992 @ replicate 992 0 @ bytes_16 0x20 @ bytes_16 8
     @ replicate 4 0"

definition cut_off :: "8 word \<Rightarrow> 8 word list" where
  "cut_off stale = replicate 20 0 @ bytes_16 0x20 @ bytes_16 8 @ [0, 1, 0x33, 0x26] @ replicate 996 stale"

lemma scan_overrun: "stun_scan overrun 1024 20 = Inl (Abort ''array index out of range'')"
proof -
  let ?tail = "bytes_16 0x20 @ bytes_16 8 @ replicate 4 0"
  let ?us = "replicate 20 0 @ attribute 0 (replicate 992 0)"
  have b: "overrun = replicate 20 0 @ attribute 0 (replicate 992 0) @ ?tail"
    by (simp add: overrun_def attribute_def)
  have len: "length ?us = 1016" by (simp add: length_attribute)
  have "stun_scan overrun 1024 20 = stun_scan overrun 1024 1016"
    using scan_skips [of "replicate 992 0" 0 "replicate 20 0" 1024 ?tail] len unfolding b by simp
  moreover have "read_16 overrun 1016 = Inr 0x20" "read_16 overrun (1016 + 2) = Inr 8"
    using read_16_bytes [of ?us "0x20" "bytes_16 8 @ replicate 4 0"]
      read_16_bytes [of "?us @ bytes_16 0x20" 8 "replicate 4 0"] len
    unfolding b by simp_all
  moreover have "length overrun = 1024" by (simp add: overrun_def)
  then have "mapped_address overrun 1016 = Inl (Abort ''array index out of range'')"
    by (simp add: mapped_address_def read_16_def read_32_def buf_at_def)
  ultimately show ?thesis by (simp add: stun_scan.simps [of overrun 1024 1016])
qed

text \<open>
  Beyond that length an attribute that begins eight bytes before the end of the array makes
  the code read past it; and a short datagram whose last attribute is cut off is completed with
  bytes that were never received: two buffers that hold the same datagram give different
  addresses.
\<close>

theorem stun_reads_past_the_datagram:
  "length overrun = 1024 \<and>
   get_public_endpoint_for_socket la lp overrun 1024 = Inl (Abort ''array index out of range'') \<and>
   take 28 (cut_off 0) = take 28 (cut_off 1) \<and>
   get_public_endpoint_for_socket la lp (cut_off 0) 28 \<noteq> get_public_endpoint_for_socket la lp (cut_off 1) 28"
proof -
  have four: "replicate 4 x = [x, x, x, x]" for x :: "8 word" by (simp add: numeral_eq_Suc)
  have "cut_off 0 = replicate 20 0 @ xor_mapped_address magic_cookie 0x1234 @ replicate 992 0"
    "cut_off 1 = replicate 20 0 @ xor_mapped_address 0x2013A543 0x1234 @ replicate 992 1"
    unfolding cut_off_def replicate_add [of 4 992, simplified]
    by (simp_all add: xor_mapped_address_def attribute_def bytes_16_def bytes_32_def magic_cookie_def four)
  then have "stun_scan (cut_off 0) 28 20 = Inr (Some (dotted_quad magic_cookie, 0x1234))"
    "stun_scan (cut_off 1) 28 20 = Inr (Some (dotted_quad 0x2013A543, 0x1234))"
    using scan_finds [of "replicate 20 0" 28] by simp_all
  moreover have "dotted_quad magic_cookie \<noteq> dotted_quad 0x2013A543"
    by (simp add: dotted_quad_def magic_cookie_def to_string.simps digit_chars)
  moreover have "stun_scan overrun 1024 20 = Inl (Abort ''array index out of range'')"
    by (rule scan_overrun)
  moreover have "take 28 (cut_off 0) = take 28 (cut_off 1)" "length overrun = 1024"
    by (simp_all add: cut_off_def overrun_def)
  ultimately show ?thesis by (simp add: get_public_endpoint_for_socket_def)
qed

end
