(* ===== verification/Uuid.thy ===== *)
theory Uuid
  imports Prelude
begin

unbundle bit_operations_syntax

text \<open>
  Tokens: \<open>generate_uuid_token\<close> of \<open>cli_tool/include/utils.hpp\<close>. The six draws of the random
  generator, in the order the code makes them, are parameters; the stream writes the numbers in
  hexadecimal with leading zeros.
\<close>

definition uuid_d1 :: "32 word \<Rightarrow> 16 word" where "uuid_d1 r = ucast (r AND 0xFFFF)"

definition uuid_d2 :: "32 word \<Rightarrow> 16 word" where "uuid_d2 r = ucast (r AND 0x0FFF OR 0x4000)"

definition uuid_d3 :: "32 word \<Rightarrow> 16 word" where "uuid_d3 r = ucast (r AND 0x3FFF OR 0x8000)"

definition generate_uuid_token ::
    "32 word \<Rightarrow> 32 word \<Rightarrow> 32 word \<Rightarrow> 32 word \<Rightarrow> 32 word \<Rightarrow> 32 word \<Rightarrow> string" where
  "generate_uuid_token r0 r1 r2 r3 r4 r5 =
     hex_setw 8 (unat r0) @ ''-'' @ hex_setw 4 (unat (uuid_d1 r1)) @ ''-'' @ hex_setw 4 (unat (uuid_d2 r2))
       @ ''-'' @ hex_setw 4 (unat (uuid_d3 r3)) @ ''-'' @ hex_setw 8 (unat r4) @ hex_setw 8 (unat r5)"

section \<open>Fixed-width hexadecimal numbers\<close>

lemma length_hex_16 [simp]: "length (hex_setw 4 (unat (w :: 16 word))) = 4"
proof -
  have "unat w < 16 ^ 4" using unsigned_less [of w] by simp
  then show ?thesis by (rule length_hex_setw) simp
qed

lemma length_hex_32 [simp]: "length (hex_setw 8 (unat (w :: 32 word))) = 8"
proof -
  have "unat w < 16 ^ 8" using unsigned_less [of w] by simp
  then show ?thesis by (rule length_hex_setw) simp
qed

lemma hex_setw_inj: "hex_setw w m = hex_setw w n \<longleftrightarrow> m = n"
  by (metis hex_value_setw)

lemma to_hex_16: "16 \<le> n \<Longrightarrow> to_hex n = to_hex (n div 16) @ [hex_digit (n mod 16)]"
  by (subst to_hex.simps) simp

text \<open>The first of four digits.\<close>

lemma hex_first_digit:
  assumes "16 ^ 3 \<le> n" "n < 16 ^ 4"
  shows "hex_setw 4 n ! 0 = hex_digit (n div 16 ^ 3)"
proof -
  have d: "to_hex (n div 16 div 16 div 16) = [hex_digit (n div 16 div 16 div 16)]"
    using assms by (subst to_hex.simps) simp
  have "to_hex n = [hex_digit (n div 16 div 16 div 16), hex_digit (n div 16 div 16 mod 16),
      hex_digit (n div 16 mod 16), hex_digit (n mod 16)]"
    using assms d to_hex_16 [of n] to_hex_16 [of "n div 16"] to_hex_16 [of "n div 16 div 16"] by simp
  then show ?thesis by (simp add: hex_setw_def div_mult2_eq [symmetric])
qed

section \<open>The fixed bits\<close>

lemma unat_d1: "unat (uuid_d1 r) = unat r mod 2 ^ 16"
  using and_mask [of "unat r" 16] and_mask [of "unat r mod 2 ^ 16" 16]
  by (simp add: uuid_d1_def unsigned_ucast_eq unsigned_and_eq take_bit_eq_mod mask_eq_exp_minus_1)

lemma unat_d2: "unat (uuid_d2 r) = unat r mod 4096 + 16 ^ 3 * 4"
proof -
  have "unat (uuid_d2 r) = take_bit 16 ((unat r AND 0xFFF) OR 0x4000)"
    by (simp add: uuid_d2_def unsigned_ucast_eq unsigned_or_eq unsigned_and_eq)
  also have "\<dots> = take_bit 16 (unat r mod 4096 + 16 ^ 3 * 4)"
    using or_top [of "unat r mod 4096" 12 4] and_mask [of "unat r" 12] by (simp add: mask_eq_exp_minus_1)
  also have "\<dots> = unat r mod 4096 + 16 ^ 3 * 4" by (rule take_bit_nat_eq_self) simp
  finally show ?thesis .
qed

lemma unat_d3: "unat (uuid_d3 r) = unat r mod 16384 + 16 ^ 3 * 8"
proof -
  have "unat (uuid_d3 r) = take_bit 16 ((unat r AND 0x3FFF) OR 0x8000)"
    by (simp add: uuid_d3_def unsigned_ucast_eq unsigned_or_eq unsigned_and_eq)
  also have "\<dots> = take_bit 16 (unat r mod 16384 + 16 ^ 3 * 8)"
    using or_top [of "unat r mod 16384" 14 2] and_mask [of "unat r" 14] by (simp add: mask_eq_exp_minus_1)
  also have "\<dots> = unat r mod 16384 + 16 ^ 3 * 8" by (rule take_bit_nat_eq_self) simp
  finally show ?thesis .
qed

text \<open>The groups of the text between the dashes.\<close>

lemma uuid_groups:
  assumes "s = generate_uuid_token r0 r1 r2 r3 r4 r5"
  shows "take 8 s = hex_setw 8 (unat r0)" "take 4 (drop 9 s) = hex_setw 4 (unat (uuid_d1 r1))"
    "take 4 (drop 14 s) = hex_setw 4 (unat (uuid_d2 r2))" "take 4 (drop 19 s) = hex_setw 4 (unat (uuid_d3 r3))"
    "take 8 (drop 24 s) = hex_setw 8 (unat r4)" "drop 32 s = hex_setw 8 (unat r5)"
  by (simp_all add: assms generate_uuid_token_def)

section \<open>Properties\<close>

definition uuid_char :: "char \<Rightarrow> bool" where
  "uuid_char c = (is_hex_char c \<or> c = CHR ''-'')"

text \<open>
  A token has 40 characters, hexadecimal digits with dashes at positions 8, 13, 18 and 23,
  the version digit 4 and a variant digit from 8 to b. A UUID has 36: the last group is four
  digits longer than that of RFC 4122, of which the comment in the code speaks.
\<close>

theorem uuid_token_shape:
  "length (generate_uuid_token r0 r1 r2 r3 r4 r5) = 40 \<and>
   list_all uuid_char (generate_uuid_token r0 r1 r2 r3 r4 r5) \<and>
   map (\<lambda>i. generate_uuid_token r0 r1 r2 r3 r4 r5 ! i) [8, 13, 18, 23] = ''----'' \<and>
   generate_uuid_token r0 r1 r2 r3 r4 r5 ! 14 = CHR ''4'' \<and>
   generate_uuid_token r0 r1 r2 r3 r4 r5 ! 19 \<in> set ''89ab''"
proof -
  let ?d2 = "unat (uuid_d2 r2)" and ?d3 = "unat (uuid_d3 r3)"
  let ?s = "generate_uuid_token r0 r1 r2 r3 r4 r5"
  have hex: "list_all uuid_char (hex_setw w n)" for w n
    using hex_setw_chars [of w n] by (auto simp: uuid_char_def list_all_iff)
  then have chars: "list_all uuid_char ?s" by (simp add: generate_uuid_token_def uuid_char_def)
  have at: "?s ! 14 = hex_setw 4 ?d2 ! 0" "?s ! 19 = hex_setw 4 ?d3 ! 0"
    by (simp_all add: generate_uuid_token_def nth_append)
  have digits: "hex_digit 4 = CHR ''4''" "hex_digit 8 = CHR ''8''" "hex_digit 9 = CHR ''9''"
    "hex_digit 10 = CHR ''a''" "hex_digit 11 = CHR ''b''" by code_simp+
  have "unat r2 mod 4096 < 4096" by simp
  then have "?d2 div 16 ^ 3 = 4" "16 ^ 3 \<le> ?d2" "?d2 < 16 ^ 4" unfolding unat_d2 by simp_all
  then have version: "?s ! 14 = CHR ''4''" using hex_first_digit [of ?d2] at digits by simp
  have m: "unat r3 mod 16384 < 16384" by simp
  then have "?d3 div 16 ^ 3 = unat r3 mod 16384 div 4096 + 8" "16 ^ 3 \<le> ?d3" "?d3 < 16 ^ 4"
    unfolding unat_d3 by simp_all
  moreover have "unat r3 mod 16384 div 4096 < 4" using m by (simp add: less_mult_imp_div_less)
  ultimately obtain q where "?s ! 19 = hex_digit q" "q \<in> {8, 9, 10, 11}"
    using hex_first_digit [of ?d3] at by fastforce
  then have variant: "?s ! 19 \<in> set ''89ab''"
    by (elim insertE emptyE) (simp_all only: digits, simp_all)
  have dashes: "map (\<lambda>i. ?s ! i) [8, 13, 18, 23] = ''----''"
    by (simp add: generate_uuid_token_def nth_append)
  have "length ?s = 40" by (simp add: generate_uuid_token_def)
  with chars version variant dashes show ?thesis by blast
qed

text \<open>
  Two tokens are equal only if the draws agree on every bit that is not fixed: 138 bits of the six
  draws are in the token.
\<close>

theorem uuid_token_injective:
  "generate_uuid_token r0 r1 r2 r3 r4 r5 = generate_uuid_token s0 s1 s2 s3 s4 s5 \<longleftrightarrow>
     r0 = s0 \<and> unat r1 mod 2 ^ 16 = unat s1 mod 2 ^ 16 \<and> unat r2 mod 2 ^ 12 = unat s2 mod 2 ^ 12 \<and>
     unat r3 mod 2 ^ 14 = unat s3 mod 2 ^ 14 \<and> r4 = s4 \<and> r5 = s5"
proof -
  let ?r = "generate_uuid_token r0 r1 r2 r3 r4 r5" and ?s = "generate_uuid_token s0 s1 s2 s3 s4 s5"
  have "?r = ?s \<longleftrightarrow> r0 = s0 \<and> unat (uuid_d1 r1) = unat (uuid_d1 s1) \<and> unat (uuid_d2 r2) = unat (uuid_d2 s2)
      \<and> unat (uuid_d3 r3) = unat (uuid_d3 s3) \<and> r4 = s4 \<and> r5 = s5"
    (is "_ \<longleftrightarrow> ?same")
  proof
    assume "?r = ?s"
    then show ?same using uuid_groups [OF refl, of r0 r1 r2 r3 r4 r5] uuid_groups [OF refl, of s0 s1 s2 s3 s4 s5]
      by (metis hex_setw_inj unsigned_word_eqI)
  qed (auto simp: generate_uuid_token_def)
  then show ?thesis by (simp add: unat_d1 unat_d2 unat_d3)
qed

end
