(* ===== verification/Cli.thy ===== *)
theory Cli
  imports Server Receiver Stun Uuid
begin

text \<open>
  The command-line program: \<open>cli_tool/main.cpp\<close> and \<open>run_client_session\<close> of \<open>client.cpp\<close>. What the
  sockets, the file system and the random device do are inputs; the HTTP client and the
  libraries are the fields of \<open>program\<close>. A run ends with an exit code or by an exception that
  nothing catches, or it still waits for a datagram. Messages are left out.
\<close>

section \<open>Inputs and results\<close>

record ('r, 'c, 'w) program =
  pg_sodium :: "'r sodium"
  pg_codec :: codec
  pg_sha :: "'c sha256"
  pg_floats :: floats
  pg_client :: "'w client"
  pg_make_address :: "string \<Rightarrow> address result"

record filesystem =
  fs_exists :: "string \<Rightarrow> bool"
  fs_open :: "string \<Rightarrow> string option"
  fs_size :: "string \<Rightarrow> 64 word result"

text \<open>
  The local address and port, the receive buffer and the number of bytes received, when the socket
  calls of the STUN request all succeed.
\<close>

type_synonym stun_answer = "(string \<times> 16 word \<times> 8 word list \<times> nat) result"

definition public_endpoint :: "stun_answer \<Rightarrow> PublicEndpoint result" where
  "public_endpoint stun =
     bind_result stun (\<lambda>(local_address, p, buf, n). get_public_endpoint_for_socket local_address p buf n)"

datatype ending = Exit int | Terminated fault | Running

record 'w ended =
  ending :: ending
  sent :: sends
  disk :: "string \<Rightarrow> string option"
  world :: 'w

section \<open>Sending\<close>

text \<open>\<open>si_random\<close> are the draws of the random device.\<close>

record send_inputs =
  si_files :: filesystem
  si_random :: "nat \<Rightarrow> 32 word"
  si_stun :: stun_answer
  si_local_address :: "string result"
  si_bind :: "unit result"
  si_completions :: "completion list"

text \<open>\<open>std::filesystem::path(filepath).filename()\<close> where \<open>/\<close> separates directories.\<close>

definition filename :: "string \<Rightarrow> string" where
  "filename path = rev (takeWhile (\<lambda>c. c \<noteq> CHR ''/'') (rev path))"

definition new_token :: "send_inputs \<Rightarrow> string" where
  "new_token inp =
     generate_uuid_token (si_random inp 0) (si_random inp 1) (si_random inp 2) (si_random inp 3)
       (si_random inp 4) (si_random inp 5)"

text \<open>What is known of the file, then of the network.\<close>

definition describe_file :: "'c sha256 \<Rightarrow> filesystem \<Rightarrow> string \<Rightarrow> string \<Rightarrow> TRANSFERS result" where
  "describe_file H fs path tok =
     bind_result (compute_file_hash H (fs_open fs path)) (\<lambda>hash.
     bind_result (fs_size fs path) (\<lambda>size.
     Inr (TRANSFERS_init
            \<lparr>file_name := filename path, file_hash := hash, file_size := size, protocol := ''udp'',
             sender_port := 5173, token := tok, transfer_id := tok\<rparr>)))"

definition describe_network :: "send_inputs \<Rightarrow> TRANSFERS \<Rightarrow> TRANSFERS result" where
  "describe_network inp t =
     bind_result
       (catch_exn (bind_result (public_endpoint (si_stun inp)) (\<lambda>ep. Inr (ip ep))) (\<lambda>_. Inr ''127.0.0.1''))
       (\<lambda>public.
     bind_result (si_local_address inp) (\<lambda>local.
     Inr (t\<lparr>sender_ip := public, sender_local_ip := local, sender_local_port := 5173\<rparr>)))"

definition server_env_of :: "('r, 'c, 'w) program \<Rightarrow> filesystem \<Rightarrow> ('r, 'w) server_env" where
  "server_env_of P fs =
     \<lparr>sv_session =
        \<lparr>se_sodium = pg_sodium P, se_codec = pg_codec P,
         se_metadata = (\<lambda>_. Inl (Abort ''asks the world'')), se_open = fs_open fs\<rparr>,
      sv_floats = pg_floats P, sv_client = pg_client P\<rparr>"

text \<open>
  \<open>start_server\<close>. When the session closes, \<open>io.run()\<close> returns and the program ends; what was sent
  before an exception is not recorded.
\<close>

definition start_server ::
    "('r, 'c, 'w) program \<Rightarrow> send_inputs \<Rightarrow> string \<Rightarrow> string \<Rightarrow> 'r \<Rightarrow> 'w
       \<Rightarrow> (bool \<times> sends) result \<times> 'w" where
  "start_server P inp path i r w =
     (case si_bind inp of
        Inl e \<Rightarrow> (Inl e, w)
      | Inr _ \<Rightarrow>
         (case Server_run (pg_floats P) (pg_client P) (pg_make_address P) path i w of
            (Inl e, w1) \<Rightarrow> (Inl e, w1)
          | (Inr (s, punches), w1) \<Rightarrow>
             (case io_run (server_env_of P (si_files inp)) (si_completions inp) (s, r, w1) of
                Inl e \<Rightarrow> (Inl e, w1)
              | Inr ((pending, s1, r1, w2), out) \<Rightarrow> (Inr (pending, punches @ out), w2))))"

definition describe_transfer :: "'c sha256 \<Rightarrow> send_inputs \<Rightarrow> string \<Rightarrow> TRANSFERS result" where
  "describe_transfer H inp path =
     bind_result (describe_file H (si_files inp) path (new_token inp)) (describe_network inp)"

text \<open>The branch of \<open>send\<close>.\<close>

definition send_main ::
    "('r, 'c, 'w) program \<Rightarrow> send_inputs \<Rightarrow> string \<Rightarrow> 'r
       \<Rightarrow> (string \<Rightarrow> string option) \<Rightarrow> 'w \<Rightarrow> 'w ended" where
  "send_main P inp path r d w =
     (if \<not> fs_exists (si_files inp) path
      then \<lparr>ending = Exit 1, sent = [], disk = d, world = w\<rparr>
      else
        (case describe_transfer (pg_sha P) inp path of
           Inl e \<Rightarrow> \<lparr>ending = Terminated e, sent = [], disk = d, world = w\<rparr>
         | Inr t \<Rightarrow>
            (case register_transfer (pg_floats P) (pg_client P) t w of
               (Inl e, w1) \<Rightarrow> \<lparr>ending = Terminated e, sent = [], disk = d, world = w1\<rparr>
             | (Inr _, w1) \<Rightarrow>
                (case start_server P inp path (transfer_id t) r w1 of
                   (Inl e, w2) \<Rightarrow> \<lparr>ending = Terminated e, sent = [], disk = d, world = w2\<rparr>
                 | (Inr (pending, out), w2) \<Rightarrow>
                     \<lparr>ending = (if pending then Running else Exit 0), sent = out, disk = d, world = w2\<rparr>))))"

section \<open>Receiving\<close>

record get_inputs =
  gi_socket :: "unit result"
  gi_stun :: stun_answer
  gi_handshake :: "nat \<Rightarrow> socket_event"
  gi_transfer :: "socket_event list"
  gi_can_open :: "string \<Rightarrow> bool"

text \<open>\<open>sender_ep\<close>: the ports are narrowed to 16 bits.\<close>

definition sender_endpoint :: "TRANSFERS \<Rightarrow> PublicEndpoint" where
  "sender_endpoint t =
     \<lparr>ip = sender_ip t, port = ucast (sender_port t),
      local_ip = sender_local_ip t, local_port = ucast (sender_local_port t)\<rparr>"

text \<open>The hole punching and the handshake, then the transfer with the peer that answered.\<close>

definition connect_peer ::
    "('r, 'c, 'w) program \<Rightarrow> get_inputs \<Rightarrow> TRANSFERS \<Rightarrow> string \<Rightarrow> 'r
       \<Rightarrow> (endpoint option \<times> datagrams) result" where
  "connect_peer P inp t tok r =
     bind_result (build_peer_candidates (pg_make_address P) t) (\<lambda>peers.
     bind_result (perform_udp_hole_punch (pg_make_address P) (sender_endpoint t)) (\<lambda>punches.
     bind_result (perform_handshake (pg_sodium P) (pg_codec P) peers tok (gi_handshake inp) r)
       (\<lambda>((peer, out), r1).
     Inr (peer, punches @ out))))"

definition receive_env_of :: "('r, 'c, 'w) program \<Rightarrow> endpoint \<Rightarrow> string \<Rightarrow> string \<Rightarrow> 'c receive_env" where
  "receive_env_of P peer tok hash =
     \<lparr>re_codec = pg_codec P, re_sha = pg_sha P, re_peer = peer, re_transfer_id = tok,
      re_expected_hash = hash, re_get_bytes = build_get_request (pg_codec P) tok\<rparr>"

text \<open>
  \<open>run_client_session\<close>: its value, or none while it waits, with what it has sent; the disk; the
  world. \<open>receive_file\<close> leaves the disk alone when it ends with an exception.
\<close>

definition run_client_session ::
    "('r, 'c, 'w) program \<Rightarrow> get_inputs \<Rightarrow> string \<Rightarrow> string \<Rightarrow> 'r
       \<Rightarrow> (string \<Rightarrow> string option) \<Rightarrow> 'w
       \<Rightarrow> (bool option \<times> datagrams) result \<times> (string \<Rightarrow> string option) \<times> 'w" where
  "run_client_session P inp tok output_filename r d w =
     (case bind_result (gi_socket inp) (\<lambda>_. public_endpoint (gi_stun inp)) of
        Inl e \<Rightarrow> (Inl e, d, w)
      | Inr my_ep \<Rightarrow>
         (case signal_receiver_endpoint (pg_floats P) (pg_client P) tok my_ep w of
            (Inl e, w1) \<Rightarrow> (Inl e, d, w1)
          | (Inr _, w1) \<Rightarrow>
             (case get_transfer_metadata (pg_floats P) (pg_client P) tok w1 of
                (Inl e, w2) \<Rightarrow> (Inl e, d, w2)
              | (Inr t, w2) \<Rightarrow>
                 (case connect_peer P inp t tok r of
                    Inl e \<Rightarrow> (Inl e, d, w2)
                  | Inr (None, out) \<Rightarrow> (Inr (Some False, out), d, w2)
                  | Inr (Some peer, out) \<Rightarrow>
                     (case receive_file (receive_env_of P peer tok (file_hash t))
                             (gi_can_open inp output_filename) (d output_filename) (gi_transfer inp) of
                        Inl e \<Rightarrow> (Inl e, d, w2)
                      | Inr (res, st, out1) \<Rightarrow>
                          (Inr (res, out @ out1), d(output_filename := out_file st), w2))))))"

text \<open>The branch of \<open>get\<close>. The host that the environment can name is not used.\<close>

definition get_main ::
    "('r, 'c, 'w) program \<Rightarrow> get_inputs \<Rightarrow> string \<Rightarrow> 'r \<Rightarrow> (string \<Rightarrow> string option) \<Rightarrow> 'w \<Rightarrow> 'w ended" where
  "get_main P inp secret r d w =
     (case look_up (pg_client P) secret w of
        (False, w1) \<Rightarrow> \<lparr>ending = Exit 1, sent = [], disk = d, world = w1\<rparr>
      | (True, w1) \<Rightarrow>
         (case get_transfer_metadata (pg_floats P) (pg_client P) secret w1 of
            (Inl e, w2) \<Rightarrow> \<lparr>ending = Terminated e, sent = [], disk = d, world = w2\<rparr>
          | (Inr t, w2) \<Rightarrow>
             (case run_client_session P inp secret (file_name t) r d w2 of
                (Inl e, d1, w3) \<Rightarrow> \<lparr>ending = Terminated e, sent = [], disk = d1, world = w3\<rparr>
              | (Inr (res, out), d1, w3) \<Rightarrow>
                  \<lparr>ending = (case res of None \<Rightarrow> Running | Some ok \<Rightarrow> Exit (if ok then 0 else 1)),
                   sent = out, disk = d1, world = w3\<rparr>)))"

section \<open>The program\<close>

text \<open>
  \<open>main\<close> on the arguments after the program's name. The address of the central server is read from
  the environment before \<open>main\<close> starts.
\<close>

definition cli_main ::
    "('r, 'c, 'w) program \<Rightarrow> send_inputs \<Rightarrow> get_inputs \<Rightarrow> (string \<Rightarrow> string option) \<Rightarrow> 'r
       \<Rightarrow> string list \<Rightarrow> (string \<Rightarrow> string option) \<Rightarrow> 'w \<Rightarrow> 'w ended" where
  "cli_main P si gi getenv r args d w =
     (let stop = (\<lambda>e. \<lparr>ending = e, sent = [], disk = d, world = w\<rparr>)
      in case get_env getenv ''CENTRAL_SERVER_URL'' of
           Inl e \<Rightarrow> stop (Terminated e)
         | Inr _ \<Rightarrow>
             (case args of
                [] \<Rightarrow> stop (Exit 1)
              | cmd # rest \<Rightarrow>
                  if cmd = SEND then
                    (case rest of [] \<Rightarrow> stop (Exit 1) | path # _ \<Rightarrow> send_main P si path r d w)
                  else if cmd = GET then
                    (case rest of [] \<Rightarrow> stop (Exit 1) | secret # _ \<Rightarrow> get_main P gi secret r d w)
                  else stop (Exit 1)))"

end
