(* ===== verification/Json_Roundtrip.thy ===== *)
theory Json_Roundtrip
  imports Json_Serializer
begin

text \<open>
  What \<open>dump\<close> writes, \<open>parse\<close> reads back: the integer routine against plain decimal, the UTF-8
  automaton against the lexer's table of byte ranges, and values as a whole.
\<close>

section \<open>Integers\<close>

lemma to_string_split:
  assumes "10 \<le> n"
  shows "to_string n = to_string (n div 10) @ [digit_char (n mod 10)]"
  using assms by (subst to_string.simps) simp

lemma to_string_100:
  assumes "100 \<le> n"
  shows "to_string n = to_string (n div 100) @ [digit_char (n mod 100 div 10), digit_char (n mod 100 mod 10)]"
proof -
  have "n div 10 mod 10 = n mod 100 div 10" using mod_mult2_eq [of n 10 10] by simp
  moreover have "n mod 100 mod 10 = n mod 10" by (simp add: mod_mod_cancel)
  moreover have "n div 10 div 10 = n div 100" by (simp add: div_mult2_eq [symmetric])
  moreover have "10 \<le> n div 10" using div_le_mono [OF assms, of 10] by simp
  ultimately show ?thesis
    using assms to_string_split [of n] to_string_split [of "n div 10"] by simp
qed


lemma digit_char_0 [simp]: "digit_char 0 = CHR ''0''"
proof -
  have "of_char (CHR ''0'') = (48 :: nat)" by simp
  then show ?thesis by (metis add_0_right char_of_char digit_char_def)
qed

lemma to_string_small:
  "n < 10 \<Longrightarrow> to_string n = [digit_char n]"
  "10 \<le> n \<Longrightarrow> n < 100 \<Longrightarrow> to_string n = [digit_char (n div 10), digit_char (n mod 10)]"
  by (simp_all add: to_string.simps [of n] to_string.simps [of "n div 10"])

lemma count_digits_eq: "count_digits n = length (to_string n)"
proof (induction n rule: count_digits.induct)
  case (1 n)
  show ?case
  proof (cases "n < 100")
    case True
    then show ?thesis by (cases "n < 10") (simp_all add: count_digits.simps [of n] to_string_small)
  next
    case False
    then have l: "length (to_string n) = 2 + length (to_string (n div 100))"
      using to_string_100 [of n] by simp
    show ?thesis
    proof (cases "n < 10000")
      case True
      with False show ?thesis
        by (cases "n < 1000") (simp_all add: l count_digits.simps [of n] to_string_small)
    next
      case large: False
      then have "length (to_string (n div 100)) = 2 + length (to_string (n div 100 div 100))"
        using to_string_100 [of "n div 100"] by simp
      moreover have "n div 100 div 100 = n div 10000" by (simp add: div_mult2_eq [symmetric])
      ultimately show ?thesis using large 1 by (simp add: l count_digits.simps [of n])
    qed
  qed
qed

text \<open>The digits land right-aligned before \<open>p\<close>; nothing else in the buffer changes.\<close>

lemma update_two:
  assumes "2 \<le> p" "p \<le> length buf"
  shows "buf[p - Suc 0 := d1, p - 2 := d0] = take (p - 2) buf @ [d0, d1] @ drop p buf"
proof (rule nth_equalityI)
  fix i assume i: "i < length (buf[p - Suc 0 := d1, p - 2 := d0])"
  consider "i < p - 2" | "i = p - 2" | "i = p - 1" | "p \<le> i" by linarith
  then show "buf[p - Suc 0 := d1, p - 2 := d0] ! i = (take (p - 2) buf @ [d0, d1] @ drop p buf) ! i"
    using assms i by cases (auto simp: nth_append nth_list_update nth_Cons')
qed (use assms in auto)

lemma fill_digits_eq:
  "length (to_string n) \<le> p \<Longrightarrow> p \<le> length buf \<Longrightarrow>
     fill_digits p n buf = take (p - length (to_string n)) buf @ to_string n @ drop p buf"
proof (induction p n buf rule: fill_digits.induct)
  case (1 p n buf)
  show ?case
  proof (cases "100 \<le> n")
    case True
    let ?d0 = "digit_char (n mod 100 div 10)" and ?d1 = "digit_char (n mod 100 mod 10)"
    note ts = to_string_100 [OF True]
    from "1.prems"(1) have p: "2 \<le> p" "length (to_string (n div 100)) \<le> p - 2" by (simp_all add: ts)
    let ?buf = "buf[p - 1 := ?d1, p - 2 := ?d0]"
    have "fill_digits p n buf = fill_digits (p - 2) (n div 100) ?buf"
      using True by (simp add: fill_digits.simps [of p] digits_to_99_def)
    also have "\<dots> = take (p - 2 - length (to_string (n div 100))) ?buf
        @ to_string (n div 100) @ drop (p - 2) ?buf"
      using "1.IH" [OF True _ refl] True p(2) "1.prems"(2) by (simp add: digits_to_99_def)
    also have "\<dots> = take (p - length (to_string n)) buf @ to_string n @ drop p buf"
      using p "1.prems"(2) by (simp add: update_two ts)
    finally show ?thesis .
  next
    case False
    show ?thesis
    proof (cases "10 \<le> n")
      case True
      with False "1.prems" show ?thesis
        by (simp add: fill_digits.simps [of p] digits_to_99_def to_string_small numeral_2_eq_2 update_two [unfolded numeral_2_eq_2])
    next
      case small: False
      with "1.prems" have "1 \<le> p" by (simp add: to_string_small)
      with small False "1.prems" show ?thesis
        using upd_conv_take_nth_drop [of "p - 1" buf "digit_char n"]
        by (simp add: fill_digits.simps [of p] to_string_small)
    qed
  qed
qed

lemma length_to_string_64: "n < 2 ^ 64 \<Longrightarrow> length (to_string n) \<le> 20"
proof -
  have "n < 10 ^ Suc k \<Longrightarrow> length (to_string n) \<le> Suc k" for n k
  proof (induction k arbitrary: n)
    case 0
    then show ?case by (simp add: to_string_small)
  next
    case (Suc k)
    show ?case
    proof (cases "10 \<le> n")
      case True
      have "n div 10 < 10 ^ Suc k" using Suc.prems by (simp add: less_mult_imp_div_less mult.commute)
      with Suc.IH True show ?thesis by (simp add: to_string_split)
    qed (simp add: to_string_small)
  qed
  from this [of n 19] show "n < 2 ^ 64 \<Longrightarrow> ?thesis" by simp
qed

lemma unat_remove_sign:
  assumes "sint (x :: 64 word) < 0"
  shows "unat (remove_sign x) = nat (- sint x)"
proof -
  have b: "0 \<le> - sint x" "- sint x < 2 ^ 64" using assms sint_greater_eq [of x] by simp_all
  have "uint (word_of_int (- sint x) :: 64 word) = take_bit 64 (- sint x)"
    by (simp only: uint_word_of_int_eq len_bit0 len_num1) simp
  also have "\<dots> = - sint x" using b by (intro take_bit_int_eq_self) simp_all
  finally have "uint (- x) = - sint x" by simp
  moreover have "remove_sign x = - x" by (simp add: remove_sign_def)
  ultimately show ?thesis by (simp add: unat_eq_nat_uint)
qed

lemma dump_unsigned_eq:
  assumes "length buf = 64"
  shows "dump_unsigned buf x = to_string (unat x)"
proof -
  have "length (to_string (unat x)) \<le> 20" using unsigned_less [of x] by (intro length_to_string_64) simp
  then show ?thesis using assms
    by (simp add: dump_unsigned_def count_digits_eq fill_digits_eq to_string_small Let_def)
qed

lemma dump_integer_eq:
  assumes "length buf = 64"
  shows "dump_integer buf x =
     (if sint x < 0 then ''-'' @ to_string (nat (- sint x)) else to_string (unat x))"
proof (cases "sint x < 0")
  case True
  then have "x \<noteq> 0" by auto
  have "nat (- sint x) < 2 ^ 64" using sint_greater_eq [of x] by simp
  then have "length (to_string (nat (- sint x))) \<le> 20" by (rule length_to_string_64)
  moreover have "take (Suc 0) (buf[0 := CHR ''-'']) = ''-''" using assms by (cases buf) auto
  ultimately show ?thesis using True assms \<open>x \<noteq> 0\<close>
    by (simp add: dump_integer_def count_digits_eq fill_digits_eq unat_remove_sign Let_def)
next
  case False
  have "length (to_string (unat x)) \<le> 20" using unsigned_less [of x] by (intro length_to_string_64) simp
  with False assms show ?thesis
    by (simp add: dump_integer_def count_digits_eq fill_digits_eq to_string_small Let_def)
qed

section \<open>Reading numbers\<close>

text \<open>What may follow a number without continuing it.\<close>

definition number_ends :: "string \<Rightarrow> bool" where
  "number_ends s = (case s of [] \<Rightarrow> True
     | c # _ \<Rightarrow> \<not> is_digit c \<and> c \<noteq> CHR ''.'' \<and> c \<noteq> CHR ''e'' \<and> c \<noteq> CHR ''E'')"

lemma to_string_first:
  assumes "0 < n" "to_string n = c # cs"
  shows "c \<noteq> CHR ''0''"
  using assms
proof (induction n arbitrary: c cs rule: to_string.induct)
  case (1 n)
  show ?case
  proof (cases "n < 10")
    case True
    with 1 have "digit_char n = c" by (simp add: to_string_small)
    then have "digit_value c = n" using True by (metis digit_char_value)
    with 1(2) show ?thesis by (auto simp: digit_value_def)
  next
    case False
    obtain d ds where d: "to_string (n div 10) = d # ds" by (cases "to_string (n div 10)") auto
    with 1 False have "d \<noteq> CHR ''0''" by simp
    with d False 1(3) show ?thesis by (simp add: to_string_split)
  qed
qed

lemma any1_digits:
  "list_all is_digit ds \<Longrightarrow> number_ends r \<Longrightarrow>
     scan_number_any1 fl kind buf (ds @ r) = scan_number_done fl kind (buf @ ds) r"
proof (induction ds arbitrary: buf)
  case Nil
  then show ?case by (cases r) (auto simp: number_ends_def)
qed simp

lemma zero_ends: "number_ends r \<Longrightarrow> scan_number_zero fl kind buf r = scan_number_done fl kind buf r"
  by (cases r) (auto simp: number_ends_def)

lemma digit_head:
  assumes "0 < n" "to_string n = c # cs"
  shows "is_digit c" "c \<noteq> CHR ''0''" "c \<noteq> CHR ''-''" "list_all is_digit cs"
  using assms to_string_first [OF assms] to_string_digits [of n] digit_not_space [of c] by simp_all

lemma not_digits:
  "\<not> is_digit (CHR '' '')" "\<not> is_digit (CHR 0x09)" "\<not> is_digit (CHR 0x0A)" "\<not> is_digit (CHR 0x0D)"
  "\<not> is_digit (CHR ''['')" "\<not> is_digit (CHR '']'')" "\<not> is_digit (CHR ''{'')" "\<not> is_digit (CHR ''}'')"
  "\<not> is_digit (CHR '':'')" "\<not> is_digit (CHR '','')" "\<not> is_digit (CHR ''t'')" "\<not> is_digit (CHR ''f'')"
  "\<not> is_digit (CHR ''n'')" "\<not> is_digit (CHR 0x22)" "\<not> is_digit (CHR 0x00)"
  by (simp_all add: is_digit_def)

lemma digit_other: "is_digit c \<Longrightarrow> \<not> is_digit d \<Longrightarrow> c \<noteq> d"
  by auto

lemma scan_digit:
  assumes "is_digit c"
  shows "scan fl (c # s) = scan_number fl c s"
  using assms not_digits [THEN digit_other [OF assms]]
  by (simp add: scan_def skip_whitespace_def is_whitespace_def)

lemma scan_minus: "scan fl (CHR ''-'' # s) = scan_number fl (CHR ''-'') s"
  by (simp add: scan_def skip_whitespace_def is_whitespace_def)

lemma scan_unsigned:
  assumes "n < 2 ^ 64" "number_ends r"
  shows "scan fl (to_string n @ r) = (T_unsigned (of_nat n), r)"
proof (cases "n = 0")
  case True
  have "is_digit (CHR ''0'')" by (simp add: is_digit_def)
  with True assms show ?thesis
    by (simp add: to_string_small scan_digit scan_number_def zero_ends scan_number_done_def decimal_value_def
          digit_value_def)
next
  case False
  then obtain c cs where c: "to_string n = c # cs" by (cases "to_string n") auto
  have h: "is_digit c" "c \<noteq> CHR ''0''" "c \<noteq> CHR ''-''" "list_all is_digit cs"
    using digit_head [OF _ c] False by simp_all
  have "decimal_value 0 (c # cs) = n" using decimal_value_to_string [of n] c by simp
  with h c assms show ?thesis
    by (simp add: scan_digit scan_number_def any1_digits scan_number_done_def)
qed

lemma scan_negative:
  assumes "0 < n" "n \<le> 2 ^ 63" "number_ends r"
  shows "scan fl (CHR ''-'' # to_string n @ r) = (T_integer (of_int (- int n)), r)"
proof -
  obtain c cs where c: "to_string n = c # cs" by (cases "to_string n") auto
  have h: "is_digit c" "c \<noteq> CHR ''0''" "list_all is_digit cs" using digit_head [OF assms(1) c] by simp_all
  have "decimal_value 0 (c # cs) = n" using decimal_value_to_string [of n] c by simp
  moreover have "int n \<le> 2 ^ 63" using assms(2) by simp
  ultimately show ?thesis using h c assms(3)
    by (simp add: scan_minus scan_number_def any1_digits scan_number_done_def)
qed

section \<open>Reading strings\<close>

text \<open>
  The automaton of the serializer and the byte ranges of the lexer describe the same UTF-8: the
  ranges that a state of the automaton still asks for.
\<close>

definition expected :: "nat \<Rightarrow> (nat \<times> nat) list" where
  "expected state =
     (if state = 2 then [(0x80, 0xBF)]
      else if state = 3 then [(0x80, 0xBF), (0x80, 0xBF)]
      else if state = 4 then [(0xA0, 0xBF), (0x80, 0xBF)]
      else if state = 5 then [(0x80, 0x9F), (0x80, 0xBF)]
      else if state = 6 then [(0x90, 0xBF), (0x80, 0xBF), (0x80, 0xBF)]
      else if state = 7 then [(0x80, 0xBF), (0x80, 0xBF), (0x80, 0xBF)]
      else if state = 8 then [(0x80, 0x8F), (0x80, 0xBF), (0x80, 0xBF)]
      else [])"

text \<open>The type of a byte, and the transitions, read off the table.\<close>

lemma length_utf8d_parts: "length utf8d_low = 224" "length utf8d_high = 32" "length utf8d_states = 144"
  by (simp_all add: utf8d_low_def utf8d_high_def utf8d_states_def)

lemma utf8d_parts:
  "b < 224 \<Longrightarrow> utf8d ! b = utf8d_low ! b"
  "k < 32 \<Longrightarrow> utf8d ! (224 + k) = utf8d_high ! k"
  "j < 144 \<Longrightarrow> utf8d ! (256 + j) = utf8d_states ! j"
  by (simp_all add: utf8d_def nth_append length_utf8d_parts)

lemma utf8d_runs:
  "b < 0x80 \<Longrightarrow> utf8d ! b = 0"
  "0x80 \<le> b \<Longrightarrow> b < 0x90 \<Longrightarrow> utf8d ! b = 1"
  "0x90 \<le> b \<Longrightarrow> b < 0xA0 \<Longrightarrow> utf8d ! b = 9"
  "0xA0 \<le> b \<Longrightarrow> b < 0xC0 \<Longrightarrow> utf8d ! b = 7"
  "b = 0xC0 \<or> b = 0xC1 \<Longrightarrow> utf8d ! b = 8"
  "0xC2 \<le> b \<Longrightarrow> b < 0xE0 \<Longrightarrow> utf8d ! b = 2"
  by (auto simp: utf8d_parts utf8d_low_def nth_append)

lemma high_byte:
  assumes "0xE0 \<le> b" "b < 256"
  shows "utf8d ! b =
     (if b = 0xE0 then 0xA else if b = 0xED then 4 else if b < 0xF0 then 3 else if b = 0xF0 then 0xB
      else if b < 0xF4 then 6 else if b = 0xF4 then 5 else 8)"
proof -
  define k where "k = b - 224"
  with assms have b: "b = 224 + k" and k: "k < 32" by simp_all
  then have "k \<in> set [0..<32]" by simp
  then have "utf8d_high ! k = (if 224 + k = 0xE0 then 0xA else if 224 + k = 0xED then 4
      else if 224 + k < 0xF0 then 3 else if 224 + k = 0xF0 then 0xB
      else if 224 + k < 0xF4 then 6 else if 224 + k = 0xF4 then 5 else 8)"
    by (simp add: upt_rec) (elim disjE; simp add: utf8d_high_def)
  with k show ?thesis by (simp only: b utf8d_parts(2))
qed

text \<open>The rows of the transition table, without the unused columns.\<close>

lemma utf8d_rows:
  "map (\<lambda>s. take 12 (drop (s * 16) utf8d_states)) [0..<9] =
     [[0, 1, 2, 3, 5, 8, 7, 1, 1, 1, 4, 6],
      [1, 1, 1, 1, 1, 1, 1, 1, 1, 1, 1, 1],
      [1, 0, 1, 1, 1, 1, 1, 0, 1, 0, 1, 1],
      [1, 2, 1, 1, 1, 1, 1, 2, 1, 2, 1, 1],
      [1, 1, 1, 1, 1, 1, 1, 2, 1, 1, 1, 1],
      [1, 2, 1, 1, 1, 1, 1, 1, 1, 2, 1, 1],
      [1, 1, 1, 1, 1, 1, 1, 3, 1, 3, 1, 1],
      [1, 3, 1, 1, 1, 1, 1, 3, 1, 3, 1, 1],
      [1, 3, 1, 1, 1, 1, 1, 1, 1, 1, 1, 1]]"
  by (simp add: utf8d_states_def upt_rec)

lemma transition:
  assumes "s < 9" "t < 12"
  shows "utf8d ! (256 + s * 16 + t) = map (\<lambda>s. take 12 (drop (s * 16) utf8d_states)) [0..<9] ! s ! t"
proof -
  have "utf8d ! (256 + s * 16 + t) = utf8d_states ! (s * 16 + t)"
    using utf8d_parts(3) [of "s * 16 + t"] assms by (simp add: add.assoc)
  with assms show ?thesis by (simp add: length_utf8d_parts)
qed

lemmas transition_row = transition [unfolded utf8d_rows]

lemma twelve: "t < (12 :: nat) \<Longrightarrow> t \<in> {0, 1, 2, 3, 4, 5, 6, 7, 8, 9, 10, 11}"
  by (auto simp: less_Suc_eq numeral_eq_Suc)

lemma rows_at:
  assumes "t < 12"
  shows "[1, 0, 1, 1, 1, 1, 1, 0, 1, 0, 1, 1] ! t = (if t \<in> {1, 7, 9} then 0 else 1 :: nat)"
    and "[1, 2, 1, 1, 1, 1, 1, 2, 1, 2, 1, 1] ! t = (if t \<in> {1, 7, 9} then 2 else 1 :: nat)"
    and "[1, 1, 1, 1, 1, 1, 1, 2, 1, 1, 1, 1] ! t = (if t = 7 then 2 else 1 :: nat)"
    and "[1, 2, 1, 1, 1, 1, 1, 1, 1, 2, 1, 1] ! t = (if t \<in> {1, 9} then 2 else 1 :: nat)"
    and "[1, 1, 1, 1, 1, 1, 1, 3, 1, 3, 1, 1] ! t = (if t \<in> {7, 9} then 3 else 1 :: nat)"
    and "[1, 3, 1, 1, 1, 1, 1, 3, 1, 3, 1, 1] ! t = (if t \<in> {1, 7, 9} then 3 else 1 :: nat)"
    and "[1, 3, 1, 1, 1, 1, 1, 1, 1, 1, 1, 1] ! t = (if t = 1 then 3 else 1 :: nat)"
  using twelve [OF assms] by (elim insertE emptyE; simp)+

text \<open>The types of continuation bytes.\<close>

lemma byte_type:
  assumes "b < 256"
  shows "utf8d ! b < 12"
    and "utf8d ! b = 1 \<longleftrightarrow> 0x80 \<le> b \<and> b < 0x90"
    and "utf8d ! b = 9 \<longleftrightarrow> 0x90 \<le> b \<and> b < 0xA0"
    and "utf8d ! b = 7 \<longleftrightarrow> 0xA0 \<le> b \<and> b < 0xC0"
proof -
  consider "b < 0x80" | "0x80 \<le> b" "b < 0x90" | "0x90 \<le> b" "b < 0xA0" | "0xA0 \<le> b" "b < 0xC0"
    | "b = 0xC0 \<or> b = 0xC1" | "0xC2 \<le> b" "b < 0xE0" | "0xE0 \<le> b" by linarith
  then have "utf8d ! b < 12 \<and> (utf8d ! b = 1 \<longleftrightarrow> 0x80 \<le> b \<and> b < 0x90)
      \<and> (utf8d ! b = 9 \<longleftrightarrow> 0x90 \<le> b \<and> b < 0xA0) \<and> (utf8d ! b = 7 \<longleftrightarrow> 0xA0 \<le> b \<and> b < 0xC0)"
  proof cases
    case 5
    then show ?thesis by (auto simp: utf8d_runs)
  qed (use assms in \<open>simp_all add: utf8d_runs high_byte\<close>)
  then show "utf8d ! b < 12" "utf8d ! b = 1 \<longleftrightarrow> 0x80 \<le> b \<and> b < 0x90"
    "utf8d ! b = 9 \<longleftrightarrow> 0x90 \<le> b \<and> b < 0xA0" "utf8d ! b = 7 \<longleftrightarrow> 0xA0 \<le> b \<and> b < 0xC0" by blast+
qed

text \<open>
  Bounds for the code point collected so far, by state: enough to know that a complete one of more
  than one byte is never below 128, so it is never one of the escaped characters.
\<close>

definition codep_ok :: "nat \<Rightarrow> nat \<Rightarrow> bool" where
  "codep_ok state codep =
     (if state = 2 then 2 \<le> codep \<and> codep < 2 ^ 16
      else if state \<in> {3, 5} then 1 \<le> codep \<and> codep < 2 ^ 10
      else if state = 4 then codep < 2 ^ 10
      else if state = 6 then codep < 2 ^ 4
      else 1 \<le> codep \<and> codep < 2 ^ 4)"

lemma and_63: "b AND 63 = b mod 64" for b :: nat
proof -
  have "b AND mask 6 = take_bit 6 b" by (simp add: take_bit_eq_mask)
  then show ?thesis by (simp add: mask_eq_exp_minus_1 take_bit_eq_mod)
qed

lemma next_codep:
  assumes "codep < (2 :: nat) ^ 16"
  shows "(b AND 0x3F) OR take_bit 32 (push_bit 6 codep) = b mod 64 + 64 * codep"
proof -
  have "push_bit 6 codep < 2 ^ 32" using assms by (simp add: push_bit_eq_mult)
  then have t: "take_bit 32 (push_bit 6 codep) = push_bit 6 codep" by (rule take_bit_nat_eq_self)
  have "take_bit 6 b AND push_bit 6 codep = 0" by (rule bit_eqI) (auto simp: bit_simps)
  then have "take_bit 6 b + push_bit 6 codep = take_bit 6 b OR push_bit 6 codep"
    by (rule disjunctive_add_eq_or)
  then show ?thesis unfolding t and_63 by (simp add: take_bit_eq_mod push_bit_eq_mult mult.commute)
qed

lemma mod_shift:
  fixes b :: nat
  assumes "k dvd a" "a \<le> b" "b < a + k"
  shows "b mod k = b - a"
  using assms by (intro mod_nat_eqI) auto

text \<open>The first byte of a character.\<close>

lemma first_codep: "drop_bit t 0xFF AND b = b mod 2 ^ (8 - t)" if "t \<le> 8" for b :: nat
proof -
  have "drop_bit t (mask 8 :: nat) = mask (8 - t)"
    by (rule bit_eqI) (use that in \<open>auto simp: bit_simps\<close>)
  then have "drop_bit t 0xFF AND b = mask (8 - t) AND b" by (simp add: mask_eq_exp_minus_1)
  then show ?thesis by (simp add: and.commute take_bit_eq_mod flip: take_bit_eq_mask)
qed

lemma decode_first:
  assumes "b < 256"
  shows "b < 0x80 \<Longrightarrow> decode 0 cp b = (0, b)"
    and "0x80 \<le> b \<Longrightarrow> following_bytes b = None \<Longrightarrow> fst (decode 0 cp b) = 1"
    and "following_bytes b = Some ranges \<Longrightarrow>
           fst (decode 0 cp b) \<in> {2..8} \<and> expected (fst (decode 0 cp b)) = ranges
           \<and> codep_ok (fst (decode 0 cp b)) (snd (decode 0 cp b))"
proof -
  note tr = transition_row [of 0, simplified]
  show "decode 0 cp b = (0, b)" if "b < 0x80"
    using that first_codep [of 0 b] tr [of 0] by (simp add: decode_def utf8d_runs(1) UTF8_ACCEPT_def)
  show "fst (decode 0 cp b) = 1" if "0x80 \<le> b" "following_bytes b = None"
  proof -
    from that assms consider "0x80 \<le> b" "b < 0x90" | "0x90 \<le> b" "b < 0xA0" | "0xA0 \<le> b" "b < 0xC0"
      | "b = 0xC0 \<or> b = 0xC1" | "0xF5 \<le> b"
      by (fastforce simp: following_bytes_def split: if_splits)
    then show ?thesis
      using tr [of 1] tr [of 9] tr [of 7] tr [of 8] assms
      by cases (simp_all add: decode_def utf8d_runs high_byte)
  qed
  show "fst (decode 0 cp b) \<in> {2..8} \<and> expected (fst (decode 0 cp b)) = ranges
      \<and> codep_ok (fst (decode 0 cp b)) (snd (decode 0 cp b))" if "following_bytes b = Some ranges"
  proof -
    from that consider "0xC2 \<le> b" "b < 0xE0" | "b = 0xE0" | "0xE1 \<le> b" "b < 0xF0" "b \<noteq> 0xED" | "b = 0xED"
      | "b = 0xF0" | "0xF1 \<le> b" "b < 0xF4" | "b = 0xF4"
      by (fastforce simp: following_bytes_def split: if_splits)
    then show ?thesis
    proof cases
      case 1
      then have "b mod 64 = b - 0xC0" by (intro mod_shift) simp_all
      with 1 have "2 \<le> b mod 64" "b mod 64 < 65536" by linarith+
      with 1 that tr [of 2] first_codep [of 2 b] show ?thesis
        by (simp add: decode_def utf8d_runs following_bytes_def UTF8_ACCEPT_def expected_def codep_ok_def)
    next
      case 3
      then have "b \<le> 0xEC \<or> b = 0xEE \<or> b = 0xEF" by linarith
      moreover have "b mod 32 = b - 0xE0" using 3 by (intro mod_shift) simp_all
      with 3 have "1 \<le> b mod 32" "b mod 32 < 1024" by linarith+
      ultimately have "b \<le> 0xEC \<or> b = 0xEE \<or> b = 0xEF" "1 \<le> b mod 32" "b mod 32 < 1024" by blast+
      with 3 that tr [of 3] first_codep [of 3 b] assms show ?thesis
        by (simp add: decode_def high_byte following_bytes_def UTF8_ACCEPT_def expected_def codep_ok_def)
    next
      case 6
      then have "b mod 4 = b - 0xF0" by (intro mod_shift) simp_all
      with 6 have "1 \<le> b mod 4" "b mod 4 < 16" by linarith+
      with 6 that tr [of 6] first_codep [of 6 b] assms show ?thesis
        by (simp add: decode_def high_byte following_bytes_def UTF8_ACCEPT_def expected_def codep_ok_def)
    qed (use that tr [of 4] tr [of 5] tr [of 10] tr [of 11] first_codep [of 4 b] first_codep [of 5 b] in
      \<open>simp_all add: decode_def high_byte following_bytes_def UTF8_ACCEPT_def expected_def codep_ok_def\<close>)
  qed
qed

text \<open>The bytes after it: each state accepts one range.\<close>

lemma decode_range:
  assumes "b < 256"
  shows "fst (decode 2 codep b) = (if 0x80 \<le> b \<and> b \<le> 0xBF then 0 else 1)"
    and "fst (decode 3 codep b) = (if 0x80 \<le> b \<and> b \<le> 0xBF then 2 else 1)"
    and "fst (decode 4 codep b) = (if 0xA0 \<le> b \<and> b \<le> 0xBF then 2 else 1)"
    and "fst (decode 5 codep b) = (if 0x80 \<le> b \<and> b \<le> 0x9F then 2 else 1)"
    and "fst (decode 6 codep b) = (if 0x90 \<le> b \<and> b \<le> 0xBF then 3 else 1)"
    and "fst (decode 7 codep b) = (if 0x80 \<le> b \<and> b \<le> 0xBF then 3 else 1)"
    and "fst (decode 8 codep b) = (if 0x80 \<le> b \<and> b \<le> 0x8F then 3 else 1)"
proof -
  note ty = byte_type [OF assms]
  have cont: "utf8d ! b \<in> {1, 7, 9} \<longleftrightarrow> 0x80 \<le> b \<and> b \<le> 0xBF" "utf8d ! b \<in> {1, 9} \<longleftrightarrow> 0x80 \<le> b \<and> b \<le> 0x9F"
    "utf8d ! b \<in> {7, 9} \<longleftrightarrow> 0x90 \<le> b \<and> b \<le> 0xBF" "utf8d ! b = 7 \<longleftrightarrow> 0xA0 \<le> b \<and> b \<le> 0xBF"
    "utf8d ! b = 1 \<longleftrightarrow> 0x80 \<le> b \<and> b \<le> 0x8F"
    unfolding insert_iff empty_iff ty by auto
  have fst_eq: "fst (decode state codep b) = utf8d ! (256 + state * 16 + utf8d ! b)" for state
    by (simp only: decode_def Let_def fst_conv)
  note rows = transition_row [OF _ ty(1)] and at = rows_at [OF ty(1), unfolded cont]
  show "fst (decode 2 codep b) = (if 0x80 \<le> b \<and> b \<le> 0xBF then 0 else 1)"
    unfolding fst_eq at(1) [symmetric] by (subst rows) simp_all
  show "fst (decode 3 codep b) = (if 0x80 \<le> b \<and> b \<le> 0xBF then 2 else 1)"
    unfolding fst_eq at(2) [symmetric] by (subst rows) simp_all
  show "fst (decode 4 codep b) = (if 0xA0 \<le> b \<and> b \<le> 0xBF then 2 else 1)"
    unfolding fst_eq at(3) [symmetric] by (subst rows) simp_all
  show "fst (decode 5 codep b) = (if 0x80 \<le> b \<and> b \<le> 0x9F then 2 else 1)"
    unfolding fst_eq at(4) [symmetric] by (subst rows) simp_all
  show "fst (decode 6 codep b) = (if 0x90 \<le> b \<and> b \<le> 0xBF then 3 else 1)"
    unfolding fst_eq at(5) [symmetric] by (subst rows) simp_all
  show "fst (decode 7 codep b) = (if 0x80 \<le> b \<and> b \<le> 0xBF then 3 else 1)"
    unfolding fst_eq at(6) [symmetric] by (subst rows) simp_all
  show "fst (decode 8 codep b) = (if 0x80 \<le> b \<and> b \<le> 0x8F then 3 else 1)"
    unfolding fst_eq at(7) [symmetric] by (subst rows) simp_all
qed

lemma decode_next:
  assumes b: "b < 256" and st: "state \<in> {2..8}" and ex: "expected state = (lo, hi) # ranges"
    and cp: "codep_ok state codep"
  shows "if \<not> (lo \<le> b \<and> b \<le> hi) then fst (decode state codep b) = 1
    else if ranges = [] then fst (decode state codep b) = 0 \<and> 0x80 \<le> snd (decode state codep b)
    else fst (decode state codep b) \<in> {2..8} \<and> expected (fst (decode state codep b)) = ranges
      \<and> codep_ok (fst (decode state codep b)) (snd (decode state codep b))"
proof -
  have c16: "codep < 2 ^ 16" using cp by (auto simp: codep_ok_def split: if_splits)
  have snd_eq: "snd (decode state codep b) = b mod 64 + 64 * codep"
    using st next_codep [OF c16, of b] by (simp add: decode_def UTF8_ACCEPT_def)
  have m: "b mod 64 < 64" by simp
  from st consider "state = 2" | "state = 3" | "state = 4" | "state = 5" | "state = 6" | "state = 7" | "state = 8"
    by force
  then show ?thesis
  proof cases
    case 3
    have "2 \<le> b mod 64" if "0xA0 \<le> b" "b \<le> 0xBF"
      using that mod_shift [of 64 128 b] by simp
    with 3 decode_range [OF b, of codep] ex cp m show ?thesis
      unfolding snd_eq by (auto simp: expected_def codep_ok_def)
  next
    case 5
    have "1 \<le> b mod 64" if "0x90 \<le> b" "b \<le> 0xBF"
      using that mod_shift [of 64 128 b] by simp
    with 5 decode_range [OF b, of codep] ex cp m show ?thesis
      unfolding snd_eq by (auto simp: expected_def codep_ok_def)
  qed (unfold snd_eq, use decode_range [OF b, of codep] ex cp m in \<open>auto simp: expected_def codep_ok_def\<close>)
qed

text \<open>Escaped characters.\<close>

lemma hex_digit_0: "hex_digit 0 = CHR ''0''"
  using digit_char_0 by (simp add: hex_digit_def digit_char_def)

lemma hex_setw_4:
  assumes "n < 256"
  shows "hex_setw 4 n = [CHR ''0'', CHR ''0'', hex_digit (n div 16), hex_digit (n mod 16)]"
proof (cases "n < 16")
  case True
  then have "to_hex n = [hex_digit n]" by (subst to_hex.simps) simp
  with True show ?thesis by (simp add: hex_setw_def hex_digit_0 numeral_3_eq_3)
next
  case False
  with assms have "n div 16 < 16" by simp
  then have "to_hex (n div 16) = [hex_digit (n div 16)]" by (subst to_hex.simps) simp
  with False have "to_hex n = [hex_digit (n div 16), hex_digit (n mod 16)]" by (subst to_hex.simps) simp
  then show ?thesis by (simp add: hex_setw_def numeral_2_eq_2)
qed

lemma hex_nibble_digit: "d < 16 \<Longrightarrow> hex_nibble (hex_digit d) = Some d"
  by (auto simp: hex_nibble_def hex_digit_def code_def)

lemma get_codepoint_hex:
  assumes "n < 256"
  shows "get_codepoint (hex_setw 4 n @ t) = (Some n, t)"
proof -
  have z: "hex_nibble (CHR ''0'') = Some 0" by (simp add: hex_nibble_def code_def)
  have "n div 16 < 16" using assms by simp
  then show ?thesis
    by (simp add: get_codepoint_def hex_setw_4 [OF assms] z hex_nibble_digit push_bit_eq_mult)
qed

lemma char_code: "code c = n \<Longrightarrow> c = char_of n"
  by (auto simp: code_def)

lemma code_eq: "code c = code d \<Longrightarrow> c = d"
  by (simp add: code_def of_char_eq_iff)

lemma short_escape_code:
  "code c \<in> {8, 9, 10, 12, 13, 0x22, 0x5C} \<Longrightarrow>
     c \<in> {CHR 0x08, CHR 0x09, CHR 0x0A, CHR 0x0C, CHR 0x0D, CHR 0x22, CHR 0x5C}"
  using code_eq [of c "CHR 0x08"] code_eq [of c "CHR 0x09"] code_eq [of c "CHR 0x0A"]
    code_eq [of c "CHR 0x0C"] code_eq [of c "CHR 0x0D"] code_eq [of c "CHR 0x22"]
    code_eq [of c "CHR 0x5C"]
  by (auto simp: code_def)

lemma scan_escaped:
  assumes "code c < 0x80"
  shows "scan_string buf (escape_codepoint False (code c) c @ t) = scan_string (buf @ [c]) t"
proof -
  let ?n = "code c"
  have sc: "scan_escape (d # t) = (Inr bytes, r) \<Longrightarrow>
      scan_string buf (CHR 0x5C # d # t) = scan_string (buf @ bytes) r" for d bytes r t
    by (rule scan_string_Cons(2))
  consider "?n \<in> {8, 9, 10, 12, 13, 0x22, 0x5C}" | "?n < 0x20" "?n \<notin> {8, 9, 10, 12, 13}"
    | "0x20 \<le> ?n" "?n \<noteq> 0x22" "?n \<noteq> 0x5C" by fastforce
  then show ?thesis
  proof cases
    case 1
    then have "c \<in> {CHR 0x08, CHR 0x09, CHR 0x0A, CHR 0x0C, CHR 0x0D, CHR 0x22, CHR 0x5C}"
      by (rule short_escape_code)
    then show ?thesis
      by (elim insertE emptyE) (simp_all add: escape_codepoint_def code_def sc scan_escape_def)
  next
    case 2
    then have e: "escape_codepoint False ?n c = CHR 0x5C # CHR ''u'' # hex_setw 4 ?n"
      by (simp add: escape_codepoint_def backslash_u_def)
    have "scan_unicode (hex_setw 4 ?n @ t) = (Inr [c], t)"
      using 2 get_codepoint_hex [of ?n t] char_code [of c ?n] by (simp add: scan_unicode_def utf8_encode_def)
    then have "scan_escape (CHR ''u'' # hex_setw 4 ?n @ t) = (Inr [c], t)" by (simp add: scan_escape_def)
    then show ?thesis by (simp add: e sc)
  next
    case 3
    then have "escape_codepoint False ?n c = [c]" by (auto simp: escape_codepoint_def)
    moreover have "c \<noteq> CHR 0x22" "c \<noteq> CHR 0x5C" using 3 by (auto simp: code_def)
    ultimately show ?thesis using 3 assms by (simp add: scan_string_Cons(5))
  qed
qed

text \<open>The rest of a character of several bytes.\<close>

lemma escape_high: "0x80 \<le> codep \<Longrightarrow> escape_codepoint False codep c = [c]"
  by (simp add: escape_codepoint_def)

lemma expected_cons: "state \<in> {2..8} \<Longrightarrow> \<exists>lo hi ranges. expected state = (lo, hi) # ranges"
  by (auto simp: expected_def)

lemma dump_multibyte:
  "state \<in> {2..8} \<Longrightarrow> codep_ok state codep \<Longrightarrow> dump_bytes False state codep i prev s = Inr out \<Longrightarrow>
     \<exists>s1 s2 codep' i' prev' out'. s = s1 @ s2 \<and> s1 \<noteq> []
       \<and> dump_bytes False 0 codep' i' prev' s2 = Inr out'
       \<and> (\<forall>buf t. next_byte_in_range (expected state) buf (out @ t) = (True, buf @ s1, out' @ t))"
proof (induction s arbitrary: state codep i prev out)
  case Nil
  then show ?case by (simp add: UTF8_ACCEPT_def)
next
  case (Cons c s)
  obtain lo hi ranges where ex: "expected state = (lo, hi) # ranges" using expected_cons [OF Cons.prems(1)] by blast
  obtain st' cp' where d: "decode state codep (code c) = (st', cp')" by fastforce
  note dn = decode_next [OF code_less [of c] Cons.prems(1) ex Cons.prems(2), unfolded d fst_conv snd_conv]
  have run: "dump_bytes False state codep i prev (c # s) = Inr out" by (rule Cons.prems(3))
  have range: "lo \<le> code c \<and> code c \<le> hi"
    using dn run by (auto simp: d UTF8_ACCEPT_def UTF8_REJECT_def split: if_splits)
  show ?case
  proof (cases "ranges = []")
    case True
    with dn range have st': "st' = 0" "0x80 \<le> cp'" by simp_all
    with run obtain out' where o: "dump_bytes False 0 cp' (Suc i) (code c) s = Inr out'" "out = c # out'"
      by (auto simp: d UTF8_ACCEPT_def escape_high bind_result_Inr_iff)
    with True range ex show ?thesis
      by (intro exI [of _ "[c]"] exI [of _ s] exI [of _ cp'] exI [of _ "Suc i"] exI [of _ "code c"]
            exI [of _ out']) simp
  next
    case False
    with dn range have st': "st' \<in> {2..8}" "expected st' = ranges" "codep_ok st' cp'" by simp_all
    with run obtain out1 where o: "dump_bytes False st' cp' (Suc i) (code c) s = Inr out1" "out = c # out1"
      by (auto simp: d UTF8_ACCEPT_def UTF8_REJECT_def bind_result_Inr_iff split: if_splits)
    from Cons.IH [OF st'(1,3) o(1)] obtain s1 s2 codep' i' prev' out' where
      "s = s1 @ s2" "dump_bytes False 0 codep' i' prev' s2 = Inr out'"
      "\<forall>buf t. next_byte_in_range ranges buf (out1 @ t) = (True, buf @ s1, out' @ t)"
      unfolding st'(2) by blast
    with range ex o(2) show ?thesis
      by (intro exI [of _ "c # s1"] exI [of _ s2] exI [of _ codep'] exI [of _ i'] exI [of _ prev']
            exI [of _ out']) simp
  qed
qed

text \<open>A string that can be dumped is read back by the lexer, up to its closing quote.\<close>

lemma scan_dumped_string:
  "dump_bytes False 0 codep i prev s = Inr out \<Longrightarrow>
     scan_string buf (out @ CHR 0x22 # t) = (T_string (buf @ s), t)"
proof (induction "length s" arbitrary: s buf codep i prev out rule: less_induct)
  case less
  show ?case
  proof (cases s)
    case Nil
    with less.prems show ?thesis by (simp add: UTF8_ACCEPT_def scan_string_Cons(1))
  next
    case (Cons c r)
    let ?b = "code c"
    obtain st' cp' where d: "decode 0 codep ?b = (st', cp')" by fastforce
    note run = less.prems [unfolded Cons]
    show ?thesis
    proof (cases "?b < 0x80")
      case True
      with decode_first(1) [OF code_less, of c codep] d have "st' = 0" "cp' = ?b" by simp_all
      with run d obtain out' where o: "dump_bytes False 0 ?b (Suc i) ?b r = Inr out'"
        "out = escape_codepoint False ?b c @ out'"
        by (auto simp: UTF8_ACCEPT_def bind_result_Inr_iff)
      have "scan_string (buf @ [c]) (out' @ CHR 0x22 # t) = (T_string ((buf @ [c]) @ r), t)"
        using o(1) by (intro less.hyps) (simp_all add: Cons)
      with o(2) scan_escaped [OF True, of buf] Cons show ?thesis by simp
    next
      case False
      have "following_bytes ?b \<noteq> None"
      proof
        assume "following_bytes ?b = None"
        with decode_first(2) [OF code_less, of c codep] False d have "st' = 1" by simp
        with run d show False by (simp add: UTF8_ACCEPT_def UTF8_REJECT_def)
      qed
      then obtain ranges where f: "following_bytes ?b = Some ranges" by blast
      with decode_first(3) [OF code_less, of c ranges codep] d
      have st': "st' \<in> {2..8}" "expected st' = ranges" "codep_ok st' cp'" by simp_all
      with run d obtain out1 where o: "dump_bytes False st' cp' (Suc i) ?b r = Inr out1" "out = c # out1"
        by (auto simp: UTF8_ACCEPT_def UTF8_REJECT_def bind_result_Inr_iff split: if_splits)
      from dump_multibyte [OF st'(1,3) o(1)] obtain s1 s2 codep' i' prev' out' where
        m: "r = s1 @ s2" "dump_bytes False 0 codep' i' prev' s2 = Inr out'"
          "\<And>buf t. next_byte_in_range ranges buf (out1 @ t) = (True, buf @ s1, out' @ t)"
        unfolding st'(2) by blast
      have "scan_string buf (out @ CHR 0x22 # t) = scan_string (buf @ [c] @ s1) (out' @ CHR 0x22 # t)"
        using False f m(3) [of "buf @ [c]" "CHR 0x22 # t"] o(2) by (simp add: scan_string_Cons(7))
      also have "\<dots> = (T_string ((buf @ [c] @ s1) @ s2), t)"
        using m(1,2) Cons by (intro less.hyps) simp_all
      finally show ?thesis using Cons m(1) by simp
    qed
  qed
qed

end
