(* ===== verification/Json_Utf8.thy ===== *)
theory Json_Utf8
  imports Json_Roundtrip
begin

text \<open>
  Strings as the serializer and the lexer see them: the tokens of dumped text, text in ASCII, and UTF-8.
  The automaton of the serializer is compared with the byte ranges the lexer checks, and every string
  the lexer accepts is shown to be well-formed.
\<close>

section \<open>Tokens\<close>

lemma scan_punctuation:
  "scan fl (CHR ''['' # s) = (T_begin_array, s)"
  "scan fl (CHR '']'' # s) = (T_end_array, s)"
  "scan fl (CHR ''{'' # s) = (T_begin_object, s)"
  "scan fl (CHR ''}'' # s) = (T_end_object, s)"
  "scan fl (CHR '':'' # s) = (T_name_separator, s)"
  "scan fl (CHR '','' # s) = (T_value_separator, s)"
  "scan fl [] = (T_end_of_input, [])"
  by (simp_all add: scan_def skip_whitespace_def is_whitespace_def)

lemma scan_quote: "scan fl (CHR 0x22 # s) = scan_string [] s"
  by (simp add: scan_def skip_whitespace_def is_whitespace_def)

lemma scan_literals:
  "scan fl (CHR ''t'' # CHR ''r'' # CHR ''u'' # CHR ''e'' # s) = (T_literal_true, s)"
  "scan fl (CHR ''f'' # CHR ''a'' # CHR ''l'' # CHR ''s'' # CHR ''e'' # s) = (T_literal_false, s)"
  "scan fl (CHR ''n'' # CHR ''u'' # CHR ''l'' # CHR ''l'' # s) = (T_literal_null, s)"
  by (simp_all add: scan_def skip_whitespace_def is_whitespace_def)

lemma scan_dumped:
  "dump_escaped False s = Inr out \<Longrightarrow> scan fl (CHR 0x22 # out @ CHR 0x22 # t) = (T_string s, t)"
  using scan_dumped_string [of 0 0 0 s out "[]" t]
  by (simp add: scan_quote dump_escaped_def UTF8_ACCEPT_def)

lemma number_ends_punctuation [simp]:
  "number_ends []" "number_ends (CHR '','' # s)" "number_ends (CHR '']'' # s)" "number_ends (CHR ''}'' # s)"
  by (simp_all add: number_ends_def is_digit_def)

section \<open>Text in ASCII\<close>

lemma dump_ascii:
  assumes "code c < 0x80"
  shows "dump_bytes ea 0 codep i prev (c # s) =
    bind_result (dump_bytes ea 0 (code c) (Suc i) (code c) s) (\<lambda>out. Inr (escape_codepoint ea (code c) c @ out))"
  using decode_first(1) [OF code_less, of c codep] assms by (simp add: UTF8_ACCEPT_def)

declare dump_bytes.simps(2) [simp del]

definition printable :: "char \<Rightarrow> bool" where
  "printable c = (0x20 \<le> code c \<and> code c < 0x80 \<and> c \<noteq> CHR 0x22 \<and> c \<noteq> CHR 0x5C)"

lemma dump_printable_bytes: "list_all printable s \<Longrightarrow> dump_bytes False 0 codep i prev s = Inr s"
proof (induction s arbitrary: codep i prev)
  case (Cons c s)
  then have c: "code c < 0x80" "0x20 \<le> code c" "code c \<noteq> 0x22" "code c \<noteq> 0x5C"
    using code_eq [of c "CHR 0x22"] code_eq [of c "CHR 0x5C"] by (auto simp: printable_def code_def)
  then have "escape_codepoint False (code c) c = [c]" by (simp add: escape_codepoint_def)
  with Cons c(1) show ?case by (simp add: dump_ascii)
qed (simp add: UTF8_ACCEPT_def)

lemma dump_printable: "list_all printable s \<Longrightarrow> dump_escaped False s = Inr s"
  by (simp add: dump_escaped_def UTF8_ACCEPT_def dump_printable_bytes)

lemma printable_code [simp]: "printable c \<longleftrightarrow> 
    32 \<le> (of_char c :: nat) \<and> (of_char c :: nat) < 128 \<and> (of_char c :: nat) \<notin> {34, 92}"
  using code_eq [of c "CHR 0x22"] code_eq [of c "CHR 0x5C"] by (auto simp: printable_def code_def)

text \<open>Evaluation of the serializer and of the lexer on given texts.\<close>

lemmas dump_eval = json_dump_def dump_unsigned_eq dump_integer_eq fresh_buffer_def dump_printable
  to_string.simps digit_chars

lemmas parse_eval = json_parse_def scan_first_def skip_bom_def scan_def skip_whitespace_def
  is_whitespace_def evaluate_state.simps scan_string_Cons scan_string_Nil scan_number_def scan_number_done_def is_digit_def
  decimal_value_def digit_value_def parse_key_def syntax_error_def code_def

section \<open>Well-formed UTF-8\<close>

text \<open>The table of well-formed byte sequences, as ranges for the bytes after the first.\<close>

fun in_ranges :: "(nat \<times> nat) list \<Rightarrow> string \<Rightarrow> string option" where
  "in_ranges [] s = Some s"
| "in_ranges ((lo, hi) # ranges) [] = None"
| "in_ranges ((lo, hi) # ranges) (c # s) = (if lo \<le> code c \<and> code c \<le> hi then in_ranges ranges s else None)"

lemma in_ranges_length: "in_ranges ranges s = Some r \<Longrightarrow> length r \<le> length s"
  by (induction ranges s rule: in_ranges.induct) (auto split: if_splits)

function utf8_ok :: "string \<Rightarrow> bool" where
  "utf8_ok [] = True"
| "utf8_ok (c # s) =
     (if code c < 0x80 then utf8_ok s
      else case following_bytes (code c) of
             None \<Rightarrow> False
           | Some ranges \<Rightarrow> (case in_ranges ranges s of None \<Rightarrow> False | Some r \<Rightarrow> utf8_ok r))"
  by pat_completeness auto
termination by (relation "measure length") (auto dest: in_ranges_length)

declare utf8_ok.simps(2) [simp del]

section \<open>The automaton of the serializer\<close>

text \<open>Whether the automaton accepts, from a state: the code point and the positions do not matter.\<close>

fun utf8_run :: "nat \<Rightarrow> string \<Rightarrow> bool" where
  "utf8_run state [] = (state = 0)"
| "utf8_run state (c # s) =
     (let st = fst (decode state 0 (code c)) in st \<noteq> 1 \<and> utf8_run st s)"

lemma decode_state: "fst (decode state codep b) = fst (decode state 0 b)"
  by (simp add: decode_def Let_def)

lemma dump_bytes_run: "(\<exists>out. dump_bytes ea state codep i prev s = Inr out) \<longleftrightarrow> utf8_run state s"
proof (induction s arbitrary: state codep i prev)
  case Nil
  then show ?case by (simp add: UTF8_ACCEPT_def)
next
  case (Cons c s)
  obtain st cp where d: "decode state codep (code c) = (st, cp)" by fastforce
  with decode_state [of state codep "code c"] have st: "fst (decode state 0 (code c)) = st" by simp
  have "(\<exists>out. dump_bytes ea state codep i prev (c # s) = Inr out) \<longleftrightarrow>
      st \<noteq> 1 \<and> (\<exists>out. dump_bytes ea st cp (Suc i) (code c) s = Inr out)"
    using d by (auto simp: dump_bytes.simps UTF8_ACCEPT_def UTF8_REJECT_def bind_result_Inr_iff)
  with Cons.IH st show ?case by simp
qed

lemma utf8_run_two:
  "utf8_run 2 s \<longleftrightarrow> (\<exists>r. in_ranges [(0x80, 0xBF)] s = Some r \<and> utf8_run 0 r)"
  by (cases s) (simp_all add: decode_range(1) [OF code_less])

lemma utf8_run_three:
  "utf8_run 3 s \<longleftrightarrow> (\<exists>r. in_ranges [(0x80, 0xBF), (0x80, 0xBF)] s = Some r \<and> utf8_run 0 r)"
  by (cases s) (simp_all add: decode_range(2) [OF code_less] utf8_run_two)

lemma utf8_run_expected:
  assumes "state \<in> {2..8}"
  shows "utf8_run state s \<longleftrightarrow> (\<exists>r. in_ranges (expected state) s = Some r \<and> utf8_run 0 r)"
proof -
  from assms have "state \<in> {2, 3, 4, 5, 6, 7, 8}" by auto
  then show ?thesis
    by (elim insertE emptyE; cases s)
       (simp_all add: expected_def decode_range [OF code_less] utf8_run_two utf8_run_three)
qed

lemma utf8_run_ok: "utf8_run 0 s = utf8_ok s"
proof (induction s rule: utf8_ok.induct)
  case (2 c s)
  show ?case
  proof (cases "code c < 0x80")
    case True
    with 2(1) decode_first(1) [OF code_less, of c 0] show ?thesis by (simp add: utf8_ok.simps)
  next
    case False
    show ?thesis
    proof (cases "following_bytes (code c)")
      case None
      with False decode_first(2) [OF code_less, of c 0] show ?thesis by (simp add: utf8_ok.simps)
    next
      case (Some ranges)
      let ?st = "fst (decode 0 0 (code c))"
      from Some decode_first(3) [OF code_less, of c ranges 0] have st: "?st \<in> {2..8}" "expected ?st = ranges"
        by auto
      then have "?st \<noteq> 1" by auto
      with st utf8_run_expected [OF st(1), of s] have "utf8_run 0 (c # s) \<longleftrightarrow>
          (\<exists>r. in_ranges ranges s = Some r \<and> utf8_run 0 r)" by simp
      with 2(2) [OF False Some] False Some show ?thesis by (auto simp: utf8_ok.simps split: option.splits)
    qed
  qed
qed simp

lemma dump_escaped_ok: "(\<exists>out. dump_escaped ea s = Inr out) \<longleftrightarrow> utf8_ok s"
  by (simp add: dump_escaped_def UTF8_ACCEPT_def dump_bytes_run utf8_run_ok)

section \<open>What the lexer accepts\<close>

lemma in_ranges_append: "in_ranges ranges s = Some r \<Longrightarrow> in_ranges ranges (s @ t) = Some (r @ t)"
  by (induction ranges s rule: in_ranges.induct) (auto split: if_splits)

lemma utf8_ok_append: "utf8_ok s \<Longrightarrow> utf8_ok t \<Longrightarrow> utf8_ok (s @ t)"
proof (induction s rule: utf8_ok.induct)
  case (2 c s)
  then show ?case
    by (auto simp: utf8_ok.simps(2) [of c s] utf8_ok.simps(2) [of c "s @ t"] in_ranges_append
        split: if_splits option.splits)
qed simp

lemma next_byte_in_ranges:
  "next_byte_in_range ranges buf s = (True, buf1, r) \<Longrightarrow>
     \<exists>bs. buf1 = buf @ bs \<and> in_ranges ranges bs = Some []"
proof (induction ranges buf s rule: next_byte_in_range.induct)
  case (3 lo hi ranges buf c s)
  then obtain bs where "buf1 = (buf @ [c]) @ bs" "in_ranges ranges bs = Some []" "lo \<le> code c" "code c \<le> hi"
    by (auto split: if_splits)
  then show ?case by (intro exI [of _ "c # bs"]) simp
qed simp_all

lemma utf8_ok_char: "code c < 0x80 \<Longrightarrow> utf8_ok [c]"
  by (simp add: utf8_ok.simps)

lemma utf8_ok_multibyte:
  "0x80 \<le> code c \<Longrightarrow> following_bytes (code c) = Some ranges \<Longrightarrow> in_ranges ranges bs = Some [] \<Longrightarrow>
     utf8_ok (c # bs)"
  by (simp add: utf8_ok.simps)

lemma code_char_of: "n < 256 \<Longrightarrow> code (char_of n) = n"
  by (simp add: code_def)

text \<open>The bytes of a code point, with bit operations as arithmetic.\<close>

lemma lead_byte: "k < 32 \<Longrightarrow> 0xC0 OR k = 0xC0 + k" "k < 16 \<Longrightarrow> 0xE0 OR k = 0xE0 + k"
  "k < 8 \<Longrightarrow> 0xF0 OR k = 0xF0 + k" for k :: nat
  using or_top [of k 5 6] or_top [of k 4 14] or_top [of k 3 30] by (simp_all add: or.commute add.commute)

lemma tail_byte: "0x80 OR (n AND 0x3F) = 0x80 + n mod 64" for n :: nat
  using or_top [of "n mod 64" 6 2] and_mask [of n 6] by (simp add: or.commute add.commute mask_eq_exp_minus_1)

lemma base_64:
  fixes n :: nat
  shows "n = 64 * (n div 64) + n mod 64" "n div 4096 = n div 64 div 64" "n div 262144 = n div 64 div 64 div 64"
  using div_mult2_eq [of n 64 64] div_mult2_eq [of n 4096 64] by simp_all

lemma utf8_two:
  assumes "0x80 \<le> cp" "cp \<le> 0x7FF"
  shows "utf8_ok (utf8_encode cp)"
proof -
  have a: "cp div 64 < 32" "2 \<le> cp div 64" using assms base_64(1) [of cp] by linarith+
  then have codes: "code (char_of (0xC0 + cp div 64)) = 0xC0 + cp div 64"
    "code (char_of (0x80 + cp mod 64)) = 0x80 + cp mod 64" by (simp_all add: code_char_of)
  have "utf8_encode cp = [char_of (0xC0 + cp div 64), char_of (0x80 + cp mod 64)]"
    using assms a by (simp add: utf8_encode_def drop_bit_eq_div lead_byte tail_byte)
  then show ?thesis using a by (simp add: utf8_ok.simps codes following_bytes_def)
qed

lemma utf8_three:
  assumes "0x800 \<le> cp" "cp \<le> 0xFFFF" "\<not> (0xD800 \<le> cp \<and> cp \<le> 0xDFFF)"
  shows "utf8_ok (utf8_encode cp)"
proof -
  obtain a b c where d: "cp = 4096 * a + 64 * b + c" "b < 64" "c < 64" "a = cp div 4096"
      "b = cp div 64 mod 64" "c = cp mod 64"
  proof
    show "cp = 4096 * (cp div 4096) + 64 * (cp div 64 mod 64) + cp mod 64"
      unfolding base_64(2) using base_64(1) [of cp] base_64(1) [of "cp div 64"] by linarith
  qed simp_all
  have "a < 16" using assms d(1-3) by linarith
  with assms have e: "utf8_encode cp = [char_of (0xE0 + a), char_of (0x80 + b), char_of (0x80 + c)]"
    by (simp add: utf8_encode_def drop_bit_eq_div lead_byte tail_byte d(4-6))
  then have codes: "code (char_of (0xE0 + a)) = 0xE0 + a" "code (char_of (0x80 + b)) = 0x80 + b"
    "code (char_of (0x80 + c)) = 0x80 + c" using \<open>a < 16\<close> d(2,3) by (simp_all add: code_char_of)
  have "a = 0 \<Longrightarrow> 32 \<le> b" "a = 13 \<Longrightarrow> b < 32" using assms d(1-3) by linarith+
  moreover from this \<open>a < 16\<close> have "b \<le> 31 \<or> a \<le> 12 \<or> a = 14 \<or> a = 15" by linarith
  ultimately show ?thesis using \<open>a < 16\<close> d(2,3)
    by (auto simp: e utf8_ok.simps codes following_bytes_def)
qed

lemma utf8_four:
  assumes "0x10000 \<le> cp" "cp \<le> 0x10FFFF"
  shows "utf8_ok (utf8_encode cp)"
proof -
  obtain a b c d where e: "cp = 262144 * a + 4096 * b + 64 * c + d" "b < 64" "c < 64" "d < 64"
    "a = cp div 262144" "b = cp div 4096 mod 64" "c = cp div 64 mod 64" "d = cp mod 64"
  proof
    show "cp = 262144 * (cp div 262144) + 4096 * (cp div 4096 mod 64) + 64 * (cp div 64 mod 64) + cp mod 64"
      unfolding base_64(2,3) using base_64(1) [of cp] base_64(1) [of "cp div 64"]
        base_64(1) [of "cp div 64 div 64"] by linarith
  qed simp_all
  have a: "a < 8" using assms e(1-4) by linarith
  with assms have enc: "utf8_encode cp = [char_of (0xF0 + a), char_of (0x80 + b), char_of (0x80 + c), char_of (0x80 + d)]"
    by (simp add: utf8_encode_def drop_bit_eq_div lead_byte tail_byte e(5-8))
  have codes: "code (char_of (0xF0 + a)) = 0xF0 + a" "code (char_of (0x80 + b)) = 0x80 + b"
    "code (char_of (0x80 + c)) = 0x80 + c" "code (char_of (0x80 + d)) = 0x80 + d"
    using e(2-4) a by (simp_all add: code_char_of)
  have "a = 0 \<Longrightarrow> 16 \<le> b" "a = 4 \<Longrightarrow> b < 16" "a \<le> 4" using assms e(1-4) by linarith+
  moreover from this have "b \<le> 15 \<or> a \<le> 3" by linarith
  ultimately show ?thesis using e(2-4)
    by (auto simp: enc utf8_ok.simps codes following_bytes_def)
qed

lemma utf8_encode_ok:
  "cp \<le> 0x10FFFF \<Longrightarrow> \<not> (0xD800 \<le> cp \<and> cp \<le> 0xDFFF) \<Longrightarrow> utf8_ok (utf8_encode cp)"
  using utf8_two [of cp] utf8_three [of cp] utf8_four [of cp]
  by (cases "cp < 0x80") (auto simp: utf8_encode_def code_char_of intro!: utf8_ok_char)

lemma hex_nibble_less: "hex_nibble c = Some d \<Longrightarrow> d < 16"
  by (auto simp: hex_nibble_def split: if_splits)

lemma get_codepoint_less:
  assumes "get_codepoint s = (Some cp, r)"
  shows "cp \<le> 0xFFFF"
proof -
  have step: "codepoint_digits (f # fs) v s = (Some cp, r) \<Longrightarrow>
      \<exists>d s1. d < 16 \<and> codepoint_digits fs (v + 2 ^ f * d) s1 = (Some cp, r)" for f fs v s
    by (cases s) (auto simp: push_bit_eq_mult mult.commute dest!: hex_nibble_less split: option.splits)
  from assms obtain d3 s3 where 3: "d3 < 16" "codepoint_digits [8, 4, 0] (0 + 2 ^ 12 * d3) s3 = (Some cp, r)"
    unfolding get_codepoint_def by (blast dest: step)
  from step [OF 3(2)] obtain d2 s2 where 2: "d2 < 16"
    "codepoint_digits [4, 0] (0 + 2 ^ 12 * d3 + 2 ^ 8 * d2) s2 = (Some cp, r)" by blast
  from step [OF 2(2)] obtain d1 s1 where 1: "d1 < 16"
    "codepoint_digits [0] (0 + 2 ^ 12 * d3 + 2 ^ 8 * d2 + 2 ^ 4 * d1) s1 = (Some cp, r)" by blast
  from step [OF 1(2)] obtain d0 s0 where 0: "d0 < 16"
    "codepoint_digits [] (0 + 2 ^ 12 * d3 + 2 ^ 8 * d2 + 2 ^ 4 * d1 + 2 ^ 0 * d0) s0 = (Some cp, r)" by blast
  then have "cp = 4096 * d3 + 256 * d2 + 16 * d1 + d0" by simp
  with 3(1) 2(1) 1(1) 0(1) show ?thesis by linarith
qed

lemma scan_unicode_ok: "scan_unicode s = (Inr bytes, r) \<Longrightarrow> utf8_ok bytes"
proof -
  assume run: "scan_unicode s = (Inr bytes, r)"
  then obtain cp1 r1 where 1: "get_codepoint s = (Some cp1, r1)"
    by (auto simp: scan_unicode_def split: prod.splits option.splits)
  show ?thesis
  proof (cases "0xD800 \<le> cp1 \<and> cp1 \<le> 0xDBFF")
    case True
    with run 1 obtain cp2 r2 r3 where 2: "get_codepoint r2 = (Some cp2, r3)" "0xDC00 \<le> cp2" "cp2 \<le> 0xDFFF"
      "bytes = utf8_encode (push_bit 10 cp1 + cp2 - 0x35FDC00)"
      by (auto simp: scan_unicode_def split: prod.splits option.splits list.splits if_splits)
    have "push_bit 10 cp1 = 1024 * cp1" by (simp add: push_bit_eq_mult)
    with True 2 show ?thesis by (auto intro!: utf8_encode_ok)
  next
    case False
    with run 1 have "bytes = utf8_encode cp1" "\<not> (0xDC00 \<le> cp1 \<and> cp1 \<le> 0xDFFF)"
      by (auto simp: scan_unicode_def split: if_splits)
    with False get_codepoint_less [OF 1] show ?thesis by (auto intro!: utf8_encode_ok)
  qed
qed

lemma scan_escape_ok: "scan_escape s = (Inr bytes, r) \<Longrightarrow> utf8_ok bytes"
  by (auto simp: scan_escape_def code_def intro: scan_unicode_ok intro!: utf8_ok_char
      split: list.splits if_splits)

lemma scan_string_ok: "scan_string buf s = (T_string out, r) \<Longrightarrow> utf8_ok buf \<Longrightarrow> utf8_ok out"
proof (induction "length s" arbitrary: buf s rule: less_induct)
  case less
  show ?case
  proof (cases s)
    case Nil
    with less.prems show ?thesis by (simp add: scan_string_Nil)
  next
    case (Cons c q)
    have more: ?thesis if "scan_string buf s = scan_string (buf @ bytes) q1" "length q1 \<le> length q" "utf8_ok bytes"
      for bytes q1
      using less.hyps [of q1 "buf @ bytes"] that less.prems Cons by (simp add: utf8_ok_append)
    consider "c = CHR 0x22" | "c = CHR 0x5C" | "code c < 0x20"
      | "0x20 \<le> code c" "code c < 0x80" "c \<noteq> CHR 0x22" "c \<noteq> CHR 0x5C" | "0x80 \<le> code c" by linarith
    then show ?thesis
    proof cases
      case 1
      with less.prems Cons show ?thesis by (simp add: scan_string_Cons)
    next
      case 2
      obtain e q1 where e: "scan_escape q = (e, q1)" by fastforce
      then have "length q1 \<le> length q" using scan_escape_length [of q] by simp
      moreover from less.prems(1) e 2 Cons obtain bytes where b: "e = Inr bytes"
        by (cases e) (simp_all add: scan_string_Cons)
      moreover have "scan_string buf s = scan_string (buf @ bytes) q1"
        using 2 Cons scan_string_Cons(2) [of q bytes q1 buf] e b by simp
      ultimately show ?thesis using more scan_escape_ok [of q bytes q1] e by blast
    next
      case 3
      with less.prems Cons show ?thesis by (simp add: scan_string_Cons)
    next
      case 4
      with Cons more [of "[c]" q] show ?thesis by (simp add: scan_string_Cons(5) utf8_ok_char)
    next
      case 5
      show ?thesis
      proof (cases "following_bytes (code c)")
        case None
        with 5 Cons less.prems show ?thesis by (simp add: scan_string_Cons(6))
      next
        case (Some ranges)
        obtain ok buf1 q1 where n: "next_byte_in_range ranges (buf @ [c]) q = (ok, buf1, q1)"
          using prod_cases3 by blast
        with less.prems 5 Some Cons have "ok" by (cases ok) (simp_all add: scan_string_Cons(8))
        with n next_byte_in_ranges [of ranges "buf @ [c]" q buf1 q1] obtain bs
          where "buf1 = (buf @ [c]) @ bs" "in_ranges ranges bs = Some []" by auto
        moreover from this have "utf8_ok (c # bs)" using 5 Some by (simp add: utf8_ok_multibyte)
        moreover have "length q1 \<le> length q"
          using n next_byte_in_range_length [of ranges "buf @ [c]" q] by simp
        ultimately show ?thesis using more [of "c # bs" q1] n \<open>ok\<close> 5 Some Cons
          by (simp add: scan_string_Cons(7))
      qed
    qed
  qed
qed

lemma scan_number_no_string:
  "fst (scan_number_done fl kind buf s) \<noteq> T_string k"
  "fst (scan_number_any2 fl buf s) \<noteq> T_string k"
  "fst (scan_number_sign fl buf s) \<noteq> T_string k"
  "fst (scan_number_exponent fl buf s) \<noteq> T_string k"
  "fst (scan_number_decimal2 fl buf s) \<noteq> T_string k"
  "fst (scan_number_decimal1 fl buf s) \<noteq> T_string k"
  "fst (scan_number_any1 fl kind buf s) \<noteq> T_string k"
  "fst (scan_number_zero fl kind buf s) \<noteq> T_string k"
  "fst (scan_number_minus fl buf s) \<noteq> T_string k"
  "fst (scan_number fl c s) \<noteq> T_string k"
proof -
  show dn: "fst (scan_number_done fl kind buf s) \<noteq> T_string k" for fl kind buf s
    by (simp add: scan_number_done_def Let_def split: number_kind.splits)
  show any2: "fst (scan_number_any2 fl buf s) \<noteq> T_string k" for fl buf s
    by (induction fl buf s rule: scan_number_any2.induct) (simp_all add: dn)
  show sign: "fst (scan_number_sign fl buf s) \<noteq> T_string k" for fl buf s
    by (cases s) (simp_all add: any2)
  show exponent: "fst (scan_number_exponent fl buf s) \<noteq> T_string k" for fl buf s
    by (cases s) (simp_all add: any2 sign)
  show decimal2: "fst (scan_number_decimal2 fl buf s) \<noteq> T_string k" for fl buf s
    by (induction fl buf s rule: scan_number_decimal2.induct) (simp_all add: dn exponent)
  show decimal1: "fst (scan_number_decimal1 fl buf s) \<noteq> T_string k" for fl buf s
    by (cases s) (simp_all add: decimal2)
  show any1: "fst (scan_number_any1 fl kind buf s) \<noteq> T_string k" for fl kind buf s
    by (induction fl kind buf s rule: scan_number_any1.induct) (simp_all add: dn exponent decimal1)
  show zero: "fst (scan_number_zero fl kind buf s) \<noteq> T_string k" for fl kind buf s
    by (cases s) (simp_all add: dn exponent decimal1)
  show minus: "fst (scan_number_minus fl buf s) \<noteq> T_string k" for fl buf s
    by (cases s) (simp_all add: any1 zero)
  show "fst (scan_number fl c s) \<noteq> T_string k"
    by (simp add: scan_number_def any1 zero minus)
qed

lemma scan_literal_no_string: "t \<noteq> T_string k \<Longrightarrow> fst (scan_literal ls t s) \<noteq> T_string k"
  by (induction ls t s rule: scan_literal.induct) auto

lemma scan_ok:
  assumes "scan fl s = (T_string k, r)"
  shows "utf8_ok k"
proof (cases "skip_whitespace s")
  case Nil
  with assms show ?thesis by (simp add: scan_def)
next
  case (Cons c q)
  have "fst (scan fl s) = T_string k" by (simp add: assms)
  with Cons have "c = CHR 0x22"
    by (auto simp: scan_def scan_number_no_string scan_literal_no_string split: if_splits)
  with Cons assms have "scan_string [] q = (T_string k, r)" by (simp add: scan_def)
  then show ?thesis by (rule scan_string_ok) simp
qed

end
