(* ===== verification/Json_Escape.thy ===== *)
theory Json_Escape
  imports Json_Utf8
begin

text \<open>
  \<open>dump_escaped\<close> of \<open>json.hpp\<close> as it is written: the text goes through a buffer of 512 bytes that is
  written out when fewer than 13 are left, and the reaction to ill-formed UTF-8 is an option. It is
  compared with \<open>dump_bytes\<close>, which has neither: the buffer is never overrun, the strict option gives
  the same text and the same exceptions, and the other two give the text of a repaired string.
\<close>

section \<open>The buffer\<close>

datatype error_handler_t = EH_strict | EH_replace | EH_ignore

text \<open>
  The local variables: \<open>state\<close>, \<open>codepoint\<close>, the first \<open>bytes\<close> characters of \<open>string_buffer\<close>,
  \<open>bytes_after_last_accept\<close>, \<open>undumped_chars\<close>; \<open>written\<close> is what went to the output.
\<close>

record escaper =
  automaton :: nat
  codepoint :: nat
  string_buffer :: string
  bytes_after_last_accept :: nat
  undumped_chars :: nat
  written :: string

definition string_buffer_size :: nat where "string_buffer_size = 512"

text \<open>Storing characters; \<open>room\<close> counts the zero byte that \<open>snprintf\<close> adds behind them.\<close>

definition store :: "string \<Rightarrow> nat \<Rightarrow> escaper \<Rightarrow> escaper result" where
  "store cs room e =
     (if length (string_buffer e) + room \<le> string_buffer_size
      then Inr (e\<lparr>string_buffer := string_buffer e @ cs\<rparr>)
      else Inl (Abort ''write past the end of string_buffer''))"

definition write_buffer :: "escaper \<Rightarrow> escaper" where
  "write_buffer e =
     (if string_buffer_size - length (string_buffer e) < 13
      then e\<lparr>written := written e @ string_buffer e, string_buffer := []\<rparr> else e)"

text \<open>A complete code point: two characters and single ones are stored directly.\<close>

definition store_codepoint :: "bool \<Rightarrow> char \<Rightarrow> escaper \<Rightarrow> escaper result" where
  "store_codepoint ensure_ascii c e =
     (let out = escape_codepoint ensure_ascii (codepoint e) c
      in store out (if length out \<le> 2 then length out else length out + 1) e)"

definition accept_codepoint :: "bool \<Rightarrow> char \<Rightarrow> escaper \<Rightarrow> escaper result" where
  "accept_codepoint ensure_ascii c e =
     bind_result (store_codepoint ensure_ascii c e) (\<lambda>e.
     let e = write_buffer e
     in Inr (e\<lparr>bytes_after_last_accept := length (string_buffer e), undumped_chars := 0\<rparr>))"

definition replacement :: "bool \<Rightarrow> string" where
  "replacement ensure_ascii =
     (if ensure_ascii then [CHR 0x5C, CHR ''u'', CHR ''f'', CHR ''f'', CHR ''f'', CHR ''d'']
      else [CHR 0xEF, CHR 0xBF, CHR 0xBD])"

text \<open>An invalid byte, when it is not an error: back to the last accepted character.\<close>

definition skip_invalid :: "error_handler_t \<Rightarrow> bool \<Rightarrow> escaper \<Rightarrow> escaper result" where
  "skip_invalid error_handler ensure_ascii e =
     (let e = e\<lparr>string_buffer := take (bytes_after_last_accept e) (string_buffer e)\<rparr>
      in bind_result
           (if error_handler = EH_replace then
              bind_result (store (replacement ensure_ascii) (length (replacement ensure_ascii)) e) (\<lambda>e.
              let e = write_buffer e in Inr (e\<lparr>bytes_after_last_accept := length (string_buffer e)\<rparr>))
            else Inr e) (\<lambda>e.
         Inr (e\<lparr>undumped_chars := 0, automaton := UTF8_ACCEPT\<rparr>)))"

definition finish_escaped :: "error_handler_t \<Rightarrow> bool \<Rightarrow> nat \<Rightarrow> escaper \<Rightarrow> string result" where
  "finish_escaped error_handler ensure_ascii prev e =
     (if automaton e = UTF8_ACCEPT then Inr (written e @ string_buffer e)
      else case error_handler of
             EH_strict \<Rightarrow>
               Inl (Throw (Json_Type_Error 316 (''incomplete UTF-8 string; last byte: 0x'' @ hex_bytes prev)))
           | EH_ignore \<Rightarrow> Inr (written e @ take (bytes_after_last_accept e) (string_buffer e))
           | EH_replace \<Rightarrow>
               Inr (written e @ take (bytes_after_last_accept e) (string_buffer e) @ replacement ensure_ascii))"

lemma skip_invalid_undumped: "skip_invalid eh ea e = Inr e2 \<Longrightarrow> undumped_chars e2 = 0"
  by (auto simp: skip_invalid_def Let_def fault_simps split: if_splits)

text \<open>
  The loop from index \<open>i\<close>; \<open>prev\<close> is the byte before. An invalid byte that follows an incomplete
  character is read again.
\<close>

function escape_loop ::
  "error_handler_t \<Rightarrow> bool \<Rightarrow> nat \<Rightarrow> nat \<Rightarrow> escaper \<Rightarrow> string \<Rightarrow> string result" where
  "escape_loop eh ea i prev e [] = finish_escaped eh ea prev e"
| "escape_loop eh ea i prev e (c # s) =
     (let (state, codep) = decode (automaton e) (codepoint e) (code c);
          e1 = e\<lparr>automaton := state, codepoint := codep\<rparr>
      in if state = UTF8_ACCEPT then
           bind_result (accept_codepoint ea c e1) (\<lambda>e2. escape_loop eh ea (Suc i) (code c) e2 s)
         else if state = UTF8_REJECT then
           (if eh = EH_strict then
              Inl (Throw (Json_Type_Error 316
                (''invalid UTF-8 byte at index '' @ to_string i @ '': 0x'' @ hex_bytes (code c))))
            else case skip_invalid eh ea e1 of
                   Inl f \<Rightarrow> Inl f
                 | Inr e2 \<Rightarrow>
                     if 0 < undumped_chars e then escape_loop eh ea i prev e2 (c # s)
                     else escape_loop eh ea (Suc i) (code c) e2 s)
         else
           bind_result (if ea then Inr e1 else store [c] 1 e1) (\<lambda>e2.
           escape_loop eh ea (Suc i) (code c) (e2\<lparr>undumped_chars := undumped_chars e2 + 1\<rparr>) s))"
  by pat_completeness auto

termination
proof (relation "measure (\<lambda>(eh, ea, i, prev, e, s). 2 * length s + of_bool (0 < undumped_chars e))", goal_cases)
  case (3 eh ea i prev e c s x state codep e1 e2)
  then show ?case using skip_invalid_undumped [of eh ea e1 e2] by simp
qed auto

definition escaped_with :: "error_handler_t \<Rightarrow> bool \<Rightarrow> string \<Rightarrow> string result" where
  "escaped_with eh ea s =
     escape_loop eh ea 0 0
       \<lparr>automaton = UTF8_ACCEPT, codepoint = 0, string_buffer = [], bytes_after_last_accept = 0,
        undumped_chars = 0, written = []\<rparr> s"

section \<open>Without the buffer\<close>

definition prepend :: "string \<Rightarrow> string result \<Rightarrow> string result" where
  "prepend x r = bind_result r (\<lambda>y. Inr (x @ y))"

lemma prepend_simps [simp]:
  "prepend x (Inr y) = Inr (x @ y)" "prepend x (Inl f) = Inl f" "prepend [] r = r"
  "prepend x (prepend y r) = prepend (x @ y) r"
  by (cases r; simp add: prepend_def)+

text \<open>The same loop on values; \<open>pend\<close> are the bytes of an incomplete character.\<close>

function unbuffered ::
  "error_handler_t \<Rightarrow> bool \<Rightarrow> nat \<Rightarrow> nat \<Rightarrow> string \<Rightarrow> nat \<Rightarrow> nat \<Rightarrow> string \<Rightarrow> string result" where
  "unbuffered eh ea state codep pend i prev [] =
     (if state = 0 then Inr []
      else case eh of
             EH_strict \<Rightarrow>
               Inl (Throw (Json_Type_Error 316 (''incomplete UTF-8 string; last byte: 0x'' @ hex_bytes prev)))
           | EH_ignore \<Rightarrow> Inr []
           | EH_replace \<Rightarrow> Inr (replacement ea))"
| "unbuffered eh ea state codep pend i prev (c # s) =
     (let (st, cp) = decode state codep (code c)
      in if st = 0 then
           prepend ((if ea then [] else pend) @ escape_codepoint ea cp c)
             (unbuffered eh ea st cp [] (Suc i) (code c) s)
         else if st = 1 then
           (if eh = EH_strict then
              Inl (Throw (Json_Type_Error 316
                (''invalid UTF-8 byte at index '' @ to_string i @ '': 0x'' @ hex_bytes (code c))))
            else
              prepend (if eh = EH_replace then replacement ea else [])
                (if pend = [] then unbuffered eh ea 0 cp [] (Suc i) (code c) s
                 else unbuffered eh ea 0 cp [] i prev (c # s)))
         else unbuffered eh ea st cp (pend @ [c]) (Suc i) (code c) s)"
  by pat_completeness auto
termination
  by (relation "measure (\<lambda>(eh, ea, state, codep, pend, i, prev, s). 2 * length s + of_bool (pend \<noteq> []))") auto

declare unbuffered.simps(2) [simp del]

text \<open>How many bytes of a character a state may have behind it.\<close>

definition pending_limit :: "nat \<Rightarrow> nat" where
  "pending_limit state = (if state = 0 then 0 else if state = 2 then 3 else if state = 3 then 2 else 1)"

lemma decode_states:
  assumes "state \<in> insert 0 {2..8}" "b < 256" "st = fst (decode state codep b)" "st \<noteq> 0" "st \<noteq> 1"
  shows "st \<in> {2..8}" "pending_limit state + 1 \<le> pending_limit st"
proof -
  from assms(1) consider "state = 0" | "state = 2" | "state = 3" | "state = 4" | "state = 5" | "state = 6"
    | "state = 7" | "state = 8" by force
  then have "st \<in> {2..8} \<and> pending_limit state + 1 \<le> pending_limit st"
  proof cases
    case 1
    with assms decode_first [OF assms(2)] obtain ranges where "following_bytes b = Some ranges"
      by (cases "b < 0x80"; cases "following_bytes b") auto
    from decode_first(3) [OF assms(2) this, of codep] 1 assms show ?thesis by (auto simp: pending_limit_def)
  qed (use assms decode_range [OF assms(2), of codep] in \<open>auto simp: pending_limit_def split: if_splits\<close>)
  then show "st \<in> {2..8}" "pending_limit state + 1 \<le> pending_limit st" by blast+
qed

text \<open>
  The invariant of the loop: \<open>acc\<close> is the accepted part of the buffer and leaves room for a
  character.
\<close>

definition escaping :: "bool \<Rightarrow> string \<Rightarrow> string \<Rightarrow> escaper \<Rightarrow> bool" where
  "escaping ea acc pend e =
     (string_buffer e = acc @ (if ea then [] else pend) \<and> bytes_after_last_accept e = length acc
      \<and> length acc \<le> 499 \<and> undumped_chars e = length pend
      \<and> automaton e \<in> insert 0 {2..8} \<and> length pend \<le> pending_limit (automaton e)
      \<and> (pend = [] \<longleftrightarrow> automaton e = 0))"

lemma length_escape_codepoint:
  "length (escape_codepoint ea cp c) \<le> 12" "\<not> ea \<Longrightarrow> length (escape_codepoint ea cp c) \<le> 6"
proof -
  have hex: "length (to_hex n) \<le> 4" if "n < 65536" for n
    using length_to_hex [of n 4] that by simp
  then have six: "length (backslash_u n) = 6" if "n < 65536" for n
    using that by (simp add: backslash_u_def hex_setw_def)
  have "take_bit 16 n < 65536" for n :: nat
    using take_bit_nat_less_exp [of 16 n] by simp
  then show "length (escape_codepoint ea cp c) \<le> 12" "\<not> ea \<Longrightarrow> length (escape_codepoint ea cp c) \<le> 6"
    by (auto simp: escape_codepoint_def six)
qed

lemma accept_codepoint_ok:
  assumes "escaping ea acc pend e"
  obtains e2 acc2 where
    "accept_codepoint ea c (e\<lparr>automaton := 0, codepoint := cp\<rparr>) = Inr e2" "escaping ea acc2 [] e2"
    "written e2 @ acc2 = written e @ acc @ (if ea then [] else pend) @ escape_codepoint ea cp c"
    "automaton e2 = 0" "codepoint e2 = cp"
proof -
  let ?out = "escape_codepoint ea cp c"
  have "length pend \<le> 3" using assms by (auto simp: escaping_def pending_limit_def split: if_splits)
  then have "length (string_buffer e) + (length ?out + 1) \<le> 512"
    using assms length_escape_codepoint [of ea cp c] by (cases ea) (auto simp: escaping_def)
  note room = this
  let ?buf = "string_buffer e @ ?out"
  let ?e = "e\<lparr>automaton := 0, codepoint := cp, string_buffer := ?buf\<rparr>"
  have st: "store_codepoint ea c (e\<lparr>automaton := 0, codepoint := cp\<rparr>) = Inr ?e"
    using room by (simp add: store_codepoint_def store_def string_buffer_size_def Let_def)
  show thesis
  proof (cases "512 - length ?buf < 13")
    case True
    show thesis
      by (rule that [of "?e\<lparr>written := written e @ ?buf, string_buffer := [], bytes_after_last_accept := 0,
            undumped_chars := 0\<rparr>" "[]"])
         (use True st assms in \<open>simp_all add: accept_codepoint_def write_buffer_def string_buffer_size_def
            escaping_def Let_def pending_limit_def\<close>)
  next
    case False
    show thesis
      by (rule that [of "?e\<lparr>bytes_after_last_accept := length ?buf, undumped_chars := 0\<rparr>" ?buf])
         (use False st assms in \<open>simp_all add: accept_codepoint_def write_buffer_def string_buffer_size_def
            escaping_def Let_def pending_limit_def\<close>)
  qed
qed

lemma skip_invalid_ok:
  assumes "escaping ea acc pend e" "eh \<noteq> EH_strict"
  obtains e2 acc2 where
    "skip_invalid eh ea (e\<lparr>automaton := 1, codepoint := cp\<rparr>) = Inr e2" "escaping ea acc2 [] e2"
    "written e2 @ acc2 = written e @ acc @ (if eh = EH_replace then replacement ea else [])"
    "automaton e2 = 0" "codepoint e2 = cp"
proof -
  let ?e = "e\<lparr>automaton := 0, codepoint := cp, undumped_chars := 0\<rparr>"
  have acc: "take (bytes_after_last_accept e) (string_buffer e) = acc" "length acc \<le> 499"
    "bytes_after_last_accept e = length acc"
    using assms by (simp_all add: escaping_def)
  have r: "length (replacement ea) \<le> 6" by (simp add: replacement_def)
  note defs = skip_invalid_def store_def write_buffer_def string_buffer_size_def escaping_def Let_def
    UTF8_ACCEPT_def pending_limit_def
  show thesis
  proof (cases "eh = EH_replace")
    case True
    let ?buf = "acc @ replacement ea"
    show thesis
    proof (cases "512 - length ?buf < 13")
      case full: True
      show thesis
        by (rule that [of "?e\<lparr>written := written e @ ?buf, string_buffer := [], bytes_after_last_accept := 0\<rparr>" "[]"])
           (use full True acc r in \<open>simp_all add: defs\<close>)
    next
      case False
      show thesis
        by (rule that [of "?e\<lparr>string_buffer := ?buf, bytes_after_last_accept := length ?buf\<rparr>" ?buf])
           (use False True acc r in \<open>simp_all add: defs\<close>)
    qed
  next
    case False
    show thesis
      by (rule that [of "?e\<lparr>string_buffer := acc\<rparr>" acc]) (use False acc in \<open>simp_all add: defs\<close>)
  qed
qed

text \<open>The buffered loop is the loop on values; in particular it never writes past its buffer.\<close>

lemma store_pending:
  assumes "escaping ea acc pend e" "st \<in> {2..8}" "pending_limit (automaton e) + 1 \<le> pending_limit st"
  obtains e2 where
    "(if ea then Inr (e\<lparr>automaton := st, codepoint := cp\<rparr>)
      else store [c] 1 (e\<lparr>automaton := st, codepoint := cp\<rparr>)) = Inr e2"
    "escaping ea acc (pend @ [c]) (e2\<lparr>undumped_chars := undumped_chars e2 + 1\<rparr>)"
    "written e2 = written e" "automaton e2 = st" "codepoint e2 = cp"
proof -
  have "length pend \<le> 3" using assms(1) by (auto simp: escaping_def pending_limit_def split: if_splits)
  then show thesis
    using assms that [of "e\<lparr>automaton := st, codepoint := cp\<rparr>"]
      that [of "e\<lparr>automaton := st, codepoint := cp, string_buffer := string_buffer e @ [c]\<rparr>"]
    by (cases ea) (simp_all add: escaping_def store_def string_buffer_size_def)
qed

lemma escape_loop_unbuffered:
  "escaping ea acc pend e \<Longrightarrow>
     escape_loop eh ea i prev e s =
       prepend (written e @ acc) (unbuffered eh ea (automaton e) (codepoint e) pend i prev s)"
proof (induction eh ea i prev e s arbitrary: acc pend rule: escape_loop.induct)
  case (1 eh ea i prev e)
  then show ?case
    by (cases eh) (auto simp: finish_escaped_def escaping_def UTF8_ACCEPT_def)
next
  case (2 eh ea i prev e c s)
  obtain st cp where d: "decode (automaton e) (codepoint e) (code c) = (st, cp)" by fastforce
  have run: "automaton e \<in> insert 0 {2..8}" using 2(5) by (simp add: escaping_def)
  consider "st = 0" | "st = 1" "eh = EH_strict" | "st = 1" "eh \<noteq> EH_strict" | "st \<noteq> 0" "st \<noteq> 1" by blast
  then show ?case
  proof cases
    case 1
    obtain e2 acc2 where a: "accept_codepoint ea c (e\<lparr>automaton := 0, codepoint := cp\<rparr>) = Inr e2"
      "escaping ea acc2 [] e2"
      "written e2 @ acc2 = written e @ acc @ (if ea then [] else pend) @ escape_codepoint ea cp c"
      "automaton e2 = 0" "codepoint e2 = cp"
      by (rule accept_codepoint_ok [OF 2(5)])
    from 2(1) [OF d [symmetric] refl refl] 1 a(2)
    have "escape_loop eh ea (Suc i) (code c) e2 s =
        prepend (written e2 @ acc2) (unbuffered eh ea (automaton e2) (codepoint e2) [] (Suc i) (code c) s)"
      by (simp add: UTF8_ACCEPT_def)
    with 1 a d show ?thesis by (simp add: unbuffered.simps(2) UTF8_ACCEPT_def)
  next
    case 2
    with d show ?thesis by (simp add: unbuffered.simps(2) UTF8_ACCEPT_def UTF8_REJECT_def)
  next
    case 3
    obtain e2 acc2 where a: "skip_invalid eh ea (e\<lparr>automaton := 1, codepoint := cp\<rparr>) = Inr e2"
      "escaping ea acc2 [] e2"
      "written e2 @ acc2 = written e @ acc @ (if eh = EH_replace then replacement ea else [])"
      "automaton e2 = 0" "codepoint e2 = cp"
      by (rule skip_invalid_ok [OF 2(5) 3(2)])
    have p: "0 < undumped_chars e \<longleftrightarrow> pend \<noteq> []" using 2(5) by (auto simp: escaping_def)
    note ih = 2(2,3) [OF d [symmetric] refl refl _ _ 3(2)]
    show ?thesis
    proof (cases "pend = []")
      case True
      with ih(2) [OF _ _ _ _ a(2)] 3 a p d show ?thesis
        by (simp add: unbuffered.simps(2) [of _ _ "automaton e"] UTF8_ACCEPT_def UTF8_REJECT_def)
    next
      case False
      with ih(1) [OF _ _ _ _ a(2)] 3 a p d show ?thesis
        by (simp add: unbuffered.simps(2) [of _ _ "automaton e"] UTF8_ACCEPT_def UTF8_REJECT_def)
    qed
  next
    case 4
    have st: "st \<in> {2..8}" "pending_limit (automaton e) + 1 \<le> pending_limit st"
      using decode_states [OF run code_less, of st "codepoint e" c] 4 d by simp_all
    obtain e2 where a:
      "(if ea then Inr (e\<lparr>automaton := st, codepoint := cp\<rparr>)
        else store [c] 1 (e\<lparr>automaton := st, codepoint := cp\<rparr>)) = Inr e2"
      "escaping ea acc (pend @ [c]) (e2\<lparr>undumped_chars := undumped_chars e2 + 1\<rparr>)"
      "written e2 = written e" "automaton e2 = st" "codepoint e2 = cp"
      by (rule store_pending [OF 2(5) st])
    from 2(4) [OF d [symmetric] refl refl _ _ a(2)] 4 a d show ?thesis
      by (simp add: unbuffered.simps(2) UTF8_ACCEPT_def UTF8_REJECT_def)
  qed
qed

lemma escaped_with_unbuffered: "escaped_with eh ea s = unbuffered eh ea 0 0 [] 0 0 s"
  using escape_loop_unbuffered [of ea "[]" "[]"
    "\<lparr>automaton = UTF8_ACCEPT, codepoint = 0, string_buffer = [], bytes_after_last_accept = 0,
        undumped_chars = 0, written = []\<rparr>" eh 0 0 s]
  by (simp add: escaped_with_def escaping_def UTF8_ACCEPT_def pending_limit_def)

section \<open>The strict option\<close>

lemma unbuffered_strict:
  "(pend = [] \<longleftrightarrow> state = 0) \<Longrightarrow>
   unbuffered EH_strict ea state codep pend i prev s =
     prepend (if ea then [] else pend) (dump_bytes ea state codep i prev s)"
proof (induction s arbitrary: state codep pend i prev)
  case Nil
  then show ?case by (auto simp: UTF8_ACCEPT_def)
next
  case (Cons c s)
  obtain st cp where d: "decode state codep (code c) = (st, cp)" by fastforce
  have e: "bind_result r (\<lambda>out. Inr (x @ out)) = prepend x r" for x r by (simp add: prepend_def)
  from Cons.IH [of "pend @ [c]" st cp] Cons.IH [of "[]" 0 cp] d show ?case
    by (simp add: unbuffered.simps(2) dump_bytes.simps(2) UTF8_ACCEPT_def UTF8_REJECT_def e)
qed

lemma escaped_with_strict: "escaped_with EH_strict ea s = dump_escaped ea s"
  by (simp add: escaped_with_unbuffered unbuffered_strict dump_escaped_def UTF8_ACCEPT_def)

section \<open>Repaired strings\<close>

text \<open>
  The longest beginning of a string that fits the ranges of a multi-byte character, whether the
  character is complete, and what follows.
\<close>

fun match_ranges :: "(nat \<times> nat) list \<Rightarrow> string \<Rightarrow> string \<times> bool \<times> string" where
  "match_ranges [] s = ([], True, s)"
| "match_ranges ((lo, hi) # ranges) [] = ([], False, [])"
| "match_ranges ((lo, hi) # ranges) (c # s) =
     (if lo \<le> code c \<and> code c \<le> hi then
        (case match_ranges ranges s of (m, complete, r) \<Rightarrow> (c # m, complete, r))
      else ([], False, c # s))"

lemma match_ranges_split: "match_ranges ranges s = (m, complete, r) \<Longrightarrow> s = m @ r"
  by (induction ranges s arbitrary: m rule: match_ranges.induct) (auto split: if_splits prod.splits)

lemma match_ranges_complete:
  "match_ranges ranges s = (m, True, r) \<Longrightarrow> in_ranges ranges (m @ t) = Some t"
  by (induction ranges s arbitrary: m rule: match_ranges.induct) (auto split: if_splits prod.splits)

lemma in_ranges_match:
  "in_ranges ranges s = Some r \<Longrightarrow> \<exists>m. match_ranges ranges s = (m, True, r)"
  by (induction ranges s rule: match_ranges.induct) (auto split: if_splits)

text \<open>
  Every maximal ill-formed part is replaced by \<open>rep\<close>, as the Unicode standard recommends.
\<close>

function repair :: "string \<Rightarrow> string \<Rightarrow> string" where
  "repair rep [] = []"
| "repair rep (c # s) =
     (if code c < 0x80 then c # repair rep s
      else case following_bytes (code c) of
             None \<Rightarrow> rep @ repair rep s
           | Some ranges \<Rightarrow>
               (case match_ranges ranges s of
                  (m, complete, r) \<Rightarrow> (if complete then c # m else rep) @ repair rep r))"
  by pat_completeness auto
termination
  by (relation "measure (\<lambda>(rep, s). length s)") (auto dest!: match_ranges_split [OF sym])

declare repair.simps(2) [simp del]

definition replacement_character :: string where
  "replacement_character = [CHR 0xEF, CHR 0xBF, CHR 0xBD]"

lemma replacement_ok: "utf8_ok replacement_character"
  by (simp add: replacement_character_def utf8_ok.simps following_bytes_def code_def)

lemma repair_ok: "utf8_ok rep \<Longrightarrow> utf8_ok (repair rep s)"
proof (induction rep s rule: repair.induct)
  case (2 rep c s)
  show ?case
  proof (cases "code c < 0x80")
    case True
    with 2 show ?thesis by (simp add: repair.simps(2) utf8_ok.simps)
  next
    case False
    show ?thesis
    proof (cases "following_bytes (code c)")
      case None
      with False 2 show ?thesis by (simp add: repair.simps(2) utf8_ok_append)
    next
      case (Some ranges)
      obtain m complete r where m: "match_ranges ranges s = (m, complete, r)" using prod_cases3 by blast
      have "utf8_ok (repair rep r)" using 2(3) [OF False Some m [symmetric] refl] 2(4) by simp
      moreover have "utf8_ok (c # m)" if complete
        using match_ranges_complete [of ranges s m r "[]"] m that False Some by (simp add: utf8_ok.simps)
      ultimately show ?thesis using False Some m 2(4) utf8_ok_append [of "c # m" "repair rep r"]
        by (cases complete) (simp_all add: repair.simps(2) utf8_ok_append)
    qed
  qed
qed simp

lemma repair_id: "utf8_ok s \<Longrightarrow> repair rep s = s"
proof (induction s rule: utf8_ok.induct)
  case (2 c s)
  show ?case
  proof (cases "code c < 0x80")
    case True
    with 2 show ?thesis by (simp add: repair.simps(2) utf8_ok.simps)
  next
    case False
    with 2(3) obtain ranges r where r: "following_bytes (code c) = Some ranges" "in_ranges ranges s = Some r"
      "utf8_ok r" by (auto simp: utf8_ok.simps split: option.splits)
    then obtain m where "match_ranges ranges s = (m, True, r)" using in_ranges_match by blast
    moreover from this have "s = m @ r" by (rule match_ranges_split)
    ultimately show ?thesis using 2(2) [OF False r(1,2)] r False by (simp add: repair.simps(2))
  qed
qed simp

text \<open>The bytes of a character after its first, in the two loops.\<close>

lemma decode_expected:
  assumes "state \<in> {2..8}" "expected state = (lo, hi) # ranges" "st = fst (decode state codep (code c))"
  shows "if lo \<le> code c \<and> code c \<le> hi
    then (if ranges = [] then st = 0 else st \<in> {2..8} \<and> expected st = ranges) else st = 1"
proof -
  have "codep_ok state 2" by (simp add: codep_ok_def)
  from decode_next [OF code_less assms(1,2) this, of c] assms(3) decode_state [of state codep "code c"]
    decode_state [of state 2 "code c"] show ?thesis by (auto split: if_splits)
qed

lemma dump_bytes_step:
  assumes "decode state codep (code c) = (st, cp)" "st \<noteq> 1"
  shows "dump_bytes ea state codep i prev (c # s) =
    prepend (if st = 0 then escape_codepoint ea cp c else if ea then [] else [c])
      (dump_bytes ea st cp (Suc i) (code c) s)"
  using assms by (simp add: dump_bytes.simps(2) UTF8_ACCEPT_def UTF8_REJECT_def prepend_def)

lemma read_character:
  "state \<in> {2..8} \<Longrightarrow> pend \<noteq> [] \<Longrightarrow> eh \<noteq> EH_strict \<Longrightarrow>
   match_ranges (expected state) s = (m, complete, r) \<Longrightarrow>
     (if complete then
        \<exists>out cp i1 prev1.
          unbuffered eh ea state codep pend i prev s =
            prepend ((if ea then [] else pend) @ out) (unbuffered eh ea 0 cp [] i1 prev1 r)
          \<and> (\<forall>j pv t. \<exists>j1 pv1. dump_bytes ea state codep j pv (m @ t) =
                prepend out (dump_bytes ea 0 cp j1 pv1 t))
      else
        \<exists>cp i1 prev1.
          unbuffered eh ea state codep pend i prev s =
            prepend (if eh = EH_replace then replacement ea else []) (unbuffered eh ea 0 cp [] i1 prev1 r))"
proof (induction s arbitrary: state codep pend i prev m)
  case Nil
  then obtain lo hi ranges where "expected state = (lo, hi) # ranges" using expected_cons by blast
  with Nil show ?case by (cases eh) auto
next
  case (Cons c s)
  obtain lo hi ranges where ex: "expected state = (lo, hi) # ranges" using expected_cons Cons.prems(1) by blast
  obtain st cp where d: "decode state codep (code c) = (st, cp)" by fastforce
  note next_state = decode_expected [OF Cons.prems(1) ex, of st codep c, unfolded d fst_conv, OF refl]
  show ?case
  proof (cases "lo \<le> code c \<and> code c \<le> hi")
    case False
    with next_state have "st = 1" by auto
    with Cons.prems(2,3) d have "unbuffered eh ea state codep pend i prev (c # s) =
        prepend (if eh = EH_replace then replacement ea else []) (unbuffered eh ea 0 cp [] i prev (c # s))"
      by (simp add: unbuffered.simps(2) [of eh ea state])
    moreover have "\<not> complete" "r = c # s" using False Cons.prems(4) ex by auto
    ultimately show ?thesis by auto
  next
    case True
    then obtain m1 where m1: "match_ranges ranges s = (m1, complete, r)" "m = c # m1"
      using Cons.prems(4) ex by (auto split: prod.splits)
    show ?thesis
    proof (cases "ranges = []")
      case last: True
      with True next_state have st: "st = 0" by simp
      with d have step: "unbuffered eh ea state codep pend i prev (c # s) =
          prepend ((if ea then [] else pend) @ escape_codepoint ea cp c) (unbuffered eh ea 0 cp [] (Suc i) (code c) s)"
        by (simp add: unbuffered.simps(2))
      have "dump_bytes ea state codep j pv ([c] @ t) =
          prepend (escape_codepoint ea cp c) (dump_bytes ea 0 cp (Suc j) (code c) t)" for j pv t
        using dump_bytes_step [OF d] st by simp
      with step m1 last show ?thesis by (auto intro!: exI)
    next
      case False
      with True next_state have st: "st \<in> {2..8}" "expected st = ranges" by auto
      then have n: "st \<noteq> 0" "st \<noteq> 1" by auto
      with d have step: "unbuffered eh ea state codep pend i prev (c # s) =
          unbuffered eh ea st cp (pend @ [c]) (Suc i) (code c) s"
        by (simp add: unbuffered.simps(2))
      have dump: "dump_bytes ea state codep j pv (c # t) =
          prepend (if ea then [] else [c]) (dump_bytes ea st cp (Suc j) (code c) t)" for j pv t
        using dump_bytes_step [OF d n(2)] n by simp
      note ih = Cons.IH [OF st(1) _ Cons.prems(3), unfolded st(2), OF _ m1(1), of "pend @ [c]" cp "Suc i" "code c"]
      show ?thesis
      proof (cases complete)
        case True
        with ih obtain out cp1 i1 prev1 where o:
          "unbuffered eh ea st cp (pend @ [c]) (Suc i) (code c) s =
             prepend ((if ea then [] else pend @ [c]) @ out) (unbuffered eh ea 0 cp1 [] i1 prev1 r)"
          "\<forall>j pv t. \<exists>j1 pv1. dump_bytes ea st cp j pv (m1 @ t) = prepend out (dump_bytes ea 0 cp1 j1 pv1 t)"
          by auto
        let ?out = "(if ea then [] else [c]) @ out"
        have "unbuffered eh ea state codep pend i prev (c # s) =
            prepend ((if ea then [] else pend) @ ?out) (unbuffered eh ea 0 cp1 [] i1 prev1 r)"
          using step o(1) by simp
        moreover have "\<forall>j pv t. \<exists>j1 pv1. dump_bytes ea state codep j pv (m @ t) =
            prepend ?out (dump_bytes ea 0 cp1 j1 pv1 t)"
        proof (intro allI)
          fix j pv t
          from o(2) obtain j1 pv1 where
            "dump_bytes ea st cp (Suc j) (code c) (m1 @ t) = prepend out (dump_bytes ea 0 cp1 j1 pv1 t)" by blast
          with m1(2) dump show "\<exists>j1 pv1. dump_bytes ea state codep j pv (m @ t) =
            prepend ?out (dump_bytes ea 0 cp1 j1 pv1 t)" by auto
        qed
        ultimately show ?thesis unfolding if_P [OF \<open>complete\<close>] by blast
      next
        case False
        with ih step show ?thesis by auto
      qed
    qed
  qed
qed

lemma dump_replacement:
  "\<exists>cp j1 pv1. dump_bytes ea 0 codep j pv (replacement_character @ t) =
     prepend (replacement ea) (dump_bytes ea 0 cp j1 pv1 t)"
proof -
  have d: "decode 0 codep 239 = (3, 15)" "decode 3 15 191 = (2, 1023)" "decode 2 1023 189 = (0, 65533)"
    using transition_row [of 0 3] transition_row [of 3 7] transition_row [of 2 7] first_codep [of 3 239]
      next_codep [of 15 191] next_codep [of 1023 189]
    by (simp_all add: decode_def UTF8_ACCEPT_def utf8d_runs high_byte)
  have c: "code (CHR 0xEF) = 239" "code (CHR 0xBF) = 191" "code (CHR 0xBD) = 189" by (simp_all add: code_def)
  have "char_of (102 :: nat) = CHR ''f''" "char_of (100 :: nat) = CHR ''d''" by code_simp+
  then have "backslash_u 65533 = [CHR 0x5C, CHR ''u'', CHR ''f'', CHR ''f'', CHR ''f'', CHR ''d'']"
    by (simp add: backslash_u_def hex_setw_def to_hex.simps hex_digit_def)
  then have e: "escape_codepoint ea 65533 (CHR 0xBD) = (if ea then replacement True else [CHR 0xBD])"
    by (simp add: escape_codepoint_def replacement_def)
  have "dump_bytes ea 0 codep j pv (replacement_character @ t) =
      prepend (if ea then [] else [CHR 0xEF, CHR 0xBF])
        (dump_bytes ea 2 1023 (Suc (Suc j)) 191 (CHR 0xBD # t))"
    using dump_bytes_step [of 0 codep "CHR 0xEF" 3 15 ea] dump_bytes_step [of 3 15 "CHR 0xBF" 2 1023 ea]
    by (cases ea) (simp_all add: d c replacement_character_def)
  also have "\<dots> = prepend (replacement ea) (dump_bytes ea 0 65533 (Suc (Suc (Suc j))) 189 t)"
    using dump_bytes_step [of 2 1023 "CHR 0xBD" 0 65533 ea] by (simp add: d c e replacement_def)
  finally show ?thesis by blast
qed

definition replaced_by :: "error_handler_t \<Rightarrow> string" where
  "replaced_by eh = (if eh = EH_replace then replacement_character else [])"

lemma dump_replaced:
  "\<exists>cp j1 pv1. dump_bytes ea 0 codep j pv (replaced_by eh @ t) =
     prepend (if eh = EH_replace then replacement ea else []) (dump_bytes ea 0 cp j1 pv1 t)"
  using dump_replacement [of ea codep j pv t] by (auto simp: replaced_by_def)

lemma unbuffered_repair:
  "eh \<noteq> EH_strict \<Longrightarrow> rep = replaced_by eh \<Longrightarrow>
     unbuffered eh ea 0 codep [] i prev s = dump_bytes ea 0 codep1 j pv (repair rep s)"
proof (induction rep s arbitrary: codep i prev codep1 j pv rule: repair.induct)
  case (1 rep)
  then show ?case by (simp add: UTF8_ACCEPT_def)
next
  case (2 rep c s)
  show ?case
  proof (cases "code c < 0x80")
    case True
    have d: "decode 0 cp (code c) = (0, code c)" for cp using decode_first(1) [OF code_less True] .
    from 2(1) [OF True 2(4,5), of "code c" "Suc i" "code c" "code c" "Suc j" "code c"] True
      dump_bytes_step [OF d, of ea codep1 j pv]
    show ?thesis by (simp add: unbuffered.simps(2) d repair.simps(2))
  next
    case False
    obtain st cp where d: "decode 0 codep (code c) = (st, cp)" by fastforce
    have d1: "decode 0 codep1 (code c) = (st, cp)" using d by (simp add: decode_def UTF8_ACCEPT_def)
    have rep: "\<exists>cp2 j1 pv1. dump_bytes ea 0 codep1 j pv (rep @ t) =
        prepend (if eh = EH_replace then replacement ea else []) (dump_bytes ea 0 cp2 j1 pv1 t)" for t
      using dump_replaced [of ea codep1 j pv eh t] 2(5) by simp
    show ?thesis
    proof (cases "following_bytes (code c)")
      case None
      have "st = 1" using decode_first(2) [OF code_less _ None, of codep] False d by simp
      moreover obtain cp2 j1 pv1 where "dump_bytes ea 0 codep1 j pv (rep @ repair rep s) =
          prepend (if eh = EH_replace then replacement ea else []) (dump_bytes ea 0 cp2 j1 pv1 (repair rep s))"
        using rep by blast
      ultimately show ?thesis
        using 2(2) [OF False None 2(4,5), of cp "Suc i" "code c" cp2 j1 pv1] 2(4) False None d
        by (simp add: unbuffered.simps(2) repair.simps(2))
    next
      case (Some ranges)
      have st: "st \<in> {2..8}" "expected st = ranges"
        using decode_first(3) [OF code_less Some, of codep] d by simp_all
      then have n: "st \<noteq> 0" "st \<noteq> 1" by auto
      obtain m complete r where m: "match_ranges ranges s = (m, complete, r)" using prod_cases3 by blast
      note ih = 2(3) [OF False Some m [symmetric] refl 2(4,5)]
      have step: "unbuffered eh ea 0 codep [] i prev (c # s) = unbuffered eh ea st cp [c] (Suc i) (code c) s"
        using n d by (simp add: unbuffered.simps(2))
      note rc = read_character [OF st(1) _ 2(4), unfolded st(2), OF _ m, of "[c]" ea cp "Suc i" "code c"]
      show ?thesis
      proof (cases complete)
        case True
        with rc obtain out cp1 i1 prev1 where o:
          "unbuffered eh ea st cp [c] (Suc i) (code c) s =
             prepend ((if ea then [] else [c]) @ out) (unbuffered eh ea 0 cp1 [] i1 prev1 r)"
          "\<forall>j pv t. \<exists>j1 pv1. dump_bytes ea st cp j pv (m @ t) = prepend out (dump_bytes ea 0 cp1 j1 pv1 t)"
          by auto
        from o(2) obtain j1 pv1 where
          "dump_bytes ea st cp (Suc j) (code c) (m @ repair rep r) =
             prepend out (dump_bytes ea 0 cp1 j1 pv1 (repair rep r))" by blast
        with dump_bytes_step [OF d1 n(2), of ea j pv "m @ repair rep r"] n(1)
        have "dump_bytes ea 0 codep1 j pv (c # m @ repair rep r) =
            prepend ((if ea then [] else [c]) @ out) (dump_bytes ea 0 cp1 j1 pv1 (repair rep r))" by simp
        with step o(1) ih [of cp1 i1 prev1 cp1 j1 pv1] True Some False m show ?thesis
          by (simp add: repair.simps(2))
      next
        case incomplete: False
        with rc obtain cp1 i1 prev1 where o:
          "unbuffered eh ea st cp [c] (Suc i) (code c) s =
             prepend (if eh = EH_replace then replacement ea else []) (unbuffered eh ea 0 cp1 [] i1 prev1 r)"
          by auto
        moreover obtain cp2 j1 pv1 where "dump_bytes ea 0 codep1 j pv (rep @ repair rep r) =
            prepend (if eh = EH_replace then replacement ea else []) (dump_bytes ea 0 cp2 j1 pv1 (repair rep r))"
          using rep by blast
        ultimately show ?thesis
          using step ih [of cp1 i1 prev1 cp2 j1 pv1] incomplete Some False m
          by (simp add: repair.simps(2))
      qed
    qed
  qed
qed

lemma escaped_with_repair: "eh \<noteq> EH_strict \<Longrightarrow> escaped_with eh ea s = dump_escaped ea (repair (replaced_by eh) s)"
  by (simp add: escaped_with_unbuffered dump_escaped_def UTF8_ACCEPT_def unbuffered_repair [OF _ refl, where ?codep1.0 = 0 and j = 0 and pv = 0])

section \<open>Properties\<close>

text \<open>
  C9: The 512 bytes of the buffer and the code that flushes it cannot be seen from outside, and
  are never overrun: the text of a string is that of the plain loop. Replacing or dropping
  ill-formed UTF-8 gives the text of the string in which every maximal ill-formed part has been
  replaced by U+FFFD or dropped.
\<close>

theorem string_buffer_invisible:
  "escaped_with eh ea s =
     dump_escaped ea (case eh of EH_strict \<Rightarrow> s | EH_replace \<Rightarrow> repair replacement_character s | EH_ignore \<Rightarrow> repair [] s)"
  using escaped_with_strict [of ea s] escaped_with_repair [of eh ea s] by (cases eh) (simp_all add: replaced_by_def)

end
