(* ===== verification/Json_Ascii.thy ===== *)
theory Json_Ascii
  imports Json_Escape
begin

text \<open>
  Strings written with every character outside ASCII escaped, and what the lexer reads of them: the
  code point the automaton collects is the one whose encoding the lexer writes out.
\<close>

section \<open>Four hexadecimal digits\<close>

lemma hex_nibble_char: "is_hex_char c \<Longrightarrow> hex_nibble c = Some (hex_char_value c)"
  by (auto simp: is_hex_char_def is_digit_def hex_nibble_def hex_char_value_def code_def)

lemma get_codepoint_hex4:
  assumes "n < 65536"
  shows "get_codepoint (hex_setw 4 n @ t) = (Some n, t)"
proof -
  have "length (hex_setw 4 n) = 4" using assms by (simp add: length_hex_setw)
  then obtain a b c d where h: "hex_setw 4 n = [a, b, c, d]" by (auto simp: length_Suc_conv numeral_eq_Suc)
  then have "list_all is_hex_char [a, b, c, d]" "hex_value 0 [a, b, c, d] = n"
    using hex_setw_chars [of 4 n] hex_value_setw [of 4 n] by simp_all
  then show ?thesis
    by (simp add: h get_codepoint_def hex_nibble_char push_bit_eq_mult hex_value_def)
qed

section \<open>Encoding a code point\<close>

lemma utf8_encode_two:
  assumes "2 \<le> a" "a < 32" "b < 64"
  shows "utf8_encode (64 * a + b) = [char_of (0xC0 + a), char_of (0x80 + b)]"
proof -
  have "(64 * a + b) div 64 = a" "(64 * a + b) mod 64 = b" using assms by simp_all
  then show ?thesis using assms by (simp add: utf8_encode_def drop_bit_eq_div lead_byte tail_byte)
qed

lemma utf8_encode_three:
  assumes "a < 16" "b < 64" "c < 64" "a = 0 \<Longrightarrow> 32 \<le> b"
  shows "utf8_encode (4096 * a + 64 * b + c) = [char_of (0xE0 + a), char_of (0x80 + b), char_of (0x80 + c)]"
proof -
  let ?cp = "4096 * a + 64 * b + c"
  have "?cp div 64 = 64 * a + b" using assms by (intro div_nat_eqI) simp_all
  then have d: "?cp div 4096 = a" "?cp div 64 mod 64 = b" "?cp mod 64 = c"
    using assms base_64(2) [of ?cp] by (simp_all add: mod_nat_eqI)
  have "0x800 \<le> ?cp" "?cp \<le> 0xFFFF" using assms by (cases "a = 0"; simp)+
  then show ?thesis using assms d by (simp add: utf8_encode_def drop_bit_eq_div lead_byte tail_byte)
qed

lemma utf8_encode_four:
  assumes "a < 5" "b < 64" "c < 64" "d < 64" "a = 0 \<Longrightarrow> 16 \<le> b"
  shows "utf8_encode (262144 * a + 4096 * b + 64 * c + d) =
    [char_of (0xF0 + a), char_of (0x80 + b), char_of (0x80 + c), char_of (0x80 + d)]"
proof -
  let ?cp = "262144 * a + 4096 * b + 64 * c + d"
  have q: "?cp div 64 = 4096 * a + 64 * b + c" using assms by (intro div_nat_eqI) simp_all
  have q2: "(4096 * a + 64 * b + c) div 64 = 64 * a + b" using assms by (intro div_nat_eqI) simp_all
  have "?cp div 4096 = 64 * a + b" using base_64(2) [of ?cp] q q2 by simp
  then have d: "?cp div 262144 = a" "?cp div 4096 mod 64 = b" "?cp div 64 mod 64 = c" "?cp mod 64 = d"
    using assms base_64(3) [of ?cp] q q2 by (simp_all add: mod_nat_eqI)
  have "0x10000 \<le> ?cp" using assms by (cases "a = 0") simp_all
  then show ?thesis using assms d by (simp add: utf8_encode_def drop_bit_eq_div lead_byte tail_byte)
qed

text \<open>The number in the first byte of a character, and the code point of its bytes.\<close>

definition lead_value :: "nat \<Rightarrow> nat" where
  "lead_value b = (if b < 0xE0 then b - 0xC0 else if b < 0xF0 then b - 0xE0 else b - 0xF0)"

definition add_tail :: "nat \<Rightarrow> string \<Rightarrow> nat" where
  "add_tail = foldl (\<lambda>v c. code c mod 64 + 64 * v)"

lemma add_tail_simps [simp]:
  "add_tail v [] = v" "add_tail v (c # s) = add_tail (code c mod 64 + 64 * v) s"
  by (simp_all add: add_tail_def)

lemma decode_lead:
  assumes "b < 256" "following_bytes b = Some ranges"
  shows "snd (decode 0 cp b) = lead_value b"
proof -
  from assms consider "0xC2 \<le> b" "b < 0xE0" | "b = 0xE0" | "0xE1 \<le> b" "b < 0xF0" "b \<noteq> 0xED" | "b = 0xED"
    | "b = 0xF0" | "0xF1 \<le> b" "b < 0xF4" | "b = 0xF4"
    by (fastforce simp: following_bytes_def split: if_splits)
  then show ?thesis
  proof cases
    case 1
    then have "b mod 64 = b - 0xC0" by (intro mod_shift) simp_all
    with 1 first_codep [of 2 b] show ?thesis
      by (simp add: decode_def utf8d_runs UTF8_ACCEPT_def lead_value_def)
  next
    case 3
    then have "b mod 32 = b - 0xE0" by (intro mod_shift) simp_all
    moreover from 3 have "b \<le> 0xEC \<or> b = 0xEE \<or> b = 0xEF" by linarith
    ultimately show ?thesis using 3 first_codep [of 3 b] assms(1)
      by (simp add: decode_def high_byte UTF8_ACCEPT_def lead_value_def)
  next
    case 6
    then have "b mod 4 = b - 0xF0" by (intro mod_shift) simp_all
    with 6 first_codep [of 6 b] assms(1) show ?thesis
      by (simp add: decode_def high_byte UTF8_ACCEPT_def lead_value_def)
  qed (use first_codep [of 4 b] first_codep [of 5 b] in
    \<open>simp_all add: decode_def high_byte UTF8_ACCEPT_def lead_value_def\<close>)
qed

lemma tail_char: "0x80 \<le> code c \<Longrightarrow> code c \<le> 0xBF \<Longrightarrow> char_of (0x80 + code c mod 64) = c"
  using mod_shift [of 64 128 "code c"] by (simp add: code_def)

lemma in_ranges_all: "in_ranges ((lo, hi) # ranges) s = Some r \<longleftrightarrow>
    (\<exists>c t. s = c # t \<and> lo \<le> code c \<and> code c \<le> hi \<and> in_ranges ranges t = Some r)"
  by (cases s) auto

lemma encode_bytes:
  assumes "following_bytes (code c) = Some ranges" "in_ranges ranges bs = Some []"
  shows "utf8_encode (add_tail (lead_value (code c)) bs) = c # bs"
    and "0x80 \<le> add_tail (lead_value (code c)) bs" "add_tail (lead_value (code c)) bs \<le> 0x10FFFF"
    and "\<not> (0xD800 \<le> add_tail (lead_value (code c)) bs \<and> add_tail (lead_value (code c)) bs \<le> 0xDFFF)"
proof -
  let ?b = "code c" and ?cp = "add_tail (lead_value (code c)) bs"
  have c: "char_of ?b = c" by (simp add: code_def)
  have "utf8_encode ?cp = c # bs \<and> 0x80 \<le> ?cp \<and> ?cp \<le> 0x10FFFF \<and> \<not> (0xD800 \<le> ?cp \<and> ?cp \<le> 0xDFFF)"
  proof -
    consider "0xC2 \<le> ?b" "?b < 0xE0" "ranges = [(0x80, 0xBF)]"
      | lo hi where "0xE0 \<le> ?b" "?b < 0xF0" "ranges = [(lo, hi), (0x80, 0xBF)]" "0x80 \<le> lo" "hi \<le> 0xBF"
          "?b = 0xE0 \<longrightarrow> lo = 0xA0" "?b = 0xED \<longrightarrow> hi = 0x9F"
      | lo hi where "0xF0 \<le> ?b" "?b \<le> 0xF4" "ranges = [(lo, hi), (0x80, 0xBF), (0x80, 0xBF)]"
          "0x80 \<le> lo" "hi \<le> 0xBF" "?b = 0xF0 \<longrightarrow> lo = 0x90" "?b = 0xF4 \<longrightarrow> hi = 0x8F"
      using assms(1) by (fastforce simp: following_bytes_def split: if_splits)
    then show ?thesis
    proof cases
      case 1
      with assms(2) obtain c1 where bs: "bs = [c1]" "0x80 \<le> code c1" "code c1 \<le> 0xBF"
        by (auto simp: in_ranges_all)
      have l: "lead_value ?b = ?b - 0xC0" using 1 by (simp add: lead_value_def)
      have t: "code c1 mod 64 < 64" by simp
      have "utf8_encode ?cp = [char_of (0xC0 + (?b - 0xC0)), char_of (0x80 + code c1 mod 64)]"
        using utf8_encode_two [of "?b - 0xC0" "code c1 mod 64"] 1 l bs(1) by (simp add: add.commute)
      moreover have "0xC0 + (?b - 0xC0) = ?b" using 1 by simp
      moreover have "0x80 \<le> ?cp" "?cp < 0x800" using 1 l bs(1) t by simp_all
      ultimately show ?thesis using bs c by (simp add: tail_char)
    next
      case 2
      with assms(2) obtain c1 c2 where bs: "bs = [c1, c2]" "lo \<le> code c1" "code c1 \<le> hi" "0x80 \<le> code c2"
        "code c2 \<le> 0xBF" by (auto simp: in_ranges_all)
      have l: "lead_value ?b = ?b - 0xE0" using 2 by (simp add: lead_value_def)
      have t: "code c1 mod 64 < 64" "code c2 mod 64 < 64" by simp_all
      have m: "code c1 mod 64 = code c1 - 0x80" using bs 2 by (intro mod_shift) simp_all
      have lo: "?b - 0xE0 = 0 \<Longrightarrow> 32 \<le> code c1 mod 64" using 2 bs(2) m by simp
      have hi: "?b - 0xE0 = 13 \<Longrightarrow> code c1 mod 64 < 32" using 2 bs(3) m by simp
      have cp: "?cp = 4096 * (?b - 0xE0) + 64 * (code c1 mod 64) + code c2 mod 64"
        using bs(1) l by simp
      have "utf8_encode ?cp =
          [char_of (0xE0 + (?b - 0xE0)), char_of (0x80 + code c1 mod 64), char_of (0x80 + code c2 mod 64)]"
        unfolding cp using 2 t lo by (intro utf8_encode_three) simp_all
      moreover have "0xE0 + (?b - 0xE0) = ?b" using 2 by simp
      moreover have "0x800 \<le> ?cp" "?cp \<le> 0xFFFF" unfolding cp using t lo 2 by (cases "?b - 0xE0 = 0"; simp)+
      moreover have "\<not> (0xD800 \<le> ?cp \<and> ?cp \<le> 0xDFFF)"
      proof
        assume "0xD800 \<le> ?cp \<and> ?cp \<le> 0xDFFF"
        then have a: "0xD800 \<le> ?cp" "?cp \<le> 0xDFFF" by simp_all
        then have "?b - 0xE0 = 13" unfolding cp using t by linarith
        with a hi t show False unfolding cp by linarith
      qed
      ultimately show ?thesis using bs c 2 by (simp add: tail_char)
    next
      case 3
      with assms(2) obtain c1 c2 c3 where bs: "bs = [c1, c2, c3]" "lo \<le> code c1" "code c1 \<le> hi" "0x80 \<le> code c2"
        "code c2 \<le> 0xBF" "0x80 \<le> code c3" "code c3 \<le> 0xBF" by (auto simp: in_ranges_all)
      have l: "lead_value ?b = ?b - 0xF0" using 3 by (simp add: lead_value_def)
      have t: "code c1 mod 64 < 64" "code c2 mod 64 < 64" "code c3 mod 64 < 64" by simp_all
      have m: "code c1 mod 64 = code c1 - 0x80" using bs 3 by (intro mod_shift) simp_all
      have lo: "?b - 0xF0 = 0 \<Longrightarrow> 16 \<le> code c1 mod 64" using 3 bs(2) m by simp
      have hi: "?b - 0xF0 = 4 \<Longrightarrow> code c1 mod 64 < 16" using 3 bs(3) m by simp
      have cp: "?cp = 262144 * (?b - 0xF0) + 4096 * (code c1 mod 64) + 64 * (code c2 mod 64) + code c3 mod 64"
        using bs(1) l by simp
      have "utf8_encode ?cp = [char_of (0xF0 + (?b - 0xF0)), char_of (0x80 + code c1 mod 64),
          char_of (0x80 + code c2 mod 64), char_of (0x80 + code c3 mod 64)]"
        unfolding cp using 3 t lo by (intro utf8_encode_four) simp_all
      moreover have "0xF0 + (?b - 0xF0) = ?b" using 3 by simp
      moreover have "0x10000 \<le> ?cp" unfolding cp using t lo 3 by (cases "?b - 0xF0 = 0") simp_all
      moreover have "?cp \<le> 0x10FFFF" unfolding cp using t hi 3 by linarith
      ultimately show ?thesis using bs c 3 by (simp add: tail_char)
    qed
  qed
  then show "utf8_encode ?cp = c # bs" "0x80 \<le> ?cp" "?cp \<le> 0x10FFFF"
    "\<not> (0xD800 \<le> ?cp \<and> ?cp \<le> 0xDFFF)" by blast+
qed

section \<open>Escaped characters\<close>

lemma scan_backslash_u:
  assumes "0x7F \<le> cp" "cp \<le> 0x10FFFF" "\<not> (0xD800 \<le> cp \<and> cp \<le> 0xDFFF)"
  shows "scan_string buf (escape_codepoint True cp c @ t) = scan_string (buf @ utf8_encode cp) t"
proof (cases "cp \<le> 0xFFFF")
  case True
  then have "escape_codepoint True cp c = CHR 0x5C # CHR ''u'' # hex_setw 4 cp"
    using assms(1) by (simp add: escape_codepoint_def backslash_u_def)
  moreover have "scan_escape (CHR ''u'' # hex_setw 4 cp @ t) = (Inr (utf8_encode cp), t)"
    using True assms(3) get_codepoint_hex4 [of cp t] by (auto simp: scan_escape_def scan_unicode_def)
  ultimately show ?thesis by (simp add: scan_string_Cons(2))
next
  case False
  let ?n = "cp - 0x10000"
  have "take_bit 10 cp = cp mod 1024" by (simp add: take_bit_eq_mod)
  moreover have "cp AND 0x3FF = take_bit 10 cp" by (simp add: take_bit_eq_mask mask_eq_exp_minus_1)
  moreover have q: "cp div 1024 \<le> 0x43F" "64 \<le> cp div 1024"
    using assms(2) False div_le_mono [of cp "0x10FFFF" 1024] div_le_mono [of "0x10000" cp 1024] by simp_all
  moreover have m: "cp mod 1024 < 1024" by simp
  ultimately have s: "take_bit 16 (0xD7C0 + drop_bit 10 cp) = 0xD7C0 + cp div 1024"
    "take_bit 16 (0xDC00 + (cp AND 0x3FF)) = 0xDC00 + cp mod 1024"
    by (simp_all add: drop_bit_eq_div take_bit_eq_mod)
  let ?h = "0xD7C0 + cp div 1024" and ?l = "0xDC00 + cp mod 1024"
  have e: "escape_codepoint True cp c = CHR 0x5C # CHR ''u'' # hex_setw 4 ?h @ CHR 0x5C # CHR ''u'' # hex_setw 4 ?l"
    using False s by (simp add: escape_codepoint_def backslash_u_def)
  have h: "get_codepoint (hex_setw 4 ?h @ x) = (Some ?h, x)" for x
    using q by (intro get_codepoint_hex4) simp
  have l: "get_codepoint (hex_setw 4 ?l @ x) = (Some ?l, x)" for x
    using m by (intro get_codepoint_hex4) simp
  have r: "0xD800 \<le> ?h" "?h \<le> 0xDBFF" "0xDC00 \<le> ?l" "?l \<le> 0xDFFF" using q m by simp_all
  have "1024 * (cp div 1024) + cp mod 1024 = cp" by simp
  then have "push_bit 10 ?h + ?l - 0x35FDC00 = cp" by (simp add: push_bit_eq_mult)
  then have "scan_unicode (hex_setw 4 ?h @ CHR 0x5C # CHR ''u'' # hex_setw 4 ?l @ t) = (Inr (utf8_encode cp), t)"
    using r by (simp add: scan_unicode_def h l)
  then have "scan_escape (CHR ''u'' # hex_setw 4 ?h @ CHR 0x5C # CHR ''u'' # hex_setw 4 ?l @ t)
      = (Inr (utf8_encode cp), t)" by (simp add: scan_escape_def)
  then show ?thesis by (simp add: e scan_string_Cons(2))
qed

lemma scan_escaped_ascii:
  assumes "code c < 0x80"
  shows "scan_string buf (escape_codepoint True (code c) c @ t) = scan_string (buf @ [c]) t"
proof (cases "code c = 0x7F")
  case True
  moreover have "char_of (code c) = c" by (simp add: code_def)
  ultimately have "utf8_encode (code c) = [c]" by (simp add: utf8_encode_def)
  with True scan_backslash_u [of "code c" buf c t] show ?thesis by simp
next
  case False
  with assms have "escape_codepoint True (code c) c = escape_codepoint False (code c) c"
    by (simp add: escape_codepoint_def)
  with scan_escaped [OF assms] show ?thesis by simp
qed

lemma decode_next_codep:
  "state \<in> {2..8} \<Longrightarrow> codep_ok state codep \<Longrightarrow> snd (decode state codep b) = b mod 64 + 64 * codep"
proof -
  assume "state \<in> {2..8}" "codep_ok state codep"
  moreover from this have "codep < 2 ^ 16" by (auto simp: codep_ok_def split: if_splits)
  ultimately show ?thesis using next_codep [of codep b] by (simp add: decode_def UTF8_ACCEPT_def)
qed

lemma dump_multibyte_ascii:
  "state \<in> {2..8} \<Longrightarrow> codep_ok state codep \<Longrightarrow> dump_bytes True state codep i prev s = Inr out \<Longrightarrow>
     \<exists>bs r d i1 prev1 out1. s = bs @ r \<and> bs \<noteq> [] \<and> in_ranges (expected state) bs = Some []
       \<and> out = escape_codepoint True (add_tail codep bs) d @ out1
       \<and> dump_bytes True 0 (add_tail codep bs) i1 prev1 r = Inr out1"
proof (induction s arbitrary: state codep i prev)
  case Nil
  then show ?case by (simp add: UTF8_ACCEPT_def)
next
  case (Cons c s)
  obtain lo hi ranges where ex: "expected state = (lo, hi) # ranges" using expected_cons [OF Cons.prems(1)] by blast
  obtain st cp where d: "decode state codep (code c) = (st, cp)" by fastforce
  note next_state = decode_next [OF code_less [of c] Cons.prems(1) ex Cons.prems(2), unfolded d fst_conv snd_conv]
  have cp: "cp = code c mod 64 + 64 * codep"
    using decode_next_codep [OF Cons.prems(1,2), of "code c"] d by simp
  have range: "lo \<le> code c \<and> code c \<le> hi"
    using next_state Cons.prems(3) d by (auto simp: dump_bytes.simps(2) UTF8_ACCEPT_def UTF8_REJECT_def split: if_splits)
  show ?case
  proof (cases "ranges = []")
    case True
    with next_state range have "st = 0" by simp
    with Cons.prems(3) d obtain out1 where "dump_bytes True 0 cp (Suc i) (code c) s = Inr out1"
      "out = escape_codepoint True cp c @ out1"
      by (auto simp: dump_bytes.simps(2) UTF8_ACCEPT_def bind_result_Inr_iff)
    with True range ex cp show ?thesis
      by (intro exI [of _ "[c]"] exI [of _ s] exI [of _ c] exI [of _ "Suc i"] exI [of _ "code c"] exI [of _ out1]) simp
  next
    case False
    with next_state range have st: "st \<in> {2..8}" "expected st = ranges" "codep_ok st cp" by simp_all
    then have "st \<noteq> 0" "st \<noteq> 1" by auto
    with Cons.prems(3) d have "dump_bytes True st cp (Suc i) (code c) s = Inr out"
      by (auto simp: dump_bytes.simps(2) UTF8_ACCEPT_def UTF8_REJECT_def bind_result_Inr_iff)
    from Cons.IH [OF st(1,3) this] obtain bs r d i1 prev1 out1 where
      "s = bs @ r" "in_ranges ranges bs = Some []" "out = escape_codepoint True (add_tail cp bs) d @ out1"
      "dump_bytes True 0 (add_tail cp bs) i1 prev1 r = Inr out1" unfolding st(2) by blast
    with range ex cp show ?thesis
      by (intro exI [of _ "c # bs"] exI [of _ r] exI [of _ d] exI [of _ i1] exI [of _ prev1] exI [of _ out1]) simp
  qed
qed

lemma scan_dumped_ascii:
  "dump_bytes True 0 codep i prev s = Inr out \<Longrightarrow>
     scan_string buf (out @ CHR 0x22 # t) = (T_string (buf @ s), t)"
proof (induction "length s" arbitrary: s buf codep i prev out rule: less_induct)
  case less
  show ?case
  proof (cases s)
    case Nil
    with less.prems show ?thesis by (simp add: UTF8_ACCEPT_def scan_string_Cons(1))
  next
    case (Cons c r)
    obtain st cp where d: "decode 0 codep (code c) = (st, cp)" by fastforce
    note run = less.prems [unfolded Cons]
    show ?thesis
    proof (cases "code c < 0x80")
      case True
      with run obtain out1 where o: "dump_bytes True 0 (code c) (Suc i) (code c) r = Inr out1"
        "out = escape_codepoint True (code c) c @ out1"
        by (auto simp: dump_ascii bind_result_Inr_iff)
      have "scan_string (buf @ [c]) (out1 @ CHR 0x22 # t) = (T_string ((buf @ [c]) @ r), t)"
        using o(1) by (intro less.hyps) (simp_all add: Cons)
      with o(2) scan_escaped_ascii [OF True, of buf] Cons show ?thesis by simp
    next
      case False
      have "following_bytes (code c) \<noteq> None"
      proof
        assume "following_bytes (code c) = None"
        with decode_first(2) [OF code_less, of c codep] False d have "st = 1" by simp
        with run d show False by (simp add: dump_bytes.simps(2) UTF8_ACCEPT_def UTF8_REJECT_def)
      qed
      then obtain ranges where f: "following_bytes (code c) = Some ranges" by blast
      with decode_first(3) [OF code_less, of c ranges codep] decode_lead [OF code_less f, of codep] d
      have st: "st \<in> {2..8}" "expected st = ranges" "codep_ok st cp" "cp = lead_value (code c)" by simp_all
      then have "st \<noteq> 0" "st \<noteq> 1" by auto
      with run d have "dump_bytes True st cp (Suc i) (code c) r = Inr out"
        by (auto simp: dump_bytes.simps(2) UTF8_ACCEPT_def UTF8_REJECT_def bind_result_Inr_iff)
      from dump_multibyte_ascii [OF st(1,3) this, unfolded st(2,4)] obtain bs r1 e i1 prev1 out1 where
        m: "r = bs @ r1" "in_ranges ranges bs = Some []"
          "out = escape_codepoint True (add_tail (lead_value (code c)) bs) e @ out1"
          "dump_bytes True 0 (add_tail (lead_value (code c)) bs) i1 prev1 r1 = Inr out1" by blast
      note enc = encode_bytes [OF f m(2)]
      have "scan_string buf (out @ CHR 0x22 # t) = scan_string (buf @ c # bs) (out1 @ CHR 0x22 # t)"
        using scan_backslash_u [of "add_tail (lead_value (code c)) bs" buf e "out1 @ CHR 0x22 # t"] enc m(3) by simp
      also have "\<dots> = (T_string ((buf @ c # bs) @ r1), t)"
        using m(1,4) Cons by (intro less.hyps) simp_all
      finally show ?thesis using Cons m(1) by simp
    qed
  qed
qed

text \<open>Either way of escaping is undone by the lexer.\<close>

lemma scan_dumped_any:
  "dump_escaped ea s = Inr out \<Longrightarrow> scan fl (CHR 0x22 # out @ CHR 0x22 # t) = (T_string s, t)"
  using scan_dumped_ascii [of 0 0 0 s out "[]" t] scan_dumped [of s out fl t]
  by (cases ea) (simp_all add: scan_quote dump_escaped_def UTF8_ACCEPT_def)

text \<open>All of it is ASCII.\<close>

end
