(* ===== verification/Json_Pretty.thy ===== *)
theory Json_Pretty
  imports Json_Ascii
begin

text \<open>
  The serializer with all its options: indentation, the indentation character, escaping to ASCII and
  the reaction to ill-formed UTF-8. The indentation is cut from a string that starts with 512
  characters and is doubled, at most once for a container and always with spaces, when it is too
  short. Without indentation and with the strict option it is \<open>dump_value\<close>.
\<close>

section \<open>Indentation\<close>

record dump_options =
  pretty_print :: bool
  ensure_ascii :: bool
  indent_step :: "32 word"
  on_error :: error_handler_t

text \<open>\<open>indent_string.resize(indent_string.size() * 2, ' ')\<close> when it is shorter than the indentation.\<close>

definition grow_indent :: "32 word \<Rightarrow> string \<Rightarrow> string" where
  "grow_indent new_indent ind =
     (if length ind < unat new_indent then ind @ replicate (length ind) (CHR '' '') else ind)"

text \<open>
  \<open>write_characters(indent_string.c_str(), n)\<close>: one character behind the end is the zero byte of
  \<open>c_str\<close>, more are out of bounds.
\<close>

definition indentation :: "32 word \<Rightarrow> string \<Rightarrow> string result" where
  "indentation n ind =
     (if unat n \<le> length ind then Inr (take (unat n) ind)
      else if unat n = length ind + 1 then Inr (ind @ [CHR 0x00])
      else Inl (Abort ''read past the end of indent_string''))"

section \<open>Values\<close>

text \<open>
  \<open>dump(val, pretty_print, ensure_ascii, indent_step, current_indent)\<close>; \<open>ind\<close> is \<open>indent_string\<close>,
  which lives as long as the serializer. The members and elements are written at the indentation
  \<open>cur\<close> of their container's contents.
\<close>

definition newline :: string where "newline = [CHR 0x0A]"

fun serialize_value :: "floats \<Rightarrow> dump_options \<Rightarrow> 32 word \<Rightarrow> string \<Rightarrow> json \<Rightarrow> (string \<times> string) result"
  and serialize_members ::
    "floats \<Rightarrow> dump_options \<Rightarrow> 32 word \<Rightarrow> string \<Rightarrow> (string \<times> json) list \<Rightarrow> (string \<times> string) result"
  and serialize_elements ::
    "floats \<Rightarrow> dump_options \<Rightarrow> 32 word \<Rightarrow> string \<Rightarrow> json list \<Rightarrow> (string \<times> string) result" where
  "serialize_value fl opt cur ind (J_object ms) =
     (if ms = [] then Inr (''{}'', ind)
      else if pretty_print opt then
        (let new_indent = cur + indent_step opt
         in bind_result (serialize_members fl opt new_indent (grow_indent new_indent ind) ms) (\<lambda>(out, ind).
            bind_result (indentation cur ind) (\<lambda>pad.
            Inr (''{'' @ newline @ out @ newline @ pad @ ''}'', ind))))
      else
        bind_result (serialize_members fl opt cur ind ms) (\<lambda>(out, ind). Inr (''{'' @ out @ ''}'', ind)))"
| "serialize_value fl opt cur ind (J_array xs) =
     (if xs = [] then Inr (''[]'', ind)
      else if pretty_print opt then
        (let new_indent = cur + indent_step opt
         in bind_result (serialize_elements fl opt new_indent (grow_indent new_indent ind) xs) (\<lambda>(out, ind).
            bind_result (indentation cur ind) (\<lambda>pad.
            Inr (''['' @ newline @ out @ newline @ pad @ '']'', ind))))
      else
        bind_result (serialize_elements fl opt cur ind xs) (\<lambda>(out, ind). Inr (''['' @ out @ '']'', ind)))"
| "serialize_value fl opt cur ind (J_string s) =
     bind_result (escaped_with (on_error opt) (ensure_ascii opt) s) (\<lambda>out. Inr (quoted out, ind))"
| "serialize_value fl opt cur ind (J_boolean b) = Inr (if b then ''true'' else ''false'', ind)"
| "serialize_value fl opt cur ind (J_integer n) = Inr (dump_integer fresh_buffer n, ind)"
| "serialize_value fl opt cur ind (J_unsigned n) = Inr (dump_unsigned fresh_buffer n, ind)"
| "serialize_value fl opt cur ind (J_float d) = Inr (dump_float fl d, ind)"
| "serialize_value fl opt cur ind J_null = Inr (''null'', ind)"
| "serialize_value fl opt cur ind (J_binary bytes subtype) =
     (if pretty_print opt then
        (let new_indent = cur + indent_step opt; ind = grow_indent new_indent ind
         in bind_result (indentation new_indent ind) (\<lambda>pad.
            bind_result (indentation cur ind) (\<lambda>pad1.
            Inr (''{'' @ newline @ pad @ quoted ''bytes'' @ '': ['' @ dump_binary_bytes '', '' bytes @ ''],''
                 @ newline @ pad @ quoted ''subtype'' @ '': '' @ dump_subtype subtype
                 @ newline @ pad1 @ ''}'', ind))))
      else
        Inr (''{'' @ quoted ''bytes'' @ '':['' @ dump_binary_bytes '','' bytes @ ''],''
             @ quoted ''subtype'' @ '':'' @ dump_subtype subtype @ ''}'', ind))"
| "serialize_value fl opt cur ind J_discarded = Inr (''<discarded>'', ind)"
| "serialize_members fl opt cur ind [] = Inr ([], ind)"
| "serialize_members fl opt cur ind ((k, v) # ms) =
     bind_result (if pretty_print opt then indentation cur ind else Inr []) (\<lambda>pad.
     bind_result (escaped_with (on_error opt) (ensure_ascii opt) k) (\<lambda>key.
     bind_result (serialize_value fl opt cur ind v) (\<lambda>(out, ind).
     let member = pad @ quoted key @ (if pretty_print opt then '': '' else '':'') @ out
     in if ms = [] then Inr (member, ind)
        else bind_result (serialize_members fl opt cur ind ms) (\<lambda>(rest, ind).
             Inr (member @ (if pretty_print opt then '','' @ newline else '','') @ rest, ind)))))"
| "serialize_elements fl opt cur ind [] = Inr ([], ind)"
| "serialize_elements fl opt cur ind (x # xs) =
     bind_result (if pretty_print opt then indentation cur ind else Inr []) (\<lambda>pad.
     bind_result (serialize_value fl opt cur ind x) (\<lambda>(out, ind).
     if xs = [] then Inr (pad @ out, ind)
     else bind_result (serialize_elements fl opt cur ind xs) (\<lambda>(rest, ind).
          Inr (pad @ out @ (if pretty_print opt then '','' @ newline else '','') @ rest, ind))))"

text \<open>\<open>dump(indent, indent_char, ensure_ascii, error_handler)\<close>; a negative indent means none.\<close>

definition json_dump_with :: "floats \<Rightarrow> int \<Rightarrow> char \<Rightarrow> bool \<Rightarrow> error_handler_t \<Rightarrow> json \<Rightarrow> string result" where
  "json_dump_with fl indent indent_char ea eh v =
     bind_result
       (serialize_value fl
          \<lparr>pretty_print = 0 \<le> indent, ensure_ascii = ea,
           indent_step = (if 0 \<le> indent then word_of_int indent else 0), on_error = eh\<rparr>
          0 (replicate 512 indent_char) v) (\<lambda>(out, ind). Inr out)"

section \<open>Without options\<close>

definition result_text :: "string \<Rightarrow> string result \<Rightarrow> (string \<times> string) result" where
  "result_text ind r = bind_result r (\<lambda>out. Inr (out, ind))"

lemma result_text_simps [simp]:
  "result_text ind (Inr out) = Inr (out, ind)" "result_text ind (Inl f) = Inl f"
  by (simp_all add: result_text_def)

lemma serialize_compact:
  assumes "\<not> pretty_print opt" "on_error opt = EH_strict"
  shows "serialize_value fl opt cur ind v = result_text ind (dump_value fl (ensure_ascii opt) v)"
    and "serialize_members fl opt cur ind ms = result_text ind (dump_members fl (ensure_ascii opt) ms)"
    and "serialize_elements fl opt cur ind xs = result_text ind (dump_elements fl (ensure_ascii opt) xs)"
  using assms
proof (induction fl opt cur ind v and fl opt cur ind ms and fl opt cur ind xs
    rule: serialize_value_serialize_members_serialize_elements.induct)
qed (auto simp: escaped_with_strict quoted_def bind_result_def result_text_def split: sum.splits)

theorem dump_without_options:
  "json_dump_with fl (-1) indent_char ea EH_strict v = dump_value fl ea v"
  by (cases "dump_value fl ea v") (simp_all add: json_dump_with_def serialize_compact)

section \<open>The indentation string is long enough\<close>

text \<open>
  What holds of it before a value at indentation \<open>cur\<close>; at the top level the first container may
  double it. It only grows.
\<close>

definition pads :: "dump_options \<Rightarrow> 32 word \<Rightarrow> string \<Rightarrow> bool" where
  "pads opt cur ind \<longleftrightarrow>
     (pretty_print opt \<longrightarrow> unat cur \<le> length ind
        \<and> (unat (indent_step opt) \<le> length ind \<or> cur = 0 \<and> unat (indent_step opt) \<le> 2 * length ind))"

lemma pads_grow:
  assumes "pads opt cur ind" "pretty_print opt"
  shows "pads opt (cur + indent_step opt) (grow_indent (cur + indent_step opt) ind)"
    and "length ind \<le> length (grow_indent (cur + indent_step opt) ind)"
proof -
  have "unat (cur + indent_step opt) \<le> unat cur + unat (indent_step opt)"
    by (simp add: unat_word_ariths)
  then show "pads opt (cur + indent_step opt) (grow_indent (cur + indent_step opt) ind)"
    using assms by (auto simp: pads_def grow_indent_def)
qed (simp add: grow_indent_def)

lemma pads_longer: "pads opt cur ind \<Longrightarrow> length ind \<le> length ind1 \<Longrightarrow> pads opt cur ind1"
  by (auto simp: pads_def)

text \<open>A result that is no abort, and an indentation string that has not shrunk.\<close>

definition fine :: "error_handler_t \<Rightarrow> string \<Rightarrow> (string \<times> string) result \<Rightarrow> bool" where
  "fine eh ind r =
     (case r of
        Inl e \<Rightarrow> eh = EH_strict \<and> (\<exists>message. e = Throw (Json_Type_Error 316 message))
      | Inr (out, ind1) \<Rightarrow> length ind \<le> length ind1)"

lemma fine_Inr [simp]: "fine eh ind (Inr (out, ind1)) \<longleftrightarrow> length ind \<le> length ind1"
  by (simp add: fine_def)

lemma fine_bind:
  assumes "fine eh ind m"
    and "\<And>out ind1. m = Inr (out, ind1) \<Longrightarrow> length ind \<le> length ind1 \<Longrightarrow> fine eh ind (f (out, ind1))"
  shows "fine eh ind (bind_result m f)"
  using assms by (cases m) (auto simp: fine_def)

lemma fine_longer: "fine eh ind1 r \<Longrightarrow> length ind \<le> length ind1 \<Longrightarrow> fine eh ind r"
  by (auto simp: fine_def split: sum.splits)

lemma dump_bytes_throws:
  "dump_bytes ea state codep i prev s = Inl e \<Longrightarrow> \<exists>message. e = Throw (Json_Type_Error 316 message)"
proof (induction s arbitrary: state codep i prev)
  case (Cons c s)
  obtain st cp where "decode state codep (code c) = (st, cp)" by fastforce
  with Cons show ?case
    by (auto simp: dump_bytes.simps(2) bind_result_def split: if_splits sum.splits)
qed (auto split: if_splits)

lemma escaped_with_throws:
  assumes "escaped_with eh ea s = Inl e"
  shows "eh = EH_strict" "\<exists>message. e = Throw (Json_Type_Error 316 message)"
proof -
  show "eh = EH_strict"
  proof (rule ccontr)
    assume eh: "eh \<noteq> EH_strict"
    have "utf8_ok (repair (replaced_by eh) s)" by (intro repair_ok) (simp add: replaced_by_def replacement_ok)
    then obtain out where "dump_escaped ea (repair (replaced_by eh) s) = Inr out" using dump_escaped_ok [of ea] by blast
    with eh assms show False by (simp add: escaped_with_repair)
  qed
  with assms show "\<exists>message. e = Throw (Json_Type_Error 316 message)"
    by (auto simp: escaped_with_strict dump_escaped_def dest: dump_bytes_throws)
qed

lemma fine_escaped:
  "(\<And>out. escaped_with eh ea s = Inr out \<Longrightarrow> fine eh ind (f out)) \<Longrightarrow>
     fine eh ind (bind_result (escaped_with eh ea s) f)"
  using escaped_with_throws [of eh ea s] by (cases "escaped_with eh ea s") (auto simp: fine_def)

lemma indentation_pads: "pads opt cur ind \<Longrightarrow> pretty_print opt \<Longrightarrow> indentation cur ind = Inr (take (unat cur) ind)"
  by (simp add: pads_def indentation_def)

lemma serialize_fine:
  "pads opt cur ind \<Longrightarrow> fine (on_error opt) ind (serialize_value fl opt cur ind v)"
  "pads opt cur ind \<Longrightarrow> fine (on_error opt) ind (serialize_members fl opt cur ind ms)"
  "pads opt cur ind \<Longrightarrow> fine (on_error opt) ind (serialize_elements fl opt cur ind xs)"
proof (induction fl opt cur ind v and fl opt cur ind ms and fl opt cur ind xs
    rule: serialize_value_serialize_members_serialize_elements.induct)
  case (1 fl opt cur ind ms)
  let ?new = "cur + indent_step opt"
  show ?case
  proof (cases "ms \<noteq> [] \<and> pretty_print opt")
    case True
    note grow = pads_grow [OF 1(3)]
    from True 1(1) grow(1) have "fine (on_error opt) ind (serialize_members fl opt ?new (grow_indent ?new ind) ms)"
      by (intro fine_longer [OF _ grow(2)]) simp_all
    then show ?thesis using True
      by (auto simp: Let_def indentation_pads [OF pads_longer [OF 1(3)]] intro!: fine_bind)
  next
    case False
    with 1(2,3) show ?thesis by (auto intro!: fine_bind)
  qed
next
  case (2 fl opt cur ind xs)
  let ?new = "cur + indent_step opt"
  show ?case
  proof (cases "xs \<noteq> [] \<and> pretty_print opt")
    case True
    note grow = pads_grow [OF 2(3)]
    from True 2(1) grow(1) have "fine (on_error opt) ind (serialize_elements fl opt ?new (grow_indent ?new ind) xs)"
      by (intro fine_longer [OF _ grow(2)]) simp_all
    then show ?thesis using True
      by (auto simp: Let_def indentation_pads [OF pads_longer [OF 2(3)]] intro!: fine_bind)
  next
    case False
    with 2(2,3) show ?thesis by (auto intro!: fine_bind)
  qed
next
  case (3 fl opt cur ind s)
  then show ?case by (auto intro!: fine_escaped)
next
  case (9 fl opt cur ind bytes subtype)
  show ?case
  proof (cases "pretty_print opt")
    case True
    note grow = pads_grow [OF 9 True]
    show ?thesis using True grow
      by (simp add: Let_def indentation_pads [OF grow(1)] indentation_pads [OF pads_longer [OF 9 grow(2)]])
  qed simp
next
  case (12 fl opt cur ind k v ms)
  have pad: "(if pretty_print opt then indentation cur ind else Inr []) =
      Inr (if pretty_print opt then take (unat cur) ind else [])"
    using indentation_pads [OF 12(3)] by simp
  have rest: "fine (on_error opt) ind (serialize_members fl opt cur ind1 ms)" if "ms \<noteq> []" "length ind \<le> length ind1" for ind1
    using fine_longer [OF 12(2) [OF refl that(1) pads_longer [OF 12(3) that(2)]] that(2)] by simp
  show ?case
    unfolding serialize_members.simps pad bind_result_simps
    using 12(1,3) rest by (auto simp: Let_def intro!: fine_escaped fine_bind)
next
  case (14 fl opt cur ind x xs)
  have pad: "(if pretty_print opt then indentation cur ind else Inr []) =
      Inr (if pretty_print opt then take (unat cur) ind else [])"
    using indentation_pads [OF 14(3)] by simp
  have rest: "fine (on_error opt) ind (serialize_elements fl opt cur ind1 xs)" if "xs \<noteq> []" "length ind \<le> length ind1" for ind1
    using fine_longer [OF 14(2) [OF that(1) pads_longer [OF 14(3) that(2)]] that(2)] by simp
  show ?case
    unfolding serialize_elements.simps pad bind_result_simps
    using 14(1,3) rest by (auto simp: Let_def intro!: fine_bind)
qed simp_all

lemma pads_start:
  "indent \<le> 1024 \<Longrightarrow>
     pads \<lparr>pretty_print = 0 \<le> indent, ensure_ascii = ea,
       indent_step = (if 0 \<le> indent then word_of_int indent else 0), on_error = eh\<rparr> 0 (replicate 512 c)"
  by (auto simp: pads_def unat_eq_nat_uint uint_word_of_int nat_le_iff)

text \<open>
  C36: With an indentation of at most 1024, dump stays within the indentation string and within
  the buffer of the string routine, however deep the value: it returns a text, or, with the
  strict option only, throws the exception for ill-formed UTF-8.
\<close>

theorem dump_in_bounds:
  assumes "indent \<le> 1024" "json_dump_with fl indent indent_char ea eh v = Inl e"
  shows "eh = EH_strict \<and> (\<exists>message. e = Throw (Json_Type_Error 316 message))"
  using serialize_fine(1) [OF pads_start [OF assms(1), of ea eh indent_char], of fl v] assms(2)
  by (auto simp: json_dump_with_def bind_result_def fine_def split: sum.splits)

lemma dump_in_bounds_witness:
  "\<exists>message. json_dump_with \<lparr>strtod = (\<lambda>_. 0), to_chars = (\<lambda>_. []), truncated = (\<lambda>_. 0)\<rparr> 1024 (CHR '' '') False EH_strict
      (J_array [J_string [CHR 0xC3]]) = Inl (Throw (Json_Type_Error 316 message))" (is "\<exists>message. ?dump = _ message")
proof -
  have d: "decode 0 0 195 = (2, 3)"
    using transition_row [of 0 2] first_codep [of 2 195] by (simp add: decode_def UTF8_ACCEPT_def utf8d_runs)
  obtain e where e: "?dump = Inl e"
    by (simp add: json_dump_with_def indentation_def grow_indent_def Let_def escaped_with_strict dump_escaped_def
        dump_bytes.simps UTF8_ACCEPT_def UTF8_REJECT_def code_def d)
  from dump_in_bounds [OF _ e] obtain message where "e = Throw (Json_Type_Error 316 message)" by auto
  with e show ?thesis by blast
qed

text \<open>
  From 1026 on the doubled string is too short, and the first container that is not empty reads past
  its end.
\<close>

lemma wide_indent_reads_past:
  assumes "1025 < indent" "indent < 2 ^ 31"
  shows "json_dump_with fl indent indent_char ea eh (J_array (x # xs)) =
    Inl (Abort ''read past the end of indent_string'')"
proof -
  have "unat (word_of_int indent :: 32 word) = nat indent"
    using assms by (simp add: unat_eq_nat_uint uint_word_of_int)
  moreover have "1025 < nat indent" using assms by simp
  ultimately show ?thesis
    using assms by (simp add: json_dump_with_def indentation_def grow_indent_def Let_def)
qed

text \<open>Padding beyond the first 512 characters is made of spaces, whatever the indentation character.\<close>

lemma wide_indent_has_spaces:
  assumes "512 < unat n" "unat n \<le> 1024"
  shows "indentation n (grow_indent n (replicate 512 c)) =
    Inr (replicate 512 c @ replicate (unat n - 512) (CHR '' ''))"
  using assms by (simp add: indentation_def grow_indent_def min_def)

end
