(* ===== verification/Json_Theorems.thy ===== *)
theory Json_Theorems
  imports Json_Pretty
begin

text \<open>
  The properties of the JSON library: what \<open>dump\<close> writes, \<open>parse\<close> reads back; the numbers it writes
  are decimal numbers; the values \<open>parse\<close> builds are well formed. The round trip is proved from the
  lexer's lemmas of the previous theory by induction on the value, for any stack of open containers.
\<close>

section \<open>What survives a round trip\<close>

text \<open>
  Values without floating-point numbers and with members in the order of a map. A number that is not
  negative comes back as an unsigned one.
\<close>

fun json_plain :: "json \<Rightarrow> bool" where
  "json_plain (J_object ms) = (sorted_members ms \<and> (\<forall>(k, v) \<in> set ms. json_plain v))"
| "json_plain (J_array xs) = (\<forall>x \<in> set xs. json_plain x)"
| "json_plain (J_float d) = False"
| "json_plain J_discarded = False"
| "json_plain _ = True"

definition reread_bytes :: "8 word list \<Rightarrow> json list" where
  "reread_bytes bytes = map (\<lambda>b. J_unsigned (ucast b)) bytes"

fun reread :: "json \<Rightarrow> json" where
  "reread (J_object ms) = J_object (map (\<lambda>(k, v). (k, reread v)) ms)"
| "reread (J_array xs) = J_array (map reread xs)"
| "reread (J_integer n) = (if sint n < 0 then J_integer n else J_unsigned n)"
| "reread (J_binary bytes subtype) =
     J_object [(''bytes'', J_array (reread_bytes bytes)),
       (''subtype'', case subtype of Some n \<Rightarrow> J_unsigned n | None \<Rightarrow> J_null)]"
| "reread v = v"

text \<open>What the reaction to ill-formed UTF-8 makes of a string, and of all strings of a value.\<close>

definition scrub :: "error_handler_t \<Rightarrow> string \<Rightarrow> string" where
  "scrub eh s = (if eh = EH_strict then s else repair (replaced_by eh) s)"

fun scrubbed :: "error_handler_t \<Rightarrow> json \<Rightarrow> json" where
  "scrubbed eh (J_object ms) = J_object (map (\<lambda>(k, v). (scrub eh k, scrubbed eh v)) ms)"
| "scrubbed eh (J_array xs) = J_array (map (scrubbed eh) xs)"
| "scrubbed eh (J_string s) = J_string (scrub eh s)"
| "scrubbed eh v = v"

lemma escaped_with_scrub: "escaped_with eh ea s = dump_escaped ea (scrub eh s)"
  by (simp add: scrub_def escaped_with_strict escaped_with_repair)

lemma scrubbed_strict: "scrubbed EH_strict v = v"
  by (induction EH_strict v rule: scrubbed.induct) (auto simp: scrub_def intro!: map_idI)

section \<open>Reading values\<close>

text \<open>Reading the value at the head of the text, with the containers \<open>st\<close> open.\<close>

definition read_value :: "floats \<Rightarrow> string \<Rightarrow> container list \<Rightarrow> (json \<times> string) result" where
  "read_value fl s st = (case scan fl s of (t, s1) \<Rightarrow> parse_value fl t s1 st)"

definition read_member ::
  "floats \<Rightarrow> string \<Rightarrow> (string \<times> json) list \<Rightarrow> container list \<Rightarrow> (json \<times> string) result" where
  "read_member fl s ms st =
     (case scan fl s of (t, s1) \<Rightarrow>
        case parse_key fl t s1 of
          Inl e \<Rightarrow> Inl e
        | Inr (k, s2) \<Rightarrow> read_value fl s2 (In_object ms k # st))"

lemma read_opening:
  "read_value fl (CHR ''['' # s) st =
     (if fst (scan fl s) = T_end_array then evaluate_state fl (J_array []) (snd (scan fl s)) st
      else read_value fl s (In_array [] # st))"
  "read_value fl (CHR ''{'' # s) st =
     (if fst (scan fl s) = T_end_object then evaluate_state fl (J_object []) (snd (scan fl s)) st
      else read_member fl s [] st)"
  by (auto simp: read_value_def read_member_def scan_punctuation split: prod.splits sum.splits)

lemma after_value:
  "evaluate_state fl v (CHR '','' # s) (In_array xs # st) = read_value fl s (In_array (xs @ [v]) # st)"
  "evaluate_state fl v (CHR '']'' # s) (In_array xs # st) = evaluate_state fl (J_array (xs @ [v])) s st"
  "evaluate_state fl v (CHR '','' # s) (In_object ms k # st) = read_member fl s (object_put k v ms) st"
  "evaluate_state fl v (CHR ''}'' # s) (In_object ms k # st) =
     evaluate_state fl (J_object (object_put k v ms)) s st"
  by (auto simp: read_value_def read_member_def scan_punctuation split: prod.splits sum.splits)

declare evaluate_state.simps(2,3) [simp del]

lemma read_member_key:
  assumes "escaped_with eh ea k = Inr key"
  shows "read_member fl (quoted key @ CHR '':'' # s) ms st = read_value fl s (In_object ms (scrub eh k) # st)"
  using assms by (simp add: read_member_def scan_dumped_any quoted_def escaped_with_scrub parse_key_def scan_punctuation)

text \<open>Whitespace between tokens.\<close>

definition blank :: "string \<Rightarrow> bool" where
  "blank ws = list_all is_whitespace ws"

lemma scan_blank: "blank ws \<Longrightarrow> scan fl (ws @ s) = scan fl s"
proof -
  assume "blank ws"
  then have "skip_whitespace (ws @ s) = skip_whitespace s"
    by (auto simp: skip_whitespace_def blank_def list_all_iff dropWhile_append)
  then show ?thesis by (simp add: scan_def)
qed

lemma read_blank:
  assumes "blank ws"
  shows "read_value fl (ws @ s) st = read_value fl s st"
    and "read_member fl (ws @ s) ms st = read_member fl s ms st"
    and "evaluate_state fl v (ws @ s) (c # st) = evaluate_state fl v s (c # st)"
  using assms by (cases c; simp add: read_value_def read_member_def evaluate_state.simps scan_blank)+

lemma number_ends_blank: "blank ws \<Longrightarrow> number_ends s \<Longrightarrow> number_ends (ws @ s)"
  by (cases ws) (auto simp: blank_def is_whitespace_def number_ends_def is_digit_def)

lemma blank_simps [simp]: "blank []" "blank newline" "blank '' ''" "blank (a @ b) \<longleftrightarrow> blank a \<and> blank b"
  by (simp_all add: blank_def newline_def is_whitespace_def)

text \<open>A text that reads as a value does not begin with the end of an array.\<close>

lemma value_not_end_array:
  assumes "\<And>st. read_value fl s st = evaluate_state fl v t st"
  shows "fst (scan fl s) \<noteq> T_end_array"
proof
  assume "fst (scan fl s) = T_end_array"
  moreover have "read_value fl s [] = Inr (v, t)" using assms by simp
  ultimately show False by (simp add: read_value_def syntax_error_def split: prod.splits)
qed

section \<open>Values\<close>

lemma read_unsigned:
  fixes n :: "64 word"
  assumes "number_ends t"
  shows "read_value fl (to_string (unat n) @ t) st = evaluate_state fl (J_unsigned n) t st"
proof -
  have "unat n < 2 ^ 64" using unsigned_less [of n] by simp
  with scan_unsigned [OF this assms] show ?thesis by (simp add: read_value_def)
qed

lemma read_integer:
  assumes "number_ends t"
  shows "read_value fl (dump_integer fresh_buffer n @ t) st = evaluate_state fl (reread (J_integer n)) t st"
proof (cases "sint n < 0")
  case True
  have "0 < nat (- sint n)" "nat (- sint n) \<le> 2 ^ 63"
    using True sint_greater_eq [of n] by (simp_all add: nat_le_iff)
  from scan_negative [OF this assms] True show ?thesis
    by (simp add: read_value_def dump_integer_eq fresh_buffer_def)
next
  case False
  with read_unsigned [OF assms] show ?thesis by (simp add: dump_integer_eq fresh_buffer_def)
qed

lemma sorted_members_append:
  "sorted_members (ms @ (k, v) # ns) \<Longrightarrow> object_put k w ms = ms @ [(k, w)]"
  by (rule object_put_last) (auto simp: sorted_members_def sorted_wrt_append)

lemma sorted_members_keys: "map fst ms = map fst ns \<Longrightarrow> sorted_members ms = sorted_members ns"
  by (simp add: sorted_members_def)

text \<open>
  The lists of a container, read from the first on: \<open>reads\<close> states it of a value, for every indentation
  and any stack of open containers.
\<close>

definition reads :: "floats \<Rightarrow> dump_options \<Rightarrow> json \<Rightarrow> bool" where
  "reads fl opt v \<longleftrightarrow>
     (\<forall>cur ind out ind1 t st.
        serialize_value fl opt cur ind v = Inr (out, ind1) \<longrightarrow> pads opt cur ind \<longrightarrow> (pretty_print opt \<longrightarrow> blank ind) \<longrightarrow>
        number_ends t \<longrightarrow>
        read_value fl (out @ t) st = evaluate_state fl (reread (scrubbed (on_error opt) v)) t st)"

lemma readsD:
  "reads fl opt v \<Longrightarrow> serialize_value fl opt cur ind v = Inr (out, ind1) \<Longrightarrow> pads opt cur ind \<Longrightarrow>
     (pretty_print opt \<Longrightarrow> blank ind) \<Longrightarrow> number_ends t \<Longrightarrow>
     read_value fl (out @ t) st = evaluate_state fl (reread (scrubbed (on_error opt) v)) t st"
  unfolding reads_def by blast

text \<open>The indentation string stays blank and does not shrink.\<close>

lemma blank_take [simp]: "blank ind \<Longrightarrow> blank (take n ind)"
  by (auto simp: blank_def list_all_iff dest: in_set_takeD)

lemma blank_grow [simp]: "blank ind \<Longrightarrow> blank (grow_indent n ind)"
  by (simp add: grow_indent_def) (simp add: blank_def is_whitespace_def list_all_iff)

lemma serialize_blank:
  "serialize_value fl opt cur ind v = Inr (out, ind1) \<Longrightarrow> blank ind \<Longrightarrow> blank ind1"
  "serialize_members fl opt cur ind ms = Inr (out, ind1) \<Longrightarrow> blank ind \<Longrightarrow> blank ind1"
  "serialize_elements fl opt cur ind xs = Inr (out, ind1) \<Longrightarrow> blank ind \<Longrightarrow> blank ind1"
proof (induction fl opt cur ind v and fl opt cur ind ms and fl opt cur ind xs arbitrary: out ind1 and out ind1 and out ind1
    rule: serialize_value_serialize_members_serialize_elements.induct)
qed (auto simp: Let_def bind_result_Inr_iff split: if_splits)

lemma serialize_keeps:
  assumes "serialize_value fl opt cur ind v = Inr (out, ind1)" "pads opt cur ind" "pretty_print opt \<Longrightarrow> blank ind"
  shows "pads opt cur ind1" "pretty_print opt \<Longrightarrow> blank ind1"
proof -
  have "length ind \<le> length ind1" using serialize_fine(1) [OF assms(2), of fl v] assms(1) by simp
  with assms(2) show "pads opt cur ind1" by (rule pads_longer)
  show "pretty_print opt \<Longrightarrow> blank ind1" using assms serialize_blank(1) by blast
qed

text \<open>What precedes an element or a member, and what follows the colon and the comma.\<close>

definition pad_text :: "dump_options \<Rightarrow> 32 word \<Rightarrow> string \<Rightarrow> string" where
  "pad_text opt cur ind = (if pretty_print opt then take (unat cur) ind else [])"

definition space_text :: "dump_options \<Rightarrow> string \<Rightarrow> string" where
  "space_text opt ws = (if pretty_print opt then ws else [])"

lemma pad_indentation:
  "pads opt cur ind \<Longrightarrow> (if pretty_print opt then indentation cur ind else Inr []) = Inr (pad_text opt cur ind)"
  using indentation_pads [of opt cur ind] by (simp add: pad_text_def)

lemma blank_texts [simp]:
  "(pretty_print opt \<Longrightarrow> blank ind) \<Longrightarrow> blank (pad_text opt cur ind)"
  "blank ws \<Longrightarrow> blank (space_text opt ws)"
  by (simp_all add: pad_text_def space_text_def)

lemma separators:
  "(if pretty_print opt then '': '' else '':'') = CHR '':'' # space_text opt '' ''"
  "(if pretty_print opt then '','' @ newline else '','') = CHR '','' # space_text opt newline"
  by (simp_all add: space_text_def)

lemma element_parts:
  assumes "serialize_elements fl opt cur ind (x # xs) = Inr (out, ind1)" "pads opt cur ind"
  obtains (last) out1 where "xs = []" "serialize_value fl opt cur ind x = Inr (out1, ind1)"
      "out = pad_text opt cur ind @ out1"
    | (more) out1 ind2 rest where "xs \<noteq> []" "serialize_value fl opt cur ind x = Inr (out1, ind2)"
        "serialize_elements fl opt cur ind2 xs = Inr (rest, ind1)"
        "out = pad_text opt cur ind @ out1 @ CHR '','' # space_text opt newline @ rest"
proof -
  note run = assms(1) [unfolded serialize_elements.simps pad_indentation [OF assms(2)] separators bind_result_simps]
  then obtain out1 ind2 where v: "serialize_value fl opt cur ind x = Inr (out1, ind2)"
    by (auto simp: bind_result_Inr_iff)
  show thesis
  proof (cases "xs = []")
    case True
    with run v last show ?thesis by simp
  next
    case False
    with run v obtain rest where "serialize_elements fl opt cur ind2 xs = Inr (rest, ind1)"
      "out = pad_text opt cur ind @ out1 @ CHR '','' # space_text opt newline @ rest"
      by (auto simp: bind_result_Inr_iff)
    with False v more show ?thesis by blast
  qed
qed

lemma member_parts:
  assumes "serialize_members fl opt cur ind ((k, v) # ms) = Inr (out, ind1)" "pads opt cur ind"
  obtains (last) key out1 where "ms = []" "escaped_with (on_error opt) (ensure_ascii opt) k = Inr key"
      "serialize_value fl opt cur ind v = Inr (out1, ind1)"
      "out = pad_text opt cur ind @ quoted key @ CHR '':'' # space_text opt '' '' @ out1"
    | (more) key out1 ind2 rest where "ms \<noteq> []" "escaped_with (on_error opt) (ensure_ascii opt) k = Inr key"
        "serialize_value fl opt cur ind v = Inr (out1, ind2)"
        "serialize_members fl opt cur ind2 ms = Inr (rest, ind1)"
        "out = pad_text opt cur ind @ quoted key @ CHR '':'' # space_text opt '' '' @ out1
           @ CHR '','' # space_text opt newline @ rest"
proof -
  note run = assms(1) [unfolded serialize_members.simps pad_indentation [OF assms(2)] separators bind_result_simps]
  then obtain key out1 ind2 where v: "escaped_with (on_error opt) (ensure_ascii opt) k = Inr key"
    "serialize_value fl opt cur ind v = Inr (out1, ind2)"
    by (auto simp: bind_result_Inr_iff)
  show thesis
  proof (cases "ms = []")
    case True
    with run v last show ?thesis by (simp add: Let_def)
  next
    case False
    with run v obtain rest where "serialize_members fl opt cur ind2 ms = Inr (rest, ind1)"
      "out = pad_text opt cur ind @ quoted key @ CHR '':'' # space_text opt '' '' @ out1
         @ CHR '','' # space_text opt newline @ rest"
      by (auto simp: bind_result_Inr_iff Let_def)
    with False v more show ?thesis by blast
  qed
qed

lemma read_elements:
  "serialize_elements fl opt cur ind xs = Inr (out, ind1) \<Longrightarrow> xs \<noteq> [] \<Longrightarrow> pads opt cur ind \<Longrightarrow>
     (pretty_print opt \<Longrightarrow> blank ind) \<Longrightarrow> \<forall>x \<in> set xs. reads fl opt x \<Longrightarrow> blank ws \<Longrightarrow>
     read_value fl (out @ ws @ CHR '']'' # t) (In_array acc # st) =
       evaluate_state fl (J_array (acc @ map (\<lambda>x. reread (scrubbed (on_error opt) x)) xs)) t st"
proof (induction xs arbitrary: ind out acc)
  case (Cons x xs)
  have x: "reads fl opt x" and blank: "blank (pad_text opt cur ind)" using Cons.prems by simp_all
  from Cons.prems(1,3) show ?case
  proof (cases rule: element_parts)
    case (last out1)
    have "read_value fl (out1 @ ws @ CHR '']'' # t) (In_array acc # st) =
        evaluate_state fl (reread (scrubbed (on_error opt) x)) (ws @ CHR '']'' # t) (In_array acc # st)"
      using last(2) Cons.prems(6) by (intro readsD [OF x _ Cons.prems(3,4)] number_ends_blank) simp_all
    with last blank Cons.prems(6) show ?thesis by (simp add: read_blank after_value)
  next
    case (more out1 ind2 rest)
    let ?v = "reread (scrubbed (on_error opt) x)"
    have "read_value fl (out1 @ CHR '','' # space_text opt newline @ rest @ ws @ CHR '']'' # t) (In_array acc # st) =
        evaluate_state fl ?v (CHR '','' # space_text opt newline @ rest @ ws @ CHR '']'' # t) (In_array acc # st)"
      using more(2) by (intro readsD [OF x _ Cons.prems(3,4)]) simp_all
    also have "\<dots> = read_value fl (rest @ ws @ CHR '']'' # t) (In_array (acc @ [?v]) # st)"
      by (simp add: after_value read_blank)
    also have "\<dots> = evaluate_state fl
        (J_array ((acc @ [?v]) @ map (\<lambda>x. reread (scrubbed (on_error opt) x)) xs)) t st"
      using serialize_keeps [OF more(2) Cons.prems(3,4)] Cons.prems(5,6) more(1)
      by (intro Cons.IH [OF more(3)]) simp_all
    finally show ?thesis using more(4) blank by (simp add: read_blank)
  qed
qed simp

lemma read_members:
  "serialize_members fl opt cur ind ms = Inr (out, ind1) \<Longrightarrow> ms \<noteq> [] \<Longrightarrow> pads opt cur ind \<Longrightarrow>
     (pretty_print opt \<Longrightarrow> blank ind) \<Longrightarrow> \<forall>(k, v) \<in> set ms. reads fl opt v \<Longrightarrow> blank ws \<Longrightarrow>
     sorted_members (acc @ map (\<lambda>(k, v). (scrub (on_error opt) k, reread (scrubbed (on_error opt) v))) ms) \<Longrightarrow>
     read_member fl (out @ ws @ CHR ''}'' # t) acc st =
       evaluate_state fl (J_object (acc @ map (\<lambda>(k, v). (scrub (on_error opt) k, reread (scrubbed (on_error opt) v))) ms)) t st"
proof (induction ms arbitrary: ind out acc)
  case (Cons m ms)
  obtain k v where m: "m = (k, v)" by fastforce
  let ?k = "scrub (on_error opt) k" and ?v = "reread (scrubbed (on_error opt) v)"
  have v: "reads fl opt v" and blank: "blank (pad_text opt cur ind)" using Cons.prems m by auto
  have put: "object_put ?k w acc = acc @ [(?k, w)]" for w
    using Cons.prems(7) m by (intro sorted_members_append) auto
  from Cons.prems(1) [unfolded m] Cons.prems(3) show ?case
  proof (cases rule: member_parts)
    case (last key out1)
    have "read_value fl (out1 @ ws @ CHR ''}'' # t) (In_object acc ?k # st) =
        evaluate_state fl ?v (ws @ CHR ''}'' # t) (In_object acc ?k # st)"
      using last(3) Cons.prems(6) by (intro readsD [OF v _ Cons.prems(3,4)] number_ends_blank) simp_all
    with last blank Cons.prems(6) show ?thesis
      by (simp add: m read_blank read_member_key [OF last(2)] after_value put)
  next
    case (more key out1 ind2 rest)
    let ?t = "space_text opt newline @ rest @ ws @ CHR ''}'' # t"
    have "read_value fl (out1 @ CHR '','' # ?t) (In_object acc ?k # st) =
        evaluate_state fl ?v (CHR '','' # ?t) (In_object acc ?k # st)"
      using more(3) by (intro readsD [OF v _ Cons.prems(3,4)]) simp_all
    also have "\<dots> = read_member fl (rest @ ws @ CHR ''}'' # t) (acc @ [(?k, ?v)]) st"
      by (simp add: after_value read_blank put)
    also have "\<dots> = evaluate_state fl (J_object ((acc @ [(?k, ?v)])
        @ map (\<lambda>(k, v). (scrub (on_error opt) k, reread (scrubbed (on_error opt) v))) ms)) t st"
      using serialize_keeps [OF more(3) Cons.prems(3,4)] Cons.prems(5,6,7) more(1) m
      by (intro Cons.IH [OF more(4)]) simp_all
    finally show ?thesis using more(5) blank
      by (simp add: m read_blank read_member_key [OF more(2)])
  qed
qed simp

text \<open>A container from its opening bracket, when it is not empty.\<close>

lemma read_open_array:
  assumes "read_value fl s [In_array []] = Inr r" "blank ws"
  shows "read_value fl (CHR ''['' # ws @ s) st = read_value fl s (In_array [] # st)"
proof -
  have "fst (scan fl s) \<noteq> T_end_array"
  proof
    assume "fst (scan fl s) = T_end_array"
    with assms(1) show False by (simp add: read_value_def syntax_error_def split: prod.splits)
  qed
  with assms(2) show ?thesis by (simp add: read_opening scan_blank read_blank)
qed

lemma read_open_object:
  assumes "escaped_with eh ea k = Inr key" "blank pad" "blank ws"
  shows "read_value fl (CHR ''{'' # ws @ pad @ quoted key @ s) st = read_member fl (quoted key @ s) [] st"
  using assms by (simp add: read_opening scan_blank read_blank quoted_def scan_dumped_any escaped_with_scrub)

text \<open>Binary values.\<close>

lemma read_byte:
  "number_ends t \<Longrightarrow> read_value fl (dump_byte b @ t) st = evaluate_state fl (J_unsigned (ucast b)) t st"
  using read_unsigned [of t fl "ucast b"] by (simp add: dump_byte_def dump_unsigned_eq fresh_buffer_def)

lemma read_bytes:
  "bs \<noteq> [] \<Longrightarrow> blank sp \<Longrightarrow>
     read_value fl (dump_binary_bytes (CHR '','' # sp) bs @ CHR '']'' # t) (In_array acc # st) =
       evaluate_state fl (J_array (acc @ reread_bytes bs)) t st"
proof (induction bs arbitrary: acc)
  case (Cons b bs)
  then show ?case
    by (cases "bs = []") (simp_all add: reread_bytes_def read_byte after_value read_blank)
qed simp

lemma read_byte_array:
  assumes "blank sp"
  shows "read_value fl (CHR ''['' # dump_binary_bytes (CHR '','' # sp) bs @ CHR '']'' # t) st =
    evaluate_state fl (J_array (reread_bytes bs)) t st"
proof (cases "bs = []")
  case True
  then show ?thesis by (simp add: read_opening scan_punctuation reread_bytes_def)
next
  case False
  have "read_value fl (dump_binary_bytes (CHR '','' # sp) bs @ CHR '']'' # t) [In_array []] =
      Inr (J_array (reread_bytes bs), t)"
    using read_bytes [OF False assms, of fl t "[]" "[]"] by simp
  from read_open_array [OF this, of "[]"] read_bytes [OF False assms] show ?thesis by simp
qed

lemma key_literal:
  assumes "list_all printable k"
  shows "escaped_with EH_strict False k = Inr k" "scrub EH_strict k = k"
  using dump_printable [OF assms] by (simp_all add: escaped_with_strict scrub_def)

lemma read_subtype:
  "number_ends t \<Longrightarrow> read_value fl (dump_subtype subtype @ t) st =
     evaluate_state fl (case subtype of Some n \<Rightarrow> J_unsigned n | None \<Rightarrow> J_null) t st"
  using read_unsigned [of t fl _ st]
  by (auto simp: dump_subtype_def dump_unsigned_eq fresh_buffer_def read_value_def scan_literals split: option.splits)

lemma read_binary:
  assumes "blank ws1" "blank ws2" "blank ws3" "blank sp"
  shows "read_value fl (CHR ''{'' # ws1 @ quoted ''bytes'' @ CHR '':'' # sp @ CHR ''['' #
      dump_binary_bytes (CHR '','' # sp) bs @ CHR '']'' # CHR '','' # ws2 @ quoted ''subtype'' @ CHR '':'' # sp @
      dump_subtype subtype @ ws3 @ CHR ''}'' # t) st =
    evaluate_state fl (reread (J_binary bs subtype)) t st"
proof -
  have keys: "list_all printable ''bytes''" "list_all printable ''subtype''" by simp_all
  note kb = key_literal [OF keys(1)] and ks = key_literal [OF keys(2)]
  have put: "object_put ''subtype'' w [(''bytes'', v)] = [(''bytes'', v), (''subtype'', w)]" for v w :: json
    by simp
  have ends: "number_ends (ws3 @ CHR ''}'' # t)" using assms(3) by (intro number_ends_blank) simp_all
  show ?thesis
    using read_open_object [OF kb(1), of "[]" ws1] assms
    by (simp add: read_blank read_member_key [OF kb(1)] kb(2) read_member_key [OF ks(1)] ks(2) read_byte_array
        after_value read_subtype [OF ends] del: object_put.simps(2)) (simp add: put)
qed

section \<open>Whole texts\<close>

lemma scrubbed_members: "map (\<lambda>(k, v). (k, reread v)) (map (\<lambda>(k, v). (scrub eh k, scrubbed eh v)) ms) =
    map (\<lambda>(k, v). (scrub eh k, reread (scrubbed eh v))) ms"
  by (simp add: split_def)

lemma reads_object:
  assumes "\<forall>(k, v) \<in> set ms. reads fl opt v"
    and "sorted_members (map (\<lambda>(k, v). (scrub (on_error opt) k, reread (scrubbed (on_error opt) v))) ms)"
  shows "reads fl opt (J_object ms)"
  unfolding reads_def
proof (intro allI impI)
  fix cur ind out ind1 t st
  assume run: "serialize_value fl opt cur ind (J_object ms) = Inr (out, ind1)" and pads: "pads opt cur ind"
    and blank: "pretty_print opt \<longrightarrow> blank ind" and "number_ends t"
  show "read_value fl (out @ t) st = evaluate_state fl (reread (scrubbed (on_error opt) (J_object ms))) t st"
  proof (cases "ms = []")
    case True
    with run show ?thesis by (auto simp: read_opening scan_punctuation)
  next
    case False
    then obtain k v ms1 where ms: "ms = (k, v) # ms1" by (cases ms) auto
    have "\<exists>cur1 ind2 ind3 o1 ws1 ws2. serialize_members fl opt cur1 ind2 ms = Inr (o1, ind3) \<and> pads opt cur1 ind2
        \<and> (pretty_print opt \<longrightarrow> blank ind2) \<and> blank ws1 \<and> blank ws2 \<and> out = CHR ''{'' # ws1 @ o1 @ ws2 @ ''}''"
    proof (cases "pretty_print opt")
      case True
      let ?new = "cur + indent_step opt"
      note grow = pads_grow [OF pads True]
      from run False True obtain o1 pad where o: "serialize_members fl opt ?new (grow_indent ?new ind) ms = Inr (o1, ind1)"
        "indentation cur ind1 = Inr pad" "out = ''{'' @ newline @ o1 @ newline @ pad @ ''}''"
        by (auto simp: Let_def bind_result_Inr_iff)
      have "length (grow_indent ?new ind) \<le> length ind1"
        using serialize_fine(2) [OF grow(1), of fl ms] o(1) by simp
      then have "pads opt cur ind1" using grow(2) pads_longer [OF pads] by simp
      with o(2) True have "pad = take (unat cur) ind1" by (simp add: indentation_pads)
      moreover have "blank ind1" using serialize_blank(2) [OF o(1)] blank True by simp
      ultimately have "blank (newline @ pad)" by simp
      with o(1,3) grow(1) blank True show ?thesis
        by (intro exI [of _ ?new] exI [of _ "grow_indent ?new ind"] exI [of _ ind1] exI [of _ o1]
            exI [of _ newline] exI [of _ "newline @ pad"]) simp
    next
      case compact: False
      with run False obtain o1 where "serialize_members fl opt cur ind ms = Inr (o1, ind1)" "out = ''{'' @ o1 @ ''}''"
        by (auto simp: bind_result_Inr_iff)
      with compact pads show ?thesis
        by (intro exI [of _ cur] exI [of _ ind] exI [of _ ind1] exI [of _ o1] exI [of _ "[]"]) simp
    qed
    then obtain cur1 ind2 ind3 o1 ws1 ws2 where p: "serialize_members fl opt cur1 ind2 ms = Inr (o1, ind3)"
      "pads opt cur1 ind2" "pretty_print opt \<Longrightarrow> blank ind2" "blank ws1" "blank ws2"
      "out = CHR ''{'' # ws1 @ o1 @ ws2 @ ''}''" by blast
    from p(1,2) ms obtain key o2 where key: "escaped_with (on_error opt) (ensure_ascii opt) k = Inr key"
      "o1 = pad_text opt cur1 ind2 @ quoted key @ o2"
      by (metis append_assoc member_parts)
    have pad: "blank (pad_text opt cur1 ind2)" using p(3) by simp
    have "read_value fl (out @ t) st = read_member fl (o1 @ ws2 @ CHR ''}'' # t) [] st"
      using read_open_object [OF key(1) pad p(4)] pad by (simp add: p(6) key(2) read_blank)
    also have "\<dots> = evaluate_state fl (reread (scrubbed (on_error opt) (J_object ms))) t st"
      using read_members [OF p(1) False p(2,3) assms(1) p(5), of "[]"] assms(2)
      by (simp add: scrubbed_members del: map_map)
    finally show ?thesis .
  qed
qed

lemma reads_array:
  assumes "\<forall>x \<in> set xs. reads fl opt x"
  shows "reads fl opt (J_array xs)"
  unfolding reads_def
proof (intro allI impI)
  fix cur ind out ind1 t st
  assume run: "serialize_value fl opt cur ind (J_array xs) = Inr (out, ind1)" and pads: "pads opt cur ind"
    and blank: "pretty_print opt \<longrightarrow> blank ind" and "number_ends t"
  show "read_value fl (out @ t) st = evaluate_state fl (reread (scrubbed (on_error opt) (J_array xs))) t st"
  proof (cases "xs = []")
    case True
    with run show ?thesis by (auto simp: read_opening scan_punctuation)
  next
    case False
    have "\<exists>cur1 ind2 ind3 o1 ws1 ws2. serialize_elements fl opt cur1 ind2 xs = Inr (o1, ind3) \<and> pads opt cur1 ind2
        \<and> (pretty_print opt \<longrightarrow> blank ind2) \<and> blank ws1 \<and> blank ws2 \<and> out = CHR ''['' # ws1 @ o1 @ ws2 @ '']''"
    proof (cases "pretty_print opt")
      case True
      let ?new = "cur + indent_step opt"
      note grow = pads_grow [OF pads True]
      from run False True obtain o1 pad where o: "serialize_elements fl opt ?new (grow_indent ?new ind) xs = Inr (o1, ind1)"
        "indentation cur ind1 = Inr pad" "out = ''['' @ newline @ o1 @ newline @ pad @ '']''"
        by (auto simp: Let_def bind_result_Inr_iff)
      have "length (grow_indent ?new ind) \<le> length ind1"
        using serialize_fine(3) [OF grow(1), of fl xs] o(1) by simp
      then have "pads opt cur ind1" using grow(2) pads_longer [OF pads] by simp
      with o(2) True have "pad = take (unat cur) ind1" by (simp add: indentation_pads)
      moreover have "blank ind1" using serialize_blank(3) [OF o(1)] blank True by simp
      ultimately have "blank (newline @ pad)" by simp
      with o(1,3) grow(1) blank True show ?thesis
        by (intro exI [of _ ?new] exI [of _ "grow_indent ?new ind"] exI [of _ ind1] exI [of _ o1]
            exI [of _ newline] exI [of _ "newline @ pad"]) simp
    next
      case compact: False
      with run False obtain o1 where "serialize_elements fl opt cur ind xs = Inr (o1, ind1)" "out = ''['' @ o1 @ '']''"
        by (auto simp: bind_result_Inr_iff)
      with compact pads show ?thesis
        by (intro exI [of _ cur] exI [of _ ind] exI [of _ ind1] exI [of _ o1] exI [of _ "[]"]) simp
    qed
    then obtain cur1 ind2 ind3 o1 ws1 ws2 where p: "serialize_elements fl opt cur1 ind2 xs = Inr (o1, ind3)"
      "pads opt cur1 ind2" "pretty_print opt \<Longrightarrow> blank ind2" "blank ws1" "blank ws2"
      "out = CHR ''['' # ws1 @ o1 @ ws2 @ '']''" by blast
    note elements = read_elements [OF p(1) False p(2,3) assms p(5), of t "[]"]
    have "read_value fl (o1 @ ws2 @ CHR '']'' # t) [In_array []] =
        Inr (reread (scrubbed (on_error opt) (J_array xs)), t)"
      using elements [of "[]"] by (simp add: comp_def)
    from read_open_array [OF this p(4)] elements [of st] show ?thesis by (simp add: p(6) comp_def)
  qed
qed

lemma reads_binary: "reads fl opt (J_binary bytes subtype)"
  unfolding reads_def
proof (intro allI impI)
  fix cur ind out ind1 t st
  assume run: "serialize_value fl opt cur ind (J_binary bytes subtype) = Inr (out, ind1)" and pads: "pads opt cur ind"
    and blank: "pretty_print opt \<longrightarrow> blank ind"
  show "read_value fl (out @ t) st = evaluate_state fl (reread (scrubbed (on_error opt) (J_binary bytes subtype))) t st"
  proof (cases "pretty_print opt")
    case True
    let ?new = "cur + indent_step opt" and ?ind = "grow_indent (cur + indent_step opt) ind"
    note grow = pads_grow [OF pads True]
    have "blank (take (unat ?new) ?ind)" "blank (take (unat cur) ?ind)" using blank True by simp_all
    with read_binary [of "newline @ take (unat ?new) ?ind" "newline @ take (unat ?new) ?ind"
        "newline @ take (unat cur) ?ind" "'' ''" fl bytes subtype t st] run True
    show ?thesis
      by (auto simp: Let_def indentation_pads [OF grow(1)] indentation_pads [OF pads_longer [OF pads grow(2)]])
  next
    case False
    with run read_binary [of "[]" "[]" "[]" "[]" fl bytes subtype t st] show ?thesis by auto
  qed
qed

lemma reads_scalars:
  "reads fl opt J_null" "reads fl opt (J_boolean b)" "reads fl opt (J_integer n)" "reads fl opt (J_unsigned n)"
  "reads fl opt (J_string s)"
proof -
  show "reads fl opt J_null" "reads fl opt (J_boolean b)"
    by (auto simp: reads_def read_value_def scan_literals)
  show "reads fl opt (J_integer n)" by (auto simp: reads_def read_integer simp del: reread.simps)
  show "reads fl opt (J_unsigned n)" by (auto simp: reads_def dump_unsigned_eq fresh_buffer_def read_unsigned)
  show "reads fl opt (J_string s)"
    by (auto simp: reads_def bind_result_Inr_iff read_value_def quoted_def scan_dumped_any escaped_with_scrub)
qed

lemma reads_plain: "json_plain (scrubbed (on_error opt) v) \<Longrightarrow> reads fl opt v"
proof (induction v)
  case (J_object ms)
  have "reads fl opt v" if "(k, v) \<in> set ms" for k v
    using J_object.IH [OF that, of v] J_object.prems that by (auto simp: split_def)
  moreover have "sorted_members (map (\<lambda>(k, v). (scrub (on_error opt) k, reread (scrubbed (on_error opt) v))) ms)
      = sorted_members (map (\<lambda>(k, v). (scrub (on_error opt) k, scrubbed (on_error opt) v)) ms)"
    by (rule sorted_members_keys) (simp add: split_def)
  ultimately show ?case using J_object.prems by (intro reads_object) auto
next
  case (J_array xs)
  then show ?case by (intro reads_array) auto
qed (simp_all add: reads_scalars reads_binary)

text \<open>No dumped value begins like a byte order mark.\<close>

lemma to_string_head: "to_string n = c # cs \<Longrightarrow> is_digit c"
  using to_string_digits [of n] by simp

lemma skip_bom_serialized:
  assumes "serialize_value fl opt cur ind v = Inr (s, ind1)" "json_plain (scrubbed eh v)"
  shows "skip_bom s = Some s"
proof -
  have mark: "skip_bom (c # r) = Some (c # r)" if "c \<noteq> CHR 0xEF" for c r
    using that by (simp add: skip_bom_def)
  have digits: "skip_bom (to_string n) = Some (to_string n)" for n
  proof (cases "to_string n")
    case (Cons c cs)
    with to_string_head have "is_digit c" by blast
    then have "c \<noteq> CHR 0xEF" by (auto simp: is_digit_def)
    with Cons mark show ?thesis by simp
  qed simp
  show ?thesis
    using assms
    by (cases v)
       (auto simp: Let_def bind_result_Inr_iff mark digits dump_integer_eq dump_unsigned_eq fresh_buffer_def quoted_def
         split: if_splits)
qed

lemma parse_dumped_with:
  assumes "json_dump_with fl indent indent_char ea eh v = Inr s" "is_whitespace indent_char" "indent \<le> 1024"
    and "json_plain (scrubbed eh v)"
  shows "json_parse fl s = Inr (reread (scrubbed eh v))"
proof -
  let ?opt = "\<lparr>pretty_print = 0 \<le> indent, ensure_ascii = ea,
    indent_step = (if 0 \<le> indent then word_of_int indent else 0 :: 32 word), on_error = eh\<rparr>"
  obtain ind1 where run: "serialize_value fl ?opt 0 (replicate 512 indent_char) v = Inr (s, ind1)"
    using assms(1) by (auto simp: json_dump_with_def bind_result_Inr_iff)
  have "pads ?opt 0 (replicate 512 indent_char)"
    by (rule pads_start [OF assms(3)])
  moreover have "blank (replicate n indent_char)" for n
    using assms(2) by (induction n) (simp_all add: blank_def)
  ultimately have "read_value fl (s @ []) [] = evaluate_state fl (reread (scrubbed eh v)) [] []"
    using reads_plain [of ?opt v fl] assms(2,4) run
    by (intro readsD [of fl ?opt v, simplified]) simp_all
  then show ?thesis
    using skip_bom_serialized [OF run assms(4)]
    by (simp add: json_parse_def scan_first_def read_value_def scan_punctuation split: prod.splits)
qed

lemma parse_dumped:
  assumes "json_dump fl v = Inr s" "json_plain v"
  shows "json_parse fl s = Inr (reread v)"
  using parse_dumped_with [of fl "-1" "CHR '' ''" False EH_strict v s] assms
  by (simp add: dump_without_options json_dump_def scrubbed_strict is_whitespace_def)

lemma parse_built:
  assumes "json_parse fl s = Inr v"
  shows "json_built v"
proof -
  obtain t s1 where "scan_first fl s = (t, s1)" by fastforce
  moreover obtain w s2 where w: "bind_result (parse_value fl t s1 []) (\<lambda>(v, s2).
      case scan fl s2 of (t1, s3) \<Rightarrow> if t1 = T_end_of_input then Inr v else syntax_error) = Inr v
    \<Longrightarrow> parse_value fl t s1 [] = Inr (w, s2)"
    by (cases "parse_value fl t s1 []") auto
  ultimately have "parse_value fl t s1 [] = Inr (v, s2)"
    using assms by (cases "scan fl s2") (auto simp: json_parse_def syntax_error_def split: if_splits)
  then show ?thesis by (rule parse_value_built(1)) simp
qed

section \<open>Properties\<close>

text \<open>
  C8: Text written by \<open>dump\<close> parses back, for every reaction to ill-formed UTF-8
  and with or without escaping to ASCII, when the indentation character is whitespace and the
  indentation at most 1024 (or none), and the value, with its ill-formed UTF-8 replaced or
  dropped as the options say, has no floating-point number and no discarded value and the
  members of its objects are still in order and distinct. What is read is that repaired value,
  in which numbers that are not negative are unsigned ones and binary values are objects.
\<close>

theorem dump_parse_roundtrip:
  assumes "json_dump_with fl indent indent_char ea eh v = Inr s" "is_whitespace indent_char" "indent \<le> 1024"
    and "json_plain (scrubbed eh v)"
  shows "json_parse fl s = Inr (reread (scrubbed eh v))"
  by (rule parse_dumped_with [OF assms])

definition no_floats :: floats where
  "no_floats = \<lparr>strtod = (\<lambda>_. 0), to_chars = (\<lambda>_. ''0''), truncated = (\<lambda>_. 0)\<rparr>"

definition sample :: json where
  "sample = J_object [(''a'', J_array [J_integer (- 5), J_null]), (''b'', J_string [CHR ''x'', CHR 0xFF])]"

definition sample_read :: json where
  "sample_read = J_object [(''a'', J_array [J_integer (- 5), J_null]),
     (''b'', J_string (CHR ''x'' # replacement_character))]"

definition sample_text :: string where
  "sample_text = ''{'' @ newline @ [CHR 0x09] @ quoted ''a'' @ '': ['' @ newline
     @ [CHR 0x09, CHR 0x09] @ ''-5,'' @ newline @ [CHR 0x09, CHR 0x09] @ ''null'' @ newline
     @ [CHR 0x09] @ ''],'' @ newline @ [CHR 0x09] @ quoted ''b'' @ '': ''
     @ quoted (''x'' @ [CHR 0x5C] @ ''ufffd'') @ newline @ ''}'' "

lemma sample_strings:
  "repair (replaced_by EH_replace) ''a'' = ''a''" "repair (replaced_by EH_replace) ''b'' = ''b''"
  "repair (replaced_by EH_replace) [CHR ''x'', CHR 0xFF] = CHR ''x'' # replacement_character"
  by (simp_all add: repair.simps replaced_by_def following_bytes_def code_def)

lemma sample_dumped: "json_dump_with no_floats 1 (CHR 0x09) True EH_replace sample = Inr sample_text"
proof -
  have "dump_bytes True 0 codep i prev replacement_character = Inr (replacement True)" for codep i prev
    using dump_replacement [of True codep i prev "[]"] by (auto simp: UTF8_ACCEPT_def)
  then have strings: "dump_escaped True ''a'' = Inr ''a''" "dump_escaped True ''b'' = Inr ''b''"
    "dump_escaped True (CHR ''x'' # replacement_character) = Inr (CHR ''x'' # replacement True)"
    by (simp_all add: dump_escaped_def UTF8_ACCEPT_def dump_ascii escape_codepoint_def code_def)
  have pad: "replicate 2 x = [x, x]" for x :: char by (simp add: numeral_2_eq_2)
  have five: "to_string 5 = ''5''" by (simp add: to_string.simps digit_chars)
  show ?thesis
    by (simp add: json_dump_with_def sample_def sample_text_def escaped_with_repair sample_strings strings
        indentation_def grow_indent_def pad Let_def dump_integer_eq fresh_buffer_def five replacement_def)
qed

lemma dump_parse_roundtrip_witness:
  "json_parse no_floats sample_text = Inr sample_read"
proof -
  have "json_plain (scrubbed EH_replace sample)" "reread (scrubbed EH_replace sample) = sample_read"
    by (simp_all add: sample_def sample_read_def sorted_members_def scrub_def sample_strings)
  then show ?thesis using dump_parse_roundtrip [OF sample_dumped] by (simp add: is_whitespace_def)
qed

text \<open>
  Every value that \<open>parse\<close> returns has its members in strictly increasing
  order of their keys, whatever the order and the repetitions in the text, and only finite
  floating-point numbers.
\<close>

theorem parsed_values_well_formed:
  assumes "json_parse fl s = Inr v"
  shows "json_built v"
  by (rule parse_built [OF assms])

definition repeated_text :: string where
  "repeated_text = [CHR ''{'', CHR 0x22, CHR ''b'', CHR 0x22] @ '':1, '' @
     [CHR 0x22, CHR ''a'', CHR 0x22] @ '':2, '' @ [CHR 0x22, CHR ''b'', CHR 0x22] @ '':3}'' "

lemma parsed_values_well_formed_witness:
  "json_parse no_floats repeated_text = Inr (J_object [(''a'', J_unsigned 2), (''b'', J_unsigned 3)])
   \<and> json_built (J_object [(''a'', J_unsigned 2), (''b'', J_unsigned 3)])"
proof -
  have "json_parse no_floats repeated_text = Inr (J_object [(''a'', J_unsigned 2), (''b'', J_unsigned 3)])"
    by (simp add: repeated_text_def parse_eval)
  with parsed_values_well_formed [OF this] show ?thesis by simp
qed

text \<open>
  The digits written two at a time into a buffer, and the absolute value taken without
  leaving the unsigned type, are the decimal numeral of every 64-bit number, the most negative
  one included.
\<close>

theorem dump_numbers_decimal:
  "dump_value fl ea (J_unsigned n) = Inr (to_string (unat n)) \<and>
   dump_value fl ea (J_integer n) =
     Inr (if sint n < 0 then CHR ''-'' # to_string (nat (- sint n)) else to_string (nat (sint n)))"
proof -
  have "unat n = nat (sint n)" if "\<not> sint n < 0"
  proof -
    have "uint n = take_bit 64 (sint n)"
      using uint_word_of_int_eq [where 'a = 64, of "sint n"] by simp
    also have "\<dots> = sint n" using that sint_less [of n] by (intro take_bit_int_eq_self) simp_all
    finally show ?thesis by (simp add: unat_eq_nat_uint)
  qed
  then show ?thesis by (simp add: dump_unsigned_eq dump_integer_eq fresh_buffer_def)
qed

end
