(* ===== verification/Json_Text.thy ===== *)
theory Json_Text
  imports Json_Theorems
begin

text \<open>
  Which values can be written: \<open>dump\<close> throws exactly when some string or key is not well-formed UTF-8,
  and every value \<open>parse\<close> returns can be written.
\<close>

section \<open>Values\<close>

fun json_utf8 :: "json \<Rightarrow> bool" where
  "json_utf8 (J_object ms) = (\<forall>(k, v) \<in> set ms. utf8_ok k \<and> json_utf8 v)"
| "json_utf8 (J_array xs) = (\<forall>x \<in> set xs. json_utf8 x)"
| "json_utf8 (J_string s) = utf8_ok s"
| "json_utf8 _ = True"

fun container_utf8 :: "container \<Rightarrow> bool" where
  "container_utf8 (In_array xs) = (\<forall>x \<in> set xs. json_utf8 x)"
| "container_utf8 (In_object ms k) = (utf8_ok k \<and> (\<forall>(k, v) \<in> set ms. utf8_ok k \<and> json_utf8 v))"

lemma dump_utf8:
  "(\<exists>out. dump_value fl False v = Inr out) \<longleftrightarrow> json_utf8 v"
  "(\<exists>out. dump_members fl False ms = Inr out) \<longleftrightarrow> (\<forall>(k, v) \<in> set ms. utf8_ok k \<and> json_utf8 v)"
  "(\<exists>out. dump_elements fl False xs = Inr out) \<longleftrightarrow> (\<forall>x \<in> set xs. json_utf8 x)"
proof (induction fl False v and fl False ms and fl False xs rule: dump_value_dump_members_dump_elements.induct)
  case (12 fl k v ms)
  then show ?case by (cases "ms = []") (auto simp: bind_result_Inr_iff simp flip: dump_escaped_ok [of False])
next
  case (14 fl x xs)
  then show ?case by (cases "xs = []") (auto simp: bind_result_Inr_iff)
qed (auto simp: bind_result_Inr_iff simp flip: dump_escaped_ok [of False])

lemma handle_value_utf8: "json_utf8 v \<Longrightarrow> container_utf8 c \<Longrightarrow> container_utf8 (handle_value v c)"
proof (cases c)
  case (In_object ms k)
  assume "json_utf8 v" "container_utf8 c"
  with In_object object_put_set [of k v ms] show ?thesis by auto
qed auto

lemma set_key_utf8: "utf8_ok k \<Longrightarrow> container_utf8 c \<Longrightarrow> container_utf8 (set_key k c)"
  by (cases c) auto

lemma container_value_utf8: "container_utf8 c \<Longrightarrow> json_utf8 (container_value c)"
  by (cases c) auto

lemma new_container_utf8: "container_utf8 (In_array [])" "utf8_ok k \<Longrightarrow> container_utf8 (In_object [] k)"
  by simp_all

lemma parse_key_ok: "scan fl s = (t, s1) \<Longrightarrow> parse_key fl t s1 = Inr (k, s2) \<Longrightarrow> utf8_ok k"
  by (auto simp: parse_key_def syntax_error_def split: prod.splits token.splits dest: scan_ok)

lemma parse_value_utf8:
  "parse_value fl t s st = Inr (v, r) \<Longrightarrow> \<forall>k. t = T_string k \<longrightarrow> utf8_ok k \<Longrightarrow>
     list_all container_utf8 st \<Longrightarrow> json_utf8 v"
  "evaluate_state fl w s st = Inr (v, r) \<Longrightarrow> list_all container_utf8 st \<Longrightarrow> json_utf8 w \<Longrightarrow> json_utf8 v"
proof (induction fl t s st and fl w s st rule: parse_value_evaluate_state.induct)
  case (1 fl s st)
  obtain t s1 where t: "scan fl s = (t, s1)" by fastforce
  show ?case
  proof (cases "t = T_end_object")
    case True
    with 1 t show ?thesis by auto
  next
    case False
    with 1(3) t obtain k s2 where k: "parse_key fl t s1 = Inr (k, s2)" by (auto split: sum.splits)
    obtain t1 s3 where t1: "scan fl s2 = (t1, s3)" by fastforce
    have "container_utf8 (In_object [] k)" using parse_key_ok [OF t k] by simp
    moreover have "parse_value fl t1 s3 (In_object [] k # st) = Inr (v, r)"
      using 1(3) t k t1 False by simp
    ultimately show ?thesis
      using 1(2) [OF t [symmetric] False k refl t1 [symmetric]] 1(5) scan_ok t1 by auto
  qed
next
  case (13 fl w s ms k st)
  obtain t s1 where t: "scan fl s = (t, s1)" by fastforce
  have c: "container_utf8 (handle_value w (In_object ms k))"
    using 13(4,5) by (intro handle_value_utf8) simp_all
  show ?case
  proof (cases "t = T_value_separator")
    case False
    with 13 t c show ?thesis
      by (auto simp: evaluate_state.simps syntax_error_def container_value_utf8
          simp del: handle_value.simps container_value.simps split: if_splits)
  next
    case True
    obtain t1 s2 where t1: "scan fl s1 = (t1, s2)" by fastforce
    with 13(3) t True obtain k1 s3 where k1: "parse_key fl t1 s2 = Inr (k1, s3)"
      by (auto simp: evaluate_state.simps split: sum.splits)
    obtain t2 s4 where t2: "scan fl s3 = (t2, s4)" by fastforce
    have "container_utf8 (set_key k1 (handle_value w (In_object ms k)))"
      using parse_key_ok [OF t1 k1] c by (rule set_key_utf8)
    moreover have "parse_value fl t2 s4 (set_key k1 (handle_value w (In_object ms k)) # st) = Inr (v, r)"
      using 13(3) t t1 k1 t2 True by (simp add: evaluate_state.simps)
    ultimately show ?thesis
      using 13(1) [OF t [symmetric] True t1 [symmetric] k1 refl t2 [symmetric]] 13(4) scan_ok t2 by auto
  qed
qed (auto simp: syntax_error_def evaluate_state.simps handle_value_utf8 container_value_utf8 set_key_utf8
      new_container_utf8
      simp del: handle_value.simps container_value.simps set_key.simps container_utf8.simps
      split: prod.splits sum.splits if_splits dest: scan_ok)

lemma parse_utf8:
  assumes "json_parse fl s = Inr v"
  shows "json_utf8 v"
proof -
  obtain t s1 where t: "scan_first fl s = (t, s1)" by fastforce
  then obtain s0 where "scan fl s0 = (t, s1) \<or> (\<exists>m. t = T_parse_error m)"
    by (auto simp: scan_first_def split: option.splits)
  then have ok: "\<forall>k. t = T_string k \<longrightarrow> utf8_ok k" by (auto dest: scan_ok)
  obtain w s2 where w: "parse_value fl t s1 [] = Inr (w, s2)"
    using assms t by (cases "parse_value fl t s1 []") (auto simp: json_parse_def)
  with assms t have "w = v"
    by (cases "scan fl s2") (auto simp: json_parse_def syntax_error_def split: if_splits)
  with parse_value_utf8(1) [OF w ok] show ?thesis by simp
qed

lemma json_dump_utf8: "(\<exists>out. json_dump fl v = Inr out) \<longleftrightarrow> json_utf8 v"
  by (simp add: json_dump_def dump_utf8)

section \<open>Properties\<close>

text \<open>
  C35: A value can be dumped exactly when every string and every key in it is well-formed UTF-8:
  the table of the serializer's automaton and the byte ranges of the lexer describe the same
  language.
\<close>

theorem dump_iff_utf8: "(\<exists>out. json_dump fl v = Inr out) \<longleftrightarrow> json_utf8 v"
  by (rule json_dump_utf8)

text \<open>
  Whatever \<open>parse\<close> accepts, \<open>dump\<close> can write: strings that were
  read, escapes and surrogate pairs included, are well-formed UTF-8.
\<close>

theorem parsed_values_dump:
  assumes "json_parse fl s = Inr v"
  shows "\<exists>out. json_dump fl v = Inr out"
  using parse_utf8 [OF assms] by (simp add: json_dump_utf8)

definition surrogate_text :: string where
  "surrogate_text = [CHR 0x22, CHR 0x5C] @ ''uD83D'' @ [CHR 0x5C] @ ''uDE00'' @ [CHR 0x22]"

lemma parsed_values_dump_witness:
  "\<exists>out. json_dump no_floats (J_string (map char_of [0xF0, 0x9F, 0x98, 0x80 :: nat])) = Inr out"
proof (rule parsed_values_dump)
  show "json_parse no_floats surrogate_text = Inr (J_string (map char_of [0xF0, 0x9F, 0x98, 0x80 :: nat]))"
    by (simp add: surrogate_text_def parse_eval scan_escape_def scan_unicode_def get_codepoint_def
      hex_nibble_def utf8_encode_def push_bit_eq_mult drop_bit_eq_div)
qed

end
