(* ===== verification/Central_Properties.thy ===== *)
theory Central_Properties
  imports Central_Http Json_Text
begin

text \<open>
  The properties of the central server: what every request keeps of the database, what every answer
  looks like, and the routes one by one, failures included.
\<close>

section \<open>Handlers and the state\<close>

definition central_keeps :: "central \<Rightarrow> central \<Rightarrow> bool" where
  "central_keeps c c' \<longleftrightarrow> db_keeps (db c) (db c') \<and> (db_ok (db c) \<longrightarrow> db_ok (db c'))"

lemma central_keeps_refl [simp]: "central_keeps c c"
  by (simp add: central_keeps_def)

lemma central_keeps_trans: "central_keeps c d \<Longrightarrow> central_keeps d e \<Longrightarrow> central_keeps c e"
  by (auto simp: central_keeps_def intro: db_keeps_trans)

lemma signal_put_keeps [simp]: "central_keeps c (signal_put i j c)"
  by (simp add: central_keeps_def signal_put_def)

lemma handlers_keep:
  "handle_lookup env secret res c = (f, res', c') \<Longrightarrow> central_keeps c c'"
  "handle_getfile env secret res c = (f, res', c') \<Longrightarrow> central_keeps c c'"
  "handle_register env body res c = (f, res', c') \<Longrightarrow> central_keeps c c'"
  "handle_signal_post env i body res c = (f, res', c') \<Longrightarrow> central_keeps c c'"
  "handle_signal_get env i res c = (f, res', c') \<Longrightarrow> central_keeps c c'"
  "handle_health res c = (f, res', c') \<Longrightarrow> central_keeps c c'"
proof -
  show "handle_lookup env secret res c = (f, res', c') \<Longrightarrow> central_keeps c c'"
    by (auto simp: handle_lookup_def split: sum.splits)
  show "handle_getfile env secret res c = (f, res', c') \<Longrightarrow> central_keeps c c'"
    by (auto simp: handle_getfile_def central_keeps_def get_keeps split: prod.splits sum.splits fault.splits)
  show "handle_register env body res c = (f, res', c') \<Longrightarrow> central_keeps c c'"
    by (auto simp: handle_register_def central_keeps_def bind_result_Inr_iff dest: register_keeps
        split: sum.splits fault.splits)
  show "handle_signal_post env i body res c = (f, res', c') \<Longrightarrow> central_keeps c c'"
    by (auto simp: handle_signal_post_def Let_def split: sum.splits fault.splits)
  show "handle_signal_get env i res c = (f, res', c') \<Longrightarrow> central_keeps c c'"
    by (auto simp: handle_signal_get_def split: option.splits sum.splits)
  show "handle_health res c = (f, res', c') \<Longrightarrow> central_keeps c c'"
    by (simp add: handle_health_def)
qed

lemma routing_keeps:
  assumes "routing env req res c = (Some (f, res', c'), r)"
  shows "central_keeps c c'"
  using assms
  by (auto simp: routing_def Let_def get_handlers_def post_handlers_def handlers_keep
      split: if_splits option.splits)

lemma process_keeps:
  assumes "process_request env req c = Inr (res, c')"
  shows "central_keeps c c'"
proof (cases "routing env req fresh_response c")
  case (Pair h r)
  show ?thesis
  proof (cases h)
    case None
    with assms Pair show ?thesis by (simp add: process_request_cases)
  next
    case (Some a)
    obtain f res1 c1 where a: "a = (f, res1, c1)" by (cases a) auto
    with Some Pair have "central_keeps c c1" using routing_keeps by metis
    moreover have "c' = c1" using assms Pair Some a
      by (auto simp: process_request_cases split: option.splits fault.splits)
    ultimately show ?thesis by simp
  qed
qed

interpretation central: machine "central_step env" "central_keeps c0" for env c0
  by unfold_locales
     (auto simp: central_step_def bind_result_Inr_iff dest: process_keeps intro: central_keeps_trans)

lemma central_run_Cons:
  "process_request env req c = Inr (res, c1) \<Longrightarrow>
     run_steps (central_step env) (req # reqs) c =
       bind_result (run_steps (central_step env) reqs c1) (\<lambda>(c2, ress). Inr (c2, res # ress))"
  by (simp add: central_step_def)

section \<open>Answers\<close>

lemma dispatch_cases:
  "dispatch_request req res c hs = Some h \<Longrightarrow> \<exists>(m, hd) \<in> set hs. \<exists>s. h = hd req s res c"
  by (induction hs) (fastforce split: option.splits)+

text \<open>The statuses handlers leave.\<close>

lemma handler_status:
  "handle_lookup env secret fresh_response c = (None, res, c') \<Longrightarrow> res_status res \<in> {-1, 200, 201, 400, 404}"
  "handle_getfile env secret fresh_response c = (None, res, c') \<Longrightarrow> res_status res \<in> {-1, 200, 201, 400, 404}"
  "handle_register env body fresh_response c = (None, res, c') \<Longrightarrow> res_status res \<in> {-1, 200, 201, 400, 404}"
  "handle_signal_post env i body fresh_response c = (None, res, c') \<Longrightarrow> res_status res \<in> {-1, 200, 201, 400, 404}"
  "handle_signal_get env i fresh_response c = (None, res, c') \<Longrightarrow> res_status res \<in> {-1, 200, 201, 400, 404}"
  "handle_health fresh_response c = (None, res, c') \<Longrightarrow> res_status res \<in> {-1, 200, 201, 400, 404}"
  by (auto simp: handle_lookup_def handle_getfile_def handle_register_def handle_signal_post_def
      handle_signal_get_def handle_health_def fresh_response_def set_content_def Let_def
      split: sum.splits prod.splits fault.splits option.splits)

lemma routing_status:
  assumes "routing env req fresh_response c = (Some (None, res, c'), r)"
  shows "res_status res \<in> {-1, 200, 201, 400, 404}"
  using assms
  by (auto simp: routing_def Let_def get_handlers_def post_handlers_def dest: handler_status
      split: if_splits option.splits)

lemma unrouted_status:
  "routing env req fresh_response c = (None, r) \<Longrightarrow> res_status r \<in> {-1, 400}"
  by (auto simp: routing_def Let_def fresh_response_def split: if_splits)

lemma written_response:
  "res_status (write_response_core req res) = res_status res"
  "400 \<le> res_status res \<Longrightarrow> req_method req \<noteq> ''HEAD'' \<Longrightarrow>
     res_body (write_response_core req res) = ''Error Status: '' @ to_string (nat (res_status res))"
  by (simp_all add: write_response_core_def complete_response_def error_handler_def set_content_def Let_def)

lemma process_response:
  assumes "process_request env req c = Inr (res, c')"
  shows "\<exists>r. res = write_response_core req r \<and> res_status r \<in> {200, 201, 400, 404, 500}"
proof (cases "routing env req fresh_response c")
  case (Pair h r)
  show ?thesis
  proof (cases h)
    case None
    with assms Pair unrouted_status [of env req c r] show ?thesis
      by (auto simp: process_request_cases split: if_splits)
  next
    case (Some a)
    obtain f res1 c1 where a: "a = (f, res1, c1)" by (cases a) auto
    show ?thesis
    proof (cases f)
      case None
      with assms Pair Some a have "res = write_response_core req
          (if res_status res1 = -1 then res1\<lparr>res_status := 200\<rparr> else res1)"
        by (auto simp: process_request_cases)
      moreover have "res_status res1 \<in> {-1, 200, 201, 400, 404}"
        using routing_status [of env req c res1 c1 r] Pair Some a None by simp
      ultimately show ?thesis by auto
    next
      fix e assume f: "f = Some e"
      then obtain x where "e = Throw x" "res = write_response_core req (exception_handler env x res1)"
        using assms Pair Some a by (auto simp: process_request_cases split: fault.splits)
      then show ?thesis by (auto simp: exception_handler_def)
    qed
  qed
qed

section \<open>Routes\<close>

lemma match_token_append:
  "s \<noteq> [] \<Longrightarrow> list_all token_char s \<Longrightarrow> match_token p (p @ s) = Some s"
  by (simp add: match_token_def)

lemma token_no_slash: "list_all token_char s \<Longrightarrow> CHR ''/'' \<notin> set s"
  by (induction s) (auto simp: token_char_def)

lemma route_get:
  assumes "s \<noteq> []" "list_all token_char s"
  shows "routing env (http_get (''/lookup/'' @ s)) res c = (Some (handle_lookup env s res c), res)"
    and "routing env (http_get (''/getfile/'' @ s)) res c = (Some (handle_getfile env s res c), res)"
    and "routing env (http_get (''/signal/'' @ s)) res c = (Some (handle_signal_get env s res c), res)"
  using match_token_append [OF assms, of "''/lookup/''"] match_token_append [OF assms, of "''/getfile/''"]
    match_token_append [OF assms, of "''/signal/''"]
  by (simp_all add: routing_def http_get_def get_handlers_def match_token_def)

lemma route_post:
  shows "routing env (http_post ''/register'' body) res c = (Some (handle_register env body res c), res)"
    and "s \<noteq> [] \<Longrightarrow> list_all token_char s \<Longrightarrow>
      routing env (http_post (''/signal/'' @ s) body) res c = (Some (handle_signal_post env s body res c), res)"
  using match_token_append [of s "''/signal/''"]
  by (simp_all add: routing_def http_post_def post_handlers_def match_token_def match_path_def)

section \<open>Properties\<close>

text \<open>A server used in the examples.\<close>

definition toy_postgres :: postgres where
  "toy_postgres = \<lparr>can_begin = True, statements_ok = True, storable_text = (\<lambda>_. True), now_text = ''now'',
     what_text = (\<lambda>_. ''what'')\<rparr>"

definition toy_central_env :: central_env where
  "toy_central_env = \<lparr>env_floats = no_floats, env_postgres = toy_postgres\<rparr>"

definition toy_row :: stored_row where
  "toy_row = \<lparr>st_id = ''k'', st_sender_ip = ''1.2.3.4'', st_sender_port = 5173, st_protocol = ''udp'',
     st_file_name = Some ''f'', st_file_size = Some 3, st_file_hash = Some ''h'', st_token = ''k'',
     st_claimed = Some True, st_created_at = Some ''then''\<rparr>"

definition toy_central :: central where
  "toy_central = \<lparr>db = \<lparr>connection_open = True, transfers = Some [''k'' \<mapsto> toy_row]\<rparr>, signal_store = []\<rparr>"

lemma toy_central_ok: "db_ok (db toy_central)"
  by (simp add: db_ok_def toy_central_def table_ok_def row_ok_def toy_row_def)

text \<open>
  C16: Whatever requests are served, the table keeps every row under its identifier with its
  numbers in the range of their columns; no row disappears, no creation time changes, and a
  transfer that was claimed stays claimed, also when it is registered again.
\<close>

theorem central_database_invariant:
  assumes "db_ok (db c)" "run_steps (central_step env) reqs c = Inr (c', ress)"
  shows "db_ok (db c') \<and> db_keeps (db c) (db c')"
  using central.run_inv [OF central_keeps_refl assms(2)] assms(1) by (simp add: central_keeps_def)

lemma central_database_invariant_witness:
  "\<exists>c' ress. run_steps (central_step toy_central_env)
       [http_post ''/register'' ''nonsense'', http_get ''/health''] toy_central = Inr (c', ress)
     \<and> db_ok (db c') \<and> db_keeps (db toy_central) (db c')"
proof -
  have "json_parse no_floats ''nonsense'' = Inl (Throw (Json_Parse_Error 101))"
    by (simp add: parse_eval)
  then obtain r1 where 1: "process_request toy_central_env (http_post ''/register'' ''nonsense'') toy_central
      = Inr (r1, toy_central)"
    by (simp add: process_request_cases route_post handle_register_def toy_central_env_def)
  obtain r2 where 2: "process_request toy_central_env (http_get ''/health'') toy_central = Inr (r2, toy_central)"
    by (simp add: process_request_cases routing_def http_get_def get_handlers_def match_token_def match_path_def
        handle_health_def)
  have "\<exists>c' ress. run_steps (central_step toy_central_env)
      [http_post ''/register'' ''nonsense'', http_get ''/health''] toy_central = Inr (c', ress)"
    by (simp add: central_step_def 1 2)
  then show ?thesis using central_database_invariant [OF toy_central_ok] by blast
qed

text \<open>
  A registration that fails, because the text is no JSON, a field has the wrong type or the
  database refuses the row, is answered like a success of the other routes: status 200 with an
  empty body. The client, which ignores the answer, could not tell.
\<close>

theorem failed_registration_answered_ok:
  assumes "bind_result (json_parse (env_floats env) body)
      (\<lambda>data. register_transfers (env_floats env) (env_postgres env) data (db c)) = Inl (Throw e)"
  shows "\<exists>res. process_request env (http_post ''/register'' body) c = Inr (res, c) \<and>
    res_status res = 200 \<and> res_body res = []"
proof -
  let ?res = "write_response_core (http_post ''/register'' body) (fresh_response\<lparr>res_status := 200\<rparr>)"
  have "process_request env (http_post ''/register'' body) c = Inr (?res, c)"
    using assms by (simp add: process_request_cases route_post handle_register_def fresh_response_def)
  moreover have "res_status ?res = 200 \<and> res_body ?res = []"
    by (simp add: write_response_core_def complete_response_def fresh_response_def http_post_def Let_def)
  ultimately show ?thesis by blast
qed

lemma failed_registration_answered_ok_witness:
  "\<exists>res. process_request toy_central_env (http_post ''/register'' ''nonsense'') toy_central = Inr (res, toy_central)
     \<and> res_status res = 200 \<and> res_body res = []"
  by (rule failed_registration_answered_ok [where e = "Json_Parse_Error 101"])
     (simp add: toy_central_env_def parse_eval)

lemma string_at_object:
  "string_at (J_object ms) k =
     (case object_find k ms of
        None \<Rightarrow> Inl (Abort ''assert: it != m_data.m_value.object->end()'')
      | Some v \<Rightarrow> json_string v)"
  by (simp add: string_at_def json_index_def split: option.splits)

lemma missing_key_aborts:
  assumes "\<forall>k \<in> {''id'', ''sender_ip'', ''protocol'', ''file_name'', ''file_hash'', ''token''}.
      object_find k ms = None \<or> (\<exists>s. object_find k ms = Some (J_string s))"
    "\<forall>k \<in> {''sender_port'', ''file_size''}. object_find k ms = None \<or> (\<exists>n. object_find k ms = Some (J_unsigned n))"
    "k \<in> {''id'', ''sender_ip'', ''protocol'', ''file_name'', ''file_hash'', ''token'', ''sender_port'', ''file_size''}"
    "object_find k ms = None"
  shows "transfer_row_from_json fl pg (J_object ms) =
    Inl (Abort ''assert: it != m_data.m_value.object->end()'')"
proof -
  have str: "(\<exists>s. string_at (J_object ms) k = Inr s) \<or>
      string_at (J_object ms) k = Inl (Abort ''assert: it != m_data.m_value.object->end()'') \<and> object_find k ms = None"
    if "k \<in> {''id'', ''sender_ip'', ''protocol'', ''file_name'', ''file_hash'', ''token''}" for k
    using bspec [OF assms(1) that] by (auto simp: string_at_object)
  have num: "(\<exists>n. json_index k (J_object ms) = Inr (J_unsigned n)) \<or>
      json_index k (J_object ms) = Inl (Abort ''assert: it != m_data.m_value.object->end()'') \<and> object_find k ms = None"
    if "k \<in> {''sender_port'', ''file_size''}" for k
    using bspec [OF assms(2) that] by (auto simp: json_index_def)
  show ?thesis
  proof (rule ccontr)
    assume no: "\<not> ?thesis"
    note run = no [unfolded transfer_row_from_json_def rethrow_def]
    obtain s1 where 1: "string_at (J_object ms) ''id'' = Inr s1" using run str [of "''id''"] by auto
    obtain s2 where 2: "string_at (J_object ms) ''sender_ip'' = Inr s2" using run str [of "''sender_ip''"] 1 by auto
    obtain n3 where 3: "json_index ''sender_port'' (J_object ms) = Inr (J_unsigned n3)"
      using run num [of "''sender_port''"] 1 2 by auto
    have p: "json_unsigned fl (J_unsigned n3) = Inr (ucast n3 :: 32 word)" by (simp add: json_unsigned_def)
    obtain s4 where 4: "string_at (J_object ms) ''protocol'' = Inr s4"
      using run str [of "''protocol''"] 1 2 3 p by auto
    obtain s5 where 5: "string_at (J_object ms) ''file_name'' = Inr s5"
      using run str [of "''file_name''"] 1 2 3 4 p by auto
    obtain n6 where 6: "json_index ''file_size'' (J_object ms) = Inr (J_unsigned n6)"
      using run num [of "''file_size''"] 1 2 3 4 5 p by auto
    obtain s7 where 7: "string_at (J_object ms) ''file_hash'' = Inr s7"
      using run str [of "''file_hash''"] 1 2 3 4 5 6 p by auto
    obtain s8 where 8: "string_at (J_object ms) ''token'' = Inr s8"
      using run str [of "''token''"] 1 2 3 4 5 6 7 p by auto
    have "string_at (J_object ms) k = Inr s \<Longrightarrow> object_find k ms \<noteq> None" for k s
      by (cases "object_find k ms") (simp_all add: string_at_object)
    note present = this [OF 1] this [OF 2] this [OF 4] this [OF 5] this [OF 7] this [OF 8]
    have numbers: "object_find ''sender_port'' ms \<noteq> None" "object_find ''file_size'' ms \<noteq> None"
      using 3 6 by (auto simp: json_index_Inr)
    have "object_find k ms \<noteq> None"
      using assms(3) by (elim insertE emptyE; hypsubst) (rule present numbers)+
    with assms(4) show False by contradiction
  qed
qed

text \<open>
  A registration whose fields have the right types but of which one is missing stops the
  whole server: the constant \<open>operator[]\<close> asserts that the key is there, which no
  handler catches.
\<close>

theorem registration_without_field_aborts:
  assumes "json_parse (env_floats env) body = Inr (J_object ms)"
    "begin_transaction (env_postgres env) (db c) = Inr ()"
    "\<forall>k \<in> {''id'', ''sender_ip'', ''protocol'', ''file_name'', ''file_hash'', ''token''}.
      object_find k ms = None \<or> (\<exists>s. object_find k ms = Some (J_string s))"
    "\<forall>k \<in> {''sender_port'', ''file_size''}. object_find k ms = None \<or> (\<exists>n. object_find k ms = Some (J_unsigned n))"
    "k \<in> {''id'', ''sender_ip'', ''protocol'', ''file_name'', ''file_hash'', ''token'', ''sender_port'', ''file_size''}"
    "object_find k ms = None"
  shows "process_request env (http_post ''/register'' body) c =
    Inl (Abort ''assert: it != m_data.m_value.object->end()'')"
  using assms(1,2) missing_key_aborts [OF assms(3-6)]
  by (simp add: process_request_cases route_post handle_register_def register_transfers_def rethrow_def)

lemma registration_without_field_aborts_witness:
  "process_request toy_central_env (http_post ''/register'' ''{}'') toy_central =
     Inl (Abort ''assert: it != m_data.m_value.object->end()'')"
proof (rule registration_without_field_aborts)
  show "json_parse (env_floats toy_central_env) ''{}'' = Inr (J_object [])"
    by (simp add: toy_central_env_def parse_eval)
  show "begin_transaction (env_postgres toy_central_env) (db toy_central) = Inr ()"
    by (simp add: begin_transaction_def toy_central_env_def toy_postgres_def toy_central_def)
  show "''id'' \<in> {''id'', ''sender_ip'', ''protocol'', ''file_name'', ''file_hash'', ''token'', ''sender_port'', ''file_size''}"
    by simp
qed (simp_all add: object_find_def)

end
