(* ===== verification/Directory.thy ===== *)
theory Directory
  imports Central_Properties
begin

text \<open>
  What the central server promises, without HTTP, JSON and SQL: a directory of announced transfers,
  each with a mark that it was fetched, and a mailbox for the addresses of receivers. The routes of
  the server implement its five operations (a simulation from requests to operations).
\<close>

section \<open>The specification\<close>

record directory =
  entries :: "string \<rightharpoonup> Transfer_Payload \<times> bool"
  mailbox :: "string \<rightharpoonup> json"

datatype operation =
    Announce Transfer_Payload
  | Exists string
  | Fetch string
  | Post_mail string json
  | Read_mail string

datatype answer = Done_answer | Yes_answer | No_answer | Record_answer Transfer_Payload | Mail_answer json
  | No_mail_answer | Nothing_answer

fun directory_step :: "operation \<Rightarrow> directory \<Rightarrow> directory \<times> answer" where
  "directory_step (Announce p) d =
     (d\<lparr>entries := (entries d)(pl_id p \<mapsto>
          (p, case entries d (pl_id p) of None \<Rightarrow> False | Some (_, fetched) \<Rightarrow> fetched))\<rparr>, Done_answer)"
| "directory_step (Exists i) d = (d, if entries d i = None then No_answer else Yes_answer)"
| "directory_step (Fetch i) d =
     (case entries d i of
        None \<Rightarrow> (d, Nothing_answer)
      | Some (p, _) \<Rightarrow> (d\<lparr>entries := (entries d)(i \<mapsto> (p, True))\<rparr>, Record_answer p))"
| "directory_step (Post_mail i j) d = (d\<lparr>mailbox := (mailbox d)(i \<mapsto> j)\<rparr>, Done_answer)"
| "directory_step (Read_mail i) d =
     (d, case mailbox d i of None \<Rightarrow> No_mail_answer | Some j \<Rightarrow> Mail_answer j)"

section \<open>The server as a directory\<close>

definition payload_of_row :: "stored_row \<Rightarrow> Transfer_Payload" where
  "payload_of_row row =
     \<lparr>pl_id = st_id row, pl_sender_ip = st_sender_ip row, pl_sender_port = word_of_int (st_sender_port row),
      pl_protocol = st_protocol row, pl_file_name = (case st_file_name row of None \<Rightarrow> [] | Some x \<Rightarrow> x),
      pl_file_size = (case st_file_size row of None \<Rightarrow> 0 | Some n \<Rightarrow> word_of_int n),
      pl_file_hash = (case st_file_hash row of None \<Rightarrow> [] | Some x \<Rightarrow> x), pl_token = st_token row\<rparr>"

definition fetched_row :: "stored_row \<Rightarrow> bool" where
  "fetched_row row = (st_claimed row = Some True)"

definition table_entries :: "table \<Rightarrow> string \<rightharpoonup> Transfer_Payload \<times> bool" where
  "table_entries t i = map_option (\<lambda>row. (payload_of_row row, fetched_row row)) (t i)"

definition directory_of :: "central \<Rightarrow> directory" where
  "directory_of c =
     \<lparr>entries = (case transfers (db c) of None \<Rightarrow> Map.empty | Some t \<Rightarrow> table_entries t),
      mailbox = (\<lambda>i. signal_find i c)\<rparr>"

text \<open>Rows whose texts can be written as JSON; they are, since they were read from JSON.\<close>

definition payload_utf8 :: "Transfer_Payload \<Rightarrow> bool" where
  "payload_utf8 p =
     list_all utf8_ok [pl_id p, pl_sender_ip p, pl_protocol p, pl_file_name p, pl_file_hash p, pl_token p]"

definition row_utf8 :: "stored_row \<Rightarrow> bool" where
  "row_utf8 row \<longleftrightarrow>
     payload_utf8 (payload_of_row row) \<and> (case st_created_at row of None \<Rightarrow> True | Some s \<Rightarrow> utf8_ok s)"

text \<open>A server whose database answers.\<close>

definition serving :: "central_env \<Rightarrow> central \<Rightarrow> bool" where
  "serving env c \<longleftrightarrow>
     can_begin (env_postgres env) \<and> statements_ok (env_postgres env) \<and> utf8_ok (now_text (env_postgres env)) \<and>
     connection_open (db c) \<and>
     (\<exists>t. transfers (db c) = Some t \<and> table_ok t \<and> (\<forall>i row. t i = Some row \<longrightarrow> row_utf8 row)) \<and>
     (\<forall>i j. signal_find i c = Some j \<longrightarrow> json_utf8 j)"

text \<open>Which request asks for which operation, and which response gives which answer.\<close>

inductive asks :: "central_env \<Rightarrow> request \<Rightarrow> operation \<Rightarrow> bool" for env where
  announce: "json_parse (env_floats env) body = Inr j \<Longrightarrow>
     transfer_row_from_json (env_floats env) (env_postgres env) j = Inr p \<Longrightarrow>
     storable (env_postgres env) p \<Longrightarrow> asks env (http_post ''/register'' body) (Announce p)"
| exists: "i \<noteq> [] \<Longrightarrow> list_all token_char i \<Longrightarrow> asks env (http_get (''/lookup/'' @ i)) (Exists i)"
| fetch: "i \<noteq> [] \<Longrightarrow> list_all token_char i \<Longrightarrow> asks env (http_get (''/getfile/'' @ i)) (Fetch i)"
| leave: "i \<noteq> [] \<Longrightarrow> list_all token_char i \<Longrightarrow> json_parse (env_floats env) body = Inr j \<Longrightarrow>
     asks env (http_post (''/signal/'' @ i) body) (Post_mail i j)"
| collect: "i \<noteq> [] \<Longrightarrow> list_all token_char i \<Longrightarrow> asks env (http_get (''/signal/'' @ i)) (Read_mail i)"

inductive_cases asks_elims: "asks env req oper"

text \<open>A record is answered by a JSON text that reads as the same record.\<close>

definition reads_as :: "central_env \<Rightarrow> string \<Rightarrow> Transfer_Payload \<Rightarrow> bool" where
  "reads_as env body p \<longleftrightarrow>
     bind_result (json_parse (env_floats env) body)
       (transfer_row_from_json (env_floats env) (env_postgres env)) = Inr p"

fun gives :: "central_env \<Rightarrow> response \<Rightarrow> operation \<Rightarrow> answer \<Rightarrow> bool" where
  "gives env res (Announce p) Done_answer = (res_status res = 201)"
| "gives env res (Post_mail i j) Done_answer = (res_status res = 200)"
| "gives env res (Exists i) Yes_answer = (res_status res = 200 \<and> res_body res = ''True'')"
| "gives env res (Exists i) No_answer = (res_status res = 200 \<and> res_body res = ''False'')"
| "gives env res (Fetch i) (Record_answer p) = (res_status res = 200 \<and> reads_as env (res_body res) p)"
| "gives env res (Fetch i) Nothing_answer = (res_status res = 200 \<and> res_body res = [])"
| "gives env res (Read_mail i) (Mail_answer j) =
     (res_status res = 200 \<and> json_dump (env_floats env) j = Inr (res_body res))"
| "gives env res (Read_mail i) No_mail_answer = (res_status res = 404)"
| "gives env res _ _ = False"

section \<open>The text of a row\<close>

lemma row_json_eq:
  "transfer_row_to_json r =
     J_object [(''claimed'', J_boolean (tr_claimed r)), (''created_at'', J_string (tr_created_at r)),
       (''file_hash'', J_string (tr_file_hash r)), (''file_name'', J_string (tr_file_name r)),
       (''file_size'', J_integer (tr_file_size r)), (''id'', J_string (tr_id r)),
       (''protocol'', J_string (tr_protocol r)), (''sender_ip'', J_string (tr_sender_ip r)),
       (''sender_port'', json_of_unsigned (tr_sender_port r)), (''token'', J_string (tr_token r))]"
  by (simp add: transfer_row_to_json_def json_of_pairs_def object_find_def less_char_def)

definition payload_of :: "TransferRow \<Rightarrow> Transfer_Payload" where
  "payload_of r =
     \<lparr>pl_id = tr_id r, pl_sender_ip = tr_sender_ip r, pl_sender_port = tr_sender_port r,
      pl_protocol = tr_protocol r, pl_file_name = tr_file_name r, pl_file_size = tr_file_size r,
      pl_file_hash = tr_file_hash r, pl_token = tr_token r\<rparr>"

lemma row_text_reads:
  assumes "json_dump (env_floats env) (transfer_row_to_json r) = Inr body" "0 \<le> sint (tr_file_size r)"
  shows "reads_as env body (payload_of r)"
proof -
  have "json_plain (transfer_row_to_json r)"
    by (simp add: row_json_eq sorted_members_def json_of_unsigned_def less_char_def)
  from parse_dumped [OF assms(1) this]
  have "json_parse (env_floats env) body = Inr (reread (transfer_row_to_json r))" .
  moreover have "json_unsigned fl (J_unsigned (ucast (tr_sender_port r))) = Inr (tr_sender_port r)" for fl
    using json_unsigned_of_unsigned [of fl "tr_sender_port r"] by (simp add: json_of_unsigned_def)
  ultimately show ?thesis using assms(2)
    by (simp add: reads_as_def row_json_eq transfer_row_from_json_def string_at_def json_index_def
        object_find_def payload_of_def json_of_unsigned_def)
qed

lemma row_json_utf8:
  "json_utf8 (transfer_row_to_json r) \<longleftrightarrow> payload_utf8 (payload_of r) \<and> utf8_ok (tr_created_at r)"
proof -
  have keys: "list_all utf8_ok [''claimed'', ''created_at'', ''file_hash'', ''file_name'', ''file_size'', ''id'',
      ''protocol'', ''sender_ip'', ''sender_port'', ''token'']"
    by (simp add: utf8_ok.simps code_def)
  then show ?thesis
    by (auto simp: row_json_eq payload_utf8_def payload_of_def json_of_unsigned_def)
qed

lemma to_transfer_row_ok:
  assumes "row_ok i row"
  obtains r where "to_transfer_row row = Inr r" "payload_of r = payload_of_row row" "0 \<le> sint (tr_file_size r)"
    "tr_created_at r = (case st_created_at row of None \<Rightarrow> [] | Some s \<Rightarrow> s)"
proof -
  have size: "0 \<le> sint (word_of_int n :: 64 word)" if "0 \<le> n" "n < 2 ^ 63" for n :: int
    using that by (simp add: signed_of_int signed_take_bit_int_eq_self)
  obtain p where p: "as_uint32 (st_sender_port row) = Inr p" "p = word_of_int (st_sender_port row)"
    using assms by (simp add: as_uint32_def row_ok_def)
  obtain n where n: "(case st_file_size row of None \<Rightarrow> Inr 0 | Some n \<Rightarrow> as_long n) = Inr n"
    "n = (case st_file_size row of None \<Rightarrow> 0 | Some n \<Rightarrow> word_of_int n)" "0 \<le> sint n"
    using assms size by (auto simp: as_long_def row_ok_def split: option.splits)
  obtain r where r: "to_transfer_row row = Inr r" using p n by (simp add: to_transfer_row_def)
  with p n show thesis
    by (intro that [OF r]) (auto simp: to_transfer_row_def payload_of_def payload_of_row_def)
qed

section \<open>What was read from JSON can be written\<close>

lemma string_at_utf8:
  assumes "json_utf8 j" "string_at j k = Inr s"
  shows "utf8_ok s"
proof -
  from assms(2) obtain ms where "j = J_object ms" "map_of ms k = Some (J_string s)"
    by (auto simp: string_at_def json_index_Inr json_string_Inr object_find_def bind_result_Inr_iff)
  with assms(1) show ?thesis using map_of_SomeD [of ms k "J_string s"] by auto
qed

lemma payload_parsed_utf8:
  assumes "json_parse fl body = Inr j" "transfer_row_from_json fl pg j = Inr p"
  shows "payload_utf8 p"
  using assms(2) string_at_utf8 [OF parse_utf8 [OF assms(1)]]
  by (auto simp: transfer_row_from_json_def bind_result_Inr_iff payload_utf8_def)

section \<open>The simulation\<close>

lemma good_response:
  assumes "res_status res < 400" "req_method req \<noteq> ''HEAD''"
  shows "res_body (write_response_core req res) = res_body res"
    and "res_status (write_response_core req res) = res_status res"
  using assms by (simp_all add: write_response_core_def complete_response_def Let_def)

lemma payload_claimed [simp]: "payload_of_row (row\<lparr>st_claimed := x\<rparr>) = payload_of_row row"
  by (simp add: payload_of_row_def)

lemma upsert_at:
  obtains r where "upsert time p t = t(pl_id p \<mapsto> r)" "payload_of_row r = p"
    "st_created_at r = (case t (pl_id p) of None \<Rightarrow> Some time | Some row \<Rightarrow> st_created_at row)"
    "fetched_row r = (case t (pl_id p) of None \<Rightarrow> False | Some row \<Rightarrow> fetched_row row)"
proof (rule that [OF upsert_def])
qed (simp_all add: payload_of_row_def fetched_row_def split: option.splits)

lemma table_entries_claimed:
  "t i = Some row \<Longrightarrow>
     table_entries (set_claimed i t) = (table_entries t)(i \<mapsto> (payload_of_row row, True))"
  by (rule ext) (simp add: table_entries_def set_claimed_def fetched_row_def)

lemma table_entries_upsert:
  "table_entries (upsert time p t) =
     (table_entries t)(pl_id p \<mapsto>
        (p, case table_entries t (pl_id p) of None \<Rightarrow> False | Some (_, fetched) \<Rightarrow> fetched))"
proof (rule upsert_at [of time p t])
  fix r
  assume "upsert time p t = t(pl_id p \<mapsto> r)" "payload_of_row r = p"
    "fetched_row r = (case t (pl_id p) of None \<Rightarrow> False | Some row \<Rightarrow> fetched_row row)"
  then show ?thesis by (intro ext) (simp add: table_entries_def split: option.splits)
qed

lemma upsert_utf8:
  assumes "\<forall>i row. t i = Some row \<longrightarrow> row_utf8 row" "payload_utf8 p" "utf8_ok time"
  shows "\<forall>i row. upsert time p t i = Some row \<longrightarrow> row_utf8 row"
proof (rule upsert_at [of time p t])
  fix r
  assume r: "upsert time p t = t(pl_id p \<mapsto> r)" "payload_of_row r = p"
    "st_created_at r = (case t (pl_id p) of None \<Rightarrow> Some time | Some row \<Rightarrow> st_created_at row)"
  have "case st_created_at r of None \<Rightarrow> True | Some s \<Rightarrow> utf8_ok s"
  proof (cases "t (pl_id p)")
    case None
    with r assms(3) show ?thesis by simp
  next
    case (Some row)
    with assms(1) have "row_utf8 row" by blast
    with Some r show ?thesis by (simp add: row_utf8_def)
  qed
  with r assms have "row_utf8 r" by (simp add: row_utf8_def)
  with r(1) assms(1) show ?thesis by simp
qed

lemma set_claimed_utf8:
  "\<forall>i row. t i = Some row \<longrightarrow> row_utf8 row \<Longrightarrow> \<forall>i row. set_claimed k t i = Some row \<longrightarrow> row_utf8 row"
  by (simp add: set_claimed_def row_utf8_def split: option.splits)

text \<open>One lemma per operation.\<close>

definition simulates :: "central_env \<Rightarrow> request \<Rightarrow> central \<Rightarrow> operation \<Rightarrow> bool" where
  "simulates env req c oper \<longleftrightarrow>
     (\<exists>res c' a. process_request env req c = Inr (res, c') \<and> serving env c' \<and>
        directory_step oper (directory_of c) = (directory_of c', a) \<and> gives env res oper a)"

lemma serving_table:
  assumes "serving env c"
  obtains t where "transfers (db c) = Some t" "table_ok t" "\<forall>i row. t i = Some row \<longrightarrow> row_utf8 row"
    "begin_transaction (env_postgres env) (db c) = Inr ()" "exec_table (env_postgres env) (db c) = Inr t"
  using assms by (auto simp: serving_def begin_transaction_def exec_table_Inr)

lemma simulate_announce:
  assumes s: "serving env c" and "json_parse (env_floats env) body = Inr j"
    "transfer_row_from_json (env_floats env) (env_postgres env) j = Inr p" "storable (env_postgres env) p"
  shows "simulates env (http_post ''/register'' body) c (Announce p)"
proof -
  obtain t where t: "transfers (db c) = Some t" "table_ok t" "\<forall>i row. t i = Some row \<longrightarrow> row_utf8 row"
    "begin_transaction (env_postgres env) (db c) = Inr ()" "exec_table (env_postgres env) (db c) = Inr t"
    using serving_table [OF s] .
  let ?c = "c\<lparr>db := (db c)\<lparr>transfers := Some (upsert (now_text (env_postgres env)) p t)\<rparr>\<rparr>"
  let ?res = "write_response_core (http_post ''/register'' body) (fresh_response\<lparr>res_status := 201\<rparr>)"
  have "process_request env (http_post ''/register'' body) c = Inr (?res, ?c)"
    using assms t by (simp add: process_request_cases route_post handle_register_def register_transfers_def
        rethrow_def)
  moreover have "serving env ?c"
    using s t upsert_ok [OF t(2) assms(4)] payload_parsed_utf8 [OF assms(2,3)]
      upsert_utf8 [OF t(3), of p "now_text (env_postgres env)"]
    by (simp add: serving_def signal_find_def)
  moreover have "directory_step (Announce p) (directory_of c) = (directory_of ?c, Done_answer)"
    by (simp add: directory_of_def t table_entries_upsert signal_find_def)
  moreover have "gives env ?res (Announce p) Done_answer"
    by (simp add: good_response(2) http_post_def)
  ultimately show ?thesis unfolding simulates_def by blast
qed

lemma simulate_exists:
  assumes s: "serving env c" and i: "i \<noteq> []" "list_all token_char i"
  shows "simulates env (http_get (''/lookup/'' @ i)) c (Exists i)"
proof -
  obtain t where t: "transfers (db c) = Some t"
    "begin_transaction (env_postgres env) (db c) = Inr ()" "exec_table (env_postgres env) (db c) = Inr t"
    using serving_table [OF s] .
  let ?res = "write_response_core (http_get (''/lookup/'' @ i))
      ((set_content (if t i \<noteq> None then ''True'' else ''False'') ''text/plain'' fresh_response)\<lparr>res_status := 200\<rparr>)"
  have "process_request env (http_get (''/lookup/'' @ i)) c = Inr (?res, c)"
    using t unfolding process_request_cases route_get(1) [OF i] by (simp add: handle_lookup_def lookup_transfer_def
        set_content_def fresh_response_def)
  moreover have "directory_step (Exists i) (directory_of c) =
      (directory_of c, if t i = None then No_answer else Yes_answer)"
    by (simp add: directory_of_def t table_entries_def)
  moreover have "gives env ?res (Exists i) (if t i = None then No_answer else Yes_answer)"
    by (simp add: good_response http_get_def set_content_def)
  ultimately show ?thesis using s unfolding simulates_def by blast
qed

lemma simulate_fetch:
  assumes s: "serving env c" and i: "i \<noteq> []" "list_all token_char i"
  shows "simulates env (http_get (''/getfile/'' @ i)) c (Fetch i)"
proof -
  let ?req = "http_get (''/getfile/'' @ i)"
  obtain t where t: "transfers (db c) = Some t" "table_ok t" "\<forall>i row. t i = Some row \<longrightarrow> row_utf8 row"
    "begin_transaction (env_postgres env) (db c) = Inr ()" "exec_table (env_postgres env) (db c) = Inr t"
    using serving_table [OF s] .
  let ?c = "c\<lparr>db := (db c)\<lparr>transfers := Some (set_claimed i t)\<rparr>\<rparr>"
  have mark: "mark_transfer_claimed (env_postgres env) i (db c) = Inr (db ?c)"
    using t by (simp add: mark_transfer_claimed_def rethrow_def)
  have serving: "serving env ?c"
    using s t set_claimed_ok [OF t(2), of i] set_claimed_utf8 [OF t(3), of i]
    by (simp add: serving_def signal_find_def)
  show ?thesis
  proof (cases "t i")
    case None
    then have c: "?c = c" using t by (simp add: set_claimed_def)
    let ?res = "write_response_core ?req (fresh_response\<lparr>res_status := 200\<rparr>)"
    have "process_request env ?req c = Inr (?res, ?c)"
      using t mark None unfolding process_request_cases route_get(2) [OF i] by (simp add: handle_getfile_def
          get_transfers_metadata_def rethrow_def fresh_response_def)
    moreover have "directory_step (Fetch i) (directory_of c) = (directory_of ?c, Nothing_answer)"
      unfolding c by (simp add: directory_of_def t table_entries_def None)
    moreover have "gives env ?res (Fetch i) Nothing_answer"
      by (simp add: good_response http_get_def fresh_response_def)
    ultimately show ?thesis using serving unfolding simulates_def by blast
  next
    case (Some row)
    with t have row: "row_ok i row" "row_utf8 row" by (auto simp: table_ok_def)
    obtain r where r: "to_transfer_row row = Inr r" "payload_of r = payload_of_row row" "0 \<le> sint (tr_file_size r)"
      "tr_created_at r = (case st_created_at row of None \<Rightarrow> [] | Some s \<Rightarrow> s)"
      using to_transfer_row_ok [OF row(1)] .
    let ?r = "r\<lparr>tr_claimed := True\<rparr>"
    have "payload_of ?r = payload_of_row row" using r(2) by (simp add: payload_of_def)
    moreover have "utf8_ok (tr_created_at ?r)" using r(4) row(2) by (simp add: row_utf8_def split: option.splits)
    ultimately have "json_utf8 (transfer_row_to_json ?r)" using row(2) by (simp add: row_json_utf8 row_utf8_def)
    then obtain body where body: "json_dump (env_floats env) (transfer_row_to_json ?r) = Inr body"
      using json_dump_utf8 by blast
    have reads: "reads_as env body (payload_of_row row)"
      using row_text_reads [OF body] r(2,3) by (simp add: payload_of_def)
    let ?res = "write_response_core ?req ((set_content body ''application/json'' fresh_response)\<lparr>res_status := 200\<rparr>)"
    have "process_request env ?req c = Inr (?res, ?c)"
      using t mark Some r(1) body unfolding process_request_cases route_get(2) [OF i] by (simp add: handle_getfile_def
          get_transfers_metadata_def rethrow_def)
    moreover have "directory_step (Fetch i) (directory_of c) = (directory_of ?c, Record_answer (payload_of_row row))"
      using Some by (simp add: directory_of_def t table_entries_claimed signal_find_def)
         (simp add: table_entries_def)
    moreover have "gives env ?res (Fetch i) (Record_answer (payload_of_row row))"
      using reads by (simp add: good_response http_get_def set_content_def)
    ultimately show ?thesis using serving unfolding simulates_def by blast
  qed
qed

lemma simulate_leave:
  assumes s: "serving env c" and i: "i \<noteq> []" "list_all token_char i" and j: "json_parse (env_floats env) body = Inr j"
  shows "simulates env (http_post (''/signal/'' @ i) body) c (Post_mail i j)"
proof -
  let ?req = "http_post (''/signal/'' @ i) body"
  let ?res = "write_response_core ?req (fresh_response\<lparr>res_status := 200\<rparr>)"
  have utf8: "json_utf8 j" using parse_utf8 [OF j] .
  then obtain out where "json_dump (env_floats env) j = Inr out" using json_dump_utf8 by blast
  then have "process_request env ?req c = Inr (?res, signal_put i j c)"
    using j unfolding process_request_cases route_post(2) [OF i] by (simp add: handle_signal_post_def)
  moreover have "serving env (signal_put i j c)"
    using s utf8 by (auto simp: serving_def signals.find_put) (simp_all add: signal_put_def)
  moreover have "directory_step (Post_mail i j) (directory_of c) = (directory_of (signal_put i j c), Done_answer)"
    by (auto simp: directory_of_def signals.find_put) (simp add: signal_put_def)
  moreover have "gives env ?res (Post_mail i j) Done_answer" by (simp add: good_response http_post_def)
  ultimately show ?thesis unfolding simulates_def by blast
qed

lemma simulate_collect:
  assumes s: "serving env c" and i: "i \<noteq> []" "list_all token_char i"
  shows "simulates env (http_get (''/signal/'' @ i)) c (Read_mail i)"
proof -
  let ?req = "http_get (''/signal/'' @ i)"
  show ?thesis
  proof (cases "signal_find i c")
    case None
    then have "process_request env ?req c = Inr (write_response_core ?req (fresh_response\<lparr>res_status := 404\<rparr>), c)"
      unfolding process_request_cases route_get(3) [OF i] by (simp add: handle_signal_get_def)
    moreover have "directory_step (Read_mail i) (directory_of c) = (directory_of c, No_mail_answer)"
      by (simp add: directory_of_def None)
    moreover have "gives env (write_response_core ?req (fresh_response\<lparr>res_status := 404\<rparr>)) (Read_mail i) No_mail_answer"
      by (simp add: written_response)
    ultimately show ?thesis using s unfolding simulates_def by blast
  next
    case (Some j)
    with s have "json_utf8 j" by (auto simp: serving_def)
    then obtain out where out: "json_dump (env_floats env) j = Inr out" using json_dump_utf8 by blast
    let ?res = "write_response_core ?req ((set_content out ''application/json'' fresh_response)\<lparr>res_status := 200\<rparr>)"
    have "process_request env ?req c = Inr (?res, c)"
      using Some out unfolding process_request_cases route_get(3) [OF i] by (simp add: handle_signal_get_def set_content_def
          fresh_response_def)
    moreover have "directory_step (Read_mail i) (directory_of c) = (directory_of c, Mail_answer j)"
      by (simp add: directory_of_def Some)
    moreover have "gives env ?res (Read_mail i) (Mail_answer j)"
      using out by (simp add: good_response http_get_def set_content_def)
    ultimately show ?thesis using s unfolding simulates_def by blast
  qed
qed

lemma simulation: "asks env req oper \<Longrightarrow> serving env c \<Longrightarrow> simulates env req c oper"
  by (induction rule: asks.induct)
     (blast intro: simulate_announce simulate_exists simulate_fetch simulate_leave simulate_collect)+

section \<open>Sequences\<close>

fun directory_run :: "operation list \<Rightarrow> directory \<Rightarrow> directory \<times> answer list" where
  "directory_run [] d = (d, [])"
| "directory_run (oper # opers) d =
     (let (d1, a) = directory_step oper d; (d2, as) = directory_run opers d1 in (d2, a # as))"

text \<open>
  C5: As long as the database answers, the central server is a directory with mailboxes: a
  sequence of well-formed requests leaves the state that the operations they ask for leave, and
  every response gives the answer of its operation.
\<close>

theorem central_refines_directory:
  assumes "list_all2 (asks env) reqs opers" "serving env c"
  shows "\<exists>c' ress as. run_steps (central_step env) reqs c = Inr (c', ress) \<and> serving env c' \<and>
    directory_run opers (directory_of c) = (directory_of c', as) \<and>
    length ress = length opers \<and> length as = length opers \<and>
    list_all (\<lambda>i. gives env (ress ! i) (opers ! i) (as ! i)) [0..<length opers]"
  using assms
proof (induction reqs opers arbitrary: c rule: list_all2_induct)
  case Nil
  then show ?case by simp
next
  case (Cons req reqs oper opers)
  from simulation [OF Cons.hyps(1) Cons.prems] obtain res c1 a where 1:
    "process_request env req c = Inr (res, c1)" "serving env c1"
    "directory_step oper (directory_of c) = (directory_of c1, a)" "gives env res oper a"
    unfolding simulates_def by blast
  from Cons.IH [OF 1(2)] obtain c2 ress as where 2:
    "run_steps (central_step env) reqs c1 = Inr (c2, ress)" "serving env c2"
    "directory_run opers (directory_of c1) = (directory_of c2, as)"
    "length ress = length opers" "length as = length opers"
    "list_all (\<lambda>i. gives env (ress ! i) (opers ! i) (as ! i)) [0..<length opers]" by blast
  have "run_steps (central_step env) (req # reqs) c = Inr (c2, res # ress)"
    using 1 2 by (simp add: central_step_def)
  moreover have "directory_run (oper # opers) (directory_of c) = (directory_of c2, a # as)"
    using 1 2 by simp
  moreover have "list_all (\<lambda>i. gives env ((res # ress) ! i) ((oper # opers) ! i) ((a # as) ! i))
      [0..<length (oper # opers)]"
    using 1(4) 2(6) by (auto simp: list_all_iff nth_Cons split: nat.splits)
  ultimately show ?case using 2 by (intro exI [of _ c2] exI [of _ "res # ress"] exI [of _ "a # as"]) simp
qed

text \<open>An example: a value is left for a receiver and collected, and a transfer is looked up and fetched.\<close>

definition toy_requests :: "request list" where
  "toy_requests =
     [http_post (''/signal/'' @ ''k'') ''true'', http_get (''/signal/'' @ ''k''), http_get (''/lookup/'' @ ''k''),
      http_get (''/getfile/'' @ ''k'')]"

definition toy_operations :: "operation list" where
  "toy_operations = [Post_mail ''k'' (J_boolean True), Read_mail ''k'', Exists ''k'', Fetch ''k'']"

lemma toy_serving: "serving toy_central_env toy_central"
  by (simp add: serving_def toy_central_env_def toy_postgres_def toy_central_def table_ok_def row_ok_def
      toy_row_def row_utf8_def payload_utf8_def payload_of_row_def utf8_ok.simps code_def
      signal_find_def object_find_def)

lemma toy_asks: "list_all2 (asks toy_central_env) toy_requests toy_operations"
proof -
  have "json_parse (env_floats toy_central_env) ''true'' = Inr (J_boolean True)"
    by (simp add: toy_central_env_def parse_eval)
  moreover have "list_all token_char ''k''" by (simp add: token_char_def)
  ultimately show ?thesis
    unfolding toy_requests_def toy_operations_def list.rel_inject
    by (intro conjI asks.intros list.rel_intros) simp_all
qed

lemma central_refines_directory_witness:
  "\<exists>c' ress as. run_steps (central_step toy_central_env) toy_requests toy_central = Inr (c', ress) \<and>
    serving toy_central_env c' \<and>
    directory_run toy_operations (directory_of toy_central) = (directory_of c', as) \<and>
    length ress = length toy_operations \<and> length as = length toy_operations \<and>
    list_all (\<lambda>i. gives toy_central_env (ress ! i) (toy_operations ! i) (as ! i)) [0..<length toy_operations]"
  by (rule central_refines_directory [OF toy_asks toy_serving])

end
