(* ===== verification/Rendezvous_Properties.thy ===== *)
theory Rendezvous_Properties
  imports Rendezvous Directory
begin

text \<open>
  The command-line program against the central server: what is registered is what the receiver is told,
  and the endpoint a receiver leaves is the one the sender polls. The proofs go through the directory
  that the server implements.
\<close>

section \<open>The packed addresses\<close>

definition packable :: "TRANSFERS \<Rightarrow> bool" where
  "packable t \<longleftrightarrow>
     CHR '';'' \<notin> set (sender_ip t) \<and> sender_local_ip t \<noteq> [] \<and> CHR '':'' \<notin> set (sender_local_ip t) \<and>
     unat (sender_local_port t) < 2 ^ 31"

lemma unpack_pack:
  assumes "packable t"
  shows "unpack_sender_ip (pack_sender_ip t) = Inr (sender_ip t, sender_local_ip t, sender_local_port t)"
proof -
  let ?local = "sender_local_ip t @ CHR '':'' # to_string (unat (sender_local_port t))"
  have semi: "find_char (CHR '';'') (sender_ip t @ CHR '';'' # ?local) = Some (length (sender_ip t))"
    using assms by (intro find_char_append) (simp add: packable_def)
  have colon: "find_char (CHR '':'') ?local = Some (length (sender_local_ip t))"
    using assms by (intro find_char_append) (simp add: packable_def)
  have "stoi (to_string (unat (sender_local_port t))) = Inr (int (unat (sender_local_port t)))"
    using assms by (intro stoi_to_string) (simp add: packable_def)
  then show ?thesis using assms semi colon
    by (simp add: unpack_sender_ip_def pack_sender_ip_def packable_def)
qed

section \<open>Registration\<close>

definition payload_of_transfer :: "TRANSFERS \<Rightarrow> Transfer_Payload" where
  "payload_of_transfer t =
     \<lparr>pl_id = transfer_id t, pl_sender_ip = pack_sender_ip t, pl_sender_port = sender_port t,
      pl_protocol = protocol t, pl_file_name = file_name t, pl_file_size = file_size t,
      pl_file_hash = file_hash t, pl_token = token t\<rparr>"

lemma registration_payload_eq:
  "registration_payload t =
     J_object [(''file_hash'', J_string (file_hash t)), (''file_name'', J_string (file_name t)),
       (''file_size'', J_unsigned (file_size t)), (''id'', J_string (transfer_id t)),
       (''protocol'', J_string (protocol t)), (''sender_ip'', J_string (pack_sender_ip t)),
       (''sender_local_ip'', J_string (sender_local_ip t)),
       (''sender_local_port'', json_of_unsigned (sender_local_port t)),
       (''sender_port'', json_of_unsigned (sender_port t)), (''token'', J_string (token t))]"
  by (simp add: registration_payload_def json_of_pairs_def object_find_def less_char_def json_of_unsigned_def)

lemma registration_read_back:
  assumes "json_dump fl (registration_payload t) = Inr body"
  shows "json_parse fl body = Inr (registration_payload t)"
proof -
  have "json_plain (registration_payload t)" "reread (registration_payload t) = registration_payload t"
    by (simp_all add: registration_payload_eq sorted_members_def json_of_unsigned_def less_char_def)
  with parse_dumped [OF assms] show ?thesis by simp
qed

lemma registration_row:
  "transfer_row_from_json fl pg (registration_payload t) = Inr (payload_of_transfer t)"
proof -
  have "json_unsigned fl (J_unsigned (ucast (sender_port t))) = Inr (sender_port t)"
    using json_unsigned_of_unsigned [of fl "sender_port t"] by (simp add: json_of_unsigned_def)
  then show ?thesis
    by (simp add: registration_payload_eq transfer_row_from_json_def string_at_def json_index_def
        object_find_def payload_of_transfer_def json_of_unsigned_def)
qed

lemma registration_utf8:
  assumes "payload_utf8 (payload_of_transfer t)" "utf8_ok (sender_local_ip t)"
  shows "json_utf8 (registration_payload t)"
proof -
  have "list_all utf8_ok [''file_hash'', ''file_name'', ''file_size'', ''id'', ''protocol'', ''sender_ip'',
      ''sender_local_ip'', ''sender_local_port'', ''sender_port'', ''token'']"
    by (simp add: utf8_ok.simps code_def)
  with assms show ?thesis
    by (simp add: registration_payload_eq payload_utf8_def payload_of_transfer_def json_of_unsigned_def)
qed

lemma metadata_of_row:
  assumes "transfer_row_from_json fl pg j = Inr p"
    "unpack_sender_ip (pl_sender_ip p) = Inr (sip, lip, lport)" "lip \<noteq> []"
  shows "transfer_metadata_from_json fl j =
    Inr \<lparr>transfer_id = pl_id p, sender_ip = sip, sender_port = pl_sender_port p, sender_local_ip = lip,
      sender_local_port = lport, protocol = pl_protocol p, file_name = pl_file_name p,
      file_size = pl_file_size p, file_hash = pl_file_hash p, token = pl_token p\<rparr>"
  using assms by (auto simp: transfer_row_from_json_def transfer_metadata_from_json_def bind_result_Inr_iff)

text \<open>What a transfer must be like to survive.\<close>

definition registrable :: "central_env \<Rightarrow> TRANSFERS \<Rightarrow> bool" where
  "registrable env t \<longleftrightarrow>
     packable t \<and> transfer_id t \<noteq> [] \<and> list_all token_char (transfer_id t) \<and>
     payload_utf8 (payload_of_transfer t) \<and> utf8_ok (sender_local_ip t) \<and>
     storable (env_postgres env) (payload_of_transfer t)"

lemma register_announces:
  assumes "serving env c" "registrable env t"
  obtains c1 where "register_transfer (env_floats env) (direct env) t c = (Inr (), c1)" "serving env c1"
    "entries (directory_of c1) (transfer_id t) \<noteq> None"
    "fst (the (entries (directory_of c1) (transfer_id t))) = payload_of_transfer t"
    "mailbox (directory_of c1) = mailbox (directory_of c)"
proof -
  obtain body where body: "json_dump (env_floats env) (registration_payload t) = Inr body"
    using registration_utf8 assms(2) json_dump_utf8 unfolding registrable_def by blast
  have "asks env (http_post ''/register'' body) (Announce (payload_of_transfer t))"
    using registration_read_back [OF body] registration_row assms(2)
    by (intro asks.announce) (auto simp: registrable_def)
  from simulation [OF this assms(1)] obtain res c1 a where 1:
    "process_request env (http_post ''/register'' body) c = Inr (res, c1)" "serving env c1"
    "directory_step (Announce (payload_of_transfer t)) (directory_of c) = (directory_of c1, a)"
    unfolding simulates_def by blast
  from 1(3) have "directory_of c1 = fst (directory_step (Announce (payload_of_transfer t)) (directory_of c))"
    by simp
  then have "entries (directory_of c1) (transfer_id t) \<noteq> None"
    "fst (the (entries (directory_of c1) (transfer_id t))) = payload_of_transfer t"
    "mailbox (directory_of c1) = mailbox (directory_of c)"
    by (simp_all add: payload_of_transfer_def)
  with 1 body show thesis by (intro that [of c1]) (simp_all add: register_transfer_def direct_def)
qed

section \<open>What other requests leave alone\<close>

definition announces :: "string \<Rightarrow> operation \<Rightarrow> bool" where
  "announces i oper \<longleftrightarrow> (\<exists>p. oper = Announce p \<and> pl_id p = i)"

definition posts_to :: "string \<Rightarrow> operation \<Rightarrow> bool" where
  "posts_to i oper \<longleftrightarrow> (\<exists>j. oper = Post_mail i j)"

lemma directory_step_entry:
  assumes "\<not> announces i oper" "entries d i = Some (p, b)"
  shows "\<exists>b. entries (fst (directory_step oper d)) i = Some (p, b)"
  using assms by (cases oper) (auto simp: announces_def split: option.splits)

lemma directory_step_mail:
  assumes "\<not> posts_to i oper"
  shows "mailbox (fst (directory_step oper d)) i = mailbox d i"
  using assms by (cases oper) (auto simp: posts_to_def split: option.splits)

lemma run_asked:
  assumes "list_all2 (asks env) reqs opers" "serving env c" "run_steps (central_step env) reqs c = Inr (c', ress)"
  shows "serving env c'"
    and "list_all (\<lambda>oper. \<not> announces i oper) opers \<Longrightarrow> entries (directory_of c) i = Some (p, b) \<Longrightarrow>
      \<exists>b. entries (directory_of c') i = Some (p, b)"
    and "list_all (\<lambda>oper. \<not> posts_to i oper) opers \<Longrightarrow>
      mailbox (directory_of c') i = mailbox (directory_of c) i"
proof -
  have "serving env c' \<and>
    (list_all (\<lambda>oper. \<not> announces i oper) opers \<longrightarrow> (\<exists>b. entries (directory_of c) i = Some (p, b)) \<longrightarrow>
      (\<exists>b. entries (directory_of c') i = Some (p, b))) \<and>
    (list_all (\<lambda>oper. \<not> posts_to i oper) opers \<longrightarrow> mailbox (directory_of c') i = mailbox (directory_of c) i)"
    using assms
  proof (induction reqs opers arbitrary: c ress rule: list_all2_induct)
    case Nil
    then show ?case by simp
  next
    case (Cons req reqs oper opers)
    from simulation [OF Cons.hyps(1) Cons.prems(1)] obtain res c1 a where 1:
      "process_request env req c = Inr (res, c1)" "serving env c1"
      "directory_step oper (directory_of c) = (directory_of c1, a)"
      unfolding simulates_def by blast
    from Cons.prems(2) 1(1) obtain ress1 where "run_steps (central_step env) reqs c1 = Inr (c', ress1)"
      unfolding central_run_Cons [OF 1(1)] by (auto simp: bind_result_Inr_iff)
    note IH = Cons.IH [OF 1(2) this]
    have "directory_of c1 = fst (directory_step oper (directory_of c))" using 1(3) by simp
    then have "\<not> announces i oper \<longrightarrow> (\<forall>b. entries (directory_of c) i = Some (p, b) \<longrightarrow>
        (\<exists>b. entries (directory_of c1) i = Some (p, b)))"
      "\<not> posts_to i oper \<longrightarrow> mailbox (directory_of c1) i = mailbox (directory_of c) i"
      using directory_step_entry [of i oper "directory_of c" p] directory_step_mail [of i oper] by auto
    with IH show ?case by auto
  qed
  then show "serving env c'"
    and "list_all (\<lambda>oper. \<not> announces i oper) opers \<Longrightarrow> entries (directory_of c) i = Some (p, b) \<Longrightarrow>
      \<exists>b. entries (directory_of c') i = Some (p, b)"
    and "list_all (\<lambda>oper. \<not> posts_to i oper) opers \<Longrightarrow>
      mailbox (directory_of c') i = mailbox (directory_of c) i"
    by blast+
qed

lemma fetch_entry:
  assumes "serving env c" "transfer_id t \<noteq> []" "list_all token_char (transfer_id t)" "packable t"
    "entries (directory_of c) (transfer_id t) = Some (payload_of_transfer t, b)"
  shows "fst (get_transfer_metadata (env_floats env) (direct env) (transfer_id t) c) = Inr t"
proof -
  let ?req = "http_get (''/getfile/'' @ transfer_id t)"
  from simulate_fetch [OF assms(1-3)] obtain res c1 a where 1:
    "process_request env ?req c = Inr (res, c1)"
    "directory_step (Fetch (transfer_id t)) (directory_of c) = (directory_of c1, a)"
    "gives env res (Fetch (transfer_id t)) a"
    unfolding simulates_def by blast
  from 1(2) assms(5) have "a = Record_answer (payload_of_transfer t)" by simp
  with 1(3) have "reads_as env (res_body res) (payload_of_transfer t)" by simp
  then obtain j where j: "json_parse (env_floats env) (res_body res) = Inr j"
    "transfer_row_from_json (env_floats env) (env_postgres env) j = Inr (payload_of_transfer t)"
    by (auto simp: reads_as_def bind_result_Inr_iff)
  have "unpack_sender_ip (pl_sender_ip (payload_of_transfer t)) =
      Inr (sender_ip t, sender_local_ip t, sender_local_port t)"
    using unpack_pack [OF assms(4)] by (simp add: payload_of_transfer_def)
  from metadata_of_row [OF j(2) this] assms(4) have "transfer_metadata_from_json (env_floats env) j = Inr t"
    by (simp add: packable_def payload_of_transfer_def)
  with j(1) 1(1) show ?thesis
    unfolding get_transfer_metadata_def direct_def 1(1) by simp
qed

lemma asked_runs:
  assumes "list_all2 (asks env) reqs opers" "serving env c"
  shows "\<exists>c' ress. run_steps (central_step env) reqs c = Inr (c', ress)"
  using assms
proof (induction reqs opers arbitrary: c rule: list_all2_induct)
  case (Cons req reqs oper opers)
  from simulation [OF Cons.hyps(1) Cons.prems] obtain res c1 a where
    "process_request env req c = Inr (res, c1)" "serving env c1"
    unfolding simulates_def by blast
  with Cons.IH [of c1] central_run_Cons [of env req c res c1 reqs] show ?case
    by (auto simp del: run_steps.simps)
qed simp

section \<open>Properties of registration\<close>

definition toy_offer :: TRANSFERS where
  "toy_offer = \<lparr>transfer_id = ''t'', sender_ip = ''1.2.3.4'', sender_port = 5173,
     sender_local_ip = ''10.0.0.5'', sender_local_port = 5173, protocol = ''udp'', file_name = ''f.txt'',
     file_size = 3, file_hash = ''h'', token = ''t''\<rparr>"

text \<open>
  C24: A registered transfer is what every receiver is told, field by field, whatever
  well-formed requests the server has answered in between (lookups, fetches, signals, and
  registrations of other identifiers; registering the same one again would replace the row): the
  addresses survive being packed into one text, and the record survives JSON, the database and
  JSON again.
\<close>

theorem registered_transfer_is_told:
  assumes "serving env c" "registrable env t" "list_all2 (asks env) reqs opers"
    "list_all (\<lambda>oper. \<not> announces (transfer_id t) oper) opers"
  shows "\<exists>c1 c2 ress. register_transfer (env_floats env) (direct env) t c = (Inr (), c1) \<and>
    run_steps (central_step env) reqs c1 = Inr (c2, ress) \<and>
    fst (get_transfer_metadata (env_floats env) (direct env) (transfer_id t) c2) = Inr t"
proof -
  obtain c1 where 1: "register_transfer (env_floats env) (direct env) t c = (Inr (), c1)" "serving env c1"
    "entries (directory_of c1) (transfer_id t) \<noteq> None"
    "fst (the (entries (directory_of c1) (transfer_id t))) = payload_of_transfer t"
    using register_announces [OF assms(1,2)] .
  then obtain b where b: "entries (directory_of c1) (transfer_id t) = Some (payload_of_transfer t, b)" by force
  obtain c2 ress where 2: "run_steps (central_step env) reqs c1 = Inr (c2, ress)"
    using asked_runs [OF assms(3) 1(2)] by blast
  note run = run_asked [OF assms(3) 1(2) 2]
  from run(2) [OF assms(4) b] obtain b2 where
    "entries (directory_of c2) (transfer_id t) = Some (payload_of_transfer t, b2)" by blast
  from fetch_entry [OF run(1) _ _ _ this] assms(2) 1(1) 2 show ?thesis by (auto simp: registrable_def)
qed

lemma toy_registrable: "registrable toy_central_env toy_offer"
  by (simp add: registrable_def packable_def toy_offer_def token_char_def payload_utf8_def payload_of_transfer_def
      pack_sender_ip_def utf8_ok.simps code_def storable_def toy_central_env_def toy_postgres_def
      to_string.simps digit_chars)

lemma registered_transfer_is_told_witness:
  "\<exists>c1 c2 ress. register_transfer no_floats (direct toy_central_env) toy_offer toy_central = (Inr (), c1) \<and>
    run_steps (central_step toy_central_env) toy_requests c1 = Inr (c2, ress) \<and>
    fst (get_transfer_metadata no_floats (direct toy_central_env) ''t'' c2) = Inr toy_offer"
proof -
  have "list_all (\<lambda>oper. \<not> announces (transfer_id toy_offer) oper) toy_operations"
    by (simp add: toy_operations_def announces_def)
  from registered_transfer_is_told [OF toy_serving toy_registrable toy_asks this]
  show ?thesis by (simp add: toy_central_env_def toy_offer_def)
qed

section \<open>Signalling\<close>

lemma signal_payload_eq:
  "signal_payload ep =
     J_object [(''local_ip'', J_string (local_ip ep)), (''local_port'', json_of_unsigned (local_port ep)),
       (''public_ip'', J_string (ip ep)), (''public_port'', json_of_unsigned (port ep))]"
  by (simp add: signal_payload_def json_of_pairs_def object_find_def less_char_def)

lemma signal_read_back:
  assumes "json_dump fl (signal_payload ep) = Inr body"
  shows "json_parse fl body = Inr (signal_payload ep)"
proof -
  have "json_plain (signal_payload ep)" "reread (signal_payload ep) = signal_payload ep"
    by (simp_all add: signal_payload_eq sorted_members_def json_of_unsigned_def less_char_def)
  with parse_dumped [OF assms] show ?thesis by simp
qed

lemma signal_utf8:
  assumes "utf8_ok (ip ep)" "utf8_ok (local_ip ep)"
  shows "json_utf8 (signal_payload ep)"
proof -
  have "list_all utf8_ok [''local_ip'', ''local_port'', ''public_ip'', ''public_port'']"
    by (simp add: utf8_ok.simps code_def)
  with assms show ?thesis by (simp add: signal_payload_eq json_of_unsigned_def)
qed

lemma endpoint_of_payload: "endpoint_from_json fl (signal_payload ep) = Inr ep"
proof -
  have "json_unsigned fl (J_unsigned (ucast p)) = Inr p" for p :: "16 word"
    using json_unsigned_of_unsigned [of fl p] by (simp add: json_of_unsigned_def)
  then show ?thesis
    by (simp add: signal_payload_eq endpoint_from_json_def json_index_mutable_def json_contains_def
        object_find_def json_of_unsigned_def)
qed

lemma poll_rounds_first:
  "poll_once fl cl i w = (Inr (Some ep), w1) \<Longrightarrow> 0 < n \<Longrightarrow> poll_rounds n fl cl i w = (Inr ep, w1)"
  by (cases n) simp_all

lemma poll_finds:
  assumes "serving env c" "i \<noteq> []" "list_all token_char i" "mailbox (directory_of c) i = Some (signal_payload ep)"
  shows "\<exists>c1. poll_for_signal (env_floats env) (direct env) i c = (Inr ep, c1)"
proof -
  let ?req = "http_get (''/signal/'' @ i)"
  from simulate_collect [OF assms(1-3)] obtain res c1 a where 1:
    "process_request env ?req c = Inr (res, c1)"
    "directory_step (Read_mail i) (directory_of c) = (directory_of c1, a)"
    "gives env res (Read_mail i) a"
    unfolding simulates_def by blast
  from 1(2) assms(4) have "a = Mail_answer (signal_payload ep)" by simp
  with 1(3) have "res_status res = 200" "json_parse (env_floats env) (res_body res) = Inr (signal_payload ep)"
    using signal_read_back by auto
  with 1(1) have "poll_once (env_floats env) (direct env) i c = (Inr (Some ep), c1)"
    unfolding poll_once_def direct_def 1(1) by (simp add: endpoint_of_payload)
  from poll_rounds_first [OF this, of 30] show ?thesis by (simp add: poll_for_signal_def)
qed

text \<open>
  The endpoint that a receiver signals is the one that the sender's first poll returns, address and
  port of both networks, whatever else the server answers in between, unless another endpoint is left
  for the same transfer.
\<close>

theorem signalled_endpoint_is_polled:
  assumes "serving env c" "i \<noteq> []" "list_all token_char i" "utf8_ok (ip ep)" "utf8_ok (local_ip ep)"
    "list_all2 (asks env) reqs opers" "list_all (\<lambda>oper. \<not> posts_to i oper) opers"
  shows "\<exists>c1 c2 ress c3. signal_receiver_endpoint (env_floats env) (direct env) i ep c = (Inr (), c1) \<and>
    run_steps (central_step env) reqs c1 = Inr (c2, ress) \<and>
    poll_for_signal (env_floats env) (direct env) i c2 = (Inr ep, c3)"
proof -
  obtain body where body: "json_dump (env_floats env) (signal_payload ep) = Inr body"
    using signal_utf8 [OF assms(4,5)] json_dump_utf8 by blast
  from simulate_leave [OF assms(1-3) signal_read_back [OF body]] obtain res c1 a where 1:
    "process_request env (http_post (''/signal/'' @ i) body) c = Inr (res, c1)" "serving env c1"
    "directory_step (Post_mail i (signal_payload ep)) (directory_of c) = (directory_of c1, a)"
    unfolding simulates_def by blast
  have signal: "signal_receiver_endpoint (env_floats env) (direct env) i ep c = (Inr (), c1)"
    unfolding signal_receiver_endpoint_def body direct_def by (simp only: sum.case 1(1)) simp
  have "directory_of c1 = fst (directory_step (Post_mail i (signal_payload ep)) (directory_of c))"
    using 1(3) by simp
  then have mail: "mailbox (directory_of c1) i = Some (signal_payload ep)" by simp
  obtain c2 ress where 2: "run_steps (central_step env) reqs c1 = Inr (c2, ress)"
    using asked_runs [OF assms(6) 1(2)] by blast
  note run = run_asked [OF assms(6) 1(2) 2]
  have "mailbox (directory_of c2) i = Some (signal_payload ep)" using run(3) [OF assms(7)] mail by simp
  from poll_finds [OF run(1) assms(2,3) this] signal 2 show ?thesis by blast
qed

definition toy_public :: PublicEndpoint where
  "toy_public = \<lparr>ip = ''5.6.7.8'', port = 40000, local_ip = ''10.0.0.9'', local_port = 40001\<rparr>"

lemma signalled_endpoint_is_polled_witness:
  "\<exists>c1 c2 ress c3. signal_receiver_endpoint no_floats (direct toy_central_env) ''m'' toy_public toy_central = (Inr (), c1) \<and>
    run_steps (central_step toy_central_env) toy_requests c1 = Inr (c2, ress) \<and>
    poll_for_signal no_floats (direct toy_central_env) ''m'' c2 = (Inr toy_public, c3)"
proof -
  have "list_all (\<lambda>oper. \<not> posts_to ''m'' oper) toy_operations"
    by (simp add: toy_operations_def posts_to_def)
  from signalled_endpoint_is_polled [OF toy_serving _ _ _ _ toy_asks this, of toy_public] show ?thesis
    by (simp add: toy_public_def token_char_def utf8_ok.simps code_def toy_central_env_def)
qed

section \<open>Polling\<close>

lemma poll_rounds_silent:
  "(\<And>k. k < n \<Longrightarrow> fst (poll_once fl cl i (((\<lambda>w. snd (poll_once fl cl i w)) ^^ k) w)) = Inr None) \<Longrightarrow>
     poll_rounds (n + m) fl cl i w = poll_rounds m fl cl i (((\<lambda>w. snd (poll_once fl cl i w)) ^^ n) w)"
proof (induction n arbitrary: w)
  case (Suc n)
  have "fst (poll_once fl cl i w) = Inr None" using Suc.prems [of 0] by simp
  then have "poll_rounds (Suc n + m) fl cl i w = poll_rounds (n + m) fl cl i (snd (poll_once fl cl i w))"
    by (cases "poll_once fl cl i w") simp
  also have "\<dots> = poll_rounds m fl cl i (((\<lambda>w. snd (poll_once fl cl i w)) ^^ n) (snd (poll_once fl cl i w)))"
  proof (rule Suc.IH)
    fix k assume "k < n"
    then show "fst (poll_once fl cl i (((\<lambda>w. snd (poll_once fl cl i w)) ^^ k) (snd (poll_once fl cl i w)))) = Inr None"
      using Suc.prems [of "Suc k"] by (simp add: funpow_Suc_right del: funpow.simps)
  qed
  finally show ?case by (simp add: funpow_Suc_right del: funpow.simps)
qed simp

text \<open>
  Polling ends after at most 30 requests: with the endpoint of the first answer that holds
  one, and with an exception when none of the 30 did.
\<close>

theorem polling_ends:
  fixes cl :: "'w client"
  assumes "\<And>k. k < n \<Longrightarrow> fst (poll_once fl cl i (((\<lambda>w. snd (poll_once fl cl i w)) ^^ k) w)) = Inr None"
    "n \<le> 30" "n < 30 \<Longrightarrow> poll_once fl cl i (((\<lambda>w. snd (poll_once fl cl i w)) ^^ n) w) = (Inr (Some ep), w1)"
  shows "poll_for_signal fl cl i w =
    (if n < 30 then (Inr ep, w1)
     else (Inl (Throw (Runtime_Error ''No Signal Received! Timed out'')),
           ((\<lambda>w. snd (poll_once fl cl i w)) ^^ 30) w))"
proof (cases "n < 30")
  case True
  then obtain m where m: "30 = n + Suc m" using less_iff_Suc_add by auto
  show ?thesis
    using poll_rounds_silent [OF assms(1), where m = "Suc m"] assms(3) [OF True] True
    by (simp add: poll_for_signal_def m)
next
  case False
  with assms(2) have "n = 30 + 0" by simp
  with poll_rounds_silent [OF assms(1), where m = 0] show ?thesis by (simp add: poll_for_signal_def)
qed

lemma polling_ends_witness:
  "poll_for_signal no_floats (\<lambda>req (w :: nat). (None, Suc w)) ''m'' 0 =
     (Inl (Throw (Runtime_Error ''No Signal Received! Timed out'')), 30)"
proof -
  let ?cl = "\<lambda>req (w :: nat). (None :: response option, Suc w)"
  have once: "poll_once no_floats ?cl ''m'' w = (Inr None, Suc w)" for w by (simp add: poll_once_def)
  have "((\<lambda>w. snd (poll_once no_floats ?cl ''m'' w)) ^^ k) 0 = k" for k by (induction k) (simp_all add: once)
  then show ?thesis
    using polling_ends [of 30 no_floats ?cl "''m''" 0] by (simp add: once)
qed

end
