(* ===== verification/Announcement.thy ===== *)
theory Announcement
  imports Cli Rendezvous_Properties
begin

text \<open>
  What \<open>send\<close> announces: the tokens, hashes and addresses the program makes are ASCII texts of the
  shapes the central server and the other side rely on, so a file is registered as soon as its name is
  UTF-8 and the database stores it.
\<close>

section \<open>The texts the program makes\<close>

definition ascii :: "string \<Rightarrow> bool" where
  "ascii s = list_all (\<lambda>c. code c < 0x80) s"

lemma ascii_simps [simp]:
  "ascii []" "ascii (c # s) = (code c < 0x80 \<and> ascii s)" "ascii (s @ t) = (ascii s \<and> ascii t)"
  by (simp_all add: ascii_def)

lemma ascii_utf8: "ascii s \<Longrightarrow> utf8_ok s"
  by (induction s) (simp_all add: utf8_ok.simps)

lemma digit_ascii: "is_digit c \<Longrightarrow> code c < 0x80" "is_digit c \<Longrightarrow> token_char c"
  by (auto simp: is_digit_def code_def token_char_def)

lemma hex_ascii: "is_hex_char c \<Longrightarrow> code c < 0x80" "is_hex_char c \<Longrightarrow> token_char c"
  using digit_ascii by (auto simp: is_hex_char_def code_def token_char_def)

lemma number_ascii [simp]: "ascii (to_string n)"
  using to_string_digits [of n] digit_ascii by (auto simp: ascii_def list_all_iff)

lemma hex_setw_ascii [simp]: "ascii (hex_setw w n)" "list_all token_char (hex_setw w n)"
  using hex_setw_chars [of w n] hex_ascii by (auto simp: ascii_def list_all_iff)

lemma hex_digest_ascii [simp]: "ascii (hex_digest h)"
  using hex_setw_ascii(1) by (fastforce simp: hex_digest_def ascii_def list_all_iff)

lemma token_ascii [simp]:
  "ascii (generate_uuid_token r0 r1 r2 r3 r4 r5)" "list_all token_char (generate_uuid_token r0 r1 r2 r3 r4 r5)"
  "generate_uuid_token r0 r1 r2 r3 r4 r5 \<noteq> []"
  by (simp_all add: generate_uuid_token_def code_def token_char_def)

lemma dotted_quad_ascii [simp]: "ascii (dotted_quad a)"
  by (simp add: dotted_quad_def code_def)

lemma number_chars: "c \<in> set (to_string n) \<Longrightarrow> is_digit c"
  using to_string_digits [of n] by (simp add: list_all_iff)

lemma dotted_quad_packs [simp]: "CHR '';'' \<notin> set (dotted_quad a)"
  using number_chars [of "CHR '';''"] by (auto simp: dotted_quad_def is_digit_def)

section \<open>What STUN can answer\<close>

lemma stun_scan_quad: "stun_scan buf n i = Inr (Some (x, p)) \<Longrightarrow> \<exists>a. x = dotted_quad a"
proof (induction buf n i rule: stun_scan.induct)
  case (1 buf n i)
  show ?case
  proof (cases "i + 8 \<le> n")
    case True
    with "1.prems" obtain t l where h: "read_16 buf i = Inr t" "read_16 buf (i + 2) = Inr l"
      by (subst (asm) stun_scan.simps) (auto simp: bind_result_Inr_iff)
    show ?thesis
    proof (cases "t = 0x20 \<and> 8 \<le> l")
      case found: True
      with True h "1.prems" show ?thesis
        by (subst (asm) stun_scan.simps) (auto simp: bind_result_Inr_iff mapped_address_def)
    next
      case False
      then have "stun_scan buf n i = stun_scan buf n (next_attribute i l)"
        using True h by (subst stun_scan.simps) auto
      with "1.IH" [OF True False] "1.prems" show ?thesis by simp
    qed
  next
    case False
    with "1.prems" show ?thesis by (subst (asm) stun_scan.simps) simp
  qed
qed

lemma public_endpoint_quad:
  assumes "public_endpoint stun = Inr ep"
  obtains a where "ip ep = dotted_quad a"
proof -
  from assms obtain x p buf n where "stun_scan buf n 20 = Inr (Some (x, p))" "ip ep = x"
    by (auto simp: public_endpoint_def get_public_endpoint_for_socket_def bind_result_Inr_iff
        split: option.splits prod.splits)
  with stun_scan_quad that show thesis by blast
qed

section \<open>The announced transfer\<close>

lemma described:
  assumes "describe_transfer H inp path = Inr t"
  obtains h n local ip where "compute_file_hash H (fs_open (si_files inp) path) = Inr h"
    "fs_size (si_files inp) path = Inr n" "si_local_address inp = Inr local"
    "t = \<lparr>transfer_id = new_token inp, sender_ip = ip, sender_port = 5173, sender_local_ip = local,
          sender_local_port = 5173, protocol = ''udp'', file_name = filename path, file_size = n,
          file_hash = h, token = new_token inp\<rparr>"
    "ip = ''127.0.0.1'' \<or> (\<exists>a. ip = dotted_quad a)"
proof -
  let ?public = "catch_exn (bind_result (public_endpoint (si_stun inp)) (\<lambda>ep. Inr (ip ep))) (\<lambda>_. Inr ''127.0.0.1'')"
  from assms obtain h n public local where 1: "compute_file_hash H (fs_open (si_files inp) path) = Inr h"
    "fs_size (si_files inp) path = Inr n" "?public = Inr public" "si_local_address inp = Inr local"
    "t = \<lparr>transfer_id = new_token inp, sender_ip = public, sender_port = 5173, sender_local_ip = local,
          sender_local_port = 5173, protocol = ''udp'', file_name = filename path, file_size = n,
          file_hash = h, token = new_token inp\<rparr>"
    by (auto simp: describe_transfer_def describe_file_def describe_network_def bind_result_Inr_iff TRANSFERS_init_def)
  moreover have "public = ''127.0.0.1'' \<or> (\<exists>a. public = dotted_quad a)"
  proof (cases "public_endpoint (si_stun inp)")
    case (Inl e)
    with 1(3) show ?thesis by (cases e) auto
  next
    case (Inr ep)
    with 1(3) public_endpoint_quad [OF Inr] show ?thesis by auto
  qed
  ultimately show thesis by (intro that)
qed

text \<open>What is asked of the file, the local address and the database.\<close>

definition storable_send :: "central_env \<Rightarrow> send_inputs \<Rightarrow> string \<Rightarrow> bool" where
  "storable_send env inp path \<longleftrightarrow>
     utf8_ok (filename path) \<and>
     (\<exists>n. fs_size (si_files inp) path = Inr n \<and> uint n < 2 ^ 63) \<and>
     (\<exists>local. si_local_address inp = Inr local \<and> local \<noteq> [] \<and> ascii local \<and> CHR '':'' \<notin> set local) \<and>
     storable_text (env_postgres env) (filename path) \<and>
     (\<forall>s. ascii s \<longrightarrow> storable_text (env_postgres env) s)"

lemma described_registrable:
  assumes "describe_transfer H inp path = Inr t" "storable_send env inp path"
  shows "registrable env t" "transfer_id t = new_token inp"
proof -
  obtain h n local public where t: "compute_file_hash H (fs_open (si_files inp) path) = Inr h"
    "fs_size (si_files inp) path = Inr n" "si_local_address inp = Inr local"
    "t = \<lparr>transfer_id = new_token inp, sender_ip = public, sender_port = 5173, sender_local_ip = local,
          sender_local_port = 5173, protocol = ''udp'', file_name = filename path, file_size = n,
          file_hash = h, token = new_token inp\<rparr>"
    "public = ''127.0.0.1'' \<or> (\<exists>a. public = dotted_quad a)"
    using described [OF assms(1)] .
  have h: "ascii h" using t(1) by (auto simp: compute_file_hash_def Let_def split: if_splits prod.splits)
  have public: "ascii public" "CHR '';'' \<notin> set public" using t(5) by (auto simp: code_def)
  have tok: "ascii (new_token inp)" "list_all token_char (new_token inp)" "new_token inp \<noteq> []"
    by (simp_all add: new_token_def)
  have local: "local \<noteq> []" "ascii local" "CHR '':'' \<notin> set local" "uint n < 2 ^ 63" "utf8_ok (filename path)"
    "storable_text (env_postgres env) (filename path)"
    "\<And>s. ascii s \<Longrightarrow> storable_text (env_postgres env) s"
    using assms(2) t(2,3) by (auto simp: storable_send_def)
  have "ascii (pack_sender_ip t)" "ascii ''udp''" using public local t(4) by (auto simp: pack_sender_ip_def code_def)
  then show "registrable env t" using h public tok local t(4)
    by (simp add: registrable_def packable_def payload_utf8_def payload_of_transfer_def storable_def ascii_utf8)
  show "transfer_id t = new_token inp" using t(4) by simp
qed

end
