(* ===== verification/Toy_Codec.thy ===== *)
theory Toy_Codec
  imports Wire Session_Crypto
begin

text \<open>
  A small wire format that satisfies the laws asked of the generated serialisers, for the
  witnesses: a tag byte, numbers in eight bytes, identifiers behind a length byte. Handshake
  packets carry only what the witnesses look at.
\<close>

fun toy_ser :: "ControlPacket \<Rightarrow> string" where
  "toy_ser CP_not_set = []"
| "toy_ser (CP_get g) = CHR ''G'' # get_transfer_id g"
| "toy_ser (CP_ack a) = CHR ''A'' # le_bytes (next_offset a) @ ack_transfer_id a"
| "toy_ser (CP_data d) =
     CHR ''D'' # le_bytes (data_offset d)
       @ char_of (length (data_transfer_id d)) # data_transfer_id d @ payload d"
| "toy_ser (CP_done d) =
     CHR ''F'' # le_bytes (final_size d)
       @ char_of (length (done_transfer_id d)) # done_transfer_id d @ done_file_hash d"
| "toy_ser (CP_error e) = CHR ''E'' # te_message e"

definition toy_split :: "string \<Rightarrow> string \<times> string" where
  "toy_split s = (let n = of_char (hd s) in (take n (tl s), drop n (tl s)))"

fun toy_parse :: "string \<Rightarrow> ControlPacket option" where
  "toy_parse [] = Some CP_not_set"
| "toy_parse (t # s) =
     (if t = CHR ''G'' then Some (CP_get \<lparr>get_transfer_id = s\<rparr>)
      else if t = CHR ''A'' then
        Some (CP_ack \<lparr>ack_transfer_id = drop 8 s, next_offset = of_nat (le_value (take 8 s))\<rparr>)
      else if t = CHR ''D'' then
        (let (i, p) = toy_split (drop 8 s)
         in Some (CP_data \<lparr>data_transfer_id = i, data_offset = of_nat (le_value (take 8 s)), payload = p\<rparr>))
      else if t = CHR ''F'' then
        (let (i, p) = toy_split (drop 8 s)
         in Some (CP_done \<lparr>done_transfer_id = i, final_size = of_nat (le_value (take 8 s)),
                          done_file_hash = p\<rparr>))
      else if t = CHR ''E'' then
        Some (CP_error \<lparr>te_transfer_id = [], te_code = ERROR_CODE_UNSPECIFIED, te_message = s\<rparr>)
      else None)"

definition no_identity :: PeerIdentity where
  "no_identity = \<lparr>long_term_public_key = [], ephemeral_public_key = []\<rparr>"

fun toy_ser_handshake :: "HandshakePacket \<Rightarrow> string" where
  "toy_ser_handshake HP_not_set = []"
| "toy_ser_handshake (HP_client_hello h) = CHR ''C'' # ch_token h"
| "toy_ser_handshake (HP_server_hello h) = CHR ''S'' # sh_transfer_id h"
| "toy_ser_handshake (HP_handshake_finish f) = CHR ''N'' # hf_transfer_id f"
| "toy_ser_handshake (HP_error e) = CHR ''E'' # he_message e"

fun toy_parse_handshake :: "string \<Rightarrow> HandshakePacket option" where
  "toy_parse_handshake [] = Some HP_not_set"
| "toy_parse_handshake (t # s) =
     (if t = CHR ''C'' then
        Some (HP_client_hello \<lparr>ch_version = PROTOCOL_VERSION_1, ch_transfer_id = s, ch_token = s,
          ch_receiver_nonce = [], ch_receiver_identity = no_identity, ch_receiver_signature = []\<rparr>)
      else if t = CHR ''S'' then
        Some (HP_server_hello \<lparr>sh_version = PROTOCOL_VERSION_1, sh_transfer_id = s,
          sh_sender_nonce = [], sh_sender_identity = no_identity, sh_sender_signature = []\<rparr>)
      else if t = CHR ''E'' then
        Some (HP_error \<lparr>he_code = ERROR_CODE_UNSPECIFIED, he_message = s\<rparr>)
      else None)"

definition toy_codec :: codec where
  "toy_codec =
     \<lparr>ser_handshake = (\<lambda>p. (True, toy_ser_handshake p)), parse_handshake = toy_parse_handshake,
      ser_control = (\<lambda>p. (True, toy_ser p)), parse_control = toy_parse\<rparr>"

lemma toy_codec_simps [simp]:
  "ser_handshake toy_codec p = (True, toy_ser_handshake p)"
  "parse_handshake toy_codec s = toy_parse_handshake s"
  "ser_control toy_codec q = (True, toy_ser q)"
  "parse_control toy_codec s = toy_parse s"
  by (simp_all add: toy_codec_def)

lemma toy_codec_ok: "codec_ok toy_codec"
  unfolding codec_ok_def
proof (intro allI impI)
  fix p assume p: "transfer_packet p"
  then show "delivers toy_codec p"
    by (cases p)
       (auto simp: delivers_def ascii_upto_def toy_split_def le_value_bytes PAYLOAD_SIZE_eq
          MAX_PACKET_SIZE_def)
qed

end
