(* ===== verification/Receiver_Proofs.thy ===== *)
theory Receiver_Proofs
  imports Receiver Toy_Codec "HOL-Library.Sublist"
begin

text \<open>
  Properties of the receiving side on its own: what it writes, when it gives up, whom it listens
  to, when it accepts a file, and what completes its handshake.
\<close>

section \<open>One turn of the loop\<close>

lemma receive_step_none:
  "recv_with_timeout ev = None \<Longrightarrow>
     receive_step env ev st = Inr (Continue, st\<lparr>retries := Suc (retries st)\<rparr>,
       if current_offset st = 0 then [(re_get_bytes env, re_peer env)] else ack_now env st)"
  by (simp add: receive_step_def ack_now_def Let_def)

lemma receive_step_stranger:
  "sender \<noteq> re_peer env \<Longrightarrow> receive_step env (Datagram rx sender) st = Inr (Continue, st, [])"
  by (simp add: receive_step_def)

lemma receive_step_packet:
  "length rx \<le> MAX_PACKET_SIZE \<Longrightarrow> parse_control (re_codec env) rx = Some p \<Longrightarrow>
     receive_step env (Datagram rx (re_peer env)) st =
       (case p of
          CP_data data \<Rightarrow>
            Inr (Continue, fst (on_data env data (st\<lparr>retries := 0\<rparr>)), snd (on_data env data (st\<lparr>retries := 0\<rparr>)))
        | CP_done done \<Rightarrow> on_done env done (st\<lparr>retries := 0\<rparr>)
        | CP_error _ \<Rightarrow> Inr (Return False, st\<lparr>retries := 0\<rparr>, [])
        | _ \<Rightarrow> Inr (Continue, st\<lparr>retries := 0\<rparr>, []))"
  by (simp add: receive_step_def case_prod_unfold split: ControlPacket.splits)

text \<open>The ways a turn can go, for a packet that is not a timeout.\<close>

lemma receive_step_cases:
  assumes "receive_step env ev st = Inr (status, st', out)"
  obtains (timeout) "recv_with_timeout ev = None" "status = Continue"
      "st' = st\<lparr>retries := Suc (retries st)\<rparr>"
  | (idle) "status = Continue" "st' = st \<or> st' = st\<lparr>retries := 0\<rparr>" "out = []"
  | (data) data where "status = Continue" "on_data env data (st\<lparr>retries := 0\<rparr>) = (st', out)"
      "\<exists>rx. recv_with_timeout ev = Some (rx, re_peer env) \<and> parse_control (re_codec env) rx = Some (CP_data data)"
  | (finished) d where "on_done env d (st\<lparr>retries := 0\<rparr>) = Inr (status, st', out)"
  | (failed) "status = Return False" "st' = st\<lparr>retries := 0\<rparr>"
proof (cases "recv_with_timeout ev")
  case None
  with assms that(1) show ?thesis by (auto simp: receive_step_none)
next
  case (Some p)
  obtain rx sender where p: "p = (rx, sender)" by fastforce
  show ?thesis
  proof (cases "sender = re_peer env")
    case False
    with assms Some p that(2) show ?thesis by (auto simp: receive_step_def)
  next
    case True
    show ?thesis
    proof (cases "parse_control (re_codec env) rx")
      case None
      with assms Some p True that(2) show ?thesis by (auto simp: receive_step_def Let_def)
    next
      case (Some q)
      with assms \<open>recv_with_timeout ev = Some p\<close> p True that(2-5) show ?thesis
        by (cases q) (auto simp: receive_step_def Let_def split: prod.splits)
    qed
  qed
qed

lemma on_done_cases:
  assumes "on_done env d st = Inr (status, st', out)"
  shows "st' = st"
    and "status = Return True \<Longrightarrow>
      done_transfer_id d = re_transfer_id env \<and> current_offset st = final_size d
      \<and> compute_file_hash (re_sha env) (out_file st) = Inr (re_expected_hash env)
      \<and> out = ack_now env st"
  using assms by (auto simp: on_done_def bind_result_Inr_iff split: if_splits)

lemma on_data_retries [simp]: "retries (fst (on_data env d st)) = retries st"
  by (simp add: on_data_def write_chunk_def Let_def)

section \<open>The output file\<close>

text \<open>
  While its stream is good, the output holds exactly the bytes before the current offset. A parser
  never makes a payload longer than its input.
\<close>

definition parse_bounded :: "codec \<Rightarrow> bool" where
  "parse_bounded c = (\<forall>rx d. parse_control c rx = Some (CP_data d) \<longrightarrow> length (payload d) \<le> length rx)"

definition output_inv :: "receiver \<Rightarrow> bool" where
  "output_inv st =
     (out_good st \<longrightarrow> (\<exists>c. out_file st = Some c \<and> length c = unat (current_offset st)))"

lemma receiver_init_inv: "output_inv (receiver_init can_open disk)"
  by (simp add: output_inv_def receiver_init_def)

text \<open>
  A chunk is written only at the end of the file, so what is there is kept: the file before is a
  prefix of the file after.
\<close>

definition extends :: "receiver \<Rightarrow> receiver \<Rightarrow> bool" where
  "extends st st' =
     (out_file st' = out_file st \<or>
      (\<exists>c p. out_file st = Some c \<and> out_file st' = Some (c @ p)))"

lemma extends_refl [simp]: "extends st st"
  by (simp add: extends_def)

lemma extends_trans: "extends a b \<Longrightarrow> extends b c \<Longrightarrow> extends a c"
  unfolding extends_def by (elim disjE exE conjE) auto

lemma on_data_output:
  assumes "output_inv st" "length (payload d) \<le> MAX_PACKET_SIZE"
  shows "output_inv (fst (on_data env d st)) \<and> extends st (fst (on_data env d st))"
proof (cases "data_transfer_id d = re_transfer_id env \<and> data_offset d = current_offset st
    \<and> out_good st \<and> unat (data_offset d) < 2 ^ 63")
  case True
  then obtain c where c: "out_file st = Some c" "length c = unat (current_offset st)"
    using assms(1) by (auto simp: output_inv_def)
  from True have "unat (current_offset st) < 2 ^ 63" by metis
  then have "unat (current_offset st) + length (payload d) < 2 ^ 64"
    using assms(2) by (simp add: MAX_PACKET_SIZE_def)
  then have "unat (current_offset st + of_nat (length (payload d)) :: 64 word)
      = unat (current_offset st) + length (payload d)"
    by (simp add: unat_word_ariths unat_of_nat take_bit_eq_mod)
  with True c show ?thesis
    by (simp add: on_data_def write_chunk_def output_inv_def extends_def write_at_end' Let_def)
next
  case False
  with assms(1) show ?thesis
    by (auto simp: on_data_def write_chunk_def output_inv_def extends_def Let_def)
qed

lemma output_inv_retries [simp]: "output_inv (st\<lparr>retries := n\<rparr>) = output_inv st"
  by (simp add: output_inv_def)

lemma extends_retries [simp]:
  "extends (st\<lparr>retries := n\<rparr>) st' = extends st st'" "extends st (st'\<lparr>retries := n\<rparr>) = extends st st'"
  by (simp_all add: extends_def)

lemma recv_length: "recv_with_timeout ev = Some (rx, s) \<Longrightarrow> length rx \<le> MAX_PACKET_SIZE"
  by (cases ev) auto

lemma receive_step_output:
  assumes "parse_bounded (re_codec env)" "output_inv st" "receive_step env ev st = Inr (status, st', out)"
  shows "output_inv st' \<and> extends st st'"
  using assms(3)
proof (cases rule: receive_step_cases)
  case (data d)
  then obtain rx where rx: "recv_with_timeout ev = Some (rx, re_peer env)"
    "parse_control (re_codec env) rx = Some (CP_data d)" by blast
  with assms(1) have "length (payload d) \<le> length rx" by (simp add: parse_bounded_def)
  also have "\<dots> \<le> MAX_PACKET_SIZE" using rx(1) by (rule recv_length)
  finally have "length (payload d) \<le> MAX_PACKET_SIZE" .
  from on_data_output [OF _ this, of "st\<lparr>retries := 0\<rparr>" env] assms(2) data(2) show ?thesis by simp
next
  case (finished d)
  then show ?thesis using assms(2) on_done_cases(1) [OF finished] by simp
qed (use assms(2) in auto)

lemma receive_loop_Cons_cases:
  assumes "receive_loop env (ev # evs) st = Inr (res, st', out)"
  obtains (given_up) "\<not> retries st < MAX_RETRIES" "res = Some False" "st' = st" "out = []"
  | (stop) b where "retries st < MAX_RETRIES" "receive_step env ev st = Inr (Return b, st', out)" "res = Some b"
  | (more) u o1 o2 where "retries st < MAX_RETRIES" "receive_step env ev st = Inr (Continue, u, o1)"
      "receive_loop env evs u = Inr (res, st', o2)" "out = o1 @ o2"
proof (cases "retries st < MAX_RETRIES")
  case True
  with assms obtain status u o1 where step: "receive_step env ev st = Inr (status, u, o1)"
    by (cases "receive_step env ev st") auto
  show ?thesis
  proof (cases status)
    case Continue
    with assms True step obtain o2 where "receive_loop env evs u = Inr (res, st', o2)" "out = o1 @ o2"
      by (auto simp: bind_result_Inr_iff)
    with Continue step True that(3) show ?thesis by blast
  next
    case (Return b)
    with assms True step have "st' = u" "out = o1" "res = Some b" by auto
    with Return step True that(2) show ?thesis by blast
  qed
next
  case False
  with assms have "res = Some False" "st' = st" "out = []" by simp_all
  with False show ?thesis by (rule that(1))
qed

lemma receive_loop_output:
  assumes "parse_bounded (re_codec env)"
  shows "output_inv st \<Longrightarrow> receive_loop env evs st = Inr (res, st', out) \<Longrightarrow> output_inv st' \<and> extends st st'"
proof (induction evs arbitrary: st out)
  case (Cons ev evs)
  from Cons.prems(2) show ?case
  proof (cases rule: receive_loop_Cons_cases)
    case (stop b)
    then show ?thesis using receive_step_output [OF assms Cons.prems(1)] by blast
  next
    case (more u o1 o2)
    with receive_step_output [OF assms Cons.prems(1)] have "output_inv u" "extends st u" by blast+
    with Cons.IH more(3) show ?thesis using extends_trans by blast
  qed (use Cons.prems in simp)
qed simp

section \<open>Results\<close>

lemma receive_step_true:
  assumes "receive_step env ev st = Inr (Return True, st', out)"
  shows "compute_file_hash (re_sha env) (out_file st') = Inr (re_expected_hash env)
     \<and> out = ack_now env st'"
  using assms
proof (cases rule: receive_step_cases)
  case (finished d)
  with on_done_cases [OF finished] show ?thesis by simp
qed auto

lemma receive_loop_true:
  "receive_loop env evs st = Inr (Some True, st', out) \<Longrightarrow>
     compute_file_hash (re_sha env) (out_file st') = Inr (re_expected_hash env)
     \<and> (\<exists>o1. out = o1 @ ack_now env st')"
proof (induction evs arbitrary: st out)
  case Nil
  then show ?case by (simp split: if_splits)
next
  case (Cons ev evs)
  from Cons.prems show ?case
  proof (cases rule: receive_loop_Cons_cases)
    case (stop b)
    then show ?thesis using receive_step_true by fastforce
  next
    case (more u o1 o2)
    from Cons.IH [OF more(3)] more(4) show ?thesis by auto
  qed simp
qed

text \<open>
  The loop only looks at its peer: a datagram from elsewhere might as well not have arrived. (It
  does not even count as a timeout.)
\<close>

definition from_stranger :: "endpoint \<Rightarrow> socket_event \<Rightarrow> bool" where
  "from_stranger peer ev = (case ev of Datagram _ sender \<Rightarrow> sender \<noteq> peer | _ \<Rightarrow> False)"

lemma receive_loop_given_up:
  "\<not> retries st < MAX_RETRIES \<Longrightarrow> receive_loop env evs st = Inr (Some False, st, [])"
  by (cases evs) simp_all

lemma receive_loop_stranger:
  "from_stranger (re_peer env) ev \<Longrightarrow> receive_loop env (ev # evs) st = receive_loop env evs st"
  by (cases ev)
     (auto simp: from_stranger_def receive_step_stranger receive_loop_given_up bind_result_def
       split: sum.splits)

text \<open>A run of timeouts, each answered with a retransmission.\<close>

definition probe :: "'c receive_env \<Rightarrow> receiver \<Rightarrow> datagrams" where
  "probe env st = (if current_offset st = 0 then [(re_get_bytes env, re_peer env)] else ack_now env st)"

lemma probe_retries [simp]: "probe env (st\<lparr>retries := n\<rparr>) = probe env st"
  by (simp add: probe_def ack_now_def)

lemma receive_loop_timeouts:
  "list_all (\<lambda>ev. recv_with_timeout ev = None) evs \<Longrightarrow> retries st + length evs \<le> MAX_RETRIES \<Longrightarrow>
     receive_loop env evs st =
       Inr (if retries st + length evs < MAX_RETRIES then None else Some False,
            st\<lparr>retries := retries st + length evs\<rparr>,
            concat (replicate (length evs) (probe env st)))"
proof (induction evs arbitrary: st)
  case (Cons ev evs)
  then show ?case
    by (simp add: receive_step_none probe_def [symmetric])
qed simp

section \<open>A concrete transfer for the witnesses\<close>

definition toy_peer :: endpoint where
  "toy_peer = Endpoint (V4 2) 5173"

definition toy_renv :: "string receive_env" where
  "toy_renv = \<lparr>re_codec = toy_codec, re_sha = toy_sha, re_peer = toy_peer, re_transfer_id = ''tok'',
     re_expected_hash = hex_digest (sha_of toy_sha ''abc''), re_get_bytes = ''Gtok''\<rparr>"

definition toy_data :: ControlPacket where
  "toy_data = CP_data \<lparr>data_transfer_id = ''tok'', data_offset = 0, payload = ''abc''\<rparr>"

definition toy_done :: ControlPacket where
  "toy_done = CP_done \<lparr>done_transfer_id = ''tok'', final_size = 3, done_file_hash = []\<rparr>"

lemma toy_renv_simps [simp]:
  "re_codec toy_renv = toy_codec" "re_sha toy_renv = toy_sha" "re_peer toy_renv = toy_peer"
  "re_transfer_id toy_renv = ''tok''"
  "re_expected_hash toy_renv = hex_digest (sha_of toy_sha ''abc'')" "re_get_bytes toy_renv = ''Gtok''"
  by (simp_all add: toy_renv_def)

lemma toy_parse_bounded: "parse_bounded toy_codec"
  unfolding parse_bounded_def
proof (intro allI impI)
  fix rx d assume "parse_control toy_codec rx = Some (CP_data d)"
  then show "length (payload d) \<le> length rx"
    by (cases rx) (auto simp: toy_split_def Let_def split: if_splits)
qed

lemma toy_packets:
  "parse_control toy_codec (toy_ser toy_data) = Some toy_data"
  "parse_control toy_codec (toy_ser toy_done) = Some toy_done"
  "length (toy_ser toy_data) \<le> MAX_PACKET_SIZE" "length (toy_ser toy_done) \<le> MAX_PACKET_SIZE"
  by (auto simp: toy_data_def toy_done_def toy_split_def le_value_bytes MAX_PACKET_SIZE_def)

definition toy_received :: receiver where
  "toy_received = \<lparr>out_good = True, out_file = Some ''abc'', current_offset = 3, retries = 0\<rparr>"

lemma toy_step_data:
  "receive_step toy_renv (Datagram (toy_ser toy_data) toy_peer) (receiver_init True None)
     = Inr (Continue, toy_received, ack_now toy_renv toy_received)"
proof -
  have "on_data toy_renv \<lparr>data_transfer_id = ''tok'', data_offset = 0, payload = ''abc''\<rparr>
          ((receiver_init True None)\<lparr>retries := 0\<rparr>) = (toy_received, ack_now toy_renv toy_received)"
    by (simp add: on_data_def write_chunk_def write_at_def resize_def receiver_init_def
         toy_received_def Let_def)
  then show ?thesis
    using receive_step_packet [OF toy_packets(3), of toy_renv toy_data "receiver_init True None"]
    by (simp only: toy_renv_simps toy_packets simp_thms)
       (simp add: toy_data_def [abs_def] del: toy_ser.simps)
qed

lemma toy_step_done:
  "receive_step toy_renv (Datagram (toy_ser toy_done) toy_peer) toy_received
     = Inr (Return True, toy_received, ack_now toy_renv toy_received)"
proof -
  have "on_done toy_renv \<lparr>done_transfer_id = ''tok'', final_size = 3, done_file_hash = []\<rparr>
          (toy_received\<lparr>retries := 0\<rparr>) = Inr (Return True, toy_received, ack_now toy_renv toy_received)"
    by (simp add: on_done_def toy_received_def compute_file_hash_eq [OF toy_sha_stream])
  then show ?thesis
    using receive_step_packet [OF toy_packets(4), of toy_renv toy_done "toy_received"]
    by (simp only: toy_renv_simps toy_packets simp_thms)
       (simp add: toy_done_def [abs_def] del: toy_ser.simps)
qed

definition toy_events :: "socket_event list" where
  "toy_events = [Datagram (toy_ser toy_data) toy_peer, Datagram (toy_ser toy_done) toy_peer]"

lemma toy_receive_loop:
  "receive_loop toy_renv toy_events (receiver_init True None) =
     Inr (Some True, toy_received, ack_now toy_renv toy_received @ ack_now toy_renv toy_received)"
  by (simp add: toy_events_def toy_step_data toy_step_done)
     (simp add: receiver_init_def toy_received_def MAX_RETRIES_def)

text \<open>What a receiver that reports success has on its disk.\<close>

lemma received_hash:
  assumes "sha_stream (re_sha env)"
    and "receive_file env can_open disk evs = Inr (Some True, st, out)"
  shows "\<exists>contents o1. out_file st = Some contents
     \<and> hex_digest (sha_of (re_sha env) contents) = re_expected_hash env
     \<and> out = o1 @ ack_now env st"
proof -
  from assms(2) obtain o2 where
    l: "receive_loop env evs (receiver_init can_open disk) = Inr (Some True, st, o2)"
    and out: "out = (re_get_bytes env, re_peer env) # o2"
    by (auto simp: receive_file_def bind_result_Inr_iff)
  from receive_loop_true [OF l] obtain o1 where
    h: "compute_file_hash (re_sha env) (out_file st) = Inr (re_expected_hash env)"
    and o1: "o2 = o1 @ ack_now env st" by blast
  then obtain contents where "out_file st = Some contents"
    using compute_file_hash_eq [OF assms(1)] by (cases "out_file st") auto
  with h out o1 show ?thesis
    using compute_file_hash_eq [OF assms(1), of contents] by fastforce
qed

section \<open>Properties\<close>

text \<open>
  C6: A file is reported as received only if it is on the disk and its contents have the SHA-256
  hash announced by the central server; the last thing sent is then the final acknowledgement.
\<close>

theorem accepted_file_has_hash:
  assumes "sha_stream (re_sha env)"
    and "receive_file env can_open disk evs = Inr (Some True, st, out)"
  shows "\<exists>contents o1. out_file st = Some contents
     \<and> hex_digest (sha_of (re_sha env) contents) = re_expected_hash env
     \<and> out = o1 @ ack_now env st"
  using received_hash [OF assms] .

theorem accepted_file_has_hash_witness:
  "\<exists>contents o1. out_file toy_received = Some contents
     \<and> hex_digest (sha_of toy_sha contents) = hex_digest (sha_of toy_sha ''abc'')
     \<and> (''Gtok'', toy_peer) # ack_now toy_renv toy_received @ ack_now toy_renv toy_received
         = o1 @ ack_now toy_renv toy_received"
proof -
  have "receive_file toy_renv True None toy_events = Inr (Some True, toy_received,
      (''Gtok'', toy_peer) # ack_now toy_renv toy_received @ ack_now toy_renv toy_received)"
    by (simp add: receive_file_def toy_receive_loop)
  from accepted_file_has_hash [OF _ this] show ?thesis using toy_sha_stream by simp
qed

text \<open>
  C20: The output file only ever grows at its end: whatever datagrams arrive, from whomever and
  in whatever order, what is written at one moment is a prefix of what is there later, and as
  long as the stream is good its length is the current offset.
\<close>

theorem output_only_appended:
  assumes "parse_bounded (re_codec env)" "output_inv st" "out_good st"
    and "receive_loop env evs st = Inr (res, st', out)"
  shows "\<exists>c p. out_file st = Some c \<and> out_file st' = Some (c @ p)
     \<and> (out_good st' \<longrightarrow> length (c @ p) = unat (current_offset st'))"
proof -
  from assms(2,3) obtain c where c: "out_file st = Some c" by (auto simp: output_inv_def)
  from receive_loop_output [OF assms(1,2,4)] have i: "output_inv st'" "extends st st'" by blast+
  then obtain p where "out_file st' = Some (c @ p)" using c by (force simp: extends_def)
  with c i show ?thesis by (auto simp: output_inv_def)
qed

theorem output_only_appended_witness:
  "\<exists>c p. out_file (receiver_init True None) = Some c \<and> out_file toy_received = Some (c @ p)
     \<and> (out_good toy_received \<longrightarrow> length (c @ p) = unat (current_offset toy_received))"
  by (rule output_only_appended [OF _ _ _ toy_receive_loop])
     (simp_all add: toy_parse_bounded receiver_init_inv, simp add: receiver_init_def)

text \<open>
  C32: Datagrams from other endpoints than the peer have no effect at all: removing them from
  the events leaves result, file and everything sent unchanged.
\<close>

theorem strangers_ignored:
  "receive_loop env (filter (\<lambda>ev. \<not> from_stranger (re_peer env) ev) evs) st = receive_loop env evs st"
proof (induction evs arbitrary: st)
  case (Cons ev evs)
  show ?case
  proof (cases "from_stranger (re_peer env) ev")
    case True
    with Cons show ?thesis by (simp only: receive_loop_stranger filter.simps simp_thms if_True if_False)
  next
    case False
    then show ?thesis
      by (auto simp: Cons bind_result_def split: sum.splits loop_status.splits)
  qed
qed simp

text \<open>
  C33: The receiver gives up after exactly MAX_RETRIES (20) silent waits in a row: fewer leave
  it waiting, the twentieth ends it with failure. Each wait is answered with one retransmission
  of the request or of the last acknowledgement, and the file is not touched.
\<close>

theorem gives_up_after_timeouts:
  assumes "retries st = 0" "list_all (\<lambda>ev. recv_with_timeout ev = None) evs" "length evs \<le> MAX_RETRIES"
  shows "receive_loop env evs st =
     Inr (if length evs < MAX_RETRIES then None else Some False, st\<lparr>retries := length evs\<rparr>,
          concat (replicate (length evs) (probe env st)))"
  using receive_loop_timeouts [OF assms(2), of st env] assms(1,3) by simp

theorem gives_up_after_timeouts_witness:
  "receive_loop toy_renv (replicate 20 Silence) toy_received =
     Inr (Some False, toy_received\<lparr>retries := 20\<rparr>, concat (replicate 20 (probe toy_renv toy_received)))"
proof -
  have "retries toy_received = 0" "list_all (\<lambda>ev. recv_with_timeout ev = None) (replicate 20 Silence)"
    "length (replicate 20 Silence) = MAX_RETRIES"
    by (simp_all add: toy_received_def MAX_RETRIES_def list_all_iff)
  then show ?thesis
    using gives_up_after_timeouts [of toy_received "replicate 20 Silence" toy_renv]
    by (simp only: length_replicate order.refl less_irrefl if_False simp_thms)
qed

section \<open>The client's handshake\<close>

lemma handshake_rounds_out:
  "i \<le> MAX_RETRIES \<Longrightarrow> \<exists>k. k \<le> MAX_RETRIES - i \<and>
     snd (handshake_rounds c peers bytes tok ev i) = concat (replicate k (map (\<lambda>p. (bytes, p)) peers))"
proof (induction c peers bytes tok ev i rule: handshake_rounds.induct)
  case (1 c peers bytes tok ev i)
  let ?out = "map (\<lambda>p. (bytes, p)) peers"
  show ?case
  proof (cases "i < MAX_RETRIES")
    case True
    with "1.IH" obtain k where k: "k \<le> MAX_RETRIES - Suc i"
      "snd (handshake_rounds c peers bytes tok ev (Suc i)) = concat (replicate k ?out)" by auto
    have "snd (handshake_rounds c peers bytes tok ev i) \<in> {?out, ?out @ concat (replicate k ?out)}"
      using True k(2) by (subst handshake_rounds.simps) (simp add: Let_def split: option.splits)
    moreover have "?out = concat (replicate 1 ?out)"
      "?out @ concat (replicate k ?out) = concat (replicate (Suc k) ?out)" by simp_all
    moreover have "1 \<le> MAX_RETRIES - i" "Suc k \<le> MAX_RETRIES - i" using True k(1) by arith+
    ultimately show ?thesis by (metis insertE singletonD)
  next
    case False
    then show ?thesis by (intro exI [of _ 0]) (subst handshake_rounds.simps, simp)
  qed
qed

lemma handshake_rounds_result:
  "fst (handshake_rounds c peers bytes tok ev i) =
     (case find (\<lambda>j. \<exists>rx sender. recv_with_timeout (ev j) = Some (rx, sender) \<and> is_server_hello_for c tok rx)
             [i..<MAX_RETRIES] of
        None \<Rightarrow> None
      | Some j \<Rightarrow> map_option snd (recv_with_timeout (ev j)))"
proof (induction c peers bytes tok ev i rule: handshake_rounds.induct)
  case (1 c peers bytes tok ev i)
  show ?case
  proof (cases "i < MAX_RETRIES")
    case True
    then have "[i..<MAX_RETRIES] = i # [Suc i..<MAX_RETRIES]" by (simp add: upt_conv_Cons)
    with True "1.IH" show ?thesis
      by (subst handshake_rounds.simps) (auto simp: Let_def split: option.splits)
  next
    case False
    then show ?thesis by (subst handshake_rounds.simps) simp
  qed
qed

text \<open>
  The handshake ends after at most 20 rounds, each of which sends the hello to every
  candidate; it connects to the endpoint from which the first server hello for the token came.
  Nothing else about that datagram is looked at: neither where it came from, nor its version,
  identity or signature.
\<close>

theorem handshake_outcome:
  "(\<exists>k. k \<le> MAX_RETRIES \<and>
      snd (handshake_rounds c peers bytes tok ev 0) = concat (replicate k (map (\<lambda>p. (bytes, p)) peers)))
   \<and> fst (handshake_rounds c peers bytes tok ev 0) =
       (case find (\<lambda>j. \<exists>rx sender sh. recv_with_timeout (ev j) = Some (rx, sender)
                 \<and> parse_handshake c rx = Some (HP_server_hello sh) \<and> sh_transfer_id sh = tok)
               [0..<MAX_RETRIES] of
          None \<Rightarrow> None
        | Some j \<Rightarrow> map_option snd (recv_with_timeout (ev j)))"
proof -
  have eq: "is_server_hello_for c tok rx \<longleftrightarrow>
      (\<exists>sh. parse_handshake c rx = Some (HP_server_hello sh) \<and> sh_transfer_id sh = tok)" for rx
    by (simp add: is_server_hello_for_def split: option.splits HandshakePacket.splits)
  show ?thesis
    using handshake_rounds_out [of 0 c peers bytes tok ev] handshake_rounds_result [of c peers bytes tok ev 0]
    by (simp add: eq)
qed

text \<open>
  The text a hello signs does not determine the hello: its fields are joined without
  separators, so two different hellos, for different transfers and tokens, have the same text to
  sign.
\<close>

theorem client_hello_transcript_ambiguous:
  "\<exists>h1 h2. ch_transfer_id h1 \<noteq> ch_transfer_id h2 \<and> ch_token h1 \<noteq> ch_token h2
     \<and> ch_version h1 = PROTOCOL_VERSION_1 \<and> ch_version h2 = PROTOCOL_VERSION_1
     \<and> client_hello_transcript h1 = client_hello_transcript h2"
  by (rule exI [of _ "\<lparr>ch_version = PROTOCOL_VERSION_1, ch_transfer_id = ''ab'', ch_token = ''c'',
            ch_receiver_nonce = [], ch_receiver_identity = no_identity, ch_receiver_signature = []\<rparr>"],
      rule exI [of _ "\<lparr>ch_version = PROTOCOL_VERSION_1, ch_transfer_id = ''a'', ch_token = ''bc'',
            ch_receiver_nonce = [], ch_receiver_identity = no_identity, ch_receiver_signature = []\<rparr>"])
     (simp add: client_hello_transcript_def)

end
