(* ===== verification/Sender_Proofs.thy ===== *)
theory Sender_Proofs
  imports Sender_Session
begin

text \<open>
  What a session guarantees: which chunk it sends, the invariant between its member variables, the
  order of its states, what it may send before and after authentication, and its error branches.
\<close>

section \<open>Chunks and the transfer invariant\<close>

text \<open>The chunk of a file that starts at an offset, and the packet a session is waiting to see acknowledged.\<close>

definition chunk_at :: "nat \<Rightarrow> string \<Rightarrow> string" where
  "chunk_at off file = take PAYLOAD_SIZE (drop off file)"

definition done_packet :: "TRANSFERS \<Rightarrow> ControlPacket" where
  "done_packet t = CP_done \<lparr>done_transfer_id = transfer_id t, final_size = file_size t,
                           done_file_hash = file_hash t\<rparr>"

definition data_packet :: "TRANSFERS \<Rightarrow> 64 word \<Rightarrow> string \<Rightarrow> ControlPacket" where
  "data_packet t off chunk =
     CP_data \<lparr>data_transfer_id = transfer_id t, data_offset = off, payload = chunk\<rparr>"

definition packet_at :: "TRANSFERS \<Rightarrow> string \<Rightarrow> 64 word \<Rightarrow> ControlPacket" where
  "packet_at t file off =
     (let chunk = chunk_at (unat off) file
      in if chunk = [] then done_packet t else data_packet t off chunk)"

definition current_packet :: "session \<Rightarrow> ControlPacket" where
  "current_packet s = packet_at (m_transfer_metadata s) (if_contents (m_file s)) (m_offset s)"

lemma chunk_at_nil_iff: "chunk_at off file = [] \<longleftrightarrow> length file \<le> off"
  by (simp add: chunk_at_def PAYLOAD_SIZE_eq)

lemma length_chunk_at: "length (chunk_at off file) = min PAYLOAD_SIZE (length file - off)"
  by (simp add: chunk_at_def)

lemma length_chunk_at_le: "length (chunk_at off file) \<le> PAYLOAD_SIZE"
  by (simp add: length_chunk_at)

lemma take_chunk_at: "take off file @ chunk_at off file = take (off + length (chunk_at off file)) file"
  by (simp add: chunk_at_def take_add min_def)

lemma of_nat_less_64: "n < 2 ^ 63 \<Longrightarrow> unat (of_nat n :: 64 word) = n"
  by (simp add: unat_of_nat take_bit_eq_mod)

lemma unat_add_chunk:
  assumes "unat off \<le> length file" "length file < 2 ^ 63"
  shows "unat (off + of_nat (length (chunk_at (unat off) file)) :: 64 word)
     = unat off + length (chunk_at (unat off) file)"
proof -
  have le: "unat off + length (chunk_at (unat off) file) \<le> length file"
    using assms(1) by (simp add: length_chunk_at)
  have "length (chunk_at (unat off) file) < 2 ^ 63"
    using le assms(2) by linarith
  then show ?thesis using le assms(2)
    by (simp add: unat_word_ariths of_nat_less_64)
qed

text \<open>
  \<open>readable\<close>: what \<open>send_next_chunk\<close> needs to read the file at \<open>m_offset\<close>. A failed stream is
  harmless only at the end of the file, where nothing is left to read.
\<close>

definition readable :: "session \<Rightarrow> bool" where
  "readable s =
     (if_open (m_file s) \<and> length (if_contents (m_file s)) < 2 ^ 63
      \<and> unat (m_offset s) \<le> length (if_contents (m_file s))
      \<and> (if_fail (m_file s) \<longrightarrow> unat (m_offset s) = length (if_contents (m_file s))))"

definition chunk_sent :: "codec \<Rightarrow> session \<Rightarrow> bool" where
  "chunk_sent c s =
     (let file = if_contents (m_file s); chunk = chunk_at (unat (m_offset s)) file
      in if_open (m_file s) \<and> length file < 2 ^ 63 \<and> unat (m_offset s) \<le> length file
         \<and> m_last_chunk_size s = of_nat (length chunk)
         \<and> m_last_chunk_done s = (chunk = [])
         \<and> m_last_packet_cache s = snd (ser_control c (current_packet s))
         \<and> (if_fail (m_file s) \<longrightarrow> unat (m_offset s) + length chunk = length file))"

definition session_inv :: "codec \<Rightarrow> session \<Rightarrow> bool" where
  "session_inv c s =
     ((m_state s = Transferring \<longrightarrow> chunk_sent c s)
      \<and> (m_state s = WaitingHello \<or> m_state s = Authenticated \<longrightarrow> m_offset s = 0))"

lemma seek_and_read:
  assumes "readable s"
  shows "fst (if_read PAYLOAD_SIZE (seekg (m_offset s) (m_file s)))
           = chunk_at (unat (m_offset s)) (if_contents (m_file s))"
    and "if_fail (snd (if_read PAYLOAD_SIZE (seekg (m_offset s) (m_file s)))) \<Longrightarrow>
         unat (m_offset s) + length (chunk_at (unat (m_offset s)) (if_contents (m_file s)))
           = length (if_contents (m_file s))"
proof -
  let ?f = "seekg (m_offset s) (m_file s)" and ?off = "unat (m_offset s)"
  let ?file = "if_contents (m_file s)"
  have "fst (if_read PAYLOAD_SIZE ?f) = chunk_at ?off ?file \<and>
    (if_fail (snd (if_read PAYLOAD_SIZE ?f)) \<longrightarrow> ?off + length (chunk_at ?off ?file) = length ?file)"
  proof (cases "if_fail (m_file s)")
    case True
    with assms have "chunk_at ?off ?file = []" "?off = length ?file"
      by (auto simp: readable_def chunk_at_nil_iff)
    with True show ?thesis by (simp add: if_read_failed)
  next
    case False
    with assms have "\<not> if_fail ?f" "if_pos ?f = ?off"
      using seekg_ok [of "m_file s" "m_offset s"] by (auto simp: readable_def)
    then have good: "if_good ?f" and pos: "if_pos ?f = ?off" by (auto simp: if_good_def)
    have got: "fst (if_read PAYLOAD_SIZE ?f) = chunk_at ?off ?file"
      using if_read_good(1) [OF good] by (simp add: pos chunk_at_def)
    then show ?thesis using if_read_good(3) [OF good, of PAYLOAD_SIZE] assms
      by (auto simp: readable_def length_chunk_at)
  qed
  then show "fst (if_read PAYLOAD_SIZE ?f) = chunk_at ?off ?file"
    and "if_fail (snd (if_read PAYLOAD_SIZE ?f)) \<Longrightarrow> ?off + length (chunk_at ?off ?file) = length ?file"
    by auto
qed

text \<open>
  One step of the transfer: the session sends the packet at its offset, caches it, and moves
  neither the offset nor the state.
\<close>

lemma send_next_chunk_frame [frame_simps]:
  "m_offset (fst (send_next_chunk c s)) = m_offset s"
  "m_state (fst (send_next_chunk c s)) = m_state s"
  "m_remote_endpoint (fst (send_next_chunk c s)) = m_remote_endpoint s"
  "m_file_path (fst (send_next_chunk c s)) = m_file_path s"
  "m_transfer_metadata (fst (send_next_chunk c s)) = m_transfer_metadata s"
  "if_contents (m_file (fst (send_next_chunk c s))) = if_contents (m_file s)"
  "if_open (m_file (fst (send_next_chunk c s))) = if_open (m_file s)"
  by (simp_all add: send_next_chunk_def Let_def case_prod_unfold)

lemma send_next_chunk_readable:
  assumes "readable s"
  shows "snd (send_next_chunk c s) = [(snd (ser_control c (current_packet s)), m_remote_endpoint s)]"
    and "chunk_sent c (fst (send_next_chunk c s))"
proof -
  let ?file = "if_contents (m_file s)" and ?off = "unat (m_offset s)"
  obtain chunk f where rd: "if_read PAYLOAD_SIZE (seekg (m_offset s) (m_file s)) = (chunk, f)"
    by fastforce
  have chunk: "chunk = chunk_at ?off ?file"
    using seek_and_read(1) [OF assms] rd by simp
  have g: "if_gcount f = length chunk"
    using if_read_gcount [of PAYLOAD_SIZE "seekg (m_offset s) (m_file s)"] rd by simp
  have fc: "if_contents f = ?file" "if_open f"
    using if_read_frame [of PAYLOAD_SIZE "seekg (m_offset s) (m_file s)"] rd assms
    by (simp_all add: readable_def)
  have ff: "if_fail f \<Longrightarrow> ?off + length chunk = length ?file"
    using seek_and_read(2) [OF assms] rd chunk by simp
  from assms have op: "if_open (m_file s)" by (simp add: readable_def)
  have snd_eq: "snd (send_next_chunk c s) = [(snd (ser_control c (current_packet s)), m_remote_endpoint s)]"
    and cs: "m_last_chunk_size (fst (send_next_chunk c s)) = of_nat (length chunk)"
       "m_last_chunk_done (fst (send_next_chunk c s)) = (chunk = [])"
       "m_last_packet_cache (fst (send_next_chunk c s)) = snd (ser_control c (current_packet s))"
       "m_file (fst (send_next_chunk c s)) = f"
    using rd g chunk op
    by (simp_all add: send_next_chunk_def send_message_def current_packet_def packet_at_def
          done_packet_def data_packet_def Let_def)
  show "snd (send_next_chunk c s) = [(snd (ser_control c (current_packet s)), m_remote_endpoint s)]"
    by (rule snd_eq)
  show "chunk_sent c (fst (send_next_chunk c s))"
    using assms cs fc ff chunk
    by (simp add: chunk_sent_def Let_def frame_simps readable_def current_packet_def)
qed

text \<open>A session that has sent a chunk can read the next one once that is acknowledged.\<close>

lemma chunk_sent_advance:
  assumes "chunk_sent c s"
  shows "readable (s\<lparr>m_offset := m_offset s + m_last_chunk_size s\<rparr>)"
    and "unat (m_offset s + m_last_chunk_size s)
         = unat (m_offset s) + length (chunk_at (unat (m_offset s)) (if_contents (m_file s)))"
proof -
  let ?file = "if_contents (m_file s)" and ?off = "unat (m_offset s)"
  from assms have "?off \<le> length ?file" "length ?file < 2 ^ 63"
    and sz: "m_last_chunk_size s = of_nat (length (chunk_at ?off ?file))"
    by (simp_all add: chunk_sent_def Let_def)
  from unat_add_chunk [OF this(1,2)] sz
  show u: "unat (m_offset s + m_last_chunk_size s) = ?off + length (chunk_at ?off ?file)" by simp
  show "readable (s\<lparr>m_offset := m_offset s + m_last_chunk_size s\<rparr>)"
    using assms u by (auto simp: readable_def chunk_sent_def Let_def length_chunk_at)
qed

lemma chunk_sent_state [simp]: "chunk_sent c (s\<lparr>m_state := st\<rparr>) = chunk_sent c s"
  by (simp add: chunk_sent_def current_packet_def)

lemma readable_state [simp]: "readable (s\<lparr>m_state := st\<rparr>) = readable s"
  by (simp add: readable_def)

section \<open>Acknowledgements and requests\<close>

text \<open>
  A packet with a body never serialises to nothing: the tag of the body is always written.
  The session relies on it when it tells a filled cache from an empty one.
\<close>

definition ser_nonempty :: "codec \<Rightarrow> bool" where
  "ser_nonempty c = (\<forall>p. p \<noteq> CP_not_set \<longrightarrow> snd (ser_control c p) \<noteq> [])"

lemma packet_at_set [simp]: "packet_at t file off \<noteq> CP_not_set"
  by (simp add: packet_at_def done_packet_def data_packet_def Let_def)

lemma cache_nonempty: "ser_nonempty c \<Longrightarrow> chunk_sent c s \<Longrightarrow> m_last_packet_cache s \<noteq> []"
  by (simp add: ser_nonempty_def chunk_sent_def current_packet_def Let_def)

lemma resend_cached:
  "m_last_packet_cache s \<noteq> [] \<Longrightarrow>
     resend_current_chunk c s = (s, [(m_last_packet_cache s, m_remote_endpoint s)])"
  by (simp add: resend_current_chunk_def)

lemma handle_ack_cases:
  assumes "m_state s = Transferring"
  shows "next_offset a = m_offset s + m_last_chunk_size s \<Longrightarrow> m_last_chunk_done s \<Longrightarrow>
           handle_ack c a s = (s\<lparr>m_state := Closed\<rparr>, [])"
    and "next_offset a = m_offset s + m_last_chunk_size s \<Longrightarrow> \<not> m_last_chunk_done s \<Longrightarrow>
           handle_ack c a s = send_next_chunk c (s\<lparr>m_offset := m_offset s + m_last_chunk_size s\<rparr>)"
    and "next_offset a \<noteq> m_offset s + m_last_chunk_size s \<Longrightarrow> next_offset a = m_offset s \<Longrightarrow>
           handle_ack c a s = resend_current_chunk c s"
    and "next_offset a \<noteq> m_offset s + m_last_chunk_size s \<Longrightarrow> next_offset a \<noteq> m_offset s \<Longrightarrow>
           handle_ack c a s = (s, [])"
  using assms by (simp_all add: handle_ack_def)

lemma handle_ack_idle: "m_state s \<noteq> Transferring \<Longrightarrow> handle_ack c a s = (s, [])"
  by (simp add: handle_ack_def)

lemma session_inv_transferring: "chunk_sent c s \<Longrightarrow> m_state s = Transferring \<Longrightarrow> session_inv c s"
  by (simp add: session_inv_def)

lemma session_inv_closed [simp]: "m_state s = Closed \<Longrightarrow> session_inv c s"
  by (simp add: session_inv_def)

lemma handle_ack_inv:
  assumes "ser_nonempty c" "session_inv c s"
  shows "session_inv c (fst (handle_ack c a s))"
proof (cases "m_state s = Transferring")
  case True
  with assms(2) have cs: "chunk_sent c s" by (simp add: session_inv_def)
  let ?t = "s\<lparr>m_offset := m_offset s + m_last_chunk_size s\<rparr>"
  have "session_inv c (fst (send_next_chunk c ?t))"
    using send_next_chunk_readable(2) [OF chunk_sent_advance(1) [OF cs]] True
    by (intro session_inv_transferring) (simp_all add: frame_simps)
  then have next_ok: "handle_ack c a s = send_next_chunk c ?t \<Longrightarrow> ?thesis" by simp
  have same: "session_inv c (fst (resend_current_chunk c s))"
    using assms(2) cache_nonempty [OF assms(1) cs] by (simp add: resend_cached)
  show ?thesis
  proof (cases "next_offset a = m_offset s + m_last_chunk_size s")
    case expected: True
    show ?thesis
    proof (cases "m_last_chunk_done s")
      case True
      with handle_ack_cases(1) [OF \<open>m_state s = Transferring\<close> expected] show ?thesis by simp
    next
      case False
      with handle_ack_cases(2) [OF True expected] next_ok show ?thesis by simp
    qed
  next
    case other: False
    then show ?thesis
      using same assms(2) handle_ack_cases(3,4) [OF True other]
      by (cases "next_offset a = m_offset s") simp_all
  qed
next
  case False
  with assms(2) show ?thesis by (simp add: handle_ack_idle)
qed

definition files_bounded :: "'r session_env \<Rightarrow> bool" where
  "files_bounded env = (\<forall>p file. se_open env p = Some file \<longrightarrow> length file < 2 ^ 63)"

text \<open>The session that \<open>handle_get_request\<close> builds before it sends the first chunk.\<close>

definition opened :: "'r session_env \<Rightarrow> session \<Rightarrow> session" where
  "opened env s =
     s\<lparr>m_file_id := (if transfer_id (m_transfer_metadata s) = []
                     then file_name (m_transfer_metadata s)
                     else transfer_id (m_transfer_metadata s)),
       m_file := ifstream_open (se_open env (m_file_path s))\<rparr>"

lemma handle_get_request_opens:
  assumes "m_state s = Authenticated"
  shows "se_open env (m_file_path s) = Some file \<Longrightarrow>
           handle_get_request env g s
             = send_next_chunk (se_codec env) ((opened env s)\<lparr>m_state := Transferring\<rparr>)"
    and "se_open env (m_file_path s) = None \<Longrightarrow>
           handle_get_request env g s
             = ((opened env s)\<lparr>m_state := Closed\<rparr>,
                send_control_error (se_codec env) (opened env s) (get_transfer_id g)
                  ERROR_CODE_TRANSFER_NOT_FOUND ''Failed to open file'')"
  using assms by (simp_all add: handle_get_request_def opened_def Let_def)

lemma opened_readable:
  assumes "files_bounded env" "session_inv c s" "m_state s = Authenticated"
    "se_open env (m_file_path s) = Some file"
  shows "readable (opened env s)" and "if_contents (m_file (opened env s)) = file"
    and "m_offset (opened env s) = 0"
  using assms by (auto simp: readable_def opened_def files_bounded_def session_inv_def)

lemma handle_get_request_inv:
  assumes "ser_nonempty (se_codec env)" "files_bounded env" "session_inv (se_codec env) s"
  shows "session_inv (se_codec env) (fst (handle_get_request env g s))"
proof (cases "m_state s")
  case Authenticated
  show ?thesis
  proof (cases "se_open env (m_file_path s)")
    case None
    with Authenticated show ?thesis by (simp add: handle_get_request_opens)
  next
    case (Some contents)
    with assms Authenticated have "readable ((opened env s)\<lparr>m_state := Transferring\<rparr>)"
      by (simp add: opened_readable)
    from send_next_chunk_readable(2) [OF this] Authenticated Some show ?thesis
      by (intro session_inv_transferring) (simp_all add: handle_get_request_opens frame_simps)
  qed
next
  case Transferring
  with assms show ?thesis
    by (simp add: handle_get_request_def resend_cached cache_nonempty session_inv_def)
qed (use assms in \<open>simp_all add: handle_get_request_def\<close>)

section \<open>Whole packets\<close>

lemma handle_control_packet_inv:
  assumes "ser_nonempty (se_codec env)" "files_bounded env" "session_inv (se_codec env) s"
  shows "session_inv (se_codec env) (fst (handle_control_packet env data s))"
  using assms
  by (auto simp: handle_control_packet_def handle_get_request_inv handle_ack_inv
        split: option.splits ControlPacket.splits)

lemma send_handshake_packet_frame [frame_simps]:
  "m_remote_endpoint s = m_remote_endpoint t \<Longrightarrow> send_handshake_packet c s p = send_handshake_packet c t p"
  by (simp add: send_handshake_packet_def split: prod.splits)

text \<open>What a handshake packet does to the session: every case of \<open>handle_handshake_packet\<close>.\<close>

definition hello_session :: "session \<Rightarrow> TRANSFERS \<Rightarrow> session" where
  "hello_session s t = s\<lparr>m_transfer_metadata := t, m_state := Authenticated\<rparr>"

lemma answer_client_hello_cases:
  assumes "answer_client_hello env hello s r = Inr ((s', r'), out)"
  shows "s' = s\<lparr>m_state := Authenticated\<rparr>"
    and "\<exists>h. out = send_handshake_packet (se_codec env) s' (HP_server_hello h)
             \<and> sh_transfer_id h = ch_transfer_id hello"
  using assms by (auto simp: answer_client_hello_def bind_result_Inr_iff Let_def split: prod.splits)

lemma validate_token_cases:
  "validate_token md tok s = Inr (v, s') \<longleftrightarrow>
     (v \<and> (\<exists>t. md tok = Inr t \<and> s' = s\<lparr>m_transfer_metadata := t\<rparr>))
     \<or> (\<not> v \<and> s' = s \<and> (\<exists>e. md tok = Inl (Throw e)))"
  by (cases "md tok"; cases "projl (md tok)") (auto simp: validate_token_def catch_exn_def)

text \<open>The errors with which a hello is refused: four fixed ones.\<close>

definition refusals :: "HandshakeError list" where
  "refusals =
     [\<lparr>he_code = ERROR_CODE_BAD_PACKET, he_message = ''Unsupported protocol version''\<rparr>,
      \<lparr>he_code = ERROR_CODE_INVALID_TOKEN, he_message = ''Missing Token!''\<rparr>,
      \<lparr>he_code = ERROR_CODE_INVALID_TOKEN, he_message = ''Invalid Token''\<rparr>,
      \<lparr>he_code = ERROR_CODE_BAD_PACKET, he_message = ''Expected client hello!''\<rparr>]"

lemma handle_handshake_packet_cases:
  assumes "handle_handshake_packet env data s r = Inr ((s', r'), out)"
  obtains (unparsed) "parse_handshake (se_codec env) data = None" "s' = s" "out = []"
  | (refused) e where "s' = s \<or> s' = s\<lparr>m_state := Closed\<rparr>" "e \<in> set refusals"
      "out = send_handshake_packet (se_codec env) s (HP_error e)"
  | (accepted) hello t h where "parse_handshake (se_codec env) data = Some (HP_client_hello hello)"
      "ch_version hello = PROTOCOL_VERSION_1" "ch_token hello \<noteq> []"
      "se_metadata env (ch_token hello) = Inr t" "s' = hello_session s t"
      "out = send_handshake_packet (se_codec env) s (HP_server_hello h)"
      "sh_transfer_id h = ch_transfer_id hello"
proof (cases "parse_handshake (se_codec env) data")
  case None
  with assms that(1) show ?thesis by (simp add: handle_handshake_packet_def)
next
  case (Some packet)
  show ?thesis
  proof (cases "\<exists>hello t. packet = HP_client_hello hello \<and> ch_version hello = PROTOCOL_VERSION_1
      \<and> ch_token hello \<noteq> [] \<and> se_metadata env (ch_token hello) = Inr t")
    case True
    then obtain hello t where h: "packet = HP_client_hello hello"
      "ch_version hello = PROTOCOL_VERSION_1" "ch_token hello \<noteq> []"
      "se_metadata env (ch_token hello) = Inr t" by blast
    with assms Some have a: "answer_client_hello env hello (s\<lparr>m_transfer_metadata := t\<rparr>) r
        = Inr ((s', r'), out)"
      by (simp add: handle_handshake_packet_def validate_token_def)
    then have s': "s' = hello_session s t" by (simp add: answer_client_hello_cases hello_session_def)
    then have ep: "m_remote_endpoint s' = m_remote_endpoint s" by (simp add: hello_session_def)
    from answer_client_hello_cases(2) [OF a] obtain hh where
      "out = send_handshake_packet (se_codec env) s (HP_server_hello hh)"
      "sh_transfer_id hh = ch_transfer_id hello"
      using send_handshake_packet_frame [OF ep] by auto
    with h Some s' that(3) show ?thesis by blast
  next
    case False
    have "(s' = s \<or> s' = s\<lparr>m_state := Closed\<rparr>)
        \<and> (\<exists>e \<in> set refusals. out = send_handshake_packet (se_codec env) s (HP_error e))"
    proof (cases packet)
      case (HP_client_hello hello)
      with False consider "ch_version hello \<noteq> PROTOCOL_VERSION_1" | "ch_token hello = []"
        | f where "ch_version hello = PROTOCOL_VERSION_1" "ch_token hello \<noteq> []"
            "se_metadata env (ch_token hello) = Inl f"
        by (cases "se_metadata env (ch_token hello)") auto
      then show ?thesis
      proof cases
        case 3
        then show ?thesis using assms Some HP_client_hello
          by (cases f) (auto simp: handle_handshake_packet_def validate_token_def send_handshake_error_def refusals_def Let_def)
      qed (use assms Some HP_client_hello in
            \<open>auto simp: handle_handshake_packet_def send_handshake_error_def refusals_def Let_def split: if_splits\<close>)
    qed (use assms Some in \<open>auto simp: handle_handshake_packet_def send_handshake_error_def refusals_def Let_def\<close>)
    then show ?thesis using that(2) by blast
  qed
qed

lemma handle_packet_waiting:
  "m_state s = WaitingHello \<Longrightarrow>
     handle_packet env (data, sender) (s, r)
       = handle_handshake_packet env data (s\<lparr>m_remote_endpoint := sender\<rparr>) r"
  by (simp add: handle_packet.simps)

lemma handle_packet_control:
  "m_state s = Authenticated \<or> m_state s = Transferring \<Longrightarrow>
     handle_packet env (data, sender) (s, r)
       = (let (s', out) = handle_control_packet env data s in Inr ((s', r), out))"
  by (auto simp: handle_packet.simps)

lemma handle_packet_closed:
  "m_state s = Closed \<Longrightarrow> handle_packet env e (s, r) = Inr ((s, r), [])"
  by (cases e) (simp add: handle_packet.simps)

lemma handle_handshake_packet_inv:
  "m_offset s = 0 \<Longrightarrow> m_state s \<noteq> Transferring \<Longrightarrow>
     handle_handshake_packet env data s r = Inr ((s', r'), out) \<Longrightarrow> session_inv c s'"
  by (elim handle_handshake_packet_cases) (auto simp: session_inv_def hello_session_def)

end
