(* ===== verification/Sender_Properties.thy ===== *)
theory Sender_Properties
  imports Sender_Proofs Toy_Codec
begin

text \<open>
  The properties of the sending session, over whole packets and whole runs, with their witnesses.
  A run is \<open>run_steps (handle_packet env)\<close> over the datagrams received.
\<close>

section \<open>Interpretations\<close>

definition env_ok :: "'r session_env \<Rightarrow> bool" where
  "env_ok env = (ser_nonempty (se_codec env) \<and> files_bounded env)"

lemma handle_packet_inv:
  assumes "env_ok env" "session_inv (se_codec env) s"
    "handle_packet env e (s, r) = Inr ((s', r'), out)"
  shows "session_inv (se_codec env) s'"
proof -
  obtain data sender where e: "e = (data, sender)" by fastforce
  show ?thesis
  proof (cases "m_state s")
    case WaitingHello
    with assms(2,3) e have "handle_handshake_packet env data (s\<lparr>m_remote_endpoint := sender\<rparr>) r
        = Inr ((s', r'), out)" and "m_offset s = 0"
      by (simp_all add: handle_packet_waiting session_inv_def)
    then show ?thesis using WaitingHello by (intro handle_handshake_packet_inv) auto
  next
    case Closed
    with assms(2,3) show ?thesis by (simp add: handle_packet_closed)
  qed (use assms e handle_control_packet_inv [of env s data] in
        \<open>simp_all add: handle_packet_control env_ok_def split: prod.splits\<close>)
qed

interpretation sender: machine "handle_packet env"
    "\<lambda>(s, r). env_ok env \<longrightarrow> session_inv (se_codec env) s" for env :: "'r session_env"
  by unfold_locales (auto dest: handle_packet_inv)

text \<open>
  A datagram that authenticates its sender: a hello of the right version whose token the central server
  knows. Without one a session stays where it is or closes, and never opens its file.
\<close>

definition authenticates :: "'r session_env \<Rightarrow> string \<Rightarrow> bool" where
  "authenticates env data =
     (case parse_handshake (se_codec env) data of
        Some (HP_client_hello h) \<Rightarrow>
          ch_version h = PROTOCOL_VERSION_1 \<and> ch_token h \<noteq> [] \<and>
          (case se_metadata env (ch_token h) of Inr _ \<Rightarrow> True | Inl _ \<Rightarrow> False)
      | _ \<Rightarrow> False)"

definition unauthenticated :: "session \<Rightarrow> bool" where
  "unauthenticated s = (m_state s \<in> {WaitingHello, Closed} \<and> m_file s = ifstream_closed)"

definition refusal_to :: "codec \<Rightarrow> endpoint \<Rightarrow> string \<times> endpoint \<Rightarrow> bool" where
  "refusal_to c ep d = (snd d = ep \<and> (\<exists>e \<in> set refusals. fst d = snd (ser_handshake c (HP_error e))))"

lemma send_handshake_packet_all:
  "P (snd (ser_handshake c p), m_remote_endpoint s) \<Longrightarrow> list_all P (send_handshake_packet c s p)"
  by (cases "ser_handshake c p") (simp add: send_handshake_packet_def)

lemma handle_packet_unauthenticated:
  assumes "unauthenticated s" "\<not> authenticates env data" "handle_packet env (data, sender) (s, r) = Inr ((s', r'), out)"
  shows "unauthenticated s' \<and> list_all (refusal_to (se_codec env) sender) out"
proof (cases "m_state s = WaitingHello")
  case True
  with assms(3) have "handle_handshake_packet env data (s\<lparr>m_remote_endpoint := sender\<rparr>) r = Inr ((s', r'), out)"
    by (simp add: handle_packet_waiting)
  then show ?thesis
  proof (cases rule: handle_handshake_packet_cases)
    case (refused e)
    then show ?thesis using True assms(1)
      by (auto intro!: send_handshake_packet_all simp: refusal_to_def unauthenticated_def)
  next
    case (accepted hello t h)
    with assms(2) show ?thesis by (simp add: authenticates_def)
  qed (use True assms(1) in \<open>simp add: unauthenticated_def\<close>)
next
  case False
  with assms(1,3) show ?thesis by (auto simp: handle_packet_closed unauthenticated_def)
qed

text \<open>A session in the middle of a transfer: everything it sends is a packet of one file under one record.\<close>

definition packet_of :: "codec \<Rightarrow> TRANSFERS \<Rightarrow> string \<Rightarrow> endpoint \<Rightarrow> string \<times> endpoint \<Rightarrow> bool" where
  "packet_of c t file client d =
     (snd d = client \<and> (\<exists>off. unat off \<le> length file \<and> fst d = snd (ser_control c (packet_at t file off))))"

definition serves_file :: "codec \<Rightarrow> TRANSFERS \<Rightarrow> string \<Rightarrow> endpoint \<Rightarrow> session \<Rightarrow> bool" where
  "serves_file c t file client s =
     (m_state s \<in> {Transferring, Closed} \<and> session_inv c s \<and> m_transfer_metadata s = t
      \<and> m_remote_endpoint s = client \<and> if_contents (m_file s) = file)"

lemma next_chunk_serves:
  assumes "readable s" "m_state s = Transferring" "m_transfer_metadata s = t" "m_remote_endpoint s = client"
    "if_contents (m_file s) = file"
  shows "serves_file c t file client (fst (send_next_chunk c s)) \<and>
    list_all (packet_of c t file client) (snd (send_next_chunk c s))"
  using assms send_next_chunk_readable [OF assms(1), of c]
  by (auto simp: serves_file_def packet_of_def frame_simps current_packet_def readable_def intro: session_inv_transferring)

lemma control_packet_serves:
  assumes "env_ok env" "serves_file (se_codec env) t file client s"
  shows "serves_file (se_codec env) t file client (fst (handle_control_packet env data s)) \<and>
    list_all (packet_of (se_codec env) t file client) (snd (handle_control_packet env data s))"
proof (cases "m_state s = Transferring")
  case True
  let ?c = "se_codec env"
  have cs: "chunk_sent ?c s" using assms(2) True by (simp add: serves_file_def session_inv_def)
  have "m_last_packet_cache s \<noteq> []" using cache_nonempty [OF _ cs] assms(1) by (simp add: env_ok_def)
  then have again: "resend_current_chunk ?c s = (s, [(snd (ser_control ?c (packet_at t file (m_offset s))), client)])"
    using cs assms(2) by (simp add: resend_cached chunk_sent_def current_packet_def serves_file_def Let_def)
  have old: "packet_of ?c t file client (snd (ser_control ?c (packet_at t file (m_offset s))), client)"
    using cs assms(2) by (auto simp: packet_of_def chunk_sent_def serves_file_def Let_def)
  have advance: "serves_file ?c t file client (fst (send_next_chunk ?c (s\<lparr>m_offset := m_offset s + m_last_chunk_size s\<rparr>))) \<and>
      list_all (packet_of ?c t file client) (snd (send_next_chunk ?c (s\<lparr>m_offset := m_offset s + m_last_chunk_size s\<rparr>)))"
    using assms(2) True by (intro next_chunk_serves chunk_sent_advance(1) [OF cs]) (simp_all add: serves_file_def)
  have close: "serves_file ?c t file client (s\<lparr>m_state := Closed\<rparr>)" using assms(2) by (simp add: serves_file_def)
  show ?thesis
    using True assms(2) again old advance close
    by (simp add: handle_control_packet_def handle_get_request_def handle_ack_def Let_def
        split: option.split ControlPacket.split)
next
  case False
  then show ?thesis using assms(2)
    by (simp add: handle_control_packet_def handle_get_request_def handle_ack_def serves_file_def
        split: option.split ControlPacket.split)
qed

lemma handle_packet_serves:
  assumes "env_ok env" "serves_file (se_codec env) t file client s" "handle_packet env e (s, r) = Inr ((s', r'), out)"
  shows "serves_file (se_codec env) t file client s' \<and> list_all (packet_of (se_codec env) t file client) out"
proof -
  obtain data sender where e: "e = (data, sender)" by fastforce
  show ?thesis
  proof (cases "m_state s = Transferring")
    case True
    with control_packet_serves [OF assms(1,2), of data] assms(3) e show ?thesis
      by (simp add: handle_packet_control split: prod.splits)
  next
    case False
    with assms(2,3) show ?thesis by (auto simp: serves_file_def handle_packet_closed)
  qed
qed

interpretation serving_file: machine "handle_packet env"
    "\<lambda>(s, r). env_ok env \<and> serves_file (se_codec env) tr contents client s"
  for env :: "'r session_env" and tr contents client
  by unfold_locales (auto dest: handle_packet_serves)

text \<open>After the handshake a session sends control packets only, and always to the same endpoint.\<close>

definition control_send :: "codec \<Rightarrow> endpoint \<Rightarrow> string \<times> endpoint \<Rightarrow> bool" where
  "control_send c ep d = (snd d = ep \<and> (\<exists>p. fst d = snd (ser_control c p)))"

definition past_handshake :: "codec \<Rightarrow> endpoint \<Rightarrow> session \<Rightarrow> bool" where
  "past_handshake c ep s =
     (m_state s \<noteq> WaitingHello \<and> m_remote_endpoint s = ep
      \<and> (m_last_packet_cache s = [] \<or> (\<exists>p. m_last_packet_cache s = snd (ser_control c p))))"

lemma send_control_packet_all:
  "list_all (control_send c (m_remote_endpoint s)) (send_control_packet c s p)"
  by (auto simp: send_control_packet_def control_send_def split: prod.splits intro!: exI [of _ p])

lemma send_next_chunk_past:
  assumes "past_handshake c ep s"
  shows "past_handshake c ep (fst (send_next_chunk c s))
     \<and> list_all (control_send c ep) (snd (send_next_chunk c s))"
  using assms
  by (auto simp: past_handshake_def send_next_chunk_def control_send_def send_message_def Let_def
        split: prod.splits)

lemma resend_current_chunk_past:
  "past_handshake c ep s \<Longrightarrow> past_handshake c ep (fst (resend_current_chunk c s))
     \<and> list_all (control_send c ep) (snd (resend_current_chunk c s))"
  using send_next_chunk_past [of c ep s]
  by (auto simp: resend_current_chunk_def past_handshake_def control_send_def)

lemma past_handshake_update [simp]:
  "past_handshake c ep (s\<lparr>m_offset := off\<rparr>) = past_handshake c ep s"
  "st \<noteq> WaitingHello \<Longrightarrow> past_handshake c ep s \<Longrightarrow> past_handshake c ep (s\<lparr>m_state := st\<rparr>)"
  "past_handshake c ep (s\<lparr>m_file_id := i, m_file := f\<rparr>) = past_handshake c ep s"
  by (simp_all add: past_handshake_def)

lemma handle_ack_past:
  assumes "past_handshake c ep s"
  shows "past_handshake c ep (fst (handle_ack c a s)) \<and> list_all (control_send c ep) (snd (handle_ack c a s))"
  unfolding handle_ack_def Let_def
  using assms resend_current_chunk_past [OF assms] send_next_chunk_past [OF assms]
    send_next_chunk_past [of c ep "s\<lparr>m_offset := m_offset s + m_last_chunk_size s\<rparr>"]
  by simp

lemma handle_get_request_past:
  assumes "past_handshake (se_codec env) ep s"
  shows "past_handshake (se_codec env) ep (fst (handle_get_request env g s))
     \<and> list_all (control_send (se_codec env) ep) (snd (handle_get_request env g s))"
proof (cases "m_state s = Authenticated")
  case True
  have o: "past_handshake (se_codec env) ep ((opened env s)\<lparr>m_state := st\<rparr>)" if "st \<noteq> WaitingHello" for st
    using assms that by (simp add: past_handshake_def opened_def)
  have e: "m_remote_endpoint (opened env s) = ep" using assms by (simp add: opened_def past_handshake_def)
  show ?thesis
  proof (cases "se_open env (m_file_path s)")
    case None
    with True o e send_control_packet_all [of "se_codec env" "opened env s"] show ?thesis
      by (simp add: handle_get_request_opens send_control_error_def)
  next
    case (Some contents)
    with True o send_next_chunk_past show ?thesis by (simp add: handle_get_request_opens)
  qed
next
  case False
  then show ?thesis using assms resend_current_chunk_past [OF assms]
    by (simp add: handle_get_request_def)
qed

lemma handle_packet_past:
  assumes "past_handshake (se_codec env) ep s" "handle_packet env e (s, r) = Inr ((s', r'), out)"
  shows "past_handshake (se_codec env) ep s' \<and> list_all (control_send (se_codec env) ep) out"
proof -
  obtain data sender where e: "e = (data, sender)" by fastforce
  have "past_handshake (se_codec env) ep (fst (handle_control_packet env data s))
      \<and> list_all (control_send (se_codec env) ep) (snd (handle_control_packet env data s))"
    using assms(1) handle_get_request_past [OF assms(1)] handle_ack_past [OF assms(1)]
    by (simp add: handle_control_packet_def split: option.splits ControlPacket.splits)
  moreover have "m_state s \<noteq> WaitingHello" using assms(1) by (simp add: past_handshake_def)
  ultimately show ?thesis using assms e
    by (cases "m_state s") (auto simp: handle_packet_control handle_packet_closed split: prod.splits)
qed

interpretation past: machine "handle_packet env"
    "\<lambda>(s, r). past_handshake (se_codec env) ep s" for env :: "'r session_env" and ep
  by unfold_locales (auto dest: handle_packet_past)

section \<open>Order of the states\<close>

lemma handle_packet_state_mono:
  assumes "handle_packet env e (s, r) = Inr ((s', r'), out)"
  shows "m_state s \<le> m_state s'"
proof -
  obtain data sender where e: "e = (data, sender)" by fastforce
  note le = less_eq_State_def
  show ?thesis
  proof (cases "m_state s")
    case WaitingHello
    then show ?thesis by (simp add: le)
  next
    case Closed
    with assms show ?thesis by (simp add: handle_packet_closed)
  next
    case Authenticated
    have "m_state (fst (handle_control_packet env data s)) \<noteq> WaitingHello"
      using Authenticated
      by (auto simp: handle_control_packet_def handle_get_request_def handle_ack_def Let_def
            frame_simps split: option.splits ControlPacket.splits)
    with Authenticated assms e show ?thesis
      by (cases "m_state s'") (auto simp: le handle_packet_control split: prod.splits)
  next
    case Transferring
    have "m_state (fst (handle_control_packet env data s)) \<in> {Transferring, Closed}"
      using Transferring
      by (auto simp: handle_control_packet_def handle_get_request_def handle_ack_def
            resend_current_chunk_def Let_def frame_simps split: option.splits ControlPacket.splits)
    with Transferring assms e show ?thesis
      by (cases "m_state s'") (auto simp: le handle_packet_control split: prod.splits)
  qed
qed

lemma run_state_mono:
  "run_steps (handle_packet env) es (s, r) = Inr ((s', r'), out) \<Longrightarrow> m_state s \<le> m_state s'"
proof (induction es arbitrary: s r out)
  case Nil
  then show ?case by simp
next
  case (Cons e es)
  then obtain u ru out1 out2 where st: "handle_packet env e (s, r) = Inr ((u, ru), out1)"
    "run_steps (handle_packet env) es (u, ru) = Inr ((s', r'), out2)"
    unfolding run_steps_Cons_Inr by auto
  have "m_state s \<le> m_state u" using st(1) by (rule handle_packet_state_mono)
  also have "\<dots> \<le> m_state s'" using st(2) by (rule Cons.IH)
  finally show ?case .
qed

section \<open>A concrete environment for the witnesses\<close>

definition toy_transfer :: TRANSFERS where
  "toy_transfer = TRANSFERS_init\<lparr>transfer_id := ''tok'', file_name := ''f'', file_size := 3,
     file_hash := ''h''\<rparr>"

definition toy_env :: "nat session_env" where
  "toy_env =
     \<lparr>se_sodium = toy_sodium, se_codec = toy_codec,
      se_metadata = (\<lambda>tok. if tok = ''tok'' then Inr toy_transfer
                           else Inl (Throw (Runtime_Error ''no such transfer''))),
      se_open = (\<lambda>p. if p = ''f'' then Some ''abc'' else None)\<rparr>"

definition toy_ep :: endpoint where
  "toy_ep = Endpoint (V4 1) 9"

lemma toy_env_simps [simp]:
  "se_sodium toy_env = toy_sodium" "se_codec toy_env = toy_codec"
  "se_metadata toy_env tok = (if tok = ''tok'' then Inr toy_transfer
     else Inl (Throw (Runtime_Error ''no such transfer'')))"
  "se_open toy_env p = (if p = ''f'' then Some ''abc'' else None)"
  by (simp_all add: toy_env_def)

lemma toy_ser_nonempty: "ser_nonempty toy_codec"
  unfolding ser_nonempty_def
proof (intro allI impI)
  fix p assume "p \<noteq> CP_not_set"
  then show "snd (ser_control toy_codec p) \<noteq> []" by (cases p) simp_all
qed

lemma toy_env_ok: "env_ok toy_env"
  by (simp add: env_ok_def files_bounded_def toy_ser_nonempty)

text \<open>The session after a valid hello, after the request for the file, after the acknowledgement.\<close>

definition toy_hello :: session where
  "toy_hello = (Session_new toy_ep ''f'')\<lparr>m_transfer_metadata := toy_transfer, m_state := Authenticated\<rparr>"

lemma toy_keys:
  "generate_identity_keypair toy_sodium r = Inr (\<lparr>id_public_key = ''p'', id_private_key = ''sk''\<rparr>, Suc r)"
  "generate_ephemeral_keypair toy_sodium r = Inr (\<lparr>eph_public_key = ''e'', eph_private_key = ''f''\<rparr>, Suc r)"
  "random_nonce toy_sodium n r = Inr (replicate n (char_of r), Suc r)"
  "sign toy_sodium m \<lparr>id_public_key = ''p'', id_private_key = ''sk''\<rparr> = Inr ''s''"
  by (simp_all add: generate_identity_keypair_def generate_ephemeral_keypair_def random_nonce_def
        sign_def toy_sodium_ok toy_sodium_simps)

lemma toy_hello_step:
  "handle_packet toy_env (''Ctok'', toy_ep) (Session_new toy_ep ''f'', 0)
     = Inr ((toy_hello, 3), [(''Stok'', toy_ep)])"
  by (simp add: handle_packet_waiting Session_new_def handle_handshake_packet_def
        validate_token_def answer_client_hello_def sign_server_hello_def send_handshake_packet_def
        toy_hello_def toy_keys Let_def)

definition toy_sending :: session where
  "toy_sending = toy_hello\<lparr>m_state := Transferring, m_file_id := ''tok'',
     m_file := \<lparr>if_open = True, if_contents = ''abc'', if_pos = 3, if_eof = True, if_fail = True,
                if_gcount = 3\<rparr>,
     m_last_chunk_size := 3, m_last_chunk_done := False,
     m_last_packet_cache := toy_ser (data_packet toy_transfer 0 ''abc'')\<rparr>"

lemma toy_get_step:
  "handle_packet toy_env (''Gtok'', toy_ep) (toy_hello, r)
     = Inr ((toy_sending, r), [(toy_ser (data_packet toy_transfer 0 ''abc''), toy_ep)])"
  by (simp add: handle_packet.simps handle_control_packet_def handle_get_request_def toy_hello_def
        toy_sending_def Session_new_def ifstream_open_def ifstream_closed_def send_next_chunk_def
        seekg_def if_read_def PAYLOAD_SIZE_eq data_packet_def toy_transfer_def Let_def)

lemma toy_run:
  "run_steps (handle_packet toy_env) [(''Ctok'', toy_ep), (''Gtok'', toy_ep)] (Session_new toy_ep ''f'', 0)
     = Inr ((toy_sending, 3),
            [(''Stok'', toy_ep), (toy_ser (data_packet toy_transfer 0 ''abc''), toy_ep)])"
  by (simp add: toy_hello_step toy_get_step)

section \<open>Properties\<close>

text \<open>
  C7: The member variables of a session agree with one another after any run: while it
  transfers, the file is open, the offset is inside it, the cached packet is the packet at that
  offset, its size and end flag are those of the chunk, and a failed stream has been read to its
  end.
\<close>

theorem session_run_invariant:
  assumes "env_ok env"
    and "run_steps (handle_packet env) es (Session_new ep path, r) = Inr ((s, r'), out)"
  shows "session_inv (se_codec env) s"
proof -
  have "session_inv (se_codec env) (Session_new ep path)"
    by (simp add: session_inv_def Session_new_def)
  with sender.run_inv [OF _ assms(2)] assms(1) show ?thesis by simp
qed

theorem session_run_invariant_witness:
  "session_inv toy_codec toy_sending \<and> m_state toy_sending = Transferring"
  using session_run_invariant [OF toy_env_ok toy_run]
  by (simp add: toy_sending_def toy_hello_def)

text \<open>
  C30: The state of a session only moves forward: waiting for a hello, authenticated,
  transferring, closed. A closed session ignores every datagram and sends nothing.
\<close>

theorem session_states_advance:
  assumes "run_steps (handle_packet env) es (s, r) = Inr ((s', r'), out)"
  shows "m_state s \<le> m_state s' \<and> (m_state s = Closed \<longrightarrow> s' = s \<and> out = [])"
proof -
  have "m_state s = Closed \<longrightarrow> s' = s \<and> out = []"
    using assms
  proof (induction es arbitrary: out r)
    case (Cons e es)
    then show ?case unfolding run_steps_Cons_Inr by (auto simp: handle_packet_closed)
  qed simp
  with run_state_mono [OF assms] show ?thesis by blast
qed

theorem session_states_advance_witness:
  "m_state (Session_new toy_ep ''f'') \<le> m_state toy_sending"
  using session_states_advance [OF toy_run] by simp

text \<open>
  C18: No byte of the file leaves an unauthenticated session: as long as no datagram that
  arrives is a hello of the right version with a token that the central server knows, the
  session never opens its file, and all it sends are four fixed error messages, each to an
  endpoint it heard from.
\<close>

theorem no_data_without_token:
  assumes "list_all (\<lambda>(data, sender). \<not> authenticates env data) es"
    and "run_steps (handle_packet env) es (Session_new ep path, r) = Inr ((s, r'), out)"
  shows "m_state s \<in> {WaitingHello, Closed} \<and> m_file s = ifstream_closed \<and>
    list_all (\<lambda>(bytes, to). to \<in> set (map snd es) \<and>
      (\<exists>e \<in> set refusals. bytes = snd (ser_handshake (se_codec env) (HP_error e)))) out"
proof -
  have "unauthenticated s \<and> list_all (\<lambda>d. \<exists>ep \<in> set (map snd es). refusal_to (se_codec env) ep d) out"
    if "run_steps (handle_packet env) es (s0, r) = Inr ((s, r'), out)" "unauthenticated s0" for s0
    using assms(1) that
  proof (induction es arbitrary: s0 r out)
    case (Cons e es)
    obtain data sender where e: "e = (data, sender)" by fastforce
    from Cons.prems(2) obtain u ru out1 out2 where st: "handle_packet env e (s0, r) = Inr ((u, ru), out1)"
      "run_steps (handle_packet env) es (u, ru) = Inr ((s, r'), out2)" "out = out1 @ out2"
      unfolding run_steps_Cons_Inr by auto
    note first = handle_packet_unauthenticated [OF Cons.prems(3) _ st(1) [unfolded e]]
    from Cons.prems(1) e first have "unauthenticated u" "list_all (refusal_to (se_codec env) sender) out1" by auto
    with Cons.IH [OF _ st(2)] Cons.prems(1) e st(3) show ?case by (auto simp: list_all_iff)
  qed (simp add: unauthenticated_def)
  from this [OF assms(2)] show ?thesis
    by (force simp: unauthenticated_def Session_new_def refusal_to_def list_all_iff)
qed

theorem no_data_without_token_witness:
  "let s = (Session_new toy_ep ''f'')\<lparr>m_state := Closed\<rparr>
   in run_steps (handle_packet toy_env) [(''Cx'', toy_ep), (''Gx'', toy_ep)] (Session_new toy_ep ''f'', 0)
        = Inr ((s, 0), [(''EInvalid Token'', toy_ep)]) \<and> m_file s = ifstream_closed"
proof -
  have run: "run_steps (handle_packet toy_env) [(''Cx'', toy_ep), (''Gx'', toy_ep)] (Session_new toy_ep ''f'', 0)
    = Inr (((Session_new toy_ep ''f'')\<lparr>m_state := Closed\<rparr>, 0), [(''EInvalid Token'', toy_ep)])"
    by (simp add: handle_packet.simps Session_new_def handle_handshake_packet_def validate_token_def
          send_handshake_error_def send_handshake_packet_def Let_def)
  have "list_all (\<lambda>(data, sender). \<not> authenticates toy_env data) [(''Cx'', toy_ep), (''Gx'', toy_ep)]"
    by (simp add: authenticates_def)
  from no_data_without_token [OF this run] run show ?thesis by (simp only: Let_def simp_thms)
qed

text \<open>
  Once the hello is answered, a session never sends a handshake packet again: whatever it
  receives, a repeated hello included, it sends only control packets, all to the endpoint the
  hello came from. A client whose \<open>ServerHello\<close> was lost cannot obtain another one.
\<close>

theorem server_hello_not_repeated:
  assumes "m_state s = Authenticated" "m_last_packet_cache s = []"
    and "run_steps (handle_packet env) es (s, r) = Inr ((s', r'), out)"
  shows "m_state s' \<noteq> WaitingHello \<and> m_remote_endpoint s' = m_remote_endpoint s
     \<and> list_all (control_send (se_codec env) (m_remote_endpoint s)) out"
proof -
  have start: "case (s, r) of (s', r') \<Rightarrow> past_handshake (se_codec env) (m_remote_endpoint s) s'"
    using assms(1,2) by (simp add: past_handshake_def)
  have "list_all (control_send (se_codec env) (m_remote_endpoint s)) out"
    by (rule past.run_outputs [OF _ start assms(3)]) (auto dest: handle_packet_past)
  moreover have "past_handshake (se_codec env) (m_remote_endpoint s) s'"
    using past.run_inv [OF start assms(3)] by simp
  ultimately show ?thesis by (simp add: past_handshake_def)
qed

theorem server_hello_not_repeated_witness:
  "m_state toy_sending \<noteq> WaitingHello \<and> m_remote_endpoint toy_sending = m_remote_endpoint toy_hello
   \<and> list_all (control_send toy_codec (m_remote_endpoint toy_hello))
       [(toy_ser (data_packet toy_transfer 0 ''abc''), toy_ep)]"
proof -
  have "run_steps (handle_packet toy_env) [(''Gtok'', toy_ep)] (toy_hello, 3)
      = Inr ((toy_sending, 3), [(toy_ser (data_packet toy_transfer 0 ''abc''), toy_ep)])"
    by (simp add: toy_get_step)
  from server_hello_not_repeated [OF _ _ this] show ?thesis
    by (simp add: toy_hello_def Session_new_def)
qed

text \<open>
  The error branches of the handshake: a datagram that is no handshake packet is dropped;
  one that holds no client hello is answered with BAD_PACKET and the session keeps waiting; a
  wrong version, an empty token and a token the server refuses are answered with their error and
  close it.
\<close>

theorem handshake_refusals:
  assumes "m_state s = WaitingHello"
    and c: "c = se_codec env" and s1: "s1 = s\<lparr>m_remote_endpoint := sender\<rparr>"
  shows "(parse_handshake c data = None \<longrightarrow>
            handle_packet env (data, sender) (s, r) = Inr ((s1, r), []))
     \<and> (parse_handshake c data \<in> {Some HP_not_set, Some (HP_server_hello sh), Some (HP_handshake_finish f),
                                  Some (HP_error e)} \<longrightarrow>
            handle_packet env (data, sender) (s, r) = Inr ((s1, r),
              send_handshake_error c s1 ERROR_CODE_BAD_PACKET ''Expected client hello!''))
     \<and> (parse_handshake c data = Some (HP_client_hello h) \<and> ch_version h \<noteq> PROTOCOL_VERSION_1 \<longrightarrow>
            handle_packet env (data, sender) (s, r) = Inr ((s1\<lparr>m_state := Closed\<rparr>, r),
              send_handshake_error c s1 ERROR_CODE_BAD_PACKET ''Unsupported protocol version''))
     \<and> (parse_handshake c data = Some (HP_client_hello h) \<and> ch_version h = PROTOCOL_VERSION_1
          \<and> ch_token h = [] \<longrightarrow>
            handle_packet env (data, sender) (s, r) = Inr ((s1\<lparr>m_state := Closed\<rparr>, r),
              send_handshake_error c s1 ERROR_CODE_INVALID_TOKEN ''Missing Token!''))
     \<and> (parse_handshake c data = Some (HP_client_hello h) \<and> ch_version h = PROTOCOL_VERSION_1
          \<and> ch_token h \<noteq> [] \<and> se_metadata env (ch_token h) = Inl (Throw x) \<longrightarrow>
            handle_packet env (data, sender) (s, r) = Inr ((s1\<lparr>m_state := Closed\<rparr>, r),
              send_handshake_error c s1 ERROR_CODE_INVALID_TOKEN ''Invalid Token''))"
  using assms(1) unfolding c s1
  by (auto simp: handle_packet_waiting handle_handshake_packet_def validate_token_def Let_def)

theorem handshake_refusals_witness:
  "handle_packet toy_env (''Cbad'', toy_ep) (Session_new toy_ep ''f'', 0)
     = Inr (((Session_new toy_ep ''f'')\<lparr>m_remote_endpoint := toy_ep, m_state := Closed\<rparr>, 0),
            send_handshake_error toy_codec ((Session_new toy_ep ''f'')\<lparr>m_remote_endpoint := toy_ep\<rparr>)
              ERROR_CODE_INVALID_TOKEN ''Invalid Token'')"
proof -
  have w: "m_state (Session_new toy_ep ''f'') = WaitingHello" by (simp add: Session_new_def)
  let ?h = "\<lparr>ch_version = PROTOCOL_VERSION_1, ch_transfer_id = ''bad'', ch_token = ''bad'',
    ch_receiver_nonce = [], ch_receiver_identity = no_identity, ch_receiver_signature = []\<rparr>"
  show ?thesis
    using handshake_refusals [OF w refl refl, of toy_env "''Cbad''" toy_ep 0 undefined undefined undefined ?h
        "Runtime_Error ''no such transfer''"]
    by simp
qed

lemma hello_accepted:
  assumes "m_state s = WaitingHello" "parse_handshake (se_codec env) hello = Some (HP_client_hello h)"
    and "ch_token h \<noteq> []" "se_metadata env (ch_token h) = Inr t"
    and "handle_packet env (hello, client) (s, r) = Inr ((s1, r1), out)" "ch_version h = PROTOCOL_VERSION_1"
  shows "s1 = s\<lparr>m_remote_endpoint := client, m_transfer_metadata := t, m_state := Authenticated\<rparr>"
proof -
  have "answer_client_hello env h ((s\<lparr>m_remote_endpoint := client\<rparr>)\<lparr>m_transfer_metadata := t\<rparr>) r
      = Inr ((s1, r1), out)"
    using assms by (simp add: handle_packet_waiting handle_handshake_packet_def validate_token_def)
  from answer_client_hello_cases(1) [OF this] show ?thesis by simp
qed

text \<open>
  C38: A session does not tie the token to its own transfer: any token the central server knows,
  with any metadata, authenticates the client; its request is answered with the first chunk of
  the session's own file under the identifier of that other transfer; and whatever arrives from
  then on, the session sends that client nothing but packets of its own file under that
  identifier, or the final packet with the size and the hash of that other transfer.
\<close>

theorem any_registered_token_unlocks:
  assumes "m_state s = WaitingHello" "m_offset s = 0" "m_last_packet_cache s = []"
    and "parse_handshake (se_codec env) hello = Some (HP_client_hello h)"
    and "ch_token h \<noteq> []" "se_metadata env (ch_token h) = Inr t"
    and "handle_packet env (hello, client) (s, r) = Inr ((s1, r1), out1)"
    and "ch_version h = PROTOCOL_VERSION_1"
    and "parse_control (se_codec env) request = Some (CP_get g)"
    and "env_ok env" "se_open env (m_file_path s) = Some contents"
  shows "m_state s1 = Authenticated \<and>
    (\<exists>s2. handle_packet env (request, anyone) (s1, r1)
        = Inr ((s2, r1), [(snd (ser_control (se_codec env) (packet_at t contents 0)), client)]) \<and>
      (\<forall>es s3 r3 out. run_steps (handle_packet env) es (s2, r1) = Inr ((s3, r3), out) \<longrightarrow>
        list_all (packet_of (se_codec env) t contents client) out))"
proof -
  let ?c = "se_codec env"
  have s1: "s1 = s\<lparr>m_remote_endpoint := client, m_transfer_metadata := t, m_state := Authenticated\<rparr>"
    by (rule hello_accepted [OF assms(1,4-8)])
  let ?u = "(opened env s1)\<lparr>m_state := Transferring\<rparr>" and ?s2 = "fst (send_next_chunk ?c ((opened env s1)\<lparr>m_state := Transferring\<rparr>))"
  have inv: "session_inv ?c s1" using assms(2) s1 by (simp add: session_inv_def)
  have "files_bounded env" "m_state s1 = Authenticated" "se_open env (m_file_path s1) = Some contents"
    using assms(10,11) s1 by (simp_all add: env_ok_def)
  note o = opened_readable [OF this(1) inv this(2,3)]
  have u: "readable ?u" "if_contents (m_file ?u) = contents" "m_offset ?u = 0" using o by simp_all
  have e: "m_transfer_metadata ?u = t" "m_remote_endpoint ?u = client" using s1 by (simp_all add: opened_def)
  have "handle_control_packet env request s1 = send_next_chunk ?c ?u"
    using assms(9,11) s1 by (simp add: handle_control_packet_def handle_get_request_opens)
  moreover have "snd (send_next_chunk ?c ?u) = [(snd (ser_control ?c (packet_at t contents 0)), client)]"
    using send_next_chunk_readable(1) [OF u(1), of ?c] by (simp only: current_packet_def u e)
  ultimately have first: "handle_packet env (request, anyone) (s1, r1)
      = Inr ((?s2, r1), [(snd (ser_control ?c (packet_at t contents 0)), client)])"
    using s1 by (auto simp: handle_packet_control split: prod.splits)
  have serves: "serves_file ?c t contents client ?s2" using next_chunk_serves [OF u(1) _ e u(2)] by simp
  have "list_all (packet_of ?c t contents client) out"
    if "run_steps (handle_packet env) es (?s2, r1) = Inr ((s3, r3), out)" for es s3 r3 out
    by (rule serving_file.run_outputs [OF _ _ that, where tr = t and contents = contents and client = client])
       (use serves assms(10) in \<open>auto dest: handle_packet_serves\<close>)
  with first s1 show ?thesis by auto
qed

theorem any_registered_token_unlocks_witness:
  "m_state toy_hello = Authenticated \<and>
    (\<exists>s2. handle_packet toy_env (''Gtok'', Endpoint (V4 66) 66) (toy_hello, 3)
        = Inr ((s2, 3), [(snd (ser_control toy_codec (packet_at toy_transfer ''abc'' 0)), toy_ep)]))"
  using any_registered_token_unlocks [OF _ _ _ _ _ _ toy_hello_step, of
      "\<lparr>ch_version = PROTOCOL_VERSION_1, ch_transfer_id = ''tok'', ch_token = ''tok'',
         ch_receiver_nonce = [], ch_receiver_identity = no_identity, ch_receiver_signature = []\<rparr>"
      toy_transfer "''Gtok''" "\<lparr>get_transfer_id = ''tok''\<rparr>" "''abc''" "Endpoint (V4 66) 66"]
  using toy_env_ok by (auto simp: Session_new_def)

text \<open>
  C29: The reaction to an acknowledgement during a transfer, by the offset it asks for: the end
  of the chunk in flight moves the session on by exactly that chunk and sends the packet that
  follows; the end of the file, once the final packet is out, closes it; the start of the chunk
  in flight makes it send the same bytes again; any other offset is ignored.
\<close>

theorem ack_protocol:
  assumes "m_state s = Transferring" "session_inv c s" "ser_nonempty c" "c = se_codec env"
    and "parse_control c data = Some (CP_ack a)"
    and fc: "file = if_contents (m_file s)" and n: "n = length (chunk_at (unat (m_offset s)) file)"
    and t: "t = m_transfer_metadata s"
  shows "(0 < n \<and> unat (next_offset a) = unat (m_offset s) + n \<longrightarrow>
            (\<exists>s'. handle_packet env (data, sender) (s, r) =
                  Inr ((s', r), [(snd (ser_control c (packet_at t file (next_offset a))), m_remote_endpoint s)])
                \<and> m_offset s' = next_offset a \<and> m_state s' = Transferring))
     \<and> (n = 0 \<and> next_offset a = m_offset s \<longrightarrow>
            handle_packet env (data, sender) (s, r) = Inr ((s\<lparr>m_state := Closed\<rparr>, r), []))
     \<and> (0 < n \<and> next_offset a = m_offset s \<longrightarrow>
            handle_packet env (data, sender) (s, r) =
              Inr ((s, r), [(snd (ser_control c (packet_at t file (m_offset s))), m_remote_endpoint s)]))
     \<and> (next_offset a \<noteq> m_offset s \<and> unat (next_offset a) \<noteq> unat (m_offset s) + n \<longrightarrow>
            handle_packet env (data, sender) (s, r) = Inr ((s, r), []))"
proof -
  have cs: "chunk_sent c s" using assms(1,2) by (simp add: session_inv_def)
  then have dn: "m_last_chunk_done s = (n = 0)" by (simp add: chunk_sent_def n fc Let_def)
  let ?t = "s\<lparr>m_offset := m_offset s + m_last_chunk_size s\<rparr>"
  have nx: "unat (m_offset s + m_last_chunk_size s) = unat (m_offset s) + n"
    using chunk_sent_advance(2) [OF cs] by (simp add: n fc)
  then have expected: "unat (next_offset a) = unat (m_offset s) + n \<longleftrightarrow>
      next_offset a = m_offset s + m_last_chunk_size s" by (metis word_unat_eq_iff)
  have zero: "n = 0 \<longleftrightarrow> m_offset s + m_last_chunk_size s = m_offset s"
    using nx by (metis add_cancel_left_right word_unat_eq_iff)
  have go: "handle_packet env (data, sender) (s, r) = (let (s', out) = handle_ack c a s in Inr ((s', r), out))"
    using assms(1,4,5) by (simp add: handle_packet_control handle_control_packet_def)
  have out: "snd (send_next_chunk c ?t)
      = [(snd (ser_control c (packet_at t file (m_offset s + m_last_chunk_size s))), m_remote_endpoint s)]"
    using send_next_chunk_readable(1) [OF chunk_sent_advance(1) [OF cs], of c]
    by (simp add: current_packet_def fc t)
  have same: "resend_current_chunk c s
      = (s, [(snd (ser_control c (packet_at t file (m_offset s))), m_remote_endpoint s)])"
    using resend_cached [OF cache_nonempty [OF assms(3) cs]] cs
    by (simp add: chunk_sent_def current_packet_def fc t Let_def)
  show ?thesis
    using handle_ack_cases [OF assms(1), of a c] out same dn expected zero go assms(1)
      send_next_chunk_frame(1,2) [of c ?t]
    by (auto simp: case_prod_beta)
qed

lemma toy_sending_inv: "session_inv toy_codec toy_sending"
  using sender.run_inv [OF _ toy_run] toy_env_ok
  by (simp add: session_inv_def Session_new_def)

theorem ack_protocol_witness:
  "handle_packet toy_env (toy_ser (CP_ack \<lparr>ack_transfer_id = [], next_offset = 0\<rparr>), toy_ep) (toy_sending, 0)
     = Inr ((toy_sending, 0), [(toy_ser (packet_at toy_transfer ''abc'' 0), toy_ep)])"
proof -
  have s: "m_state toy_sending = Transferring" "m_offset toy_sending = 0"
    "if_contents (m_file toy_sending) = ''abc''" "m_transfer_metadata toy_sending = toy_transfer"
    "m_remote_endpoint toy_sending = toy_ep"
    by (simp_all add: toy_sending_def toy_hello_def Session_new_def)
  have "toy_parse (toy_ser (CP_ack \<lparr>ack_transfer_id = [], next_offset = 0\<rparr>))
      = Some (CP_ack \<lparr>ack_transfer_id = [], next_offset = 0\<rparr>)"
    by (simp add: le_value_bytes)
  then show ?thesis
    using ack_protocol [OF s(1) toy_sending_inv toy_ser_nonempty, of toy_env
        "toy_ser (CP_ack \<lparr>ack_transfer_id = [], next_offset = 0\<rparr>)" _ "''abc''" 3 toy_transfer toy_ep 0] s
    by (simp add: chunk_at_def PAYLOAD_SIZE_eq)
qed

text \<open>
  A repeated request during a transfer changes nothing: it is answered with the very bytes
  of the packet in flight, as often as it comes.
\<close>

theorem repeated_request_resends:
  assumes "m_state s = Transferring" "session_inv (se_codec env) s" "ser_nonempty (se_codec env)"
    and "parse_control (se_codec env) data = Some (CP_get g)"
  shows "run_steps (handle_packet env) (replicate k (data, sender)) (s, r) =
     Inr ((s, r), replicate k (snd (ser_control (se_codec env) (current_packet s)), m_remote_endpoint s))"
proof (induction k)
  case (Suc k)
  have cs: "chunk_sent (se_codec env) s" using assms(1,2) by (simp add: session_inv_def)
  then have "handle_packet env (data, sender) (s, r)
      = Inr ((s, r), [(snd (ser_control (se_codec env) (current_packet s)), m_remote_endpoint s)])"
    using assms resend_cached [OF cache_nonempty [OF assms(3) cs]]
    by (simp add: handle_packet_control handle_control_packet_def handle_get_request_def
          chunk_sent_def Let_def)
  with Suc show ?case by simp
qed simp

theorem repeated_request_resends_witness:
  "run_steps (handle_packet toy_env) (replicate 2 (''Gtok'', toy_ep)) (toy_sending, 0) =
     Inr ((toy_sending, 0), replicate 2 (toy_ser (current_packet toy_sending), m_remote_endpoint toy_sending))"
  using repeated_request_resends [of toy_sending toy_env "''Gtok''" "\<lparr>get_transfer_id = ''tok''\<rparr>" 2 toy_ep 0]
    toy_sending_inv toy_ser_nonempty
  by (simp add: toy_sending_def toy_hello_def)

end
