(* ===== verification/Cli_Properties.thy ===== *)
theory Cli_Properties
  imports Announcement Receiver_Proofs Sender_Properties
begin

text \<open>
  The command-line program as a whole: what each ending means, and the two sides meeting through
  the central server.
\<close>

section \<open>A server that knows a transfer\<close>

definition told :: "central_env \<Rightarrow> TRANSFERS \<Rightarrow> central \<Rightarrow> bool" where
  "told env t c \<longleftrightarrow>
     serving env c \<and> registrable env t \<and>
     (\<exists>b. entries (directory_of c) (transfer_id t) = Some (payload_of_transfer t, b))"

lemma toldD:
  assumes "told env t c"
  shows "serving env c" "registrable env t" "transfer_id t \<noteq> []" "list_all token_char (transfer_id t)"
    "packable t" "\<exists>b. entries (directory_of c) (transfer_id t) = Some (payload_of_transfer t, b)"
  using assms by (auto simp: told_def registrable_def)

lemma told_registered:
  assumes "serving env c" "registrable env t"
  obtains c1 where "register_transfer (env_floats env) (direct env) t c = (Inr (), c1)" "told env t c1"
    "mailbox (directory_of c1) = mailbox (directory_of c)"
proof -
  obtain c1 where 1: "register_transfer (env_floats env) (direct env) t c = (Inr (), c1)" "serving env c1"
    "entries (directory_of c1) (transfer_id t) \<noteq> None"
    "fst (the (entries (directory_of c1) (transfer_id t))) = payload_of_transfer t"
    "mailbox (directory_of c1) = mailbox (directory_of c)"
    using register_announces [OF assms] .
  then have "told env t c1" using assms(2) by (force simp: told_def)
  with 1 show thesis by (intro that)
qed

lemma announces_simps [simp]:
  "announces i (Announce p) = (pl_id p = i)" "\<not> announces i (Exists j)" "\<not> announces i (Fetch j)"
  "\<not> announces i (Post_mail j m)" "\<not> announces i (Read_mail j)"
  by (simp_all add: announces_def)

text \<open>A request that does not announce this transfer keeps it known.\<close>

lemma told_step:
  assumes "told env t c" "asks env req oper" "\<not> announces (transfer_id t) oper"
  obtains res c1 a where "process_request env req c = Inr (res, c1)" "told env t c1"
    "directory_step oper (directory_of c) = (directory_of c1, a)" "gives env res oper a"
proof -
  from simulation [OF assms(2) toldD(1) [OF assms(1)]] obtain res c1 a where 1:
    "process_request env req c = Inr (res, c1)" "serving env c1"
    "directory_step oper (directory_of c) = (directory_of c1, a)" "gives env res oper a"
    unfolding simulates_def by blast
  have "directory_of c1 = fst (directory_step oper (directory_of c))" using 1(3) by simp
  then have "told env t c1"
    using toldD(6) [OF assms(1)] directory_step_entry [OF assms(3)] 1(2) toldD(2) [OF assms(1)]
    by (auto simp: told_def)
  with 1 show thesis by (intro that) auto
qed

lemma told_look_up:
  assumes "told env t c"
  obtains c1 where "look_up (direct env) (transfer_id t) c = (True, c1)" "told env t c1"
    "directory_of c1 = directory_of c"
proof -
  have ask: "asks env (http_get (''/lookup/'' @ transfer_id t)) (Exists (transfer_id t))"
    using toldD(3,4) [OF assms] by (intro asks.exists)
  obtain res c1 a where 1:
    "process_request env (http_get (''/lookup/'' @ transfer_id t)) c = Inr (res, c1)" "told env t c1"
    "directory_step (Exists (transfer_id t)) (directory_of c) = (directory_of c1, a)"
    "gives env res (Exists (transfer_id t)) a"
    using told_step [OF assms ask announces_simps(2)] .
  from 1(3) toldD(6) [OF assms] have "a = Yes_answer" "directory_of c1 = directory_of c" by auto
  with 1(4) have "look_up (direct env) (transfer_id t) c = (True, c1)"
    unfolding look_up_def direct_def 1(1) by simp
  with 1(2) \<open>directory_of c1 = directory_of c\<close> show thesis by (intro that)
qed

lemma told_metadata:
  assumes "told env t c"
  obtains c1 where "get_transfer_metadata (env_floats env) (direct env) (transfer_id t) c = (Inr t, c1)"
    "told env t c1" "mailbox (directory_of c1) = mailbox (directory_of c)"
proof -
  have ask: "asks env (http_get (''/getfile/'' @ transfer_id t)) (Fetch (transfer_id t))"
    using toldD(3,4) [OF assms] by (intro asks.fetch)
  obtain res c1 a where 1:
    "process_request env (http_get (''/getfile/'' @ transfer_id t)) c = Inr (res, c1)" "told env t c1"
    "directory_step (Fetch (transfer_id t)) (directory_of c) = (directory_of c1, a)"
    using told_step [OF assms ask announces_simps(3)] .
  have "fst (get_transfer_metadata (env_floats env) (direct env) (transfer_id t) c) = Inr t"
    using toldD [OF assms] fetch_entry by blast
  moreover have "snd (get_transfer_metadata (env_floats env) (direct env) (transfer_id t) c) = c1"
    unfolding get_transfer_metadata_def direct_def 1(1) by simp
  moreover have "mailbox (directory_of c1) = mailbox (directory_of c)"
    using 1(3) toldD(6) [OF assms] by (auto dest: sym)
  ultimately show thesis using 1(2) by (intro that [of c1]) (simp_all add: prod_eq_iff)
qed

lemma told_signal:
  assumes "told env t c" "utf8_ok (ip ep)" "utf8_ok (local_ip ep)"
  obtains c1 where "signal_receiver_endpoint (env_floats env) (direct env) (transfer_id t) ep c = (Inr (), c1)"
    "told env t c1" "mailbox (directory_of c1) (transfer_id t) = Some (signal_payload ep)"
proof -
  obtain body where body: "json_dump (env_floats env) (signal_payload ep) = Inr body"
    using signal_utf8 [OF assms(2,3)] json_dump_utf8 by blast
  have ask: "asks env (http_post (''/signal/'' @ transfer_id t) body) (Post_mail (transfer_id t) (signal_payload ep))"
    using toldD(3,4) [OF assms(1)] signal_read_back [OF body] by (intro asks.leave)
  obtain res c1 a where 1:
    "process_request env (http_post (''/signal/'' @ transfer_id t) body) c = Inr (res, c1)" "told env t c1"
    "directory_step (Post_mail (transfer_id t) (signal_payload ep)) (directory_of c) = (directory_of c1, a)"
    using told_step [OF assms(1) ask announces_simps(4)] .
  have "directory_of c1 = fst (directory_step (Post_mail (transfer_id t) (signal_payload ep)) (directory_of c))"
    using 1(3) by simp
  then have "mailbox (directory_of c1) (transfer_id t) = Some (signal_payload ep)" by simp
  moreover have "signal_receiver_endpoint (env_floats env) (direct env) (transfer_id t) ep c = (Inr (), c1)"
    unfolding signal_receiver_endpoint_def body direct_def by (simp only: sum.case 1(1)) simp
  ultimately show thesis using 1(2) by (intro that)
qed

section \<open>Getting a transfer that is known\<close>

text \<open>What is left of \<open>get\<close> once the server has answered everything.\<close>

definition datagrams_of_get ::
    "('r, 'c, 'w) program \<Rightarrow> get_inputs \<Rightarrow> TRANSFERS \<Rightarrow> 'r \<Rightarrow> (string \<Rightarrow> string option) \<Rightarrow> 'w \<Rightarrow> 'w ended" where
  "datagrams_of_get P inp t r d w =
      (case connect_peer P inp t (transfer_id t) r of
         Inl e \<Rightarrow> \<lparr>ending = Terminated e, sent = [], disk = d, world = w\<rparr>
       | Inr (None, out) \<Rightarrow> \<lparr>ending = Exit 1, sent = out, disk = d, world = w\<rparr>
       | Inr (Some peer, out) \<Rightarrow>
           (case receive_file (receive_env_of P peer (transfer_id t) (file_hash t)) (gi_can_open inp (file_name t))
                   (d (file_name t)) (gi_transfer inp) of
              Inl e \<Rightarrow> \<lparr>ending = Terminated e, sent = [], disk = d, world = w\<rparr>
            | Inr (res, st, out1) \<Rightarrow>
                \<lparr>ending = (case res of None \<Rightarrow> Running | Some ok \<Rightarrow> Exit (if ok then 0 else 1)), sent = out @ out1,
                 disk = d(file_name t := out_file st), world = w\<rparr>))"

text \<open>
  All requests of \<open>get\<close> come before its first datagram: whatever becomes of the transfer, the server ends
  in a state that knows the transfer and holds the receiver's endpoint.
\<close>

lemma get_main_told:
  assumes "told env t c" "pg_client P = direct env" "pg_floats P = env_floats env"
    "gi_socket inp = Inr ()" "public_endpoint (gi_stun inp) = Inr ep" "utf8_ok (local_ip ep)"
  obtains c1 where "get_main P inp (transfer_id t) r d c = datagrams_of_get P inp t r d c1"
    "told env t c1" "mailbox (directory_of c1) (transfer_id t) = Some (signal_payload ep)"
proof -
  obtain c1 where 1: "look_up (direct env) (transfer_id t) c = (True, c1)" "told env t c1"
    using told_look_up [OF assms(1)] .
  obtain c2 where 2: "get_transfer_metadata (env_floats env) (direct env) (transfer_id t) c1 = (Inr t, c2)"
    "told env t c2"
    using told_metadata [OF 1(2)] .
  have "utf8_ok (ip ep)" using public_endpoint_quad [OF assms(5)] ascii_utf8 dotted_quad_ascii by metis
  then obtain c3 where 3: "told env t c3" "mailbox (directory_of c3) (transfer_id t) = Some (signal_payload ep)"
    "signal_receiver_endpoint (env_floats env) (direct env) (transfer_id t) ep c2 = (Inr (), c3)"
    using told_signal [OF 2(2) _ assms(6)] by metis
  obtain c4 where 4: "get_transfer_metadata (env_floats env) (direct env) (transfer_id t) c3 = (Inr t, c4)"
    "told env t c4" "mailbox (directory_of c4) = mailbox (directory_of c3)"
    using told_metadata [OF 3(1)] .
  show thesis using assms(2-5) 1(1) 2(1) 3(2,3) 4
    by (intro that [of c4])
      (simp_all add: get_main_def run_client_session_def datagrams_of_get_def split: sum.split prod.split option.split)
qed

lemma get_main_world:
  assumes "told env t c" "pg_client P = direct env" "pg_floats P = env_floats env"
    "gi_socket inp = Inr ()" "public_endpoint (gi_stun inp) = Inr ep" "utf8_ok (local_ip ep)"
  shows "told env t (world (get_main P inp (transfer_id t) r d c))"
    and "mailbox (directory_of (world (get_main P inp (transfer_id t) r d c))) (transfer_id t) = Some (signal_payload ep)"
proof -
  obtain c1 where run: "get_main P inp (transfer_id t) r d c = datagrams_of_get P inp t r d c1"
    and c1: "told env t c1" "mailbox (directory_of c1) (transfer_id t) = Some (signal_payload ep)"
    using get_main_told [OF assms] .
  have "world (get_main P inp (transfer_id t) r d c) = c1"
    unfolding run by (simp add: datagrams_of_get_def split: sum.split prod.split option.split)
  with c1 show "told env t (world (get_main P inp (transfer_id t) r d c))"
    "mailbox (directory_of (world (get_main P inp (transfer_id t) r d c))) (transfer_id t) = Some (signal_payload ep)"
    by simp_all
qed

section \<open>The ending of get\<close>

text \<open>Only the file it was told to write can change, and only by \<open>receive_file\<close>.\<close>

lemma session_writes:
  assumes "run_client_session P inp tok name r d w = (res, d1, w1)"
  shows "d1 = d(name := d1 name)"
    and "res = Inr (Some True, out) \<Longrightarrow> \<exists>ep w2 t peer st out1.
      public_endpoint (gi_stun inp) = Inr ep \<and>
      signal_receiver_endpoint (pg_floats P) (pg_client P) tok ep w = (Inr (), w2) \<and>
      get_transfer_metadata (pg_floats P) (pg_client P) tok w2 = (Inr t, w1) \<and>
      receive_file (receive_env_of P peer tok (file_hash t)) (gi_can_open inp name) (d name) (gi_transfer inp)
        = Inr (Some True, st, out1) \<and> d1 name = out_file st"
  using assms
  by (auto simp: run_client_session_def bind_result_def split: sum.splits prod.splits option.splits) blast

text \<open>
  C17: Whatever happens, \<open>get\<close> changes no file but the one whose name the central
  server gave it, a name that the code does not look at: with slashes in it the file is written
  outside the current directory. With exit code 0 the server knew the token, gave a first record
  with that name, took the receiver's endpoint and gave a second record, each in the state the
  request before had left it in, the last one being the state the run leaves; and the file is on
  the disk and hashes to the hash of that second record.
\<close>

theorem get_writes_announced_file:
  assumes "sha_stream (pg_sha P)" "e = get_main P inp secret r d w"
  shows "(\<forall>path. disk e path \<noteq> d path \<longrightarrow>
      (\<exists>t. fst (get_transfer_metadata (pg_floats P) (pg_client P) secret (snd (look_up (pg_client P) secret w))) = Inr t \<and>
        path = file_name t)) \<and>
    (ending e = Exit 0 \<longrightarrow>
      (\<exists>w1 t w2 ep w3 t' contents.
        look_up (pg_client P) secret w = (True, w1) \<and>
        get_transfer_metadata (pg_floats P) (pg_client P) secret w1 = (Inr t, w2) \<and>
        public_endpoint (gi_stun inp) = Inr ep \<and>
        signal_receiver_endpoint (pg_floats P) (pg_client P) secret ep w2 = (Inr (), w3) \<and>
        get_transfer_metadata (pg_floats P) (pg_client P) secret w3 = (Inr t', world e) \<and>
        disk e (file_name t) = Some contents \<and> hex_digest (sha_of (pg_sha P) contents) = file_hash t'))"
proof (cases "look_up (pg_client P) secret w")
  case look: (Pair found w1)
  show ?thesis
  proof (cases "get_transfer_metadata (pg_floats P) (pg_client P) secret w1")
    case meta: (Pair m w2)
    show ?thesis
    proof (cases "found \<and> (\<exists>t. m = Inr t)")
      case False
      then show ?thesis using look meta assms(2)
        by (cases m) (auto simp: get_main_def split: bool.splits)
    next
      case True
      then obtain t where t: "found" "m = Inr t" by blast
      obtain res d1 w4 where run: "run_client_session P inp secret (file_name t) r d w2 = (res, d1, w4)"
        by (metis surj_pair)
      have e: "disk e = d1" "world e = w4" using look meta t run assms(2)
        by (auto simp: get_main_def split: sum.splits)
      have ok: "\<exists>out. res = Inr (Some True, out)" if "ending e = Exit 0"
        using look meta t run assms(2) that
        by (auto simp: get_main_def split: sum.splits option.splits if_splits)
      have "\<exists>ep w3 t' contents. public_endpoint (gi_stun inp) = Inr ep \<and>
          signal_receiver_endpoint (pg_floats P) (pg_client P) secret ep w2 = (Inr (), w3) \<and>
          get_transfer_metadata (pg_floats P) (pg_client P) secret w3 = (Inr t', w4) \<and>
          d1 (file_name t) = Some contents \<and> hex_digest (sha_of (pg_sha P) contents) = file_hash t'"
        if "ending e = Exit 0"
      proof -
        from ok [OF that] obtain out where "res = Inr (Some True, out)" ..
        from session_writes(2) [OF run this] obtain ep w3 t' peer st out1 where chain:
          "public_endpoint (gi_stun inp) = Inr ep"
          "signal_receiver_endpoint (pg_floats P) (pg_client P) secret ep w2 = (Inr (), w3)"
          "get_transfer_metadata (pg_floats P) (pg_client P) secret w3 = (Inr t', w4)"
          and got: "receive_file (receive_env_of P peer secret (file_hash t')) (gi_can_open inp (file_name t))
             (d (file_name t)) (gi_transfer inp) = Inr (Some True, st, out1)" "d1 (file_name t) = out_file st"
          by blast
        from received_hash [OF _ got(1)] assms(1) got(2) chain show ?thesis by (auto simp: receive_env_of_def)
      qed
      moreover have "path = file_name t" if "d1 path \<noteq> d path" for path
        using session_writes(1) [OF run] that by (metis fun_upd_apply)
      ultimately show ?thesis using look meta t e by auto
    qed
  qed
qed

section \<open>A small run of get\<close>

definition toy_program :: "(nat, string, central) program" where
  "toy_program =
     \<lparr>pg_sodium = toy_sodium, pg_codec = toy_codec, pg_sha = toy_sha, pg_floats = no_floats,
      pg_client = direct toy_central_env, pg_make_address = (\<lambda>_. Inr (V4 2))\<rparr>"

definition toy_stun :: stun_answer where
  "toy_stun = Inr (''10.0.0.2'', 40000, replicate 20 0 @ xor_mapped_address 0x01020304 0x1234, 32)"

definition toy_get :: get_inputs where
  "toy_get =
     \<lparr>gi_socket = Inr (), gi_stun = toy_stun, gi_handshake = (\<lambda>_. Datagram ''Stok'' toy_peer),
      gi_transfer = toy_events, gi_can_open = (\<lambda>_. True)\<rparr>"

text \<open>A transfer whose name leads out of the current directory.\<close>

definition toy_told :: TRANSFERS where
  "toy_told = toy_offer\<lparr>transfer_id := ''tok'', token := ''tok'', file_name := ''../f.txt'',
     file_hash := hex_digest (sha_of toy_sha ''abc'')\<rparr>"

lemma toy_program_simps [simp]:
  "pg_sodium toy_program = toy_sodium" "pg_codec toy_program = toy_codec" "pg_sha toy_program = toy_sha"
  "pg_floats toy_program = env_floats toy_central_env" "pg_client toy_program = direct toy_central_env"
  "pg_make_address toy_program = (\<lambda>_. Inr (V4 2))"
  by (simp_all add: toy_program_def toy_central_env_def)

lemma toy_get_simps [simp]:
  "gi_socket toy_get = Inr ()" "gi_stun toy_get = toy_stun" "gi_transfer toy_get = toy_events"
  "gi_handshake toy_get n = Datagram ''Stok'' toy_peer" "gi_can_open toy_get name"
  by (simp_all add: toy_get_def)

lemma toy_told_simps [simp]:
  "transfer_id toy_told = ''tok''" "file_name toy_told = ''../f.txt''"
  "file_hash toy_told = hex_digest (sha_of toy_sha ''abc'')" "sender_ip toy_told = ''1.2.3.4''"
  "sender_port toy_told = 5173" "sender_local_ip toy_told = ''10.0.0.5''" "sender_local_port toy_told = 5173"
  by (simp_all add: toy_told_def toy_offer_def)

lemma toy_digest: "utf8_ok (hex_digest (sha_of toy_sha ''abc''))"
  by code_simp

lemma toy_told_registrable: "registrable toy_central_env toy_told"
  using toy_digest
  by (simp add: registrable_def packable_def toy_told_def toy_offer_def token_char_def payload_utf8_def
      payload_of_transfer_def pack_sender_ip_def utf8_ok.simps code_def storable_def toy_central_env_def
      toy_postgres_def to_string.simps digit_chars)

lemma toy_public_endpoint:
  "public_endpoint toy_stun =
     Inr \<lparr>ip = ''1.2.3.4'', port = 0x1234, local_ip = ''10.0.0.2'', local_port = 40000\<rparr>"
  by code_simp

lemma toy_connect:
  "connect_peer toy_program toy_get toy_told ''tok'' r =
     Inr (Some toy_peer,
       concat (replicate 5 [(''PUNCH'', toy_peer), (''PUNCH'', toy_peer)]) @
       [(''Ctok'', toy_peer), (''Ctok'', toy_peer)])"
  by (simp add: connect_peer_def build_peer_candidates_def perform_udp_hole_punch_def punch_candidates_def
      sender_endpoint_def toy_peer_def perform_handshake_def build_client_hello_def toy_keys Let_def
      sign_client_hello_def handshake_rounds.simps [of _ _ _ _ _ 0] MAX_RETRIES_def MAX_PACKET_SIZE_def
      is_server_hello_for_def)

lemma toy_receive_file:
  "receive_file (receive_env_of toy_program toy_peer ''tok'' (hex_digest (sha_of toy_sha ''abc''))) True contents toy_events =
     Inr (Some True, toy_received, (''Gtok'', toy_peer) # ack_now toy_renv toy_received @ ack_now toy_renv toy_received)"
proof -
  have "receive_env_of toy_program toy_peer ''tok'' (hex_digest (sha_of toy_sha ''abc'')) = toy_renv"
    by (simp add: receive_env_of_def toy_renv_def build_get_request_def)
  then show ?thesis using toy_receive_loop by (simp add: receive_file_def receiver_init_def)
qed

lemma toy_get_run:
  obtains c c1 out where "told toy_central_env toy_told c"
    "get_main toy_program toy_get ''tok'' r d c =
       \<lparr>ending = Exit 0, sent = out, disk = d(''../f.txt'' := Some ''abc''), world = c1\<rparr>"
proof -
  obtain c where told: "told toy_central_env toy_told c"
    using told_registered [OF toy_serving toy_told_registrable] .
  let ?ep = "\<lparr>ip = ''1.2.3.4'', port = 0x1234, local_ip = ''10.0.0.2'', local_port = 40000\<rparr>"
  have "public_endpoint (gi_stun toy_get) = Inr ?ep" "utf8_ok (local_ip ?ep)"
    by (simp_all add: toy_public_endpoint utf8_ok.simps code_def)
  from get_main_told [OF told toy_program_simps(5,4) toy_get_simps(1) this, of r d]
  obtain c1 out where "get_main toy_program toy_get ''tok'' r d c =
      \<lparr>ending = Exit 0, sent = out, disk = d(''../f.txt'' := out_file toy_received), world = c1\<rparr>"
    by (simp only: datagrams_of_get_def toy_told_simps toy_get_simps toy_connect toy_receive_file sum.case prod.case option.case if_True) blast
  with told show thesis by (intro that) (auto simp: toy_received_def)
qed

lemma get_writes_announced_file_witness:
  "\<exists>c w1 t w2 ep w3 t' c1 out.
     get_main toy_program toy_get ''tok'' 0 Map.empty c =
       \<lparr>ending = Exit 0, sent = out, disk = Map.empty(''../f.txt'' := Some ''abc''), world = c1\<rparr> \<and>
     look_up (direct toy_central_env) ''tok'' c = (True, w1) \<and>
     get_transfer_metadata no_floats (direct toy_central_env) ''tok'' w1 = (Inr t, w2) \<and> file_name t = ''../f.txt'' \<and>
     signal_receiver_endpoint no_floats (direct toy_central_env) ''tok'' ep w2 = (Inr (), w3) \<and>
     get_transfer_metadata no_floats (direct toy_central_env) ''tok'' w3 = (Inr t', c1) \<and>
     file_hash t' = hex_digest (sha_of toy_sha ''abc'')"
proof -
  obtain c c1 out where run: "get_main toy_program toy_get ''tok'' 0 Map.empty c =
      \<lparr>ending = Exit 0, sent = out, disk = Map.empty(''../f.txt'' := Some ''abc''), world = c1\<rparr>"
    using toy_get_run .
  let ?e = "get_main toy_program toy_get ''tok'' 0 Map.empty c"
  have finished: "ending ?e = Exit 0" "disk ?e = Map.empty(''../f.txt'' := Some ''abc'')" "world ?e = c1"
    by (simp_all only: run ended.simps)
  have "sha_stream (pg_sha toy_program)" using toy_sha_stream by simp
  from get_writes_announced_file [OF this refl, of toy_get "''tok''" 0 Map.empty c, THEN conjunct2, rule_format, OF finished(1)]
  obtain w1 t w2 ep w3 t' contents where g: "look_up (pg_client toy_program) ''tok'' c = (True, w1)"
    "get_transfer_metadata (pg_floats toy_program) (pg_client toy_program) ''tok'' w1 = (Inr t, w2)"
    "signal_receiver_endpoint (pg_floats toy_program) (pg_client toy_program) ''tok'' ep w2 = (Inr (), w3)"
    "get_transfer_metadata (pg_floats toy_program) (pg_client toy_program) ''tok'' w3 = (Inr t', world ?e)"
    "disk ?e (file_name t) = Some contents" "hex_digest (sha_of (pg_sha toy_program) contents) = file_hash t'"
    by blast
  from g(5) have "file_name t = ''../f.txt''" "contents = ''abc''" unfolding finished(2) by (simp_all split: if_splits)
  moreover have "env_floats toy_central_env = no_floats" by (simp add: toy_central_env_def)
  ultimately show ?thesis using g(1-4,6) run unfolding finished(3) toy_program_simps by metis
qed

end
