(* ===== verification/Meeting.thy ===== *)
theory Meeting
  imports Cli_Properties
begin

text \<open>
  The two sides through the central server: \<open>send\<close> and \<open>get\<close> find each other, and what becomes of
  \<open>send\<close> when nobody comes or when a stranger does.
\<close>

section \<open>The server between the two sides\<close>

lemma told_run:
  assumes "told env t c" "list_all2 (asks env) reqs opers"
    "list_all (\<lambda>oper. \<not> announces (transfer_id t) oper) opers"
  obtains c1 ress where "run_steps (central_step env) reqs c = Inr (c1, ress)" "told env t c1"
proof -
  obtain c1 ress where run: "run_steps (central_step env) reqs c = Inr (c1, ress)"
    using asked_runs [OF assms(2) toldD(1) [OF assms(1)]] by blast
  note ran = run_asked [OF assms(2) toldD(1) [OF assms(1)] run]
  have "told env t c1"
    using ran(1) ran(2) [OF assms(3)] toldD(2,6) [OF assms(1)] by (auto simp: told_def)
  with run show thesis by (intro that)
qed

lemma told_poll:
  assumes "told env t c" "mailbox (directory_of c) (transfer_id t) = None"
  obtains c1 where "poll_once (env_floats env) (direct env) (transfer_id t) c = (Inr None, c1)"
    "told env t c1" "mailbox (directory_of c1) (transfer_id t) = None"
proof -
  have ask: "asks env (http_get (''/signal/'' @ transfer_id t)) (Read_mail (transfer_id t))"
    using toldD(3,4) [OF assms(1)] by (intro asks.collect)
  obtain res c1 a where 1:
    "process_request env (http_get (''/signal/'' @ transfer_id t)) c = Inr (res, c1)" "told env t c1"
    "directory_step (Read_mail (transfer_id t)) (directory_of c) = (directory_of c1, a)"
    "gives env res (Read_mail (transfer_id t)) a"
    using told_step [OF assms(1) ask announces_simps(5)] .
  from 1(3) assms(2) have "a = No_mail_answer" "directory_of c1 = directory_of c" by auto
  with 1(4) have "poll_once (env_floats env) (direct env) (transfer_id t) c = (Inr None, c1)"
    unfolding poll_once_def direct_def 1(1) by simp
  with 1(2) assms(2) \<open>directory_of c1 = directory_of c\<close> show thesis by (intro that [of c1]) simp_all
qed

lemma told_polls:
  "told env t c \<Longrightarrow> mailbox (directory_of c) (transfer_id t) = None \<Longrightarrow>
     \<exists>c1. poll_rounds n (env_floats env) (direct env) (transfer_id t) c =
       (Inl (Throw (Runtime_Error ''No Signal Received! Timed out'')), c1) \<and> told env t c1"
proof (induction n arbitrary: c)
  case (Suc n)
  obtain c1 where "poll_once (env_floats env) (direct env) (transfer_id t) c = (Inr None, c1)"
    "told env t c1" "mailbox (directory_of c1) (transfer_id t) = None"
    using told_poll [OF Suc.prems] .
  with Suc.IH [of c1] show ?case by simp
qed simp

text \<open>The exceptions of the hole punching are caught.\<close>

lemma punches_sent:
  assumes "\<And>s x. make_address s \<noteq> Inl (Abort x)"
  shows "\<exists>punches. perform_udp_hole_punch make_address peer = Inr punches"
proof -
  have "punch_candidates make_address peer \<noteq> Inl (Abort x)" for x
    using assms by (auto simp: punch_candidates_def bind_result_def split: sum.splits)
  then show ?thesis
    by (cases "punch_candidates make_address peer") (auto simp: perform_udp_hole_punch_def catch_exn_def split: fault.splits)
qed

section \<open>A small run of send\<close>

definition toy_send :: "completion list \<Rightarrow> send_inputs" where
  "toy_send evs =
     \<lparr>si_files = \<lparr>fs_exists = (\<lambda>_. True), fs_open = (\<lambda>_. Some ''abc''), fs_size = (\<lambda>_. Inr 3)\<rparr>,
      si_random = (\<lambda>_. 0), si_stun = toy_stun, si_local_address = Inr ''10.0.0.5'', si_bind = Inr (),
      si_completions = evs\<rparr>"

lemma toy_send_simps [simp]:
  "fs_exists (si_files (toy_send evs)) path" "si_bind (toy_send evs) = Inr ()"
  "si_completions (toy_send evs) = evs"
  by (simp_all add: toy_send_def)

lemma toy_described:
  obtains t where "describe_transfer (pg_sha toy_program) (toy_send evs) ''dir/f'' = Inr t"
proof -
  have "\<exists>t. describe_transfer (pg_sha toy_program) (toy_send evs) ''dir/f'' = Inr t"
    by (simp add: describe_transfer_def describe_file_def describe_network_def toy_send_def toy_public_endpoint
        compute_file_hash_eq [OF toy_sha_stream])
  with that show thesis by blast
qed

lemma toy_storable: "storable_send toy_central_env (toy_send evs) ''dir/f''"
  by (simp add: storable_send_def toy_send_def filename_def utf8_ok.simps code_def toy_central_env_def
      toy_postgres_def)

lemma toy_new_token: "new_token (toy_send evs) \<noteq> ''k''"
proof -
  have "length (new_token (toy_send evs)) = 40" by (simp add: new_token_def generate_uuid_token_def)
  then show ?thesis by auto
qed

section \<open>Properties\<close>

text \<open>
  C12: The two sides meet: after \<open>send\<close> has registered and \<open>get\<close> has
  run, with other requests before and after it, \<open>get\<close> has been told what
  \<open>send\<close> registered and the session of \<open>send\<close> talks to the endpoint
  that \<open>get\<close> found for its socket. The token, hash and addresses the program makes
  always survive the way.
\<close>

theorem send_and_get_meet:
  assumes "serving env c" "describe_transfer (pg_sha P) si path = Inr t" "storable_send env si path"
    "pg_client P = direct env" "pg_floats P = env_floats env"
    "list_all2 (asks env) reqs1 opers1" "list_all (\<lambda>oper. \<not> announces (new_token si) oper) opers1"
    "gi_socket gi = Inr ()" "public_endpoint (gi_stun gi) = Inr ep" "utf8_ok (local_ip ep)"
    "list_all2 (asks env) reqs2 opers2" "list_all (\<lambda>oper. \<not> posts_to (new_token si) oper) opers2"
    "pg_make_address P (ip ep) = Inr a" "\<And>s x. pg_make_address P s \<noteq> Inl (Abort x)"
  shows "\<exists>c1 c2 ress1 c3 ress2 punches c4.
    register_transfer (pg_floats P) (pg_client P) t c = (Inr (), c1) \<and>
    run_steps (central_step env) reqs1 c1 = Inr (c2, ress1) \<and>
    fst (get_transfer_metadata (pg_floats P) (pg_client P) (new_token si) c2) = Inr t \<and>
    run_steps (central_step env) reqs2 (world (get_main P gi (new_token si) r d c2)) = Inr (c3, ress2) \<and>
    Server_run (pg_floats P) (pg_client P) (pg_make_address P) path (new_token si) c3 =
      (Inr (Session_new (Endpoint a (port ep)) path, punches), c4)"
proof -
  note reg = described_registrable [OF assms(2,3)]
  obtain c1 where 1: "register_transfer (env_floats env) (direct env) t c = (Inr (), c1)" "told env t c1"
    using told_registered [OF assms(1) reg(1)] .
  obtain c2 ress1 where 2: "run_steps (central_step env) reqs1 c1 = Inr (c2, ress1)" "told env t c2"
    using told_run [OF 1(2) assms(6)] assms(7) reg(2) by metis
  have meta: "fst (get_transfer_metadata (env_floats env) (direct env) (transfer_id t) c2) = Inr t"
    by (rule told_metadata [OF 2(2)]) simp
  let ?w = "world (get_main P gi (transfer_id t) r d c2)"
  note w = get_main_world [OF 2(2) assms(4,5,8,9,10), of r d]
  obtain c3 ress2 where 3: "run_steps (central_step env) reqs2 ?w = Inr (c3, ress2)"
    using asked_runs [OF assms(11) toldD(1) [OF w(1)]] by blast
  note ran = run_asked [OF assms(11) toldD(1) [OF w(1)] 3]
  have "mailbox (directory_of c3) (transfer_id t) = Some (signal_payload ep)"
    using ran(3) assms(12) w(2) reg(2) by simp
  from poll_finds [OF ran(1) toldD(3,4) [OF w(1)] this] obtain c4 where
    4: "poll_for_signal (env_floats env) (direct env) (transfer_id t) c3 = (Inr ep, c4)" by blast
  obtain punches where "perform_udp_hole_punch (pg_make_address P) ep = Inr punches"
    using punches_sent [where make_address = "pg_make_address P", OF assms(14)] by blast
  with 4 assms(13) have "Server_run (env_floats env) (direct env) (pg_make_address P) path (transfer_id t) c3 =
      (Inr (Session_new (Endpoint a (port ep)) path, punches), c4)"
    by (simp add: Server_run_def)
  with 1(1) 2(1) meta 3 show ?thesis unfolding assms(4,5) reg(2) by blast
qed

lemma send_and_get_meet_witness:
  "\<exists>t c1 c2 ress1 c3 ress2 punches c4.
    register_transfer no_floats (direct toy_central_env) t toy_central = (Inr (), c1) \<and>
    run_steps (central_step toy_central_env) toy_requests c1 = Inr (c2, ress1) \<and>
    fst (get_transfer_metadata no_floats (direct toy_central_env) (new_token (toy_send [])) c2) = Inr t \<and>
    run_steps (central_step toy_central_env) toy_requests
      (world (get_main toy_program toy_get (new_token (toy_send [])) 0 Map.empty c2)) = Inr (c3, ress2) \<and>
    Server_run no_floats (direct toy_central_env) (pg_make_address toy_program) ''dir/f'' (new_token (toy_send [])) c3 =
      (Inr (Session_new (Endpoint (V4 2) 0x1234) ''dir/f'', punches), c4)"
proof -
  obtain t where t: "describe_transfer (pg_sha toy_program) (toy_send []) ''dir/f'' = Inr t"
    using toy_described .
  have others: "list_all (\<lambda>oper. \<not> announces i oper) toy_operations"
    "list_all (\<lambda>oper. \<not> posts_to (new_token (toy_send [])) oper) toy_operations" for i
    using toy_new_token [of "[]"] by (auto simp: toy_operations_def posts_to_def)
  let ?ep = "\<lparr>ip = ''1.2.3.4'', port = 0x1234, local_ip = ''10.0.0.2'', local_port = 40000\<rparr>"
  have ep: "public_endpoint (gi_stun toy_get) = Inr ?ep" "utf8_ok (local_ip ?ep)"
    by (simp_all add: toy_public_endpoint utf8_ok.simps code_def)
  have address: "pg_make_address toy_program (ip ?ep) = Inr (V4 2)" "\<And>s x. pg_make_address toy_program s \<noteq> Inl (Abort x)"
    by simp_all
  have floats: "env_floats toy_central_env = no_floats" by (simp add: toy_central_env_def)
  from send_and_get_meet [OF toy_serving t toy_storable toy_program_simps(5,4) toy_asks others(1) toy_get_simps(1) ep
      toy_asks others(2) address, of 0 Map.empty]
  show ?thesis unfolding toy_program_simps(4,5) floats by (simp only: PublicEndpoint.simps) blast
qed

text \<open>
  When nobody signals, \<open>send\<close> ends by an exception that nothing catches, and
  the transfer it registered stays behind: the server still says that it exists and hands out
  its data.
\<close>

theorem unanswered_send_terminates:
  assumes "serving env c" "describe_transfer (pg_sha P) si path = Inr t" "storable_send env si path"
    "pg_client P = direct env" "pg_floats P = env_floats env"
    "fs_exists (si_files si) path" "si_bind si = Inr ()" "signal_find (new_token si) c = None"
  shows "\<exists>c1. send_main P si path r d c =
      \<lparr>ending = Terminated (Throw (Runtime_Error ''No Signal Received! Timed out'')), sent = [], disk = d, world = c1\<rparr> \<and>
    fst (look_up (pg_client P) (new_token si) c1) \<and>
    fst (get_transfer_metadata (pg_floats P) (pg_client P) (new_token si) c1) = Inr t"
proof -
  note reg = described_registrable [OF assms(2,3)]
  obtain c1 where 1: "register_transfer (env_floats env) (direct env) t c = (Inr (), c1)" "told env t c1"
    "mailbox (directory_of c1) = mailbox (directory_of c)"
    using told_registered [OF assms(1) reg(1)] .
  have "mailbox (directory_of c1) (transfer_id t) = None" using 1(3) assms(8) reg(2) by (simp add: directory_of_def)
  from told_polls [OF 1(2) this, of 30] obtain c2 where
    2: "poll_for_signal (env_floats env) (direct env) (transfer_id t) c1 =
      (Inl (Throw (Runtime_Error ''No Signal Received! Timed out'')), c2)" "told env t c2"
    unfolding poll_for_signal_def by blast
  have "fst (look_up (direct env) (transfer_id t) c2)"
    "fst (get_transfer_metadata (env_floats env) (direct env) (transfer_id t) c2) = Inr t"
    by (rule told_look_up [OF 2(2)], simp, rule told_metadata [OF 2(2)], simp)
  with 1(1) 2(1) assms(2,4-7) reg(2) show ?thesis by (simp add: send_main_def start_server_def Server_run_def)
qed

lemma unanswered_send_terminates_witness:
  "\<exists>t c1. send_main toy_program (toy_send []) ''dir/f'' 0 Map.empty toy_central =
      \<lparr>ending = Terminated (Throw (Runtime_Error ''No Signal Received! Timed out'')), sent = [],
       disk = Map.empty, world = c1\<rparr> \<and>
    fst (look_up (direct toy_central_env) (new_token (toy_send [])) c1) \<and>
    fst (get_transfer_metadata no_floats (direct toy_central_env) (new_token (toy_send [])) c1) = Inr t"
proof -
  obtain t where t: "describe_transfer (pg_sha toy_program) (toy_send []) ''dir/f'' = Inr t"
    using toy_described .
  have none: "signal_find (new_token (toy_send [])) toy_central = None"
    by (simp add: signal_find_def toy_central_def object_find_def)
  have floats: "env_floats toy_central_env = no_floats" by (simp add: toy_central_env_def)
  from unanswered_send_terminates [OF toy_serving t toy_storable toy_program_simps(5,4) toy_send_simps(1,2) none]
  show ?thesis unfolding toy_program_simps(4,5) floats by blast
qed

text \<open>
  Whoever can reach the socket of \<open>send\<close> ends it with one datagram, a hello
  whose token the central server does not know: nothing of the file is sent and the exit code is
  0.
\<close>

theorem stranger_ends_send:
  assumes "fs_exists (si_files si) path" "describe_transfer (pg_sha P) si path = Inr t" "si_bind si = Inr ()"
    "register_transfer (pg_floats P) (pg_client P) t w = (Inr (), wr)"
    "Server_run (pg_floats P) (pg_client P) (pg_make_address P) path (transfer_id t) wr = (Inr (s, punches), wp)"
    "si_completions si = Received bytes stranger # rest" "bytes \<noteq> []" "length bytes \<le> MAX_PACKET_SIZE"
    "parse_handshake (pg_codec P) bytes = Some (HP_client_hello hello)"
    "ch_version hello = PROTOCOL_VERSION_1" "ch_token hello \<noteq> []"
    "get_transfer_metadata (pg_floats P) (pg_client P) (ch_token hello) wp = (Inl (Throw x), we)"
  shows "send_main P si path r d w =
    \<lparr>ending = Exit 0,
     sent = punches @ send_handshake_error (pg_codec P) (s\<lparr>m_remote_endpoint := stranger\<rparr>)
       ERROR_CODE_INVALID_TOKEN ''Invalid Token'',
     disk = d, world = we\<rparr>"
proof -
  from assms(5) have s: "m_state s = WaitingHello"
    by (auto simp: Server_run_def Session_new_def bind_result_Inr_iff split: sum.splits prod.splits)
  let ?env = "server_env_of P (si_files si)"
  let ?s = "s\<lparr>m_remote_endpoint := stranger, m_state := Closed\<rparr>"
  let ?out = "send_handshake_error (pg_codec P) (s\<lparr>m_remote_endpoint := stranger\<rparr>)
    ERROR_CODE_INVALID_TOKEN ''Invalid Token''"
  have env: "se_codec (sv_session ?env) = pg_codec P" "sv_floats ?env = pg_floats P" "sv_client ?env = pg_client P"
    by (simp_all add: server_env_of_def)
  have "handle_packet (metadata_in ?env wp) (bytes, stranger) (s, r) = Inr ((?s, r), ?out)"
    using s assms(9-12) env
    by (simp add: handle_packet_waiting handle_handshake_packet_def validate_token_def Let_def)
  moreover have "asked_token (pg_codec P) bytes s = Some (ch_token hello)"
    using s assms(9-11) by (simp add: asked_token_def)
  ultimately have "do_receive ?env (Received bytes stranger) (s, r, wp) = Inr ((False, ?s, r, we), ?out)"
    using assms(7,8,12) env by (simp add: do_receive_def session_packet_def is_closed_def)
  then have "start_server P si path (transfer_id t) r wr = (Inr (False, punches @ ?out), we)"
    using assms(3,5,6) by (simp add: start_server_def)
  then show ?thesis using assms(1,2,4) by (simp add: send_main_def)
qed

text \<open>A client whose every request fails but the one for the signal.\<close>

definition toy_offline :: "string \<Rightarrow> nat client" where
  "toy_offline body req w =
     (if take 8 (req_path req) = ''/signal/''
      then (Some \<lparr>res_status = 200, res_body = body, res_content_type = []\<rparr>, w) else (None, w))"

lemma stranger_ends_send_witness:
  "\<exists>(P :: (nat, string, nat) program) punches. send_main P (toy_send [Received ''Cbad'' toy_ep]) ''dir/f'' 0 Map.empty 0 =
    \<lparr>ending = Exit 0, sent = punches @ [(''EInvalid Token'', toy_ep)], disk = Map.empty, world = 0\<rparr>"
proof -
  let ?si = "toy_send [Received ''Cbad'' toy_ep]"
  obtain t where t: "describe_transfer (pg_sha toy_program) ?si ''dir/f'' = Inr t"
    using toy_described .
  note reg = described_registrable [OF t toy_storable]
  have "json_utf8 (signal_payload toy_public)"
    by (rule signal_utf8) (simp_all add: toy_public_def utf8_ok.simps code_def)
  then obtain body where body: "json_dump no_floats (signal_payload toy_public) = Inr body"
    using json_dump_utf8 by blast
  obtain text1 where "json_dump no_floats (registration_payload t) = Inr text1"
    using registration_utf8 reg(1) json_dump_utf8 unfolding registrable_def by blast
  then have registered: "register_transfer no_floats (toy_offline body) t 0 = (Inr (), 0)"
    by (simp add: register_transfer_def toy_offline_def http_post_def)
  have "poll_once no_floats (toy_offline body) (transfer_id t) 0 = (Inr (Some toy_public), 0)"
    using signal_read_back [OF body] by (simp add: poll_once_def toy_offline_def http_get_def endpoint_of_payload)
  then have polled: "poll_for_signal no_floats (toy_offline body) (transfer_id t) 0 = (Inr toy_public, 0)"
    unfolding poll_for_signal_def by (rule poll_rounds_first) simp
  let ?P = "\<lparr>pg_sodium = toy_sodium, pg_codec = toy_codec, pg_sha = toy_sha, pg_floats = no_floats,
    pg_client = toy_offline body, pg_make_address = (\<lambda>_. Inr (V4 2))\<rparr>"
  obtain punches where "perform_udp_hole_punch (\<lambda>_. Inr (V4 2)) toy_public = Inr punches"
    using punches_sent [of "\<lambda>_. Inr (V4 2)" toy_public] by auto
  with polled have run: "Server_run (pg_floats ?P) (pg_client ?P) (pg_make_address ?P) ''dir/f'' (transfer_id t) 0 =
      (Inr (Session_new (Endpoint (V4 2) (port toy_public)) ''dir/f'', punches), 0)"
    by (simp add: Server_run_def)
  let ?h = "\<lparr>ch_version = PROTOCOL_VERSION_1, ch_transfer_id = ''bad'', ch_token = ''bad'',
    ch_receiver_nonce = [], ch_receiver_identity = no_identity, ch_receiver_signature = []\<rparr>"
  have "send_main ?P ?si ''dir/f'' 0 Map.empty 0 =
    \<lparr>ending = Exit 0,
     sent = punches @ send_handshake_error (pg_codec ?P)
       ((Session_new (Endpoint (V4 2) (port toy_public)) ''dir/f'')\<lparr>m_remote_endpoint := toy_ep\<rparr>)
       ERROR_CODE_INVALID_TOKEN ''Invalid Token'',
     disk = Map.empty, world = 0\<rparr>"
  proof (rule stranger_ends_send [where t = t and hello = ?h and rest = "[]" and bytes = "''Cbad''" and wr = 0 and wp = 0])
    show "get_transfer_metadata (pg_floats ?P) (pg_client ?P) (ch_token ?h) 0 = (Inl (Throw (Runtime_Error
        ''[GET TRANSFER METADATA] Error getting metadata for the transfer'')), 0)"
      by (simp add: get_transfer_metadata_def toy_offline_def http_get_def)
  qed (use t registered run in \<open>simp_all add: MAX_PACKET_SIZE_def\<close>)
  then show ?thesis
    by (auto simp: send_handshake_error_def send_handshake_packet_def)
qed

end
