(* ===== verification/Network.thy ===== *)
theory Network
  imports Sender_Properties Receiver_Proofs
begin

text \<open>
  A session and a receiver joined by a network: the session of \<open>session.hpp\<close> after its handshake
  and the loop of \<open>receive_file\<close> in \<open>client.cpp\<close>, with datagrams that may be lost, duplicated,
  reordered and delayed at will, and with datagrams from strangers. \<open>net_step\<close> is one step of the
  whole system, \<open>exchange\<close> the run in which nothing is lost.
\<close>

section \<open>The system\<close>

text \<open>
  Everything ever sent stays available for delivery; a lost datagram is one that is never chosen.
\<close>

record 'r net =
  n_session :: session
  n_random :: 'r
  n_receiver :: receiver
  n_result :: "bool option"
  n_to_receiver :: "string list"
  n_to_sender :: "string list"

definition addressed :: "endpoint \<Rightarrow> datagrams \<Rightarrow> string list" where
  "addressed ep out = map fst (filter (\<lambda>d. snd d = ep) out)"

text \<open>
  What a stranger may send to the session without being able to disturb it: anything that does not
  parse as an acknowledgement or an error, requests included. What the receiver may be handed:
  any datagram of a stranger, of its peer only what the session sent.
\<close>

definition harmless :: "codec \<Rightarrow> string \<Rightarrow> bool" where
  "harmless c d =
     (case parse_control c d of
        Some (CP_ack _) \<Rightarrow> False
      | Some (CP_error _) \<Rightarrow> False
      | _ \<Rightarrow> True)"

definition offered :: "'c receive_env \<Rightarrow> 'r net \<Rightarrow> socket_event \<Rightarrow> bool" where
  "offered renv n ev =
     (case ev of
        Datagram d sender \<Rightarrow> sender = re_peer renv \<longrightarrow> d \<in> set (n_to_receiver n)
      | _ \<Rightarrow> True)"

inductive net_step ::
    "'r session_env \<Rightarrow> 'c receive_env \<Rightarrow> endpoint \<Rightarrow> 'r net \<Rightarrow> 'r net \<Rightarrow> bool"
  for env :: "'r session_env" and renv :: "'c receive_env" and client :: endpoint where
  session_turn:
    "d \<in> set (n_to_sender n) \<and> ep = client \<or> harmless (se_codec env) (take MAX_PACKET_SIZE d) \<Longrightarrow>
     handle_packet env (take MAX_PACKET_SIZE d, ep) (n_session n, n_random n) = Inr ((s, r), out) \<Longrightarrow>
     net_step env renv client n
       (n\<lparr>n_session := s, n_random := r, n_to_receiver := n_to_receiver n @ addressed client out\<rparr>)"
| receiver_turn:
    "n_result n = None \<Longrightarrow> retries (n_receiver n) < MAX_RETRIES \<Longrightarrow> offered renv n ev \<Longrightarrow>
     receive_step renv ev (n_receiver n) = Inr (status, st, out) \<Longrightarrow>
     net_step env renv client n
       (n\<lparr>n_receiver := st, n_result := (case status of Continue \<Rightarrow> None | Return b \<Rightarrow> Some b),
          n_to_sender := n_to_sender n @ addressed (re_peer renv) out\<rparr>)"
| give_up:
    "n_result n = None \<Longrightarrow> \<not> retries (n_receiver n) < MAX_RETRIES \<Longrightarrow>
     net_step env renv client n (n\<lparr>n_result := Some False\<rparr>)"

text \<open>
  The start: the session has answered a hello, \<open>receive_file\<close> has created its output and sent its
  request.
\<close>

definition net_start :: "'c receive_env \<Rightarrow> session \<Rightarrow> 'r \<Rightarrow> 'r net" where
  "net_start renv s r =
     \<lparr>n_session = s, n_random = r, n_receiver = receiver_init True None, n_result = None,
      n_to_receiver = [], n_to_sender = [re_get_bytes renv]\<rparr>"

definition net_reach :: "'r session_env \<Rightarrow> 'c receive_env \<Rightarrow> endpoint \<Rightarrow> 'r net \<Rightarrow> 'r net \<Rightarrow> bool" where
  "net_reach env renv client = (net_step env renv client)\<^sup>*\<^sup>*"

section \<open>The setting\<close>

text \<open>
  Both sides speak the same wire format and talk about the same transfer, whose identifiers are
  as the program makes them, and the registered size is that of the file the session opens.
\<close>

definition setting ::
    "'r session_env \<Rightarrow> 'c receive_env \<Rightarrow> TRANSFERS \<Rightarrow> string \<Rightarrow> bool" where
  "setting env renv t file =
     (codec_ok (se_codec env) \<and> env_ok env \<and> re_codec renv = se_codec env
      \<and> ascii_upto 40 (transfer_id t) \<and> ascii_upto 64 (file_hash t)
      \<and> re_transfer_id renv = transfer_id t
      \<and> re_get_bytes renv = build_get_request (se_codec env) (transfer_id t)
      \<and> length file < 2 ^ 63 \<and> file_size t = of_nat (length file))"

definition ready_session ::
    "'r session_env \<Rightarrow> endpoint \<Rightarrow> TRANSFERS \<Rightarrow> string \<Rightarrow> session \<Rightarrow> bool" where
  "ready_session env client t file s =
     (m_state s = Authenticated \<and> m_offset s = 0 \<and> m_remote_endpoint s = client
      \<and> m_transfer_metadata s = t \<and> se_open env (m_file_path s) = Some file)"

definition ack_bytes :: "codec \<Rightarrow> TRANSFERS \<Rightarrow> 64 word \<Rightarrow> string" where
  "ack_bytes c t off = snd (ser_control c (CP_ack \<lparr>ack_transfer_id = transfer_id t, next_offset = off\<rparr>))"

definition packet_bytes :: "codec \<Rightarrow> TRANSFERS \<Rightarrow> string \<Rightarrow> 64 word \<Rightarrow> string" where
  "packet_bytes c t file off = snd (ser_control c (packet_at t file off))"

lemma settingD:
  assumes "setting env renv t file"
  shows "codec_ok (se_codec env)" "ser_nonempty (se_codec env)" "files_bounded env"
    "re_codec renv = se_codec env" "re_transfer_id renv = transfer_id t" "length file < 2 ^ 63"
    "ascii_upto 40 (transfer_id t)" "env_ok env"
    "re_get_bytes renv = snd (ser_control (se_codec env) (CP_get \<lparr>get_transfer_id = transfer_id t\<rparr>))"
    "file_size t = of_nat (length file)"
  using assms by (auto simp: setting_def env_ok_def build_get_request_def)

lemma transfer_packets:
  assumes "setting env renv t file"
  shows "transfer_packet (packet_at t file off)"
    and "transfer_packet (CP_get \<lparr>get_transfer_id = transfer_id t\<rparr>)"
    and "transfer_packet (CP_ack \<lparr>ack_transfer_id = transfer_id t, next_offset = off\<rparr>)"
  using assms
  by (auto simp: setting_def packet_at_def done_packet_def data_packet_def length_chunk_at_le Let_def)

lemma parse_packets:
  assumes "setting env renv t file"
  shows "parse_control (se_codec env) (packet_bytes (se_codec env) t file off) = Some (packet_at t file off)"
    and "parse_control (se_codec env) (re_get_bytes renv) = Some (CP_get \<lparr>get_transfer_id = transfer_id t\<rparr>)"
    and "parse_control (se_codec env) (ack_bytes (se_codec env) t off)
           = Some (CP_ack \<lparr>ack_transfer_id = transfer_id t, next_offset = off\<rparr>)"
    and "take MAX_PACKET_SIZE (re_get_bytes renv) = re_get_bytes renv"
    and "take MAX_PACKET_SIZE (ack_bytes (se_codec env) t off) = ack_bytes (se_codec env) t off"
    and "length (packet_bytes (se_codec env) t file off) \<le> MAX_PACKET_SIZE"
  using codec_okD [OF settingD(1) [OF assms]] transfer_packets [OF assms]
  by (simp_all add: packet_bytes_def ack_bytes_def settingD(9) [OF assms])

lemma ack_now_bytes:
  assumes "setting env renv t file"
  shows "ack_now renv st = [(ack_bytes (se_codec env) t (current_offset st), re_peer renv)]"
  using codec_okD(1) [OF settingD(1) [OF assms] transfer_packets(3) [OF assms]] settingD(4,5) [OF assms]
  by (auto simp: ack_now_def send_ack_def ack_bytes_def split: prod.splits) (metis fst_conv)+

section \<open>The invariant\<close>

text \<open>
  The session's half, against the number \<open>cur\<close> of bytes the receiver has and the datagrams \<open>tr\<close>
  on their way to it: the receiver is at the session's offset or has its current chunk, too; the session closes only when the receiver has everything.
\<close>

definition sent_upto :: "codec \<Rightarrow> TRANSFERS \<Rightarrow> string \<Rightarrow> nat \<Rightarrow> string list \<Rightarrow> bool" where
  "sent_upto c t file m tr = list_all (\<lambda>d. \<exists>off. unat off \<le> m \<and> d = packet_bytes c t file off) tr"

definition session_side ::
    "'r session_env \<Rightarrow> endpoint \<Rightarrow> TRANSFERS \<Rightarrow> string \<Rightarrow> session \<Rightarrow> nat \<Rightarrow> string list \<Rightarrow> bool" where
  "session_side env client t file s cur tr =
     (m_remote_endpoint s = client \<and> m_transfer_metadata s = t \<and> session_inv (se_codec env) s
      \<and> (case m_state s of
           WaitingHello \<Rightarrow> False
         | Authenticated \<Rightarrow> se_open env (m_file_path s) = Some file \<and> cur = 0 \<and> tr = []
         | Transferring \<Rightarrow>
             if_contents (m_file s) = file
             \<and> (cur = unat (m_offset s) \<or> cur = unat (m_offset s) + length (chunk_at (unat (m_offset s)) file))
             \<and> sent_upto (se_codec env) t file (unat (m_offset s)) tr
         | Closed \<Rightarrow> cur = length file \<and> sent_upto (se_codec env) t file (length file) tr))"

definition receiver_side :: "'c receive_env \<Rightarrow> codec \<Rightarrow> TRANSFERS \<Rightarrow> string \<Rightarrow> receiver \<Rightarrow> string list \<Rightarrow> bool" where
  "receiver_side renv c t file st ts =
     (out_good st \<and> unat (current_offset st) \<le> length file
      \<and> out_file st = Some (take (unat (current_offset st)) file)
      \<and> list_all (\<lambda>d. d = re_get_bytes renv
            \<or> (\<exists>off. unat off \<le> unat (current_offset st) \<and> d = ack_bytes c t off)) ts)"

definition net_inv ::
    "'r session_env \<Rightarrow> 'c receive_env \<Rightarrow> endpoint \<Rightarrow> TRANSFERS \<Rightarrow> string \<Rightarrow> 'r net \<Rightarrow> bool" where
  "net_inv env renv client t file n =
     (session_side env client t file (n_session n) (unat (current_offset (n_receiver n))) (n_to_receiver n)
      \<and> receiver_side renv (se_codec env) t file (n_receiver n) (n_to_sender n)
      \<and> (n_result n = Some True \<longrightarrow> unat (current_offset (n_receiver n)) = length file))"

lemma sent_upto_mono: "sent_upto c t file m tr \<Longrightarrow> m \<le> m' \<Longrightarrow> sent_upto c t file m' tr"
  unfolding sent_upto_def list_all_iff by (meson order_trans)

lemma sent_upto_append [simp]:
  "sent_upto c t file m (a @ b) = (sent_upto c t file m a \<and> sent_upto c t file m b)"
  by (simp add: sent_upto_def)

lemma addressed_simps [simp]:
  "addressed ep [] = []"
  "addressed ep [(d, ep)] = [d]"
  by (simp_all add: addressed_def)

subsection \<open>The session's turn\<close>

text \<open>Sending the packet at the offset leaves the session's half intact.\<close>

lemma send_next_chunk_side:
  assumes "setting env renv t file" "readable s" "if_contents (m_file s) = file"
    "m_state s = Transferring" "m_remote_endpoint s = client" "m_transfer_metadata s = t"
    "unat (m_offset s) = cur" "sent_upto (se_codec env) t file cur tr"
  shows "snd (send_next_chunk (se_codec env) s) = [(packet_bytes (se_codec env) t file (m_offset s), client)]"
    and "session_side env client t file (fst (send_next_chunk (se_codec env) s)) cur
           (tr @ [packet_bytes (se_codec env) t file (m_offset s)])"
proof -
  show "snd (send_next_chunk (se_codec env) s) = [(packet_bytes (se_codec env) t file (m_offset s), client)]"
    using send_next_chunk_readable(1) [OF assms(2)] assms(3,5,6)
    by (simp add: packet_bytes_def current_packet_def)
  have "chunk_sent (se_codec env) (fst (send_next_chunk (se_codec env) s))"
    by (rule send_next_chunk_readable(2) [OF assms(2)])
  then have "session_inv (se_codec env) (fst (send_next_chunk (se_codec env) s))"
    by (rule session_inv_transferring) (simp add: frame_simps assms(4))
  moreover have "sent_upto (se_codec env) t file cur [packet_bytes (se_codec env) t file (m_offset s)]"
    using assms(7) by (auto simp: sent_upto_def)
  ultimately show "session_side env client t file (fst (send_next_chunk (se_codec env) s)) cur
      (tr @ [packet_bytes (se_codec env) t file (m_offset s)])"
    using assms(3-8) by (simp add: session_side_def frame_simps)
qed

lemma cached_packet:
  assumes "setting env renv t file" "session_side env client t file s cur tr" "m_state s = Transferring"
  shows "resend_current_chunk (se_codec env) s = (s, [(packet_bytes (se_codec env) t file (m_offset s), client)])"
    and "session_side env client t file s cur (tr @ [packet_bytes (se_codec env) t file (m_offset s)])"
    and "chunk_sent (se_codec env) s"
proof -
  show cs: "chunk_sent (se_codec env) s" using assms(2,3) by (simp add: session_side_def session_inv_def)
  show "resend_current_chunk (se_codec env) s = (s, [(packet_bytes (se_codec env) t file (m_offset s), client)])"
    using resend_cached [OF cache_nonempty [OF settingD(2) [OF assms(1)] cs]] cs assms(2,3)
    by (simp add: session_side_def chunk_sent_def current_packet_def packet_bytes_def Let_def)
  have "sent_upto (se_codec env) t file (unat (m_offset s)) [packet_bytes (se_codec env) t file (m_offset s)]"
    by (auto simp: sent_upto_def)
  then show "session_side env client t file s cur (tr @ [packet_bytes (se_codec env) t file (m_offset s)])"
    using assms(2,3) by (simp add: session_side_def)
qed

text \<open>The first request opens the file and sends the packet at offset 0, a later one repeats.\<close>

lemma get_turn:
  assumes "setting env renv t file" "session_side env client t file s cur tr" "m_state s \<noteq> Closed"
  obtains s' off where "handle_get_request env g s = (s', [(packet_bytes (se_codec env) t file off, client)])"
    "session_side env client t file s' cur (tr @ [packet_bytes (se_codec env) t file off])"
    "m_state s' = Transferring" "off = m_offset s" "m_offset s' = m_offset s"
    "cur = 0 \<Longrightarrow> unat off = 0"
proof (cases "m_state s = Authenticated")
  case True
  let ?u = "(opened env s)\<lparr>m_state := Transferring\<rparr>"
  have se: "se_open env (m_file_path s) = Some file" "session_inv (se_codec env) s" "cur = 0" "tr = []"
    "m_remote_endpoint s = client" "m_transfer_metadata s = t"
    using assms(2) True by (simp_all add: session_side_def)
  note o = opened_readable [OF settingD(3) [OF assms(1)] se(2) True se(1)]
  have "m_remote_endpoint ?u = client" "m_transfer_metadata ?u = t" "m_offset ?u = m_offset s"
    using se by (simp_all add: opened_def)
  moreover from this o have "m_offset s = 0" by simp
  ultimately show ?thesis
    using send_next_chunk_side [OF assms(1), of ?u client cur tr] o se
      handle_get_request_opens(1) [OF True se(1), of g]
    by (intro that [of "fst (send_next_chunk (se_codec env) ?u)" "m_offset s"])
       (auto simp: frame_simps sent_upto_def prod_eq_iff)
next
  case False
  then have tr: "m_state s = Transferring"
    using assms(2,3) by (cases "m_state s") (simp_all add: session_side_def)
  then have "handle_get_request env g s = (s, [(packet_bytes (se_codec env) t file (m_offset s), client)])"
    using cached_packet(1) [OF assms(1,2) tr] by (simp add: handle_get_request_def)
  moreover have "cur = 0 \<Longrightarrow> unat (m_offset s) = 0" using assms(2) tr by (auto simp: session_side_def)
  ultimately show ?thesis using that cached_packet(2) [OF assms(1,2) tr] tr by blast
qed

text \<open>An acknowledgement for no more than what the receiver has.\<close>

lemma ack_turn:
  assumes "setting env renv t file" "session_side env client t file s cur tr"
    "unat (next_offset a) \<le> cur" "cur \<le> length file"
  shows "session_side env client t file (fst (handle_ack (se_codec env) a s)) cur
           (tr @ addressed client (snd (handle_ack (se_codec env) a s)))"
proof (cases "m_state s = Transferring")
  case False
  then show ?thesis using assms(2) by (simp add: handle_ack_idle)
next
  case True
  note cp = cached_packet [OF assms(1,2) True]
  let ?off = "unat (m_offset s)" and ?next = "m_offset s + m_last_chunk_size s"
  from assms(2) True have fc: "if_contents (m_file s) = file" and up: "sent_upto (se_codec env) t file ?off tr"
    and le: "?off \<le> cur" "cur \<le> ?off + length (chunk_at ?off file)"
    and ep: "m_remote_endpoint s = client" "m_transfer_metadata s = t"
    by (auto simp: session_side_def)
  have nx: "unat ?next = ?off + length (chunk_at ?off file)"
    using chunk_sent_advance(2) [OF cp(3)] fc by simp
  show ?thesis
  proof (cases "next_offset a = ?next")
    case expected: True
    with nx assms(3) le have cur: "cur = unat ?next" by simp
    show ?thesis
    proof (cases "m_last_chunk_done s")
      case dn: True
      with cp(3) fc have "chunk_at ?off file = []" by (simp add: chunk_sent_def Let_def)
      with cur nx assms(4) have "cur = length file" by (simp add: chunk_at_nil_iff)
      with dn expected up ep le show ?thesis
        using handle_ack_cases(1) [OF True expected dn, of "se_codec env"] sent_upto_mono [OF up]
        by (simp add: session_side_def session_inv_def)
    next
      case False
      let ?s = "s\<lparr>m_offset := ?next\<rparr>"
      have "sent_upto (se_codec env) t file cur tr" using sent_upto_mono [OF up le(1)] .
      note sd = send_next_chunk_side [OF assms(1) chunk_sent_advance(1) [OF cp(3)], of client cur tr]
      show ?thesis
        using sd fc True ep cur \<open>sent_upto _ t file cur tr\<close>
          handle_ack_cases(2) [OF True expected False, of "se_codec env"] by simp
    qed
  next
    case False
    show ?thesis
    proof (cases "next_offset a = m_offset s")
      case same: True
      then show ?thesis using handle_ack_cases(3) [OF True False same, of "se_codec env"] cp(1,2) by simp
    next
      case other: False
      then show ?thesis using handle_ack_cases(4) [OF True False other, of "se_codec env"] assms(2) by simp
    qed
  qed
qed

lemma session_turn_side:
  assumes "setting env renv t file" "session_side env client t file s cur tr" "cur \<le> length file"
    and d: "harmless (se_codec env) d \<or> d = re_get_bytes renv
        \<or> (\<exists>off. unat off \<le> cur \<and> d = ack_bytes (se_codec env) t off)"
    and run: "handle_packet env (d, ep) (s, r) = Inr ((s', r'), out)"
  shows "session_side env client t file s' cur (tr @ addressed client out)"
proof (cases "m_state s = Closed")
  case True
  with run assms(2) show ?thesis by (simp add: handle_packet_closed)
next
  case False
  moreover from assms(2) have "m_state s \<noteq> WaitingHello" by (auto simp: session_side_def)
  ultimately have st: "m_state s = Authenticated \<or> m_state s = Transferring" by (cases "m_state s") auto
  with run have h: "handle_control_packet env d s = (s', out)"
    by (auto simp: handle_packet_control split: prod.splits)
  have get: ?thesis if "handle_get_request env g s = (s', out)" for g
    using get_turn [OF assms(1,2) False, of g] that by (metis addressed_simps(2) prod.inject)
  have same: "?thesis" if "s' = s" "out = []" using that assms(2) by simp
  note pp = parse_packets [OF assms(1)]
  from d consider "harmless (se_codec env) d" | "d = re_get_bytes renv"
    | off where "unat off \<le> cur" "d = ack_bytes (se_codec env) t off" by blast
  then show ?thesis
  proof cases
    case 1
    with h get same show ?thesis
      by (auto simp: handle_control_packet_def harmless_def split: option.splits ControlPacket.splits)
  next
    case 2
    with h pp get show ?thesis by (simp add: handle_control_packet_def)
  next
    case (3 off)
    with h pp have "handle_ack (se_codec env) \<lparr>ack_transfer_id = transfer_id t, next_offset = off\<rparr> s = (s', out)"
      by (simp add: handle_control_packet_def)
    with ack_turn [OF assms(1,2) _ assms(3), of "\<lparr>ack_transfer_id = transfer_id t, next_offset = off\<rparr>"] 3
    show ?thesis by simp
  qed
qed

subsection \<open>The receiver's turn\<close>

text \<open>Both sides after the receiver has gone from \<open>cur\<close> to the next chunk.\<close>

lemma requests_mono:
  "receiver_side renv c t file st ts \<Longrightarrow> unat (current_offset st) \<le> unat (current_offset st') \<Longrightarrow>
     unat (current_offset st') \<le> length file \<Longrightarrow> out_good st' \<Longrightarrow>
     out_file st' = Some (take (unat (current_offset st')) file) \<Longrightarrow>
     receiver_side renv c t file st' (ts @ [ack_bytes c t (current_offset st')])"
  unfolding receiver_side_def list_all_iff by (auto, meson order_trans)

text \<open>Accepting a chunk at the current offset.\<close>

lemma on_data_accept:
  assumes "setting env renv t file" "receiver_side renv (se_codec env) t file st ts"
    "data_packet t off (chunk_at (unat off) file) = CP_data d" "off = current_offset st"
    "fst (on_data renv d st) = st'" "snd (on_data renv d st) = out"
  shows "unat (current_offset st') = unat off + length (chunk_at (unat off) file)"
    and "receiver_side renv (se_codec env) t file st' (ts @ addressed (re_peer renv) out)"
    and "out = ack_now renv st'" "retries st' = retries st"
proof -
  have le: "unat off \<le> length file" and len: "length file < 2 ^ 63"
    and f: "out_file st = Some (take (unat off) file)" "out_good st"
    using assms(2,4) settingD(6) [OF assms(1)] by (simp_all add: receiver_side_def)
  have d: "data_transfer_id d = re_transfer_id renv" "data_offset d = off"
    "payload d = chunk_at (unat off) file"
    using assms(3) settingD(5) [OF assms(1)] by (auto simp: data_packet_def)
  have w: "write_at (unat off) (chunk_at (unat off) file) (take (unat off) file)
      = take (unat off + length (chunk_at (unat off) file)) file"
    using le by (simp add: write_at_end' take_chunk_at)
  have st': "st' = st\<lparr>out_file := Some (take (unat off + length (chunk_at (unat off) file)) file),
      current_offset := off + of_nat (length (chunk_at (unat off) file))\<rparr>"
    using assms(4,5) d f le len w by (auto simp: on_data_def write_chunk_def Let_def)
  show o: "out = ack_now renv st'"
    using assms(4-6) d st' by (auto simp: on_data_def Let_def)
  show cur: "unat (current_offset st') = unat off + length (chunk_at (unat off) file)"
    using unat_add_chunk [OF le len] by (simp add: st')
  show "retries st' = retries st" by (simp add: st')
  have "unat (current_offset st') \<le> length file" using cur le by (simp add: length_chunk_at)
  then show "receiver_side renv (se_codec env) t file st' (ts @ addressed (re_peer renv) out)"
    unfolding o ack_now_bytes [OF assms(1)] addressed_simps
    using cur f assms(4) st' by (intro requests_mono [OF assms(2)]) simp_all
qed

lemma receiver_repeats:
  assumes "setting env renv t file" "receiver_side renv (se_codec env) t file st ts"
  shows "receiver_side renv (se_codec env) t file (st\<lparr>retries := k\<rparr>) ts"
    and "receiver_side renv (se_codec env) t file (st\<lparr>retries := k\<rparr>) (ts @ addressed (re_peer renv) (ack_now renv st))"
    and "receiver_side renv (se_codec env) t file (st\<lparr>retries := k\<rparr>) (ts @ [re_get_bytes renv])"
  using assms(2) by (auto simp: receiver_side_def ack_now_bytes [OF assms(1)])

text \<open>The session's half after the receiver has moved on by the chunk in flight.\<close>

lemma session_side_moved:
  assumes "session_side env client t file s cur tr" "packet_bytes (se_codec env) t file off \<in> set tr"
    "cur = unat off" "cur' = cur + length (chunk_at cur file)" "unat off \<le> unat (m_offset s) \<or> m_state s = Closed"
  shows "session_side env client t file s cur' tr"
proof (cases "m_state s = Transferring")
  case True
  with assms show ?thesis by (auto simp: session_side_def)
next
  case False
  with assms show ?thesis by (cases "m_state s") (auto simp: session_side_def chunk_at_def)
qed

lemma packet_in_flight:
  assumes "session_side env client t file s cur tr" "d \<in> set tr"
  obtains off where "d = packet_bytes (se_codec env) t file off" "unat off \<le> cur"
    "unat off \<le> unat (m_offset s) \<or> m_state s = Closed"
proof (cases "m_state s = Transferring")
  case True
  with assms have "sent_upto (se_codec env) t file (unat (m_offset s)) tr" "unat (m_offset s) \<le> cur"
    by (auto simp: session_side_def)
  with assms(2) that show ?thesis unfolding sent_upto_def list_all_iff by (meson order_trans)
next
  case False
  with assms have "m_state s = Closed" "sent_upto (se_codec env) t file cur tr"
    by (auto simp: session_side_def split: State.splits)
  with assms(2) that show ?thesis unfolding sent_upto_def list_all_iff by blast
qed

lemma receiver_turn_sides:
  assumes st: "setting env renv t file"
    and s: "session_side env client t file s (unat (current_offset st)) tr"
    and r: "receiver_side renv (se_codec env) t file st ts"
    and ev: "\<And>d. ev = Datagram d (re_peer renv) \<Longrightarrow> d \<in> set tr"
    and run: "receive_step renv ev st = Inr (status, st', out)"
  shows "session_side env client t file s (unat (current_offset st')) tr
     \<and> receiver_side renv (se_codec env) t file st' (ts @ addressed (re_peer renv) out)
     \<and> (status = Return True \<longrightarrow> unat (current_offset st') = length file)"
proof (cases "recv_with_timeout ev")
  case None
  with run have "status = Continue" "st' = st\<lparr>retries := Suc (retries st)\<rparr>"
    "out = [(re_get_bytes renv, re_peer renv)] \<or> out = ack_now renv st"
    by (auto simp: receive_step_none split: if_splits)
  with s receiver_repeats [OF st r] show ?thesis by auto
next
  case (Some p)
  then obtain d sender where dg: "ev = Datagram d sender" by (cases ev) auto
  show ?thesis
  proof (cases "sender = re_peer renv")
    case False
    with run dg s r show ?thesis by (auto simp: receive_step_stranger)
  next
    case True
    from ev dg True have "d \<in> set tr" by simp
    with s obtain off where d: "d = packet_bytes (se_codec env) t file off"
      and off: "unat off \<le> unat (current_offset st)" "unat off \<le> unat (m_offset s) \<or> m_state s = Closed"
      by (rule packet_in_flight)
    let ?chunk = "chunk_at (unat off) file" and ?st = "st\<lparr>retries := 0\<rparr>"
    note turn = receive_step_packet [of d renv "packet_at t file off" st]
    have p: "length d \<le> MAX_PACKET_SIZE" "parse_control (re_codec renv) d = Some (packet_at t file off)"
      using parse_packets [OF st] settingD(4) [OF st] by (simp_all add: d)
    have r0: "receiver_side renv (se_codec env) t file ?st ts" by (rule receiver_repeats(1) [OF st r])
    show ?thesis
    proof (cases "?chunk = []")
      case True
      then have "packet_at t file off = done_packet t" by (simp add: packet_at_def)
      then obtain dn where dn: "packet_at t file off = CP_done dn" "final_size dn = of_nat (length file)"
        using settingD(10) [OF st] by (simp add: done_packet_def)
      with turn p run dg \<open>sender = re_peer renv\<close> have "on_done renv dn ?st = Inr (status, st', out)" by simp
      moreover from this have "st' = ?st" by (rule on_done_cases(1))
      moreover have "of_nat (length file) = current_offset st \<Longrightarrow> unat (current_offset st) = length file"
        using settingD(6) [OF st] by (metis of_nat_less_64)
      ultimately show ?thesis using s receiver_repeats [OF st r0, of 0] dn
        by (auto simp: on_done_def bind_result_Inr_iff ack_now_def split: if_splits)
    next
      case False
      then obtain dc where dc: "packet_at t file off = CP_data dc" "data_packet t off ?chunk = CP_data dc"
        by (simp add: packet_at_def data_packet_def)
      then have id: "data_transfer_id dc = re_transfer_id renv" "data_offset dc = off"
        using settingD(5) [OF st] by (auto simp: data_packet_def)
      from turn p run dg dc \<open>sender = re_peer renv\<close>
      have on: "fst (on_data renv dc ?st) = st'" "snd (on_data renv dc ?st) = out" "status = Continue" by auto
      show ?thesis
      proof (cases "off = current_offset st")
        case True
        note acc = on_data_accept [OF st r0 dc(2) _ on(1,2)]
        have "session_side env client t file s (unat (current_offset st')) tr"
          using session_side_moved [OF s, of off] acc(1) True off \<open>d \<in> set tr\<close> d by simp
        then show ?thesis using acc(2) True on(3) by simp
      next
        case False
        then have "off < current_offset st"
          using off(1) by (simp add: word_less_nat_alt word_unat_eq_iff)
        with False id have "on_data renv dc ?st = (?st, ack_now renv ?st)" by (simp add: on_data_def Let_def)
        with on have "st' = ?st" "out = ack_now renv ?st" by simp_all
        with s on(3) receiver_repeats [OF st r0, of 0] show ?thesis by simp
      qed
    qed
  qed
qed

section \<open>Reachable states\<close>

lemma net_start_inv:
  assumes "setting env renv t file" "ready_session env client t file s"
  shows "net_inv env renv client t file (net_start renv s r)"
  using assms
  by (simp add: net_inv_def net_start_def session_side_def receiver_side_def ready_session_def
        receiver_init_def session_inv_def)

lemma net_step_inv:
  assumes "setting env renv t file" "net_step env renv client n n'" "net_inv env renv client t file n"
  shows "net_inv env renv client t file n'"
  using assms(2)
proof cases
  case (session_turn d ep s r out)
  let ?cur = "unat (current_offset (n_receiver n))" and ?c = "se_codec env" and ?d = "take MAX_PACKET_SIZE d"
  from assms(3) have inv: "session_side env client t file (n_session n) ?cur (n_to_receiver n)"
    "receiver_side renv ?c t file (n_receiver n) (n_to_sender n)" by (simp_all add: net_inv_def)
  from inv(2) have le: "?cur \<le> length file" by (simp add: receiver_side_def)
  have "harmless ?c ?d \<or> ?d = re_get_bytes renv \<or> (\<exists>off. unat off \<le> ?cur \<and> ?d = ack_bytes ?c t off)"
  proof (cases "harmless ?c ?d")
    case False
    with session_turn(2) inv(2) have "d = re_get_bytes renv \<or> (\<exists>off. unat off \<le> ?cur \<and> d = ack_bytes ?c t off)"
      by (auto simp: receiver_side_def list_all_iff)
    with parse_packets(4,5) [OF assms(1)] show ?thesis by metis
  qed simp
  from session_turn_side [OF assms(1) inv(1) le this session_turn(3)] assms(3) session_turn(1)
  show ?thesis by (simp add: net_inv_def)
next
  case (receiver_turn ev status st out)
  from assms(3) have "session_side env client t file (n_session n)
      (unat (current_offset (n_receiver n))) (n_to_receiver n)"
    "receiver_side renv (se_codec env) t file (n_receiver n) (n_to_sender n)"
    by (simp_all add: net_inv_def)
  note sides = receiver_turn_sides [OF assms(1) this _ receiver_turn(5)]
  have "d \<in> set (n_to_receiver n)" if "ev = Datagram d (re_peer renv)" for d
    using receiver_turn(4) that by (simp add: offered_def)
  from sides [OF this] receiver_turn(1) show ?thesis
    by (simp add: net_inv_def split: loop_status.splits)
next
  case give_up
  with assms(3) show ?thesis by (simp add: net_inv_def)
qed

text \<open>The system as a whole is a machine with an invariant.\<close>

lemma net_reach_inv:
  assumes "setting env renv t file" "ready_session env client t file s"
    and "net_reach env renv client (net_start renv s r) n"
  shows "net_inv env renv client t file n"
  using assms(3) unfolding net_reach_def
  by (induction rule: rtranclp_induct)
     (auto intro: net_start_inv [OF assms(1,2)] net_step_inv [OF assms(1)])

section \<open>Runs without loss\<close>

text \<open>
  One datagram at a time: the receiver reads it, the session reads the answers, its first answer is
  the next datagram. The receiver's turns are those of \<open>receive_loop\<close>; \<open>None\<close> as a result means
  that the fuel ran out or nobody had anything to say.
\<close>

definition to_session :: "endpoint \<Rightarrow> datagrams \<Rightarrow> (string \<times> endpoint) list" where
  "to_session client out = map (\<lambda>d. (take MAX_PACKET_SIZE (fst d), client)) out"

fun exchange ::
    "'r session_env \<Rightarrow> 'c receive_env \<Rightarrow> endpoint \<Rightarrow> nat \<Rightarrow> string \<Rightarrow> session \<times> 'r \<Rightarrow> receiver
       \<Rightarrow> (bool option \<times> (session \<times> 'r) \<times> receiver) result" where
  "exchange env renv client 0 d sr st = Inr (None, sr, st)"
| "exchange env renv client (Suc k) d sr st =
     bind_result (receive_loop renv [Datagram d (re_peer renv)] st) (\<lambda>(res, st, acks).
     bind_result (run_steps (handle_packet env) (to_session client acks) sr) (\<lambda>(sr, out).
     case res of
       Some b \<Rightarrow> Inr (Some b, sr, st)
     | None \<Rightarrow> (case out of [] \<Rightarrow> Inr (None, sr, st)
                | d # _ \<Rightarrow> exchange env renv client k (fst d) sr st)))"

text \<open>The states between two turns: the packet at the receiver's offset is on its way.\<close>

definition in_step ::
    "'r session_env \<Rightarrow> 'c receive_env \<Rightarrow> endpoint \<Rightarrow> TRANSFERS \<Rightarrow> string \<Rightarrow> session \<Rightarrow> receiver \<Rightarrow> bool" where
  "in_step env renv client t file s st =
     (session_side env client t file s (unat (current_offset st)) [] \<and> m_state s = Transferring
      \<and> m_offset s = current_offset st \<and> receiver_side renv (se_codec env) t file st []
      \<and> retries st < MAX_RETRIES)"

lemma receive_loop_one:
  assumes "retries st < MAX_RETRIES" "receive_step renv ev st = Inr (status, st', out)" "retries st' < MAX_RETRIES"
  shows "receive_loop renv [ev] st
     = Inr (case status of Continue \<Rightarrow> None | Return b \<Rightarrow> Some b, st', out)"
  using assms by (cases status) simp_all

lemma run_steps_one: "run_steps step [e] s = step e s"
  by (cases "step e s") auto

lemma ack_packet_turn:
  assumes "setting env renv t file" "m_state s = Transferring"
  shows "run_steps (handle_packet env) (to_session client [(ack_bytes (se_codec env) t off, ep)]) (s, r)
    = (let (s', out) = handle_ack (se_codec env) \<lparr>ack_transfer_id = transfer_id t, next_offset = off\<rparr> s
       in Inr ((s', r), out))"
  using assms(2) parse_packets(3,5) [OF assms(1)]
  by (simp add: to_session_def handle_packet_control handle_control_packet_def split: prod.splits)

text \<open>A chunk is received, acknowledged, and answered with the packet that follows it.\<close>

lemma exchange_chunk:
  assumes st: "setting env renv t file" and i: "in_step env renv client t file s st"
    and ne: "chunk_at (unat (current_offset st)) file \<noteq> []"
  obtains s' st' where "in_step env renv client t file s' st'"
    "unat (current_offset st') = unat (current_offset st) + length (chunk_at (unat (current_offset st)) file)"
    "\<And>k. exchange env renv client (Suc k) (packet_bytes (se_codec env) t file (current_offset st)) (s, r) st
       = exchange env renv client k (packet_bytes (se_codec env) t file (current_offset st')) (s', r) st'"
proof -
  let ?c = "se_codec env" and ?off = "current_offset st" and ?st0 = "st\<lparr>retries := 0\<rparr>"
  let ?chunk = "chunk_at (unat ?off) file"
  from i have s: "session_side env client t file s (unat ?off) []" "m_state s = Transferring" "m_offset s = ?off"
    and r: "receiver_side renv ?c t file st []" and re: "retries st < MAX_RETRIES"
    by (simp_all add: in_step_def)
  obtain dc where dc: "packet_at t file ?off = CP_data dc" "data_packet t ?off ?chunk = CP_data dc"
    using ne by (simp add: packet_at_def data_packet_def)
  define st' where "st' = fst (on_data renv dc ?st0)"
  note acc = on_data_accept [OF st receiver_repeats(1) [OF st r] dc(2) _ st'_def [symmetric] refl, simplified]
  have "receive_step renv (Datagram (packet_bytes ?c t file ?off) (re_peer renv)) st
      = Inr (Continue, st', ack_now renv st')"
    using receive_step_packet [of "packet_bytes ?c t file ?off" renv "packet_at t file ?off" st]
      parse_packets(1,6) [OF st] settingD(4) [OF st] dc acc(3) by (simp add: st'_def)
  then have rl: "receive_loop renv [Datagram (packet_bytes ?c t file ?off) (re_peer renv)] st
      = Inr (None, st', ack_now renv st')"
    using receive_loop_one [OF re, of renv _ Continue st'] acc(4)
    by (simp only: loop_status.case) (simp add: MAX_RETRIES_def)
  from s have cs: "chunk_sent ?c s" and fc: "if_contents (m_file s) = file"
    and ep: "m_remote_endpoint s = client" "m_transfer_metadata s = t"
    by (simp_all add: session_side_def session_inv_def)
  let ?next = "m_offset s + m_last_chunk_size s" and ?s = "s\<lparr>m_offset := m_offset s + m_last_chunk_size s\<rparr>"
  have nx: "current_offset st' = ?next"
    using chunk_sent_advance(2) [OF cs] acc(1) fc s(3) by (intro word_unat_eq_iff [THEN iffD2]) simp
  have nd: "\<not> m_last_chunk_done s" using cs ne fc s(3) by (simp add: chunk_sent_def Let_def)
  define s' where "s' = fst (send_next_chunk ?c ?s)"
  have "sent_upto ?c t file (unat ?next) []" by (simp add: sent_upto_def)
  note sd = send_next_chunk_side [OF st chunk_sent_advance(1) [OF cs], of client "unat ?next" "[]",
      simplified, OF fc s(2) ep this]
  have sess: "run_steps (handle_packet env) (to_session client (ack_now renv st')) (s, r)
      = Inr ((s', r), [(packet_bytes ?c t file ?next, client)])"
    using handle_ack_cases(2) [OF s(2) _ nd, of "\<lparr>ack_transfer_id = transfer_id t, next_offset = ?next\<rparr>" ?c]
      sd(1) nx
    by (simp add: ack_now_bytes [OF st] ack_packet_turn [OF st s(2)] s'_def case_prod_unfold)
  have "session_side env client t file s' (unat ?next) []"
    using sd(2) s(2) by (simp add: session_side_def s'_def frame_simps sent_upto_def)
  moreover have "m_state s' = Transferring" "m_offset s' = ?next" using s(2) by (simp_all add: s'_def frame_simps)
  moreover have "receiver_side renv ?c t file st' []" using acc(2) by (simp add: receiver_side_def)
  ultimately have "in_step env renv client t file s' st'"
    using nx acc(4) by (simp add: in_step_def MAX_RETRIES_def)
  then show ?thesis using that acc(1) rl sess nx by simp
qed

text \<open>After the last chunk the final packet is accepted and its acknowledgement closes the session.\<close>

lemma exchange_done:
  assumes st: "setting env renv t file" and i: "in_step env renv client t file s st"
    and nil: "chunk_at (unat (current_offset st)) file = []"
    and hash: "sha_stream (re_sha renv)" "re_expected_hash renv = hex_digest (sha_of (re_sha renv) file)"
  shows "exchange env renv client (Suc k) (packet_bytes (se_codec env) t file (current_offset st)) (s, r) st
     = Inr (Some True, (s\<lparr>m_state := Closed\<rparr>, r), st\<lparr>retries := 0\<rparr>)"
    and "out_file st = Some file"
proof -
  let ?c = "se_codec env" and ?off = "current_offset st" and ?st0 = "st\<lparr>retries := 0\<rparr>"
  from i have s: "session_side env client t file s (unat ?off) []" "m_state s = Transferring" "m_offset s = ?off"
    and r: "receiver_side renv ?c t file st []" and re: "retries st < MAX_RETRIES"
    by (simp_all add: in_step_def)
  from nil r have cur: "unat ?off = length file" by (simp add: receiver_side_def chunk_at_nil_iff)
  with r show out: "out_file st = Some file" by (simp add: receiver_side_def)
  have "current_offset st = of_nat (length file)" by (simp flip: cur)
  then have "on_done renv \<lparr>done_transfer_id = transfer_id t, final_size = file_size t, done_file_hash = file_hash t\<rparr> ?st0
      = Inr (Return True, ?st0, ack_now renv ?st0)"
    using settingD(5,10) [OF st] out compute_file_hash_eq [OF hash(1)] hash(2) by (simp add: on_done_def)
  then have "receive_step renv (Datagram (packet_bytes ?c t file ?off) (re_peer renv)) st
      = Inr (Return True, ?st0, ack_now renv ?st0)"
    using receive_step_packet [of "packet_bytes ?c t file ?off" renv "packet_at t file ?off" st]
      parse_packets(1,6) [OF st] settingD(4) [OF st] nil by (simp add: packet_at_def done_packet_def)
  then have rl: "receive_loop renv [Datagram (packet_bytes ?c t file ?off) (re_peer renv)] st
      = Inr (Some True, ?st0, ack_now renv ?st0)"
    using receive_loop_one [OF re, of renv _ "Return True" ?st0]
    by (simp only: loop_status.case) (simp add: MAX_RETRIES_def)
  from s have cs: "chunk_sent ?c s" and fc: "if_contents (m_file s) = file"
    by (simp_all add: session_side_def session_inv_def)
  have dn: "m_last_chunk_done s" "m_last_chunk_size s = 0"
    using cs nil fc s(3) by (simp_all add: chunk_sent_def Let_def)
  have "run_steps (handle_packet env) (to_session client (ack_now renv ?st0)) (s, r)
      = Inr ((s\<lparr>m_state := Closed\<rparr>, r), [])"
    using handle_ack_cases(1) [OF s(2) _ dn(1), of "\<lparr>ack_transfer_id = transfer_id t, next_offset = ?off\<rparr>" ?c]
      dn(2) s(3)
    by (simp add: ack_now_bytes [OF st] ack_packet_turn [OF st s(2)])
  with rl show "exchange env renv client (Suc k) (packet_bytes ?c t file ?off) (s, r) st
     = Inr (Some True, (s\<lparr>m_state := Closed\<rparr>, r), ?st0)"
    by simp
qed

lemma exchange_completes:
  assumes st: "setting env renv t file"
    and hash: "sha_stream (re_sha renv)" "re_expected_hash renv = hex_digest (sha_of (re_sha renv) file)"
  shows "in_step env renv client t file s st \<Longrightarrow>
     length file - unat (current_offset st) \<le> PAYLOAD_SIZE * k \<Longrightarrow>
     \<exists>s' st'. exchange env renv client (Suc k) (packet_bytes (se_codec env) t file (current_offset st)) (s, r) st
         = Inr (Some True, (s', r), st') \<and> out_file st' = Some file \<and> is_closed s'"
proof (induction k arbitrary: s st)
  case 0
  then have "chunk_at (unat (current_offset st)) file = []" by (simp add: chunk_at_nil_iff)
  from exchange_done [OF st 0(1) this hash] show ?case by (simp add: is_closed_def)
next
  case (Suc k)
  show ?case
  proof (cases "chunk_at (unat (current_offset st)) file = []")
    case True
    from exchange_done [OF st Suc.prems(1) this hash] show ?thesis by (simp add: is_closed_def)
  next
    case False
    from exchange_chunk [OF st Suc.prems(1) False] obtain s' st' where
      n: "in_step env renv client t file s' st'"
        "unat (current_offset st') = unat (current_offset st) + length (chunk_at (unat (current_offset st)) file)"
        "\<And>k. exchange env renv client (Suc k) (packet_bytes (se_codec env) t file (current_offset st)) (s, r) st
          = exchange env renv client k (packet_bytes (se_codec env) t file (current_offset st')) (s', r) st'"
      by blast
    have "length file - unat (current_offset st') \<le> PAYLOAD_SIZE * k"
      using n(2) Suc.prems(2) by (simp add: length_chunk_at min_def split: if_splits)
    from Suc.IH [OF n(1) this] show ?thesis by (simp only: n(3))
  qed
qed

text \<open>
  From any reachable state in which the session has not sent its final packet yet, one timeout of
  the receiver brings both sides back into step.
\<close>

definition done_sent :: "session \<Rightarrow> bool" where
  "done_sent s = (m_state s = Closed \<or> m_state s = Transferring \<and> m_last_chunk_done s)"

lemma session_side_fewer:
  "session_side env client t file s cur tr \<Longrightarrow> m_state s = Transferring \<Longrightarrow>
     session_side env client t file s cur []"
  by (simp add: session_side_def sent_upto_def)

lemma timeout_ack_turn:
  assumes st: "setting env renv t file" and s: "session_side env client t file s (unat cur) tr"
    "m_state s = Transferring" "\<not> m_last_chunk_done s"
  obtains s' where "handle_ack (se_codec env) \<lparr>ack_transfer_id = transfer_id t, next_offset = cur\<rparr> s
       = (s', [(packet_bytes (se_codec env) t file cur, client)])"
    "session_side env client t file s' (unat cur) []" "m_state s' = Transferring" "m_offset s' = cur"
proof -
  let ?c = "se_codec env" and ?a = "\<lparr>ack_transfer_id = transfer_id t, next_offset = cur\<rparr>"
  let ?m = "unat (m_offset s)" and ?next = "m_offset s + m_last_chunk_size s"
  note cp = cached_packet [OF st s(1,2)]
  from s have fc: "if_contents (m_file s) = file"
    and cur: "unat cur = ?m \<or> unat cur = ?m + length (chunk_at ?m file)" and ep: "m_remote_endpoint s = client" "m_transfer_metadata s = t"
    by (simp_all add: session_side_def)
  have nx: "unat ?next = ?m + length (chunk_at ?m file)" using chunk_sent_advance(2) [OF cp(3)] fc by simp
  have pos: "0 < length (chunk_at ?m file)" using cp(3) s(3) fc by (simp add: chunk_sent_def Let_def)
  show ?thesis
  proof (cases "cur = m_offset s")
    case True
    then have "cur \<noteq> ?next" using nx pos by auto
    with True handle_ack_cases(3) [OF s(2), of ?a] cp(1) session_side_fewer [OF s(1,2)] s(2)
    show ?thesis by (intro that [of s]) simp_all
  next
    case False
    then have True: "cur = ?next" using cur nx by (auto simp: word_unat_eq_iff)
    let ?s = "s\<lparr>m_offset := ?next\<rparr>"
    have "sent_upto ?c t file (unat ?next) []" by (simp add: sent_upto_def)
    note sd = send_next_chunk_side [OF st chunk_sent_advance(1) [OF cp(3)], of client "unat ?next" "[]",
        simplified, OF fc s(2) ep this]
    show ?thesis
      using sd session_side_fewer [OF sd(2)] handle_ack_cases(2) [OF s(2) _ s(3), of ?a ?c] True s(2)
      by (intro that [of "fst (send_next_chunk ?c ?s)"]) (simp_all add: frame_simps prod_eq_iff)
  qed
qed

lemma timeout_resumes:
  assumes st: "setting env renv t file"
    and s: "session_side env client t file s (unat (current_offset st)) tr" "\<not> done_sent s"
    and r: "receiver_side renv (se_codec env) t file st ts" "Suc (retries st) < MAX_RETRIES"
  obtains s' st' req where
    "receive_loop renv [Silence] st = Inr (None, st', req)"
    "run_steps (handle_packet env) (to_session client req) (s, rnd)
       = Inr ((s', rnd), [(packet_bytes (se_codec env) t file (current_offset st'), client)])"
    "in_step env renv client t file s' st'"
proof -
  let ?c = "se_codec env" and ?st = "st\<lparr>retries := Suc (retries st)\<rparr>"
  let ?req = "if current_offset st = 0 then [(re_get_bytes renv, re_peer renv)] else ack_now renv st"
  have rl: "receive_loop renv [Silence] st = Inr (None, ?st, ?req)"
    using receive_loop_one [of st renv Silence Continue ?st ?req] r(2) by (simp add: receive_step_none)
  have nc: "m_state s \<noteq> Closed" using s(2) by (simp add: done_sent_def)
  then have op: "m_state s = Authenticated \<or> m_state s = Transferring"
    using s(1) by (cases "m_state s") (auto simp: session_side_def)
  have "\<exists>s'. run_steps (handle_packet env) (to_session client ?req) (s, rnd)
        = Inr ((s', rnd), [(packet_bytes ?c t file (current_offset st), client)])
      \<and> session_side env client t file s' (unat (current_offset st)) [] \<and> m_state s' = Transferring
      \<and> m_offset s' = current_offset st"
  proof (cases "current_offset st = 0")
    case True
    obtain s' off where g: "handle_get_request env \<lparr>get_transfer_id = transfer_id t\<rparr> s
        = (s', [(packet_bytes ?c t file off, client)])"
      "session_side env client t file s' (unat (current_offset st)) (tr @ [packet_bytes ?c t file off])"
      "m_state s' = Transferring" "off = m_offset s" "m_offset s' = m_offset s" "unat off = 0"
      using get_turn [OF st s(1) nc] True by (metis unsigned_0)
    then have "off = 0" by (simp add: unat_eq_0)
    with g True op parse_packets(2,4) [OF st] session_side_fewer [OF g(2,3)] show ?thesis
      by (auto simp: to_session_def handle_packet_control handle_control_packet_def)
  next
    case False
    then have tr: "m_state s = Transferring" using op s(1) by (auto simp: session_side_def unat_eq_0)
    with s(2) have "\<not> m_last_chunk_done s" by (simp add: done_sent_def)
    from timeout_ack_turn [OF st s(1) tr this] obtain s' where
      a: "handle_ack ?c \<lparr>ack_transfer_id = transfer_id t, next_offset = current_offset st\<rparr> s
         = (s', [(packet_bytes ?c t file (current_offset st), client)])"
        "session_side env client t file s' (unat (current_offset st)) []" "m_state s' = Transferring"
        "m_offset s' = current_offset st" by blast
    have "run_steps (handle_packet env) (to_session client ?req) (s, rnd)
        = Inr ((s', rnd), [(packet_bytes ?c t file (current_offset st), client)])"
      using False a(1) ack_packet_turn [OF st tr] by (simp add: ack_now_bytes [OF st])
    with a(2-4) show ?thesis by blast
  qed
  moreover have co: "current_offset ?st = current_offset st" by simp
  ultimately obtain s' where s': "run_steps (handle_packet env) (to_session client ?req) (s, rnd)
        = Inr ((s', rnd), [(packet_bytes ?c t file (current_offset ?st), client)])"
    "session_side env client t file s' (unat (current_offset ?st)) []" "m_state s' = Transferring"
    "m_offset s' = current_offset ?st" unfolding co by blast
  have "receiver_side renv ?c t file ?st []" using r(1) by (simp add: receiver_side_def)
  then have "in_step env renv client t file s' ?st" using s'(2-4) r(2) by (simp add: in_step_def)
  with rl s'(1) show ?thesis by (rule that)
qed

lemma resumed_transfer:
  assumes "setting env renv t file" "ready_session env client t file s"
    and "sha_stream (re_sha renv)" "re_expected_hash renv = hex_digest (sha_of (re_sha renv) file)"
    and "net_reach env renv client (net_start renv s r) n"
    and "\<not> done_sent (n_session n)" "Suc (retries (n_receiver n)) < MAX_RETRIES"
  shows "\<exists>st1 req s1 r1 d s2 r2 st2.
       receive_loop renv [Silence] (n_receiver n) = Inr (None, st1, req)
     \<and> run_steps (handle_packet env) (to_session client req) (n_session n, n_random n)
         = Inr ((s1, r1), [(d, client)])
     \<and> exchange env renv client (length file div PAYLOAD_SIZE + 2) d (s1, r1) st1
         = Inr (Some True, (s2, r2), st2)
     \<and> out_file st2 = Some file \<and> is_closed s2"
proof -
  from net_reach_inv [OF assms(1,2,5)] have
    "session_side env client t file (n_session n) (unat (current_offset (n_receiver n))) (n_to_receiver n)"
    "receiver_side renv (se_codec env) t file (n_receiver n) (n_to_sender n)" by (simp_all add: net_inv_def)
  from timeout_resumes [OF assms(1) this(1) assms(6) this(2) assms(7)] obtain s1 st1 req where
    t: "receive_loop renv [Silence] (n_receiver n) = Inr (None, st1, req)"
      "run_steps (handle_packet env) (to_session client req) (n_session n, n_random n)
         = Inr ((s1, n_random n), [(packet_bytes (se_codec env) t file (current_offset st1), client)])"
      "in_step env renv client t file s1 st1" by blast
  have "length file \<le> PAYLOAD_SIZE * (length file div PAYLOAD_SIZE + 1)"
    using mult_div_mod_eq [of PAYLOAD_SIZE "length file"] mod_less_divisor [of PAYLOAD_SIZE "length file"]
    by (simp add: PAYLOAD_SIZE_eq)
  then have "length file - unat (current_offset st1) \<le> PAYLOAD_SIZE * (length file div PAYLOAD_SIZE + 1)"
    by linarith
  from exchange_completes [OF assms(1,3,4) t(3) this] t(1,2) show ?thesis by fastforce
qed

section \<open>A concrete run for the witnesses\<close>

lemma toy_setting: "setting toy_env toy_renv toy_transfer ''abc''"
  by (simp add: setting_def toy_codec_ok toy_env_ok toy_transfer_def ascii_upto_def build_get_request_def)

lemma toy_ready: "ready_session toy_env toy_ep toy_transfer ''abc'' toy_hello"
  by (simp add: ready_session_def toy_hello_def Session_new_def)

definition toy_ack :: string where
  "toy_ack = toy_ser (CP_ack \<lparr>ack_transfer_id = ''tok'', next_offset = 3\<rparr>)"

definition toy_finished :: session where
  "toy_finished = toy_sending\<lparr>m_offset := 3,
     m_file := \<lparr>if_open = True, if_contents = ''abc'', if_pos = 3, if_eof = False, if_fail = True, if_gcount = 0\<rparr>,
     m_last_packet_cache := toy_ser (done_packet toy_transfer), m_last_chunk_done := True,
     m_last_chunk_size := 0\<rparr>"

lemma toy_data_packet: "toy_ser toy_data = toy_ser (data_packet toy_transfer 0 ''abc'')"
  by (simp add: toy_data_def data_packet_def toy_transfer_def)

lemma toy_ack_now: "ack_now toy_renv toy_received = [(toy_ack, toy_peer)]"
  by (simp add: ack_now_def send_ack_def toy_received_def toy_ack_def del: toy_ser.simps)

lemma toy_short: "take MAX_PACKET_SIZE ''Gtok'' = ''Gtok''" "take MAX_PACKET_SIZE toy_ack = toy_ack"
  by (simp_all add: MAX_PACKET_SIZE_def toy_ack_def)

lemma toy_ack_step:
  "handle_packet toy_env (toy_ack, toy_ep) (toy_sending, r)
     = Inr ((toy_finished, r), [(toy_ser (done_packet toy_transfer), toy_ep)])"
proof -
  have "parse_control toy_codec toy_ack = Some (CP_ack \<lparr>ack_transfer_id = ''tok'', next_offset = 3\<rparr>)"
    by (simp add: toy_ack_def le_value_bytes)
  then have "handle_packet toy_env (toy_ack, toy_ep) (toy_sending, r)
      = (let (s', out) = send_next_chunk toy_codec (toy_sending\<lparr>m_offset := 3\<rparr>) in Inr ((s', r), out))"
    by (simp add: handle_packet.simps handle_control_packet_def handle_ack_def toy_sending_def toy_hello_def
          Session_new_def)
  also have "send_next_chunk toy_codec (toy_sending\<lparr>m_offset := 3\<rparr>)
      = (toy_finished, [(toy_ser (done_packet toy_transfer), toy_ep)])"
    by (simp add: send_next_chunk_def toy_sending_def toy_finished_def toy_hello_def Session_new_def seekg_def
          if_read_def send_message_def done_packet_def toy_transfer_def Let_def)
  finally show ?thesis by simp
qed

definition toy_net :: "nat net" where
  "toy_net = \<lparr>n_session = toy_finished, n_random = 3, n_receiver = toy_received, n_result = None,
     n_to_receiver = [toy_ser toy_data, toy_ser (done_packet toy_transfer)],
     n_to_sender = [''Gtok'', toy_ack]\<rparr>"

lemma toy_net_reach: "net_reach toy_env toy_renv toy_ep (net_start toy_renv toy_hello 3) toy_net"
proof -
  let ?n0 = "net_start toy_renv toy_hello (3 :: nat)"
  let ?n1 = "?n0\<lparr>n_session := toy_sending, n_random := 3, n_to_receiver := [toy_ser toy_data]\<rparr>"
  let ?n2 = "?n1\<lparr>n_receiver := toy_received, n_result := None, n_to_sender := [''Gtok'', toy_ack]\<rparr>"
  have s1: "net_step toy_env toy_renv toy_ep ?n0 ?n1"
    using net_step.session_turn [of "''Gtok''" ?n0 toy_ep toy_ep toy_env toy_sending 3
        "[(toy_ser toy_data, toy_ep)]" toy_renv] toy_get_step [of 3]
    by (simp add: net_start_def toy_short toy_data_packet del: toy_ser.simps)
  have s2: "net_step toy_env toy_renv toy_ep ?n1 ?n2"
    using net_step.receiver_turn [of ?n1 toy_renv "Datagram (toy_ser toy_data) toy_peer" Continue toy_received
        "ack_now toy_renv toy_received" toy_env toy_ep] toy_step_data
    by (simp add: net_start_def offered_def toy_ack_now del: toy_ser.simps)
       (simp add: receiver_init_def MAX_RETRIES_def)
  have s3: "net_step toy_env toy_renv toy_ep ?n2 toy_net"
    using net_step.session_turn [of toy_ack ?n2 toy_ep toy_ep toy_env toy_finished 3
        "[(toy_ser (done_packet toy_transfer), toy_ep)]" toy_renv] toy_ack_step [of 3]
    by (simp add: net_start_def toy_short toy_net_def del: toy_ser.simps)
  from s1 s2 s3 show ?thesis
    unfolding net_reach_def by (meson converse_rtranclp_into_rtranclp rtranclp.rtrancl_refl)
qed

section \<open>Properties\<close>

text \<open>
  C2: Over a network that loses, duplicates, delays and reorders datagrams at will, the
  receiver's output file is at every moment a prefix of the sender's file, as long as the offset
  it acknowledges; a transfer it reports as successful has delivered the file exactly.
\<close>

theorem transfer_safe:
  assumes "setting env renv t file" "ready_session env client t file s"
    and "net_reach env renv client (net_start renv s r) n"
  shows "out_file (n_receiver n) = Some (take (unat (current_offset (n_receiver n))) file)
     \<and> unat (current_offset (n_receiver n)) \<le> length file
     \<and> (n_result n = Some True \<longrightarrow> out_file (n_receiver n) = Some file)"
  using net_reach_inv [OF assms] by (auto simp: net_inv_def receiver_side_def)

theorem transfer_safe_witness:
  "out_file (n_receiver toy_net) = Some (take (unat (current_offset (n_receiver toy_net))) ''abc'')
     \<and> unat (current_offset (n_receiver toy_net)) \<le> length ''abc''"
  using transfer_safe [OF toy_setting toy_ready toy_net_reach] by blast

text \<open>
  C23: The sender never closes too early: once an authenticated session for a file that it can
  read has met the receiver on the network, in which strangers may send it anything but
  acknowledgements and errors, it is closed only when the receiver has the whole file on its
  disk (whether or not the receiver knows that yet).
\<close>

theorem sender_closed_means_delivered:
  assumes "setting env renv t file" "ready_session env client t file s"
    and "net_reach env renv client (net_start renv s r) n" "is_closed (n_session n)"
  shows "out_file (n_receiver n) = Some file"
  using net_reach_inv [OF assms(1-3)] assms(4)
  by (auto simp: net_inv_def receiver_side_def session_side_def is_closed_def)

theorem sender_closed_means_delivered_witness:
  "out_file (n_receiver (toy_net\<lparr>n_session := toy_finished\<lparr>m_state := Closed\<rparr>\<rparr>)) = Some ''abc''"
proof -
  have "handle_packet toy_env (toy_ack, toy_ep) (toy_finished, 3) = Inr ((toy_finished\<lparr>m_state := Closed\<rparr>, 3), [])"
    by (simp add: handle_packet.simps handle_control_packet_def handle_ack_def toy_finished_def toy_sending_def
          toy_hello_def Session_new_def toy_ack_def le_value_bytes)
  then have "net_step toy_env toy_renv toy_ep toy_net (toy_net\<lparr>n_session := toy_finished\<lparr>m_state := Closed\<rparr>\<rparr>)"
    using net_step.session_turn [of toy_ack toy_net toy_ep toy_ep toy_env "toy_finished\<lparr>m_state := Closed\<rparr>" 3 "[]"
        toy_renv]
    by (simp add: toy_short) (simp add: toy_net_def)
  with toy_net_reach have "net_reach toy_env toy_renv toy_ep (net_start toy_renv toy_hello 3)
      (toy_net\<lparr>n_session := toy_finished\<lparr>m_state := Closed\<rparr>\<rparr>)"
    unfolding net_reach_def by (rule rtranclp.rtrancl_into_rtrancl)
  from sender_closed_means_delivered [OF toy_setting toy_ready this] show ?thesis
    by (simp add: is_closed_def)
qed

text \<open>
  C3: Whatever was lost before: from any reachable state in which the receiver still has two
  waits left and the session has not sent its final packet, one timeout followed by a run
  without loss completes the transfer, in no more turns than the file has chunks, plus two.
\<close>

theorem interrupted_transfer_completes:
  assumes "setting env renv t file" "ready_session env client t file s"
    and "sha_stream (re_sha renv)" "re_expected_hash renv = hex_digest (sha_of (re_sha renv) file)"
    and "net_reach env renv client (net_start renv s r) n"
    and "\<not> done_sent (n_session n)" "Suc (retries (n_receiver n)) < MAX_RETRIES"
  shows "\<exists>st1 req s1 r1 d s2 r2 st2.
       receive_loop renv [Silence] (n_receiver n) = Inr (None, st1, req)
     \<and> run_steps (handle_packet env) (to_session client req) (n_session n, n_random n)
         = Inr ((s1, r1), [(d, client)])
     \<and> exchange env renv client (length file div PAYLOAD_SIZE + 2) d (s1, r1) st1
         = Inr (Some True, (s2, r2), st2)
     \<and> out_file st2 = Some file \<and> is_closed s2"
  using resumed_transfer [OF assms] .

theorem interrupted_transfer_completes_witness:
  "\<exists>st1 req s1 r1 d s2 r2 st2.
       receive_loop toy_renv [Silence] (receiver_init True None) = Inr (None, st1, req)
     \<and> run_steps (handle_packet toy_env) (to_session toy_ep req) (toy_hello, 3) = Inr ((s1, r1), [(d, toy_ep)])
     \<and> exchange toy_env toy_renv toy_ep (length ''abc'' div PAYLOAD_SIZE + 2) d (s1, r1) st1
         = Inr (Some True, (s2, r2), st2)
     \<and> out_file st2 = Some ''abc'' \<and> is_closed s2"
proof -
  have r: "net_reach toy_env toy_renv toy_ep (net_start toy_renv toy_hello 3) (net_start toy_renv toy_hello 3)"
    by (simp add: net_reach_def)
  have "\<not> done_sent (n_session (net_start toy_renv toy_hello (3 :: nat)))"
    by (simp add: net_start_def done_sent_def toy_hello_def Session_new_def)
  moreover have "Suc (retries (n_receiver (net_start toy_renv toy_hello (3 :: nat)))) < MAX_RETRIES"
    by (simp add: net_start_def receiver_init_def MAX_RETRIES_def)
  ultimately show ?thesis
    using interrupted_transfer_completes [OF toy_setting toy_ready _ _ r] toy_sha_stream
    by (simp add: net_start_def)
qed

text \<open>
  The final packet is different: if it is lost, a transfer whose file is complete on the
  receiver's disk fails. The receiver waits out its 20 timeouts and reports failure, although
  every one of its acknowledgements is delivered: the first one closes the session, which takes
  it for the acknowledgement of the final packet, and a closed session does not send it again.
\<close>

theorem lost_done_fails:
  assumes "setting env renv t file" "ready_session env client t file s" "file \<noteq> []"
    and "net_reach env renv client (net_start renv s r) n"
    and "m_state (n_session n) = Transferring" "m_last_chunk_done (n_session n)" "retries (n_receiver n) = 0"
  shows "\<exists>st1 acks s1.
       receive_loop renv (replicate MAX_RETRIES Silence) (n_receiver n) = Inr (Some False, st1, acks)
     \<and> out_file st1 = Some file
     \<and> run_steps (handle_packet env) (to_session client acks) (n_session n, n_random n)
         = Inr ((s1, n_random n), []) \<and> is_closed s1"
proof -
  let ?s = "n_session n" and ?st = "n_receiver n" and ?r = "n_random n"
  let ?acks = "concat (replicate MAX_RETRIES (ack_now renv ?st))"
  from net_reach_inv [OF assms(1,2,4)] have
    i: "session_side env client t file ?s (unat (current_offset ?st)) (n_to_receiver n)"
    "receiver_side renv (se_codec env) t file ?st (n_to_sender n)" by (simp_all add: net_inv_def)
  note cs = cached_packet(3) [OF assms(1) i(1) assms(5)]
  from i assms(5) have fc: "if_contents (m_file ?s) = file" by (simp add: session_side_def)
  with cs assms(6) have nil: "chunk_at (unat (m_offset ?s)) file = []" and z: "m_last_chunk_size ?s = 0"
    by (simp_all add: chunk_sent_def Let_def)
  have off: "current_offset ?st = m_offset ?s"
    using i(1) nil assms(5) by (intro word_unat_eq_iff [THEN iffD2]) (auto simp: session_side_def)
  with i(2) nil have cur: "unat (current_offset ?st) = length file"
    by (simp add: receiver_side_def chunk_at_nil_iff)
  then have "current_offset ?st \<noteq> 0" using assms(3) by auto
  then have rl: "receive_loop renv (replicate MAX_RETRIES Silence) ?st
      = Inr (Some False, ?st\<lparr>retries := MAX_RETRIES\<rparr>, ?acks)"
    using receive_loop_timeouts [of "replicate MAX_RETRIES Silence" ?st renv] assms(7)
    by (simp add: probe_def list_all_iff)
  have closed: "run_steps (handle_packet env) es (?s\<lparr>m_state := Closed\<rparr>, ?r)
      = Inr ((?s\<lparr>m_state := Closed\<rparr>, ?r), [])" for es
    by (induction es) (simp_all add: handle_packet_closed)
  have ack: "handle_packet env (take MAX_PACKET_SIZE (ack_bytes (se_codec env) t (m_offset ?s)), client) (?s, ?r)
      = Inr ((?s\<lparr>m_state := Closed\<rparr>, ?r), [])"
  proof -
    have "handle_ack (se_codec env) \<lparr>ack_transfer_id = transfer_id t, next_offset = m_offset ?s\<rparr> ?s
        = (?s\<lparr>m_state := Closed\<rparr>, [])"
      using handle_ack_cases(1) [OF assms(5) _ assms(6)] z by simp
    with ack_packet_turn [OF assms(1,5), of client "m_offset ?s" client ?r] show ?thesis
      by (simp only: to_session_def list.map fst_conv run_steps_one Let_def case_prod_conv)
  qed
  have "to_session client ?acks = (take MAX_PACKET_SIZE (ack_bytes (se_codec env) t (m_offset ?s)), client)
      # to_session client (concat (replicate (MAX_RETRIES - 1) (ack_now renv ?st)))"
    by (simp add: MAX_RETRIES_def ack_now_bytes [OF assms(1)] off to_session_def numeral_eq_Suc)
  then have "run_steps (handle_packet env) (to_session client ?acks) (?s, ?r) = Inr ((?s\<lparr>m_state := Closed\<rparr>, ?r), [])"
    by (simp add: ack closed)
  with rl cur i(2) show ?thesis by (auto simp: receiver_side_def is_closed_def)
qed

theorem lost_done_fails_witness:
  "\<exists>st1 acks s1.
       receive_loop toy_renv (replicate MAX_RETRIES Silence) toy_received = Inr (Some False, st1, acks)
     \<and> out_file st1 = Some ''abc''
     \<and> run_steps (handle_packet toy_env) (to_session toy_ep acks) (toy_finished, 3) = Inr ((s1, 3), [])
     \<and> is_closed s1"
  using lost_done_fails [OF toy_setting toy_ready _ toy_net_reach]
  by (simp add: toy_net_def toy_finished_def toy_sending_def toy_hello_def toy_received_def)

end
