(* ===== verification/End_To_End.thy ===== *)
theory End_To_End
  imports Meeting Network
begin

text \<open>
  From the command lines to the file: the transfer that \<open>send\<close> announces and the hello of a receiver
  that was told its token put the session and the receiver in the setting of the network theorems.
\<close>

lemma length_hex_digest: "length (hex_digest h) = 64"
proof -
  have "length (hex_digest h) = 2 * length [0..<SHA256_DIGEST_LENGTH]"
    unfolding hex_digest_def by (intro length_concat_const length_hex_byte)
  then show ?thesis by (simp add: SHA256_DIGEST_LENGTH_def)
qed

lemma length_new_token: "length (new_token inp) = 40"
  by (simp add: new_token_def generate_uuid_token_def)

lemma ascii_uptoI: "ascii s \<Longrightarrow> length s \<le> n \<Longrightarrow> ascii_upto n s"
  by (simp add: ascii_def ascii_upto_def code_def)

text \<open>A hello with the token of the announced transfer.\<close>

definition hello_for :: "codec \<Rightarrow> string \<Rightarrow> string \<Rightarrow> bool" where
  "hello_for c tok bytes \<longleftrightarrow>
     (\<exists>hello. parse_handshake c bytes = Some (HP_client_hello hello) \<and>
        ch_version hello = PROTOCOL_VERSION_1 \<and> ch_token hello = tok)"

lemma hello_answered:
  assumes "told env t c" "pg_client P = direct env" "pg_floats P = env_floats env"
    "parse_handshake (pg_codec P) bytes = Some (HP_client_hello hello)"
    "ch_version hello = PROTOCOL_VERSION_1" "ch_token hello = transfer_id t"
  shows "handle_packet (metadata_in (server_env_of P fs) c) (bytes, client) (Session_new ep path, r) =
    answer_client_hello (metadata_in (server_env_of P fs) c) hello
      ((Session_new ep path)\<lparr>m_remote_endpoint := client, m_transfer_metadata := t\<rparr>) r"
proof -
  have meta: "fst (get_transfer_metadata (env_floats env) (direct env) (transfer_id t) c) = Inr t"
    by (rule told_metadata [OF assms(1)]) simp
  then show ?thesis using assms(2-6) toldD(3) [OF assms(1)]
    by (simp add: handle_packet_waiting handle_handshake_packet_def validate_token_def Let_def Session_new_def
        server_env_of_def)
qed

lemma hello_readies:
  assumes "told env t c" "pg_client P = direct env" "pg_floats P = env_floats env"
    "hello_for (pg_codec P) (transfer_id t) bytes" "fs_open fs path = Some file"
    "session_packet (server_env_of P fs) (bytes, client) (Session_new ep path, r, c) = Inr ((s1, r1, c1), out)"
  shows "ready_session (metadata_in (server_env_of P fs) c1) client t file s1"
proof -
  obtain hello where hello: "parse_handshake (pg_codec P) bytes = Some (HP_client_hello hello)"
    "ch_version hello = PROTOCOL_VERSION_1" "ch_token hello = transfer_id t"
    using assms(4) by (auto simp: hello_for_def)
  have "handle_packet (metadata_in (server_env_of P fs) c) (bytes, client) (Session_new ep path, r) = Inr ((s1, r1), out)"
    using assms(6) by (auto simp: session_packet_def bind_result_Inr_iff Let_def)
  then have "s1 = (Session_new ep path)\<lparr>m_remote_endpoint := client, m_transfer_metadata := t,
      m_state := Authenticated\<rparr>"
    unfolding hello_answered [OF assms(1-3) hello]
    by (auto simp: answer_client_hello_def bind_result_Inr_iff Let_def)
  then show ?thesis using assms(5) by (simp add: ready_session_def Session_new_def server_env_of_def)
qed

lemma announced_setting:
  assumes "describe_transfer (pg_sha P) si path = Inr t" "codec_ok (pg_codec P)"
    "env_ok (metadata_in (server_env_of P (si_files si)) c)"
    "fs_open (si_files si) path = Some file" "fs_size (si_files si) path = Inr (of_nat (length file))"
    "length file < 2 ^ 63"
  shows "setting (metadata_in (server_env_of P (si_files si)) c)
    (receive_env_of P peer (transfer_id t) (file_hash t)) t file"
proof -
  obtain h n local public where t: "compute_file_hash (pg_sha P) (fs_open (si_files si) path) = Inr h"
    "fs_size (si_files si) path = Inr n" "si_local_address si = Inr local"
    "t = \<lparr>transfer_id = new_token si, sender_ip = public, sender_port = 5173, sender_local_ip = local,
          sender_local_port = 5173, protocol = ''udp'', file_name = filename path, file_size = n,
          file_hash = h, token = new_token si\<rparr>"
    "public = ''127.0.0.1'' \<or> (\<exists>a. public = dotted_quad a)"
    using described [OF assms(1)] .
  obtain d where "h = hex_digest d"
    using t(1) by (auto simp: compute_file_hash_def Let_def split: if_splits prod.splits)
  then have "ascii_upto 64 h" by (intro ascii_uptoI) (simp_all add: length_hex_digest)
  moreover have "ascii_upto 40 (new_token si)"
    by (intro ascii_uptoI) (simp_all add: length_new_token, simp add: new_token_def)
  ultimately show ?thesis using assms t(2,4) by (simp add: setting_def receive_env_of_def server_env_of_def)
qed

section \<open>Properties\<close>

text \<open>
  C1: From end to end: \<open>send\<close> describes and registers a file, the central server
  goes on answering other well-formed requests that do not register the same identifier, the
  session of \<open>send\<close> is greeted by a hello with its token, and the receiver asks for
  what the server told it. Then, over a network that loses, repeats and reorders datagrams and
  in which strangers send the session anything but acknowledgements and errors and the receiver
  anything at all, what the receiver has on its disk is at every moment a prefix of the file
  that \<open>send\<close> opened, and all of it once the receiver reports success. And if the
  session has not yet sent its final packet and the receiver has two waits left, then one
  timeout and a run without loss lead to that success; after the final packet this is not
  claimed, since the session may have closed.
\<close>

theorem announced_file_arrives:
  assumes "serving cenv c0" "describe_transfer (pg_sha P) si path = Inr t" "storable_send cenv si path"
    "pg_client P = direct cenv" "pg_floats P = env_floats cenv" "codec_ok (pg_codec P)" "sha_stream (pg_sha P)"
    "fs_open (si_files si) path = Some file" "fs_size (si_files si) path = Inr (of_nat (length file))"
    "length file < 2 ^ 63"
    "register_transfer (pg_floats P) (pg_client P) t c0 = (Inr (), cr)"
    "list_all2 (asks cenv) reqs opers" "list_all (\<lambda>oper. \<not> announces (new_token si) oper) opers"
    "run_steps (central_step cenv) reqs cr = Inr (c, ress)"
    "hello_for (pg_codec P) (new_token si) bytes"
    "session_packet (server_env_of P (si_files si)) (bytes, client) (Session_new ep path, r, c)
       = Inr ((s, r1, c1), out)"
    "env = metadata_in (server_env_of P (si_files si)) c1" "env_ok env"
    "renv = receive_env_of P peer (new_token si) (file_hash t)"
    "net_reach env renv client (net_start renv s r1) n"
  shows "out_file (n_receiver n) = Some (take (unat (current_offset (n_receiver n))) file) \<and>
    (n_result n = Some True \<longrightarrow> out_file (n_receiver n) = Some file) \<and>
    (\<not> done_sent (n_session n) \<and> Suc (retries (n_receiver n)) < MAX_RETRIES \<longrightarrow>
      (\<exists>st1 req s1 r1 d s2 r2 st2.
         receive_loop renv [Silence] (n_receiver n) = Inr (None, st1, req) \<and>
         run_steps (handle_packet env) (to_session client req) (n_session n, n_random n)
           = Inr ((s1, r1), [(d, client)]) \<and>
         exchange env renv client (length file div PAYLOAD_SIZE + 2) d (s1, r1) st1
           = Inr (Some True, (s2, r2), st2) \<and>
         out_file st2 = Some file))"
proof -
  note reg = described_registrable [OF assms(2,3)]
  have "told cenv t cr"
    using told_registered [OF assms(1) reg(1)] assms(4,5,11) by (metis Pair_inject)
  from told_run [OF this assms(12)] have "told cenv t c" using assms(13,14) reg(2) by (metis Inr_inject Pair_inject)
  from hello_readies [OF this assms(4,5) _ assms(8,16)] have ready: "ready_session env client t file s"
    using assms(15,17) reg(2) by simp
  have setting: "setting env renv t file"
    using announced_setting [OF assms(2,6) _ assms(8-10)] assms(17-19) reg(2) by simp
  have sha: "sha_stream (re_sha renv)" "re_expected_hash renv = hex_digest (sha_of (re_sha renv) file)"
    using assms(2,7,8,19) compute_file_hash_eq [OF assms(7), of "file"]
    by (auto simp: receive_env_of_def elim!: described)
  from resumed_transfer [OF setting ready sha assms(20)] net_reach_inv [OF setting ready assms(20)] show ?thesis
    by (fastforce simp: net_inv_def receiver_side_def)
qed

lemma toy_session_env_ok: "env_ok (metadata_in (server_env_of toy_program (si_files (toy_send evs))) w)"
  by (simp add: env_ok_def files_bounded_def toy_ser_nonempty server_env_of_def toy_send_def)

lemma toy_greeting:
  assumes "told toy_central_env t c" "transfer_id t = tok"
  obtains s r1 c1 out where
    "session_packet (server_env_of toy_program fs) (CHR ''C'' # tok, toy_ep) (Session_new toy_ep path, 0, c) =
       Inr ((s, r1, c1), out)"
proof -
  let ?hello = "\<lparr>ch_version = PROTOCOL_VERSION_1, ch_transfer_id = tok, ch_token = tok, ch_receiver_nonce = [],
    ch_receiver_identity = no_identity, ch_receiver_signature = []\<rparr>"
  have parse: "parse_handshake (pg_codec toy_program) (CHR ''C'' # tok) = Some (HP_client_hello ?hello)" by simp
  have "\<exists>s r1 out. handle_packet (metadata_in (server_env_of toy_program fs) c) (CHR ''C'' # tok, toy_ep)
      (Session_new toy_ep path, 0) = Inr ((s, r1), out)"
    using hello_answered [OF assms(1) toy_program_simps(5,4) parse, where fs = fs and client = toy_ep
        and ep = toy_ep and path = path and r = 0] assms(2)
    by (simp add: answer_client_hello_def sign_server_hello_def toy_keys server_env_of_def Let_def)
  then show thesis by (auto simp: session_packet_def intro: that)
qed

lemma announced_file_arrives_witness:
  "\<exists>(env :: nat session_env) (renv :: string receive_env) st1 req s s1 r r1 d s2 r2 st2.
     receive_loop renv [Silence] (n_receiver (net_start renv s r)) = Inr (None, st1, req) \<and>
     run_steps (handle_packet env) (to_session toy_ep req) (s, r) = Inr ((s1, r1), [(d, toy_ep)]) \<and>
     exchange env renv toy_ep (length ''abc'' div PAYLOAD_SIZE + 2) d (s1, r1) st1 = Inr (Some True, (s2, r2), st2) \<and>
     out_file st2 = Some ''abc''"
proof -
  let ?si = "toy_send []"
  obtain t where t: "describe_transfer (pg_sha toy_program) ?si ''dir/f'' = Inr t"
    using toy_described .
  note reg = described_registrable [OF t toy_storable]
  obtain cr where cr: "register_transfer (pg_floats toy_program) (pg_client toy_program) t toy_central = (Inr (), cr)"
    "told toy_central_env t cr"
    using told_registered [OF toy_serving reg(1)] by auto
  have others: "list_all (\<lambda>oper. \<not> announces i oper) toy_operations" for i
    by (simp add: toy_operations_def)
  obtain c ress where c: "run_steps (central_step toy_central_env) toy_requests cr = Inr (c, ress)"
    "told toy_central_env t c"
    using told_run [OF cr(2) toy_asks others] .
  obtain s r1 c1 out where greeting: "session_packet (server_env_of toy_program (si_files ?si))
      (CHR ''C'' # new_token ?si, toy_ep) (Session_new toy_ep ''dir/f'', 0, c) = Inr ((s, r1, c1), out)"
    using toy_greeting [OF c(2) reg(2)] .
  let ?env = "metadata_in (server_env_of toy_program (si_files ?si)) c1"
  let ?renv = "receive_env_of toy_program toy_peer (new_token ?si) (file_hash t)"
  have hello: "hello_for (pg_codec toy_program) (new_token ?si) (CHR ''C'' # new_token ?si)" by (simp add: hello_for_def)
  have codec: "codec_ok (pg_codec toy_program)" "sha_stream (pg_sha toy_program)"
    using toy_codec_ok toy_sha_stream by simp_all
  have opened: "fs_open (si_files ?si) ''dir/f'' = Some ''abc''"
    "fs_size (si_files ?si) ''dir/f'' = Inr (of_nat (length ''abc''))" "length ''abc'' < 2 ^ 63"
    by (simp_all add: toy_send_def)
  let ?n = "net_start ?renv s r1"
  have start: "net_reach ?env ?renv toy_ep ?n ?n" by (simp add: net_reach_def)
  have n: "n_session ?n = s" "n_random ?n = r1" "Suc (retries (n_receiver ?n)) < MAX_RETRIES"
    by (simp_all add: net_start_def receiver_init_def MAX_RETRIES_def)
  have "ready_session ?env toy_ep t ''abc'' s"
    using hello_readies [OF c(2) toy_program_simps(5,4) _ opened(1) greeting] reg(2) hello by simp
  then have "\<not> done_sent (n_session ?n)" by (simp add: n(1) ready_session_def done_sent_def)
  then have "\<not> done_sent (n_session ?n) \<and> Suc (retries (n_receiver ?n)) < MAX_RETRIES" using n(3) by (rule conjI)
  from announced_file_arrives [OF toy_serving t toy_storable toy_program_simps(5,4) codec opened cr(1) toy_asks
      others c(1) hello greeting refl toy_session_env_ok refl start, THEN conjunct2, THEN conjunct2, THEN mp, OF this]
  show ?thesis unfolding n(1,2) by blast
qed

end
