(* ===== verification/Http_Encoding.thy ===== *)
theory Http_Encoding
  imports Json_Serializer
begin

text \<open>
  The text helpers of \<open>httplib.h\<close> that its other parts share: hexadecimal digits, percent encoding of
  paths, trimming and splitting, and \<open>std::strtoul\<close>.
\<close>

section \<open>Characters\<close>

definition is_alnum :: "char \<Rightarrow> bool" where
  "is_alnum c =
     (is_digit c \<or> 65 \<le> code c \<and> code c \<le> 90 \<or> 97 \<le> code c \<and> code c \<le> 122)"

section \<open>Percent encoding\<close>

definition is_hex :: "char \<Rightarrow> nat option" where
  "is_hex c =
     (if is_digit c then Some (code c - 48)
      else if 65 \<le> code c \<and> code c \<le> 70 then Some (code c - 55)
      else if 97 \<le> code c \<and> code c \<le> 102 then Some (code c - 87)
      else None)"

text \<open>\<open>cnt\<close> digits from the beginning of the string.\<close>

fun from_hex_to_i :: "nat \<Rightarrow> string \<Rightarrow> nat \<Rightarrow> nat option" where
  "from_hex_to_i 0 s v = Some v"
| "from_hex_to_i (Suc cnt) [] v = None"
| "from_hex_to_i (Suc cnt) (c # s) v =
     (case is_hex c of None \<Rightarrow> None | Some d \<Rightarrow> from_hex_to_i cnt s (v * 16 + d))"

definition to_utf8 :: "nat \<Rightarrow> string" where
  "to_utf8 n =
     (if n < 0x80 then [char_of n]
      else if n < 0x800 then [char_of (0xC0 + n div 64), char_of (0x80 + n mod 64)]
      else if n < 0xD800 then
        [char_of (0xE0 + n div 4096), char_of (0x80 + n div 64 mod 64), char_of (0x80 + n mod 64)]
      else if n < 0xE000 then []
      else if n < 0x10000 then
        [char_of (0xE0 + n div 4096), char_of (0x80 + n div 64 mod 64), char_of (0x80 + n mod 64)]
      else if n < 0x110000 then
        [char_of (0xF0 + n div 262144), char_of (0x80 + n div 4096 mod 64),
         char_of (0x80 + n div 64 mod 64), char_of (0x80 + n mod 64)]
      else [])"

function decode_path_component :: "string \<Rightarrow> string" where
  "decode_path_component [] = []"
| "decode_path_component (c # s) =
     (if c = CHR ''%'' \<and> s \<noteq> [] then
        (if hd s = CHR ''u'' then
           (case from_hex_to_i 4 (tl s) 0 of
              Some v \<Rightarrow> to_utf8 v @ decode_path_component (drop 5 s)
            | None \<Rightarrow> c # decode_path_component s)
         else
           (case from_hex_to_i 2 s 0 of
              Some v \<Rightarrow> char_of v # decode_path_component (drop 2 s)
            | None \<Rightarrow> c # decode_path_component s))
      else c # decode_path_component s)"
  by pat_completeness auto
termination by (relation "measure length") auto

declare decode_path_component.simps(2) [simp del]

definition encode_char :: "char \<Rightarrow> string" where
  "encode_char c =
     (if c = CHR '' '' then ''%20'' else if c = CHR ''+'' then ''%2B''
      else if code c = 0x0D then ''%0D'' else if code c = 0x0A then ''%0A''
      else if code c = 0x27 then ''%27'' else if c = CHR '','' then ''%2C''
      else if c = CHR '';'' then ''%3B''
      else if 0x80 \<le> code c then CHR ''%'' # hex_bytes (code c)
      else [c])"

text \<open>The loop ends at the first null character.\<close>

fun encode_path :: "string \<Rightarrow> string" where
  "encode_path [] = []"
| "encode_path (c # s) = (if code c = 0 then [] else encode_char c @ encode_path s)"

section \<open>Splitting\<close>

definition is_space_or_tab :: "char \<Rightarrow> bool" where
  "is_space_or_tab c = (code c = 32 \<or> code c = 9)"

definition trim :: "string \<Rightarrow> string" where
  "trim s = rev (dropWhile is_space_or_tab (rev (dropWhile is_space_or_tab s)))"

function segments :: "char \<Rightarrow> string \<Rightarrow> string list" where
  "segments d s =
     (if d \<in> set s then takeWhile (\<lambda>c. c \<noteq> d) s # segments d (tl (dropWhile (\<lambda>c. c \<noteq> d) s)) else [s])"
  by pat_completeness auto
termination
proof (relation "measure (\<lambda>(d, s). length s)")
  fix d :: char and s :: string
  assume "d \<in> set s"
  then have "dropWhile (\<lambda>c. c \<noteq> d) s \<noteq> []" by (simp add: dropWhile_eq_Nil_conv)
  moreover have "length (dropWhile (\<lambda>c. c \<noteq> d) s) \<le> length s" by (rule length_dropWhile_le)
  ultimately show "((d, tl (dropWhile (\<lambda>c. c \<noteq> d) s)), d, s) \<in> measure (\<lambda>(d, s). length s)"
    by (cases "dropWhile (\<lambda>c. c \<noteq> d) s") simp_all
qed simp

declare segments.simps [simp del]

text \<open>The pieces between the separators, trimmed; empty ones are skipped.\<close>

definition split_pieces :: "char \<Rightarrow> string \<Rightarrow> string list" where
  "split_pieces d s = filter (\<lambda>p. p \<noteq> []) (map trim (segments d s))"

section \<open>Numbers of base 16\<close>

text \<open>
  \<open>std::strtoul\<close> of base 16 for 64 bits: \<open>None\<close> when nothing is converted. It skips white space, takes a
  sign and a prefix, and stops at the first other character.
\<close>

definition ULONG_MAX :: nat where "ULONG_MAX = 2 ^ 64 - 1"

fun hex_digits :: "string \<Rightarrow> nat list" where
  "hex_digits [] = []"
| "hex_digits (c # s) = (case is_hex c of None \<Rightarrow> [] | Some d \<Rightarrow> d # hex_digits s)"

definition hex_prefix :: "string \<Rightarrow> bool" where
  "hex_prefix s = (2 < length s \<and> s ! 0 = CHR ''0'' \<and> (s ! 1 = CHR ''x'' \<or> s ! 1 = CHR ''X'') \<and> is_hex (s ! 2) \<noteq> None)"

text \<open>Whether there is a minus sign, and the string from the first digit on.\<close>

definition strtoul_digits :: "string \<Rightarrow> bool \<times> string" where
  "strtoul_digits s =
     (let s = dropWhile is_space s;
          negative = (s \<noteq> [] \<and> hd s = CHR ''-'');
          s = (if s \<noteq> [] \<and> (hd s = CHR ''-'' \<or> hd s = CHR ''+'') then tl s else s)
      in (negative, if hex_prefix s then drop 2 s else s))"

definition strtoul16 :: "string \<Rightarrow> nat option" where
  "strtoul16 s =
     (let (negative, t) = strtoul_digits s;
          ds = hex_digits t;
          v = foldl (\<lambda>v d. 16 * v + d) 0 ds
      in if ds = [] then None
         else if ULONG_MAX < v then Some ULONG_MAX
         else if negative then Some ((2 ^ 64 - v) mod 2 ^ 64)
         else Some v)"

text \<open>The value when the whole of the string is converted.\<close>

definition strtoul16_whole :: "string \<Rightarrow> nat option" where
  "strtoul16_whole s =
     (let t = snd (strtoul_digits s)
      in if length (hex_digits t) = length t then strtoul16 s else None)"

end
