(* ===== verification/Http_Query.thy ===== *)
theory Http_Query
  imports Http_Encoding
begin

text \<open>
  Query strings of \<open>httplib.h\<close>: their percent encoding, the parameters they stand for, the text of
  parameters, and how a client normalises the query of a path. \<open>Params\<close> is a \<open>std::multimap\<close>, the list of
  its pairs in the order of the keys; pairs of one key stay in the order in which they came.
\<close>

section \<open>Percent encoding of components\<close>

definition encode_query_char :: "bool \<Rightarrow> char \<Rightarrow> string" where
  "encode_query_char space_as_plus c =
     (if is_alnum c \<or> c \<in> set ''-._~'' then [c]
      else if c = CHR '' '' then (if space_as_plus then ''+'' else ''%20'')
      else if c = CHR ''+'' then (if space_as_plus then ''%2B'' else [c])
      else if c \<in> set ''!$()*,;'' \<or> code c = 0x27 then [c]
      else if c \<in> set '':@/?'' then [c]
      else CHR ''%'' # hex_bytes (code c))"

definition encode_query_component :: "bool \<Rightarrow> string \<Rightarrow> string" where
  "encode_query_component space_as_plus s = concat (map (encode_query_char space_as_plus) s)"

function decode_query_component :: "bool \<Rightarrow> string \<Rightarrow> string" where
  "decode_query_component plus_as_space [] = []"
| "decode_query_component plus_as_space (c # s) =
     (if c = CHR ''%'' \<and> 2 \<le> length s then
        (case strtoul16_whole (take 2 s) of
           Some v \<Rightarrow> char_of v # decode_query_component plus_as_space (drop 2 s)
         | None \<Rightarrow> c # decode_query_component plus_as_space s)
      else if c = CHR ''+'' \<and> plus_as_space then CHR '' '' # decode_query_component plus_as_space s
      else c # decode_query_component plus_as_space s)"
  by pat_completeness auto
termination by (relation "measure (length \<circ> snd)") auto

declare decode_query_component.simps(2) [simp del]

definition encode_uri_component :: "string \<Rightarrow> string" where
  "encode_uri_component s =
     concat (map (\<lambda>c. if is_alnum c \<or> c \<in> set ''-_.!~*()'' \<or> code c = 0x27 then [c]
                      else CHR ''%'' # hex_bytes (code c)) s)"

definition encode_uri :: "string \<Rightarrow> string" where
  "encode_uri s =
     concat (map (\<lambda>c. if is_alnum c \<or> c \<in> set ''-_.!~*();/?:@&=+$,#'' \<or> code c = 0x27 then [c]
                      else CHR ''%'' # hex_bytes (code c)) s)"

definition encode_path_component :: "string \<Rightarrow> string" where
  "encode_path_component s =
     concat (map (\<lambda>c. if is_alnum c \<or> c \<in> set ''-._~'' then [c]
                      else if c \<in> set ''!$&()*+,;='' \<or> code c = 0x27 then [c]
                      else if c = CHR '':'' then [c]
                      else if c = CHR ''@'' then [c]
                      else CHR ''%'' # hex_bytes (code c)) s)"

text \<open>\<open>decode_uri\<close> is the same function.\<close>

function decode_uri_component :: "string \<Rightarrow> string" where
  "decode_uri_component [] = []"
| "decode_uri_component (c # s) =
     (if c = CHR ''%'' \<and> 2 \<le> length s then
        (case from_hex_to_i 2 s 0 of
           Some v \<Rightarrow> char_of v # decode_uri_component (drop 2 s)
         | None \<Rightarrow> c # decode_uri_component s)
      else c # decode_uri_component s)"
  by pat_completeness auto
termination by (relation "measure length") auto

declare decode_uri_component.simps(2) [simp del]

section \<open>Parameters\<close>

type_synonym params = "(string \<times> string) list"

text \<open>\<open>std::multimap::emplace\<close>: after all pairs whose key is not greater.\<close>

fun params_emplace :: "string \<Rightarrow> string \<Rightarrow> params \<Rightarrow> params" where
  "params_emplace k v [] = [(k, v)]"
| "params_emplace k v ((k', v') # ps) =
     (if k < k' then (k, v) # (k', v') # ps else (k', v') # params_emplace k v ps)"

text \<open>\<open>divide\<close> at the first equals sign.\<close>

definition divide_at :: "char \<Rightarrow> string \<Rightarrow> string \<times> string" where
  "divide_at d s = (let lhs = takeWhile (\<lambda>c. c \<noteq> d) s in (lhs, drop (length lhs + 1) s))"

lemma divide_found: "d \<notin> set a \<Longrightarrow> divide_at d (a @ d # b) = (a, b)"
proof -
  assume "d \<notin> set a"
  then have "takeWhile (\<lambda>c. c \<noteq> d) (a @ d # b) = a" by (auto intro: takeWhile_append2 simp: takeWhile_append)
  then show ?thesis by (simp add: divide_at_def)
qed

lemma divide_absent: "d \<notin> set a \<Longrightarrow> divide_at d a = (a, [])"
proof -
  assume "d \<notin> set a"
  then have whole: "takeWhile (\<lambda>c. c \<noteq> d) a = a" by (auto simp: takeWhile_eq_all_conv)
  show ?thesis unfolding divide_at_def whole Let_def by simp
qed

lemma divide_cases:
  obtains "d \<notin> set s" "divide_at d s = (s, [])" | a b where "s = a @ d # b" "d \<notin> set a" "divide_at d s = (a, b)"
  by (metis divide_absent divide_found split_list_first)

text \<open>The first of equal pieces.\<close>

function first_ones :: "string list \<Rightarrow> string list" where
  "first_ones [] = []"
| "first_ones (p # ps) = p # first_ones (filter (\<lambda>q. q \<noteq> p) ps)"
  by pat_completeness auto
termination by (relation "measure length") (auto simp: less_Suc_eq_le)

definition add_param :: "string \<Rightarrow> params \<Rightarrow> params" where
  "add_param kv ps =
     (case divide_at (CHR ''='') kv of
        (key, val) \<Rightarrow>
          if key = [] then ps
          else params_emplace (decode_query_component True key) (decode_query_component True val) ps)"

definition parse_query_text :: "string \<Rightarrow> params \<Rightarrow> params" where
  "parse_query_text s ps = fold add_param (first_ones (split_pieces (CHR ''&'') s)) ps"

fun join_with :: "char \<Rightarrow> string list \<Rightarrow> string" where
  "join_with d [] = []"
| "join_with d [p] = p"
| "join_with d (p # ps) = p @ d # join_with d ps"

definition param_text :: "string \<times> string \<Rightarrow> string" where
  "param_text kv = encode_query_component True (fst kv) @ CHR ''='' # encode_query_component True (snd kv)"

definition params_to_query_str :: "params \<Rightarrow> string" where
  "params_to_query_str ps = join_with (CHR ''&'') (map param_text ps)"

text \<open>One piece of a query, decoded and encoded again.\<close>

definition normalize_piece :: "string \<Rightarrow> string" where
  "normalize_piece kv =
     (case divide_at (CHR ''='') kv of
        (key, val) \<Rightarrow>
          encode_query_component True (decode_query_component True key)
            @ (if CHR ''='' \<in> set kv then CHR ''='' # encode_query_component True (decode_query_component True val) else []))"

definition normalize_query_string :: "string \<Rightarrow> string" where
  "normalize_query_string query =
     join_with (CHR ''&'')
       (map normalize_piece (filter (\<lambda>kv. fst (divide_at (CHR ''='') kv) \<noteq> []) (split_pieces (CHR ''&'') query)))"

text \<open>
  \<open>has_param\<close>, \<open>get_param_value_count\<close> and \<open>get_param_value\<close>: the iterator is advanced from the first pair of
  the key and compared with the end of the key's pairs only.
\<close>

definition has_param :: "string \<Rightarrow> params \<Rightarrow> bool" where
  "has_param key ps = list_ex (\<lambda>(k, v). k = key) ps"

definition get_param_value_count :: "string \<Rightarrow> params \<Rightarrow> nat" where
  "get_param_value_count key ps = length (filter (\<lambda>(k, v). k = key) ps)"

definition get_param_value :: "string \<Rightarrow> nat \<Rightarrow> params \<Rightarrow> string result" where
  "get_param_value key n ps =
     (let i = length (takeWhile (\<lambda>(k, v). k < key) ps) + n
      in if n = get_param_value_count key ps then Inr []
         else if i < length ps then Inr (snd (ps ! i))
         else Inl (Abort ''advance past the end''))"

end
