(* ===== verification/Http_Message.thy ===== *)
theory Http_Message
  imports Http_Query Central_Http
begin

text \<open>
  The text of an HTTP request in \<open>httplib.h\<close>: what the client writes (request line, percent-encoded
  path, headers, body) and how the server reads its head (lines, request line, headers); \<open>Http_Body\<close> has
  the bodies. A stream is what is still to be read until the connection ends. Headers are a list in the
  order of the lines; which of two headers of one name a map yields is unspecified, here it is the
  first.
\<close>

type_synonym headers = "(string \<times> string) list"

definition CRLF :: string where "CRLF = [CHR 0x0D, CHR 0x0A]"

section \<open>Writing\<close>

definition write_request_line :: "string \<Rightarrow> string \<Rightarrow> string" where
  "write_request_line m path = m @ '' '' @ path @ '' HTTP/1.1'' @ CRLF"

definition write_headers :: "headers \<Rightarrow> string" where
  "write_headers hs = concat (map (\<lambda>(k, v). k @ '': '' @ v @ CRLF) hs) @ CRLF"

text \<open>The path before the first question mark is encoded, the query after it is normalised.\<close>

definition request_target :: "string \<Rightarrow> string" where
  "request_target path =
     (case divide_at (CHR ''?'') path of
        (path_part, query_part) \<Rightarrow>
          let normalized = normalize_query_string query_part
          in encode_path path_part @ (if query_part \<noteq> [] \<and> normalized \<noteq> [] then CHR ''?'' # normalized else []))"

definition write_request :: "string \<Rightarrow> string \<Rightarrow> headers \<Rightarrow> string \<Rightarrow> string" where
  "write_request m path hs body = write_request_line m (request_target path) @ write_headers hs @ body"

text \<open>
  The headers of \<open>client.Get\<close> and \<open>client.Post\<close> as the program calls them: \<open>host\<close> is the host and port of the
  server.
\<close>

definition client_headers :: "string \<Rightarrow> request \<Rightarrow> headers" where
  "client_headers host req =
     [(''Connection'', ''close''), (''Host'', host), (''Accept'', ''*/*''), (''Accept-Encoding'', []),
      (''User-Agent'', ''cpp-httplib/0.28.0'')]
     @ (if req_body req \<noteq> []
        then [(''Content-Type'', ''application/json''), (''Content-Length'', to_string (length (req_body req)))]
        else if req_method req = ''POST'' then [(''Content-Type'', ''application/json''), (''Content-Length'', ''0'')]
        else [])"

section \<open>Reading lines\<close>

definition CPPHTTPLIB_MAX_LINE_LENGTH :: nat where "CPPHTTPLIB_MAX_LINE_LENGTH = 32768"

definition CPPHTTPLIB_HEADER_MAX_LENGTH :: nat where "CPPHTTPLIB_HEADER_MAX_LENGTH = 8192"

definition CPPHTTPLIB_HEADER_MAX_COUNT :: nat where "CPPHTTPLIB_HEADER_MAX_COUNT = 100"

definition CPPHTTPLIB_REQUEST_URI_MAX_LENGTH :: nat where "CPPHTTPLIB_REQUEST_URI_MAX_LENGTH = 8192"

text \<open>
  The line from its \<open>i\<close>th character on, after the character \<open>prev_byte\<close>, with its end, and what follows it.
\<close>

fun getline_from :: "nat \<Rightarrow> char \<Rightarrow> string \<Rightarrow> (string \<times> string) option" where
  "getline_from i prev_byte s =
     (if CPPHTTPLIB_MAX_LINE_LENGTH \<le> i then None
      else
        (case s of
           [] \<Rightarrow> if i = 0 then None else Some ([], [])
         | byte # s \<Rightarrow>
             if prev_byte = CHR 0x0D \<and> byte = CHR 0x0A then Some ([byte], s)
             else map_option (\<lambda>(line, rest). (byte # line, rest)) (getline_from (Suc i) byte s)))"

declare getline_from.simps [simp del]

definition getline :: "string \<Rightarrow> (string \<times> string) option" where
  "getline s = getline_from 0 (CHR 0x00) s"

definition end_with_crlf :: "string \<Rightarrow> bool" where
  "end_with_crlf line = (2 \<le> length line \<and> drop (length line - 2) line = CRLF)"

section \<open>The request line\<close>

definition methods :: "string list" where
  "methods =
     [''GET'', ''HEAD'', ''POST'', ''PUT'', ''DELETE'', ''CONNECT'', ''OPTIONS'', ''TRACE'', ''PATCH'', ''PRI'']"

text \<open>Method, version, target without fragment, path; the line is a C string.\<close>

definition parse_request_line :: "string \<Rightarrow> (string \<times> string \<times> string \<times> string) option" where
  "parse_request_line line =
     (let s = takeWhile (\<lambda>c. code c \<noteq> 0) line
      in if \<not> end_with_crlf s then None
         else
           (case split_pieces (CHR '' '') (take (length s - 2) s) of
              [m, target, version] \<Rightarrow>
                if m \<notin> set methods then None
                else if version \<noteq> ''HTTP/1.1'' \<and> version \<noteq> ''HTTP/1.0'' then None
                else
                  let target = takeWhile (\<lambda>c. c \<noteq> CHR ''#'') target
                  in Some (m, version, target, decode_path_component (takeWhile (\<lambda>c. c \<noteq> CHR ''?'') target))
            | _ \<Rightarrow> None))"

text \<open>The parameters of the target that the line has.\<close>

definition target_params :: "string \<Rightarrow> params" where
  "target_params target = parse_query_text (snd (divide_at (CHR ''?'') target)) []"

section \<open>Headers\<close>

definition is_token_char :: "char \<Rightarrow> bool" where
  "is_token_char c = (is_alnum c \<or> c \<in> set ''!#$%&*+-.^_|~'' \<or> code c = 0x27 \<or> code c = 0x60)"

definition is_field_name :: "string \<Rightarrow> bool" where
  "is_field_name s = (s \<noteq> [] \<and> list_all is_token_char s)"

definition is_field_vchar :: "char \<Rightarrow> bool" where
  "is_field_vchar c = (33 \<le> code c \<and> code c \<le> 126 \<or> 128 \<le> code c)"

definition is_field_value :: "string \<Rightarrow> bool" where
  "is_field_value s =
     (s = [] \<or> is_field_vchar (hd s) \<and> is_field_vchar (last s)
        \<and> list_all (\<lambda>c. is_space_or_tab c \<or> is_field_vchar c) (butlast (tl s)))"

definition to_lower :: "nat \<Rightarrow> nat" where
  "to_lower n = (if 65 \<le> n \<and> n \<le> 90 \<or> 192 \<le> n \<and> n \<le> 222 \<and> n \<noteq> 215 then n + 32 else n)"

definition equal_ignoring_case :: "string \<Rightarrow> string \<Rightarrow> bool" where
  "equal_ignoring_case a b = list_all2 (\<lambda>x y. to_lower (code x) = to_lower (code y)) a b"

text \<open>A header line without its end. The values of most headers are percent-decoded.\<close>

definition parse_header :: "string \<Rightarrow> (string \<times> string) option" where
  "parse_header line =
     (let line = rev (dropWhile is_space_or_tab (rev line));
          key = takeWhile (\<lambda>c. c \<noteq> CHR '':'') line;
          val = dropWhile is_space_or_tab (drop (length key + 1) line)
      in if \<not> is_field_name key then None
         else if CHR '':'' \<notin> set line then None
         else if \<not> is_field_value val then None
         else if equal_ignoring_case key ''Location'' \<or> equal_ignoring_case key ''Referer'' then Some (key, val)
         else Some (key, decode_path_component val))"

lemma getline_from_shorter: "getline_from i p s = Some (line, rest) \<Longrightarrow> s \<noteq> [] \<Longrightarrow> length rest < length s"
proof (induction s arbitrary: i p line)
  case (Cons c s)
  then show ?case
  proof (cases "p = CHR 0x0D \<and> c = CHR 0x0A")
    case True
    with Cons.prems show ?thesis by (simp add: getline_from.simps split: if_splits)
  next
    case False
    with Cons.prems obtain l where l: "getline_from (Suc i) c s = Some (l, rest)"
      by (auto simp: getline_from.simps [of i] split: if_splits)
    show ?thesis
    proof (cases "s = []")
      case True
      with l show ?thesis by (simp add: getline_from.simps split: if_splits)
    next
      case False
      from Cons.IH [OF l False] show ?thesis by simp
    qed
  qed
qed simp

lemma getline_shorter: "getline s = Some (line, rest) \<Longrightarrow> length rest < length s"
  using getline_from_shorter [of 0 "CHR 0x00" s] by (cases "s = []") (auto simp: getline_def getline_from.simps split: if_splits)

text \<open>What is left unread when there is no line: it was too long, or the stream has ended.\<close>

abbreviation after_long_line :: "string \<Rightarrow> string" where
  "after_long_line s \<equiv> drop CPPHTTPLIB_MAX_LINE_LENGTH s"

text \<open>
  \<open>n\<close> headers were read before. A line without its end is skipped. The second component is what was not
  read, also when the headers are refused.
\<close>

function read_headers :: "nat \<Rightarrow> string \<Rightarrow> headers option \<times> string" where
  "read_headers n s =
     (case getline s of
        None \<Rightarrow> (None, after_long_line s)
      | Some (line, rest) \<Rightarrow>
          if \<not> end_with_crlf line then read_headers n rest
          else if length line = 2 then (Some [], rest)
          else if CPPHTTPLIB_HEADER_MAX_LENGTH < length line then (None, rest)
          else if CPPHTTPLIB_HEADER_MAX_COUNT \<le> n then (None, rest)
          else
            (case parse_header (take (length line - 2) line) of
               None \<Rightarrow> (None, rest)
             | Some h \<Rightarrow> map_prod (map_option (Cons h)) id (read_headers (Suc n) rest)))"
  by pat_completeness auto
termination by (relation "measure (\<lambda>(n, s). length s)") (auto dest: getline_shorter)

declare read_headers.simps [simp del]

text \<open>The first header of a name; header names are compared without case.\<close>

definition header_value :: "string \<Rightarrow> headers \<Rightarrow> string option" where
  "header_value key hs = map_option snd (find (\<lambda>(k, v). equal_ignoring_case key k) hs)"

text \<open>\<open>get_header_value\<close>: a C string, empty when there is no such header.\<close>

definition get_header_value :: "headers \<Rightarrow> string \<Rightarrow> string" where
  "get_header_value hs key =
     (case header_value key hs of None \<Rightarrow> [] | Some v \<Rightarrow> takeWhile (\<lambda>c. code c \<noteq> 0) v)"

section \<open>The head of a request\<close>

text \<open>The method is known also when the line is refused.\<close>

definition request_method :: "string \<Rightarrow> string" where
  "request_method line =
     (let s = takeWhile (\<lambda>c. code c \<noteq> 0) line
      in if \<not> end_with_crlf s then []
         else (case split_pieces (CHR '' '') (take (length s - 2) s) of [] \<Rightarrow> [] | m # _ \<Rightarrow> m))"

text \<open>
  The reading part of \<open>process_request\<close>: no request, one answered by an error (status, method), or one to
  route, with method, version, path, headers; the last component is what follows in the stream.
\<close>

datatype reading = No_Request | Refused int string string | Read_Head string string string headers string

definition read_head :: "string \<Rightarrow> reading" where
  "read_head s =
     (case getline s of
        None \<Rightarrow> No_Request
      | Some (line, rest) \<Rightarrow>
          (case parse_request_line line of
             None \<Rightarrow> Refused 400 (request_method line) rest
           | Some (m, version, target, path) \<Rightarrow>
               (case read_headers 0 rest of
                  (None, rest) \<Rightarrow> Refused 400 m rest
                | (Some hs, rest) \<Rightarrow>
                    if CPPHTTPLIB_REQUEST_URI_MAX_LENGTH < length target then Refused 414 m rest
                    else Read_Head m version path hs rest)))"

end
