(* ===== verification/Http_Body.thy ===== *)
theory Http_Body
  imports Http_Message
begin

text \<open>
  Bodies of HTTP messages in \<open>httplib.h\<close>: of a given length, up to the end of the connection, and in chunks
  with trailers, and the whole of a request as the server reads it. \<open>httplib.h\<close> is compiled without
  compression, so a content encoding is refused. Multipart forms are in \<open>Http_Form_Body\<close>.
\<close>

section \<open>Chunks\<close>

fun from_i_to_hex :: "nat \<Rightarrow> string" where
  "from_i_to_hex n =
     (if n < 16 then [''0123456789abcdef'' ! n] else from_i_to_hex (n div 16) @ [''0123456789abcdef'' ! (n mod 16)])"

declare from_i_to_hex.simps [simp del]

definition chunk_text :: "string \<Rightarrow> string" where
  "chunk_text d = (if d = [] then [] else from_i_to_hex (length d) @ CRLF @ d @ CRLF)"

text \<open>The pieces of a content provider, and its trailers. Without compression a chunk is a piece.\<close>

definition write_content_chunked :: "string list \<Rightarrow> headers \<Rightarrow> string" where
  "write_content_chunked pieces trailer = concat (map chunk_text pieces) @ ''0'' @ CRLF @ write_headers trailer"

text \<open>The chunks up to the empty one; the second component is what was not read.\<close>

function read_chunks :: "string \<Rightarrow> string option \<times> string" where
  "read_chunks s =
     (case getline s of
        None \<Rightarrow> (None, after_long_line s)
      | Some (line, rest) \<Rightarrow>
          (case strtoul16 line of
             None \<Rightarrow> (None, rest)
           | Some n \<Rightarrow>
               if n = ULONG_MAX then (None, rest)
               else if n = 0 then (Some [], rest)
               else if length rest < n then (None, [])
               else
                 (case getline (drop n rest) of
                    None \<Rightarrow> (None, after_long_line (drop n rest))
                  | Some (line, rest2) \<Rightarrow>
                      if line \<noteq> CRLF then (None, rest2)
                      else map_prod (map_option ((@) (take n rest))) id (read_chunks rest2))))"
  by pat_completeness auto
termination
  by (relation "measure length") (auto dest!: getline_shorter)

declare read_chunks.simps [simp del]

text \<open>Trailers that were announced by the header \<open>Trailer\<close> are kept; some names are never allowed.\<close>

definition prohibited_trailers :: "string list" where
  "prohibited_trailers =
     [''transfer-encoding'', ''content-length'', ''host'', ''authorization'', ''www-authenticate'',
      ''proxy-authenticate'', ''proxy-authorization'', ''cookie'', ''set-cookie'', ''cache-control'', ''expect'',
      ''max-forwards'', ''pragma'', ''range'', ''te'', ''age'', ''expires'', ''date'', ''location'',
      ''retry-after'', ''vary'', ''warning'', ''content-encoding'', ''content-type'', ''content-range'', ''trailer'']"

definition contains_name :: "string \<Rightarrow> string list \<Rightarrow> bool" where
  "contains_name k names = list_ex (equal_ignoring_case k) names"

definition declared_trailers :: "headers \<Rightarrow> string list" where
  "declared_trailers hs =
     filter (\<lambda>k. \<not> contains_name k prohibited_trailers)
       (split_pieces (CHR '','') (get_header_value hs ''Trailer''))"

text \<open>\<open>n\<close> trailers were kept; \<open>line\<close> is the current line and \<open>s\<close> what follows it.\<close>

function parse_trailers :: "string list \<Rightarrow> nat \<Rightarrow> string \<Rightarrow> string \<Rightarrow> headers option \<times> string" where
  "parse_trailers declared n line s =
     (if line = CRLF then (Some [], s)
      else if CPPHTTPLIB_HEADER_MAX_LENGTH < length line then (None, s)
      else if CPPHTTPLIB_HEADER_MAX_COUNT \<le> n then (None, s)
      else
        (case parse_header (take (length line - 2) line) of
           None \<Rightarrow> (None, s)
         | Some (k, v) \<Rightarrow>
             (case getline s of
                None \<Rightarrow> (None, after_long_line s)
              | Some (line, rest) \<Rightarrow>
                  if contains_name k declared
                  then map_prod (map_option (Cons (k, v))) id (parse_trailers declared (Suc n) line rest)
                  else parse_trailers declared n line rest)))"
  by pat_completeness auto
termination
  by (relation "measure (\<lambda>(declared, n, line, s). length s)") (auto dest: getline_shorter)

declare parse_trailers.simps [simp del]

text \<open>The body and its trailers.\<close>

definition read_content_chunked :: "headers \<Rightarrow> string \<Rightarrow> (string \<times> headers) option \<times> string" where
  "read_content_chunked hs s =
     (case read_chunks s of
        (None, rest) \<Rightarrow> (None, rest)
      | (Some body, rest) \<Rightarrow>
          (case getline rest of
             None \<Rightarrow> (None, after_long_line rest)
           | Some (line, rest) \<Rightarrow>
               map_prod (map_option (Pair body)) id (parse_trailers (declared_trailers hs) 0 line rest)))"

section \<open>Bodies of any kind\<close>

definition is_chunked_transfer_encoding :: "headers \<Rightarrow> bool" where
  "is_chunked_transfer_encoding hs =
     equal_ignoring_case (get_header_value hs ''Transfer-Encoding'') ''chunked''"

text \<open>\<open>Content-Length\<close>: absent, not a number, or a number; \<open>strtoull\<close> saturates.\<close>

definition content_length :: "headers \<Rightarrow> nat option option" where
  "content_length hs =
     map_option (\<lambda>v. if v \<noteq> [] \<and> list_all is_digit v then Some (min (decimal_value 0 v) (2 ^ 64 - 1)) else None)
       (header_value ''Content-Length'' hs)"

definition read_content_with_length :: "nat \<Rightarrow> string \<Rightarrow> string option \<times> string" where
  "read_content_with_length len s = (if len \<le> length s then (Some (take len s), drop len s) else (None, []))"

text \<open>\<open>prepare_content_receiver\<close> without compression libraries.\<close>

definition unsupported_encoding :: "headers \<Rightarrow> bool" where
  "unsupported_encoding hs = (get_header_value hs ''Content-Encoding'' \<noteq> [])"

text \<open>\<open>detail::read_content\<close> with no limit on the payload: the body, or the status of a refusal.\<close>

definition read_body :: "headers \<Rightarrow> string \<Rightarrow> (int + string) \<times> string" where
  "read_body hs s =
     (let refused = (\<lambda>(b, rest). (case b of None \<Rightarrow> Inl 400 | Some b \<Rightarrow> Inr b, rest))
      in if unsupported_encoding hs then (Inl 415, s)
         else if is_chunked_transfer_encoding hs then refused (map_prod (map_option fst) id (read_content_chunked hs s))
         else
           (case content_length hs of
              None \<Rightarrow> (Inr s, [])
            | Some None \<Rightarrow> (Inl 400, s)
            | Some (Some len) \<Rightarrow> refused (read_content_with_length len s)))"

section \<open>The body of a request\<close>

definition expect_content :: "string \<Rightarrow> headers \<Rightarrow> bool" where
  "expect_content m hs =
     (m \<in> set [''POST'', ''PUT'', ''PATCH'', ''DELETE''] \<or>
      (case content_length hs of Some (Some n) \<Rightarrow> 0 < n | _ \<Rightarrow> False) \<or>
      is_chunked_transfer_encoding hs)"

text \<open>\<open>read_content_core\<close>: a request without a length and without chunks has no body.\<close>

definition read_content :: "headers \<Rightarrow> string \<Rightarrow> (int + string) \<times> string" where
  "read_content hs s =
     (if content_length hs = None \<and> \<not> is_chunked_transfer_encoding hs then (Inr [], s) else read_body hs s)"

definition read_request :: "string \<Rightarrow> request option" where
  "read_request s =
     (case read_head s of
        Read_Head m version path hs rest \<Rightarrow>
          (case (if expect_content m hs then fst (read_content hs rest) else Inr []) of
             Inr body \<Rightarrow> Some \<lparr>req_method = m, req_path = path, req_body = body\<rparr>
           | Inl _ \<Rightarrow> None)
      | _ \<Rightarrow> None)"

end
