(* ===== verification/Http_Forms.thy ===== *)
theory Http_Forms
  imports Http_Message
begin

text \<open>
  Multipart forms of \<open>httplib.h\<close>: how a client writes one, and the server's \<open>FormDataParser\<close>, which is fed with
  the pieces in which a body arrives. The callbacks are those of \<open>Server::read_content\<close>: what they collect is
  in the state of the parser, the fields and files of the form in the order in which they came.
\<close>

section \<open>Forms\<close>

record form_data =
  form_name :: string
  form_content :: string
  form_filename :: string
  form_content_type :: string
  form_headers :: headers

definition no_form_data :: form_data where
  "no_form_data = \<lparr>form_name = [], form_content = [], form_filename = [], form_content_type = [], form_headers = []\<rparr>"

text \<open>A field has no file name; its content type is not kept.\<close>

definition form_fields :: "form_data list \<Rightarrow> form_data list" where
  "form_fields items = filter (\<lambda>f. form_filename f = []) items"

definition form_files :: "form_data list \<Rightarrow> form_data list" where
  "form_files items = filter (\<lambda>f. form_filename f \<noteq> []) items"

definition get_fields :: "string \<Rightarrow> form_data list \<Rightarrow> string list" where
  "get_fields key items = map form_content (filter (\<lambda>f. form_name f = key) (form_fields items))"

definition get_files :: "string \<Rightarrow> form_data list \<Rightarrow> form_data list" where
  "get_files key items = filter (\<lambda>f. form_name f = key) (form_files items)"

section \<open>Writing\<close>

definition disposition :: "form_data \<Rightarrow> string" where
  "disposition item =
     ''form-data; name='' @ quoted (form_name item)
       @ (if form_filename item = [] then [] else ''; filename='' @ quoted (form_filename item))"

definition serialize_item_begin :: "form_data \<Rightarrow> string \<Rightarrow> string" where
  "serialize_item_begin item boundary =
     ''--'' @ boundary @ CRLF @ ''Content-Disposition: '' @ disposition item @ CRLF
       @ (if form_content_type item = [] then [] else ''Content-Type: '' @ form_content_type item @ CRLF) @ CRLF"

definition serialize_finish :: "string \<Rightarrow> string" where
  "serialize_finish boundary = ''--'' @ boundary @ ''--'' @ CRLF"

definition serialize_multipart_formdata :: "form_data list \<Rightarrow> string \<Rightarrow> string" where
  "serialize_multipart_formdata items boundary =
     concat (map (\<lambda>item. serialize_item_begin item boundary @ form_content item @ CRLF) items) @ serialize_finish boundary"

definition is_multipart_boundary_chars_valid :: "string \<Rightarrow> bool" where
  "is_multipart_boundary_chars_valid boundary = list_all (\<lambda>c. is_alnum c \<or> c = CHR ''-'' \<or> c = CHR ''_'') boundary"

definition multipart_content_type :: "string \<Rightarrow> string" where
  "multipart_content_type boundary = ''multipart/form-data; boundary='' @ boundary"

section \<open>The boundary and the disposition\<close>

text \<open>The position of the first occurrence, or the length of the text when there is none.\<close>

fun buf_find :: "string \<Rightarrow> string \<Rightarrow> nat" where
  "buf_find p [] = 0"
| "buf_find p (c # s) = (if take (length p) (c # s) = p then 0 else Suc (buf_find p s))"

definition trim_double_quotes :: "string \<Rightarrow> string" where
  "trim_double_quotes s =
     (if 2 \<le> length s \<and> hd s = CHR 0x22 \<and> last s = CHR 0x22 then butlast (tl s) else s)"

definition parse_multipart_boundary :: "string \<Rightarrow> string option" where
  "parse_multipart_boundary content_type =
     (let keyword = ''boundary=''; pos = buf_find keyword content_type
      in if pos = length content_type then None
         else
           let boundary = trim_double_quotes (takeWhile (\<lambda>c. c \<noteq> CHR '';'') (drop (pos + length keyword) content_type))
           in if boundary = [] then None else Some boundary)"

text \<open>The key is the first piece between equals signs, the value the last of the others.\<close>

definition add_disposition_param :: "string \<Rightarrow> params \<Rightarrow> params" where
  "add_disposition_param kv ps =
     (case split_pieces (CHR ''='') kv of
        [] \<Rightarrow> ps
      | key # vals \<Rightarrow>
          params_emplace (trim_double_quotes key) (trim_double_quotes (if vals = [] then [] else last vals)) ps)"

definition parse_disposition_params :: "string \<Rightarrow> params" where
  "parse_disposition_params s = fold add_disposition_param (first_ones (split_pieces (CHR '';'') s)) []"

definition start_with_case_ignore :: "string \<Rightarrow> string \<Rightarrow> bool" where
  "start_with_case_ignore a b = (length b \<le> length a \<and> equal_ignoring_case (take (length b) a) b)"

definition no_line_end :: "string \<Rightarrow> bool" where
  "no_line_end s = list_all (\<lambda>c. code c \<noteq> 10 \<and> code c \<noteq> 13) s"

text \<open>\<open>^Content-Disposition:\s*form-data;\s*(.*)$\<close> without case.\<close>

definition match_disposition :: "string \<Rightarrow> string option" where
  "match_disposition header =
     (if \<not> start_with_case_ignore header ''Content-Disposition:'' then None
      else
        let s = dropWhile is_space (drop 20 header)
        in if \<not> start_with_case_ignore s ''form-data;'' then None
           else let t = dropWhile is_space (drop 10 s) in if no_line_end t then Some t else None)"

text \<open>\<open>^UTF-8''(.+?)$\<close> without case.\<close>

definition match_rfc5987 :: "string \<Rightarrow> string option" where
  "match_rfc5987 s =
     (if start_with_case_ignore s (''UTF-8'' @ [CHR 0x27, CHR 0x27]) \<and> drop 7 s \<noteq> [] \<and> no_line_end (drop 7 s)
      then Some (drop 7 s) else None)"

text \<open>One header of a part.\<close>

definition form_header_line :: "string \<Rightarrow> form_data \<Rightarrow> form_data option" where
  "form_header_line header file =
     (case parse_header header of
        None \<Rightarrow> None
      | Some h \<Rightarrow>
          (let file = file\<lparr>form_headers := form_headers file @ [h]\<rparr>
           in if start_with_case_ignore header ''Content-Type:''
              then Some (file\<lparr>form_content_type := trim (drop 13 header)\<rparr>)
              else
                (case match_disposition header of
                   None \<Rightarrow> Some file
                 | Some m \<Rightarrow>
                     (let ps = parse_disposition_params m
                      in case map_of ps ''name'' of
                           None \<Rightarrow> None
                         | Some n \<Rightarrow>
                             (let file = file\<lparr>form_name := n\<rparr>;
                                  file = (case map_of ps ''filename'' of None \<Rightarrow> file | Some f \<Rightarrow> file\<lparr>form_filename := f\<rparr>)
                              in case map_of ps ''filename*'' of
                                   None \<Rightarrow> Some file
                                 | Some v \<Rightarrow>
                                     map_option (\<lambda>e. file\<lparr>form_filename := decode_path_component e\<rparr>) (match_rfc5987 v))))))"

section \<open>The parser\<close>

datatype form_state = Initial_Boundary | New_Entry | Part_Headers | Part_Body | After_Boundary

record form_parser =
  fp_state :: form_state
  fp_valid :: bool
  fp_file :: form_data
  fp_buf :: string
  fp_count :: nat
  fp_items :: "form_data list"

definition fresh_parser :: form_parser where
  "fresh_parser =
     \<lparr>fp_state = Initial_Boundary, fp_valid = False, fp_file = no_form_data, fp_buf = [], fp_count = 0, fp_items = []\<rparr>"

definition CPPHTTPLIB_MULTIPART_FORM_DATA_FILE_MAX_COUNT :: nat where
  "CPPHTTPLIB_MULTIPART_FORM_DATA_FILE_MAX_COUNT = 1024"

text \<open>The callbacks of the server, for the headers of a part and for a piece of its content.\<close>

definition header_callback :: "form_parser \<Rightarrow> form_parser option" where
  "header_callback p =
     (if fp_count p = CPPHTTPLIB_MULTIPART_FORM_DATA_FILE_MAX_COUNT then None
      else
        let file = fp_file p
        in Some (p\<lparr>fp_count := fp_count p + 1,
                   fp_items := fp_items p @ [if form_filename file = [] then file\<lparr>form_content_type := []\<rparr> else file]\<rparr>))"

definition content_callback :: "string \<Rightarrow> form_parser \<Rightarrow> form_parser" where
  "content_callback d p =
     p\<lparr>fp_items := butlast (fp_items p)
         @ [(last (fp_items p))\<lparr>form_content := form_content (last (fp_items p)) @ d\<rparr>]\<rparr>"

definition dash_boundary_crlf :: "string \<Rightarrow> string" where
  "dash_boundary_crlf boundary = ''--'' @ boundary @ CRLF"

definition crlf_dash_boundary :: "string \<Rightarrow> string" where
  "crlf_dash_boundary boundary = CRLF @ ''--'' @ boundary"

definition buf_erase :: "nat \<Rightarrow> form_parser \<Rightarrow> form_parser" where
  "buf_erase n p = p\<lparr>fp_buf := drop n (fp_buf p)\<rparr>"

text \<open>The headers that are in the buffer; \<open>False\<close> when the form is refused.\<close>

function form_headers_loop :: "form_parser \<Rightarrow> bool \<times> form_parser" where
  "form_headers_loop p =
     (let pos = buf_find CRLF (fp_buf p)
      in if length (fp_buf p) \<le> pos then (True, p)
         else if pos = 0 then
           (case header_callback p of
              None \<Rightarrow> (False, p\<lparr>fp_valid := False\<rparr>)
            | Some p \<Rightarrow> (True, (buf_erase 2 p)\<lparr>fp_state := Part_Body\<rparr>))
         else
           (case form_header_line (take pos (fp_buf p)) (fp_file p) of
              None \<Rightarrow> (False, p\<lparr>fp_valid := False\<rparr>)
            | Some file \<Rightarrow> form_headers_loop (buf_erase (pos + 2) (p\<lparr>fp_file := file\<rparr>))))"
  by pat_completeness auto
termination by (relation "measure (length \<circ> fp_buf)") (auto simp: buf_erase_def)

declare form_headers_loop.simps [simp del]

text \<open>One round of the loop of \<open>parse\<close>: it goes on, or returns.\<close>

datatype form_round = Go form_parser | Halt bool form_parser

definition form_step :: "string \<Rightarrow> form_parser \<Rightarrow> form_round" where
  "form_step boundary p =
     (case fp_state p of
        Initial_Boundary \<Rightarrow>
          (let pos = buf_find (dash_boundary_crlf boundary) (fp_buf p)
           in if pos = length (fp_buf p) then Halt True p
              else Go ((buf_erase (pos + length (dash_boundary_crlf boundary)) p)\<lparr>fp_state := New_Entry\<rparr>))
      | New_Entry \<Rightarrow> Go (p\<lparr>fp_file := no_form_data, fp_state := Part_Headers\<rparr>)
      | Part_Headers \<Rightarrow>
          if CPPHTTPLIB_HEADER_MAX_LENGTH < buf_find CRLF (fp_buf p) then Halt False p
          else
            (case form_headers_loop p of
               (False, p) \<Rightarrow> Halt False p
             | (True, p) \<Rightarrow> if fp_state p = Part_Body then Go p else Halt True p)
      | Part_Body \<Rightarrow>
          (let delimiter = crlf_dash_boundary boundary; size = length (fp_buf p)
           in if size < length delimiter then Halt True p
              else
                let pos = buf_find delimiter (fp_buf p)
                in if pos < size
                   then Go ((buf_erase (pos + length delimiter) (content_callback (take pos (fp_buf p)) p))
                              \<lparr>fp_state := After_Boundary\<rparr>)
                   else
                     let len = size - length delimiter
                     in Halt True (if 0 < len then buf_erase len (content_callback (take len (fp_buf p)) p) else p))
      | After_Boundary \<Rightarrow>
          if length (fp_buf p) < 2 then Halt True p
          else if take 2 (fp_buf p) = CRLF then Go ((buf_erase 2 p)\<lparr>fp_state := New_Entry\<rparr>)
          else if take 2 (fp_buf p) = ''--'' then Go (p\<lparr>fp_valid := True, fp_buf := []\<rparr>)
          else Halt True p)"

lemma headers_loop_shorter:
  "form_headers_loop p = (r, q) \<Longrightarrow> length (fp_buf q) \<le> length (fp_buf p) \<and>
     (fp_state q \<noteq> fp_state p \<longrightarrow> length (fp_buf q) < length (fp_buf p))"
proof (induction p rule: form_headers_loop.induct)
  case (1 p)
  show ?case using 1(2) 1(1) [OF refl]
    by (subst (asm) form_headers_loop.simps)
       (fastforce simp: Let_def buf_erase_def header_callback_def split: if_splits option.splits)
qed

function form_run :: "string \<Rightarrow> form_parser \<Rightarrow> bool \<times> form_parser" where
  "form_run boundary p =
     (if fp_buf p = [] then (True, p)
      else
        (case form_step boundary p of
           Halt r p \<Rightarrow> (r, p)
         | Go p \<Rightarrow> form_run boundary p))"
  by pat_completeness auto
termination
proof (relation "measure (\<lambda>(boundary, p). 2 * length (fp_buf p) + (if fp_state p = New_Entry then 1 else 0))")
  fix boundary p q
  assume ne: "fp_buf p \<noteq> []" and go: "form_step boundary p = Go q"
  have "2 * length (fp_buf q) + (if fp_state q = New_Entry then 1 else 0) < 2 * length (fp_buf p) + (if fp_state p = New_Entry then 1 else 0)"
  proof (cases "fp_state p")
    case Part_Headers
    with go obtain h where "form_headers_loop p = (True, h)" "q = h" "fp_state h = Part_Body"
      by (auto simp: form_step_def split: if_splits prod.splits bool.splits)
    with headers_loop_shorter [of p True h] Part_Headers show ?thesis by simp
  next
    case Initial_Boundary
    then have "length (fp_buf q) \<le> length (fp_buf p) - 1" using go
      by (auto simp: form_step_def Let_def buf_erase_def dash_boundary_crlf_def CRLF_def split: if_splits)
    with ne Initial_Boundary show ?thesis by (cases "fp_buf p") auto
  qed (use ne go in \<open>auto simp: form_step_def Let_def buf_erase_def content_callback_def crlf_dash_boundary_def
      CRLF_def split: if_splits\<close>)
  then show "((boundary, q), boundary, p) \<in>
      measure (\<lambda>(boundary, p). 2 * length (fp_buf p) + (if fp_state p = New_Entry then 1 else 0))" by simp
qed simp

declare form_run.simps [simp del]

definition parse_form :: "string \<Rightarrow> string \<Rightarrow> form_parser \<Rightarrow> bool \<times> form_parser" where
  "parse_form boundary d p = form_run boundary (p\<lparr>fp_buf := fp_buf p @ d\<rparr>)"

text \<open>The pieces up to the one that is refused; the last component are those that were not read.\<close>

fun feed_form :: "string \<Rightarrow> string list \<Rightarrow> form_parser \<Rightarrow> bool \<times> form_parser \<times> string list" where
  "feed_form boundary [] p = (True, p, [])"
| "feed_form boundary (d # ds) p =
     (case parse_form boundary d p of
        (True, p) \<Rightarrow> feed_form boundary ds p
      | (False, p) \<Rightarrow> (False, p, ds))"

end
