(* ===== verification/Http_Form_Body.thy ===== *)
theory Http_Form_Body
  imports Http_Body Http_Forms
begin

text \<open>
  The body of a request as \<open>Server::read_content\<close> reads it: a multipart form is fed to the parser piece by piece
  while it arrives, any other body is collected, and a body of form fields is limited. How a body is cut is
  the parameter \<open>cuts\<close>, the lengths (less one) of the pieces, from what has arrived.
\<close>

fun cut_text :: "nat list \<Rightarrow> string \<Rightarrow> string list" where
  "cut_text ns [] = []"
| "cut_text [] s = [s]"
| "cut_text (n # ns) s = take (Suc n) s # cut_text ns (drop (Suc n) s)"

lemma concat_cut [simp]: "concat (cut_text ns s) = s"
  by (induction ns s rule: cut_text.induct) simp_all

lemma cut_text_empty [simp]: "cut_text ns s = [] \<longleftrightarrow> s = []"
  by (cases s; cases ns) simp_all

section \<open>Forms\<close>

definition is_multipart_form_data :: "headers \<Rightarrow> bool" where
  "is_multipart_form_data hs = (take 19 (get_header_value hs ''Content-Type'') = ''multipart/form-data'')"

text \<open>The last piece of a chunk is passed on after the end of the chunk has been read.\<close>

function form_chunks :: "(string \<Rightarrow> nat list) \<Rightarrow> string \<Rightarrow> form_parser \<Rightarrow> string \<Rightarrow> form_parser option \<times> string" where
  "form_chunks cuts boundary p s =
     (case getline s of
        None \<Rightarrow> (None, after_long_line s)
      | Some (line, rest) \<Rightarrow>
          (case strtoul16 line of
             None \<Rightarrow> (None, rest)
           | Some n \<Rightarrow>
               if n = ULONG_MAX then (None, rest)
               else if n = 0 then (Some p, rest)
               else
                 (let pieces = cut_text (cuts (take n rest)) (take n rest)
                  in if length rest < n then
                       (case feed_form boundary pieces p of
                          (False, p, unread) \<Rightarrow> (None, concat unread)
                        | (True, p, unread) \<Rightarrow> (None, []))
                     else
                       (case feed_form boundary (butlast pieces) p of
                          (False, p, unread) \<Rightarrow> (None, concat unread @ last pieces @ drop n rest)
                        | (True, p, unread) \<Rightarrow>
                            (case getline (drop n rest) of
                               None \<Rightarrow> (None, after_long_line (drop n rest))
                             | Some (line, rest2) \<Rightarrow>
                                 if line \<noteq> CRLF then (None, rest2)
                                 else
                                   (case parse_form boundary (last pieces) p of
                                      (False, p) \<Rightarrow> (None, rest2)
                                    | (True, p) \<Rightarrow> form_chunks cuts boundary p rest2))))))"
  by pat_completeness auto
termination
  by (relation "measure (\<lambda>(cuts, boundary, p, s). length s)") (auto dest!: getline_shorter)

declare form_chunks.simps [simp del]

text \<open>A form in chunks, with its trailers, and one of a given length.\<close>

definition read_form_chunked :: "(string \<Rightarrow> nat list) \<Rightarrow> string \<Rightarrow> headers \<Rightarrow> string \<Rightarrow> form_parser option \<times> string" where
  "read_form_chunked cuts boundary hs s =
     (case form_chunks cuts boundary fresh_parser s of
        (None, rest) \<Rightarrow> (None, rest)
      | (Some p, rest) \<Rightarrow>
          (case getline rest of
             None \<Rightarrow> (None, after_long_line rest)
           | Some (line, rest) \<Rightarrow>
               (case parse_trailers (declared_trailers hs) 0 line rest of
                  (None, rest) \<Rightarrow> (None, rest)
                | (Some trailers, rest) \<Rightarrow> (Some p, rest))))"

definition read_form_with_length :: "(string \<Rightarrow> nat list) \<Rightarrow> string \<Rightarrow> nat \<Rightarrow> string \<Rightarrow> form_parser option \<times> string" where
  "read_form_with_length cuts boundary len s =
     (case feed_form boundary (cut_text (cuts (take len s)) (take len s)) fresh_parser of
        (False, p, unread) \<Rightarrow> (None, concat unread @ drop len s)
      | (True, p, unread) \<Rightarrow> if length s < len then (None, []) else (Some p, drop len s))"

text \<open>The fields and files of a form, or the status of a refusal.\<close>

definition read_form :: "(string \<Rightarrow> nat list) \<Rightarrow> headers \<Rightarrow> string \<Rightarrow> (int + form_data list) \<times> string" where
  "read_form cuts hs s =
     (case parse_multipart_boundary (get_header_value hs ''Content-Type'') of
        None \<Rightarrow> (Inl 400, s)
      | Some boundary \<Rightarrow>
          (let checked = (\<lambda>(r, rest).
                 (case r of
                    None \<Rightarrow> Inl 400
                  | Some p \<Rightarrow> if fp_valid p then Inr (fp_items p) else Inl 400, rest))
           in if content_length hs = None \<and> \<not> is_chunked_transfer_encoding hs then (Inr [], s)
              else if unsupported_encoding hs then (Inl 415, s)
              else if is_chunked_transfer_encoding hs then checked (read_form_chunked cuts boundary hs s)
              else
                (case content_length hs of
                   Some (Some len) \<Rightarrow> checked (read_form_with_length cuts boundary len s)
                 | _ \<Rightarrow> (Inl 400, s))))"

section \<open>Bodies\<close>

definition CPPHTTPLIB_FORM_URL_ENCODED_PAYLOAD_MAX_LENGTH :: nat where
  "CPPHTTPLIB_FORM_URL_ENCODED_PAYLOAD_MAX_LENGTH = 8192"

definition is_form_urlencoded :: "headers \<Rightarrow> bool" where
  "is_form_urlencoded hs = (take 33 (get_header_value hs ''Content-Type'') = ''application/x-www-form-urlencoded'')"

text \<open>The body that the handlers see; the items of a form are kept apart.\<close>

definition read_request_content ::
    "(string \<Rightarrow> nat list) \<Rightarrow> headers \<Rightarrow> string \<Rightarrow> (int + string \<times> form_data list) \<times> string" where
  "read_request_content cuts hs s =
     (if is_multipart_form_data hs then map_prod (map_sum id (Pair [])) id (read_form cuts hs s)
      else
        (case read_content hs s of
           (Inl status, rest) \<Rightarrow> (Inl status, rest)
         | (Inr body, rest) \<Rightarrow>
             if is_form_urlencoded hs \<and> CPPHTTPLIB_FORM_URL_ENCODED_PAYLOAD_MAX_LENGTH < length body
             then (Inl 413, rest)
             else (Inr (body, []), rest)))"

end
