(* ===== verification/Http_Ranges.thy ===== *)
theory Http_Ranges
  imports Http_Message "HOL-Library.Multiset"
begin

text \<open>
  Byte ranges of \<open>httplib.h\<close>: the header \<open>Range\<close>, the check of the ranges a request asks for against the
  length of the content, their merging, and the part of a response they select. A position of -1 is one that
  the header leaves out. \<open>std::sort\<close>, which may leave ranges with one start in any order, is the parameter
  \<open>arrange\<close>. Positions are \<open>ssize_t\<close>; the header is refused when one does not fit, and no content is as long.
\<close>

type_synonym range = "int \<times> int"

section \<open>The header\<close>

definition CPPHTTPLIB_RANGE_MAX_COUNT :: nat where "CPPHTTPLIB_RANGE_MAX_COUNT = 1024"

text \<open>\<open>std::stoll\<close> of digits; the exception it throws makes the header invalid.\<close>

definition range_position :: "string \<Rightarrow> int option" where
  "range_position s =
     (if s = [] then Some (-1)
      else if list_all is_digit s \<and> decimal_value 0 s < 2 ^ 63 then Some (int (decimal_value 0 s)) else None)"

definition range_of_piece :: "string \<Rightarrow> range option" where
  "range_of_piece p =
     (if CHR ''-'' \<notin> set p then None
      else
        (case divide_at (CHR ''-'') p of
           (lhs, rhs) \<Rightarrow>
             (case (range_position lhs, range_position rhs) of
                (Some a, Some b) \<Rightarrow>
                  if a = -1 \<and> b = -1 \<or> a \<noteq> -1 \<and> b \<noteq> -1 \<and> b < a then None
                  else Some (a, b)
              | _ \<Rightarrow> None)))"

definition parse_range_header :: "string \<Rightarrow> range list option" where
  "parse_range_header s =
     (if 7 < length s \<and> take 6 s = ''bytes='' then
        (case those (map range_of_piece (split_pieces (CHR '','') (drop 6 s))) of
           None \<Rightarrow> None
         | Some ranges \<Rightarrow> if ranges = [] then None else Some ranges)
      else None)"

definition range_text :: "range \<Rightarrow> string" where
  "range_text r =
     (if fst r = -1 then [] else to_string (nat (fst r))) @ CHR ''-'' # (if snd r = -1 then [] else to_string (nat (snd r)))"

fun join_ranges :: "range list \<Rightarrow> string" where
  "join_ranges [] = []"
| "join_ranges [r] = range_text r"
| "join_ranges (r # rs) = range_text r @ '', '' @ join_ranges rs"

definition make_range_header :: "range list \<Rightarrow> string \<times> string" where
  "make_range_header ranges = (''Range'', ''bytes='' @ join_ranges ranges)"

section \<open>Checking\<close>

text \<open>What a range means for content of length \<open>len\<close>.\<close>

definition resolve_range :: "int \<Rightarrow> range \<Rightarrow> range" where
  "resolve_range len r =
     (let (a, b) = (if fst r = -1 \<and> snd r = -1 then (0, len) else r);
          (a, b) = (if a = -1 then (len - b, len - 1) else (a, b))
      in (a, if b = -1 \<or> len \<le> b then len - 1 else b))"

definition within :: "int \<Rightarrow> range \<Rightarrow> bool" where
  "within len r = (0 \<le> fst r \<and> fst r \<le> snd r \<and> snd r < len)"

definition overlaps :: "range \<Rightarrow> range \<Rightarrow> bool" where
  "overlaps r p = (\<not> (snd r < fst p \<or> snd p < fst r))"

text \<open>
  \<open>n\<close> ranges overlapped one before them, \<open>seen\<close> are those processed. \<open>None\<close>: the ranges cannot be satisfied.
\<close>

fun check_ranges :: "int \<Rightarrow> nat \<Rightarrow> range list \<Rightarrow> range list \<Rightarrow> range list option" where
  "check_ranges len n seen [] = Some seen"
| "check_ranges len n seen (r # rs) =
     (let r = resolve_range len r; again = list_ex (overlaps r) seen
      in if \<not> within len r then None
         else if again \<and> 2 < n + 1 then None
         else check_ranges len (if again then n + 1 else n) (seen @ [r]) rs)"

section \<open>Merging\<close>

text \<open>The merged ranges, the last one first.\<close>

definition coalesce_step :: "int \<Rightarrow> range list \<Rightarrow> range \<Rightarrow> range list" where
  "coalesce_step len merged r =
     (let r = resolve_range len r
      in if \<not> within len r then merged
         else
           (case merged of
              [] \<Rightarrow> [r]
            | prev # before \<Rightarrow>
                if fst r \<le> snd prev + 1 \<and> r \<noteq> prev then (fst prev, max (snd prev) (snd r)) # before
                else r # merged))"

definition coalesce_ranges :: "(range list \<Rightarrow> range list) \<Rightarrow> int \<Rightarrow> range list \<Rightarrow> range list" where
  "coalesce_ranges arrange len ranges =
     (if length ranges \<le> 1 then ranges else rev (foldl (coalesce_step len) [] (arrange ranges)))"

text \<open>The ranges of the request after the check, or \<open>None\<close> for an error.\<close>

definition range_error :: "(range list \<Rightarrow> range list) \<Rightarrow> int \<Rightarrow> int \<Rightarrow> range list \<Rightarrow> range list option" where
  "range_error arrange status len ranges =
     (if ranges \<noteq> [] \<and> 200 \<le> status \<and> status < 300 then
        if CPPHTTPLIB_RANGE_MAX_COUNT < length ranges then None
        else map_option (coalesce_ranges arrange len) (check_ranges len 0 [] ranges)
      else Some ranges)"

section \<open>The selected part of a response\<close>

definition get_range_offset_and_length :: "range \<Rightarrow> nat \<Rightarrow> (nat \<times> nat) result" where
  "get_range_offset_and_length r content_length =
     (if fst r \<noteq> -1 \<and> snd r \<noteq> -1 \<and> 0 \<le> fst r \<and> fst r < int content_length
          \<and> fst r \<le> snd r \<and> snd r < int content_length
      then Inr (nat (fst r), nat (snd r - fst r) + 1)
      else Inl (Abort ''assert: range''))"

definition make_content_range_header_field :: "nat \<times> nat \<Rightarrow> nat \<Rightarrow> string" where
  "make_content_range_header_field offset_and_length content_length =
     (case offset_and_length of
        (st, n) \<Rightarrow> ''bytes '' @ to_string st @ ''-'' @ to_string (st + n - 1) @ ''/'' @ to_string content_length)"

text \<open>The head of a part, and all parts of a body.\<close>

definition range_part_head :: "string \<Rightarrow> string \<Rightarrow> nat \<times> nat \<Rightarrow> nat \<Rightarrow> string" where
  "range_part_head boundary content_type offset_and_length content_length =
     ''--'' @ boundary @ CRLF
       @ (if content_type = [] then [] else ''Content-Type: '' @ content_type @ CRLF)
       @ ''Content-Range: '' @ make_content_range_header_field offset_and_length content_length @ CRLF @ CRLF"

fun make_multipart_ranges_data :: "string \<Rightarrow> string \<Rightarrow> string \<Rightarrow> range list \<Rightarrow> string result" where
  "make_multipart_ranges_data boundary content_type body [] = Inr (''--'' @ boundary @ ''--'')"
| "make_multipart_ranges_data boundary content_type body (r # rs) =
     bind_result (get_range_offset_and_length r (length body)) (\<lambda>(offset, n).
     bind_result (make_multipart_ranges_data boundary content_type body rs) (\<lambda>data.
     Inr (range_part_head boundary content_type (offset, n) (length body) @ take n (drop offset body) @ CRLF @ data)))"

text \<open>The length of all parts, which is counted when the content comes from a provider.\<close>

fun get_multipart_ranges_data_length :: "string \<Rightarrow> string \<Rightarrow> nat \<Rightarrow> range list \<Rightarrow> nat result" where
  "get_multipart_ranges_data_length boundary content_type content_length [] = Inr (length boundary + 4)"
| "get_multipart_ranges_data_length boundary content_type content_length (r # rs) =
     bind_result (get_range_offset_and_length r content_length) (\<lambda>(offset, n).
     bind_result (get_multipart_ranges_data_length boundary content_type content_length rs) (\<lambda>len.
     Inr (length (range_part_head boundary content_type (offset, n) content_length) + n + 2 + len)))"

text \<open>
  \<open>apply_ranges\<close> for a response whose content is its body, without compression: the response and the headers
  it gets.
\<close>

definition apply_ranges :: "string \<Rightarrow> range list \<Rightarrow> response \<Rightarrow> (response \<times> headers) result" where
  "apply_ranges boundary ranges res =
     (let multi = (1 < length ranges \<and> res_status res = 206);
          content_type = (if multi then res_content_type res else []);
          res1 = (if multi then res\<lparr>res_content_type := ''multipart/byteranges; boundary='' @ boundary\<rparr> else res);
          body = res_body res
      in if body = [] \<or> ranges = [] \<or> res_status res \<noteq> 206 then Inr (res1, [])
         else
           (case ranges of
              [r] \<Rightarrow>
                bind_result (get_range_offset_and_length r (length body)) (\<lambda>(offset, n).
                Inr (res1\<lparr>res_body := take n (drop offset body)\<rparr>,
                     [(''Content-Range'', make_content_range_header_field (offset, n) (length body))]))
            | _ \<Rightarrow>
                bind_result (make_multipart_ranges_data boundary content_type body ranges) (\<lambda>data.
                Inr (res1\<lparr>res_body := data\<rparr>, []))))"

end
