(* ===== verification/Json_Pointer.thy ===== *)
theory Json_Pointer
  imports Json_Value
begin

text \<open>
  JSON pointers (\<open>json_pointer\<close> in \<open>json.hpp\<close>): their text with its escapes, and the ways a pointer leads
  into a value: checked (\<open>at\<close>), unchecked and creating (\<open>operator[]\<close>), and as a question (\<open>contains\<close>). A
  reference into a value is the function that reads at the place and the one that changes the value
  there. The memory for new elements of arrays is unbounded.
\<close>

section \<open>Escapes\<close>

text \<open>\<open>replace_substring\<close>: the search goes on behind what was inserted. \<open>f\<close> is not empty.\<close>

function replace_substring :: "string \<Rightarrow> string \<Rightarrow> string \<Rightarrow> string" where
  "replace_substring f t s =
     (if f = [] \<or> s = [] then s
      else if take (length f) s = f then t @ replace_substring f t (drop (length f) s)
      else hd s # replace_substring f t (tl s))"
  by pat_completeness auto
termination by (relation "measure (\<lambda>(f, t, s). length s)") auto

declare replace_substring.simps [simp del]

definition escape :: "string \<Rightarrow> string" where
  "escape s = replace_substring ''/'' ''~1'' (replace_substring ''~'' ''~0'' s)"

definition unescape :: "string \<Rightarrow> string" where
  "unescape s = replace_substring ''~0'' ''~'' (replace_substring ''~1'' ''/'' s)"

section \<open>Text\<close>

text \<open>A tilde is followed by 0 or 1.\<close>

fun escaped_ok :: "string \<Rightarrow> bool" where
  "escaped_ok [] = True"
| "escaped_ok (c # s) =
     (if c = CHR ''~'' then (case s of [] \<Rightarrow> False | d # s' \<Rightarrow> d \<in> {CHR ''0'', CHR ''1''} \<and> escaped_ok s)
      else escaped_ok s)"

lemma dropWhile_shorter: "dropWhile P s = c # rest \<Longrightarrow> length rest < length s"
  using length_dropWhile_le [of P s] by simp

text \<open>\<open>split\<close> behind the first slash: token by token.\<close>

function split_tokens :: "string \<Rightarrow> string list result" where
  "split_tokens s =
     (let token = takeWhile (\<lambda>c. c \<noteq> CHR ''/'') s
      in if \<not> escaped_ok token then Inl (Throw (Json_Parse_Error 108))
         else case dropWhile (\<lambda>c. c \<noteq> CHR ''/'') s of
                [] \<Rightarrow> Inr [unescape token]
              | _ # rest \<Rightarrow> bind_result (split_tokens rest) (\<lambda>ts. Inr (unescape token # ts)))"
  by pat_completeness auto
termination by (relation "measure length") (auto dest: dropWhile_shorter)

declare split_tokens.simps [simp del]

definition json_pointer :: "string \<Rightarrow> string list result" where
  "json_pointer s =
     (case s of
        [] \<Rightarrow> Inr []
      | c # rest \<Rightarrow> if c \<noteq> CHR ''/'' then Inl (Throw (Json_Parse_Error 107)) else split_tokens rest)"

definition pointer_to_string :: "string list \<Rightarrow> string" where
  "pointer_to_string ts = foldl (\<lambda>a b. a @ CHR ''/'' # escape b) [] ts"

definition parent_pointer :: "string list \<Rightarrow> string list" where
  "parent_pointer ts = (if ts = [] then ts else butlast ts)"

definition pointer_pop_back :: "string list \<Rightarrow> string list result" where
  "pointer_pop_back ts = (if ts = [] then Inl (Throw (Json_Out_Of_Range 405)) else Inr (butlast ts))"

definition pointer_back :: "string list \<Rightarrow> string result" where
  "pointer_back ts = (if ts = [] then Inl (Throw (Json_Out_Of_Range 405)) else Inr (last ts))"

definition pointer_top :: "string list \<Rightarrow> string list result" where
  "pointer_top ts = (if ts = [] then Inl (Throw (Json_Out_Of_Range 405)) else Inr [hd ts])"

section \<open>Indices\<close>

text \<open>
  What is left to \<open>strtoull\<close> is a single character, or text that starts with a digit: there is no white
  space and no sign to skip before digits.
\<close>

definition array_index :: "string \<Rightarrow> nat result" where
  "array_index s =
     (if 1 < length s \<and> hd s = CHR ''0'' then Inl (Throw (Json_Parse_Error 106))
      else if 1 < length s \<and> \<not> is_digit (hd s) then Inl (Throw (Json_Parse_Error 109))
      else let digits = takeWhile is_digit s; res = decimal_value 0 digits
           in if digits = [] \<or> 2 ^ 64 \<le> res \<or> length digits \<noteq> length s then Inl (Throw (Json_Out_Of_Range 404))
              else if 2 ^ 64 - 1 \<le> res then Inl (Throw (Json_Out_Of_Range 410))
              else Inr res)"

section \<open>Checked access\<close>

text \<open>\<open>at\<close> with a key and with an index.\<close>

definition at_key :: "string \<Rightarrow> (string \<times> json) list \<Rightarrow> json result" where
  "at_key k ms = (case object_find k ms of Some v \<Rightarrow> Inr v | None \<Rightarrow> Inl (Throw (Json_Out_Of_Range 403)))"

definition at_index :: "nat \<Rightarrow> json list \<Rightarrow> json result" where
  "at_index i xs = (if i < length xs then Inr (xs ! i) else Inl (Throw (Json_Out_Of_Range 401)))"

text \<open>The reference to a member that is there.\<close>

fun object_set :: "string \<Rightarrow> 'a \<Rightarrow> (string \<times> 'a) list \<Rightarrow> (string \<times> 'a) list" where
  "object_set k v [] = []"
| "object_set k v ((k', v') # ms) = (if k' = k then (k', v) # ms else (k', v') # object_set k v ms)"

fun get_checked :: "string list \<Rightarrow> json \<Rightarrow> json result" where
  "get_checked [] j = Inr j"
| "get_checked (t # ts) j =
     (case j of
        J_object ms \<Rightarrow> bind_result (at_key t ms) (get_checked ts)
      | J_array xs \<Rightarrow>
          if t = ''-'' then Inl (Throw (Json_Out_Of_Range 402))
          else bind_result (array_index t) (\<lambda>i. bind_result (at_index i xs) (get_checked ts))
      | _ \<Rightarrow> Inl (Throw (Json_Out_Of_Range 404)))"

fun with_checked :: "(json \<Rightarrow> json result) \<Rightarrow> string list \<Rightarrow> json \<Rightarrow> json result" where
  "with_checked f [] j = f j"
| "with_checked f (t # ts) j =
     (case j of
        J_object ms \<Rightarrow>
          bind_result (at_key t ms) (\<lambda>v. bind_result (with_checked f ts v) (\<lambda>v'. Inr (J_object (object_set t v' ms))))
      | J_array xs \<Rightarrow>
          if t = ''-'' then Inl (Throw (Json_Out_Of_Range 402))
          else bind_result (array_index t) (\<lambda>i. bind_result (at_index i xs) (\<lambda>v.
               bind_result (with_checked f ts v) (\<lambda>v'. Inr (J_array (xs[i := v'])))))
      | _ \<Rightarrow> Inl (Throw (Json_Out_Of_Range 404)))"

section \<open>Unchecked access\<close>

text \<open>A constant value: \<open>operator[]\<close> asserts that a key is there; an index out of range is undefined.\<close>

fun get_unchecked :: "string list \<Rightarrow> json \<Rightarrow> json result" where
  "get_unchecked [] j = Inr j"
| "get_unchecked (t # ts) j =
     (case j of
        J_object ms \<Rightarrow> bind_result (json_index t j) (get_unchecked ts)
      | J_array xs \<Rightarrow>
          if t = ''-'' then Inl (Throw (Json_Out_Of_Range 402))
          else bind_result (array_index t) (\<lambda>i.
               if i < length xs then get_unchecked ts (xs ! i) else Inl (Abort ''array index out of range''))
      | _ \<Rightarrow> Inl (Throw (Json_Out_Of_Range 404)))"

text \<open>
  A mutable value: what is missing is made, as \<open>operator[]\<close> does. An exception comes after the parts made
  so far.
\<close>

definition emplace_null :: "string \<Rightarrow> (string \<times> json) list \<Rightarrow> (string \<times> json) list" where
  "emplace_null k ms = (if object_find k ms = None then object_put k J_null ms else ms)"

definition fill_up :: "nat \<Rightarrow> json list \<Rightarrow> json list" where
  "fill_up i xs = (if length xs \<le> i then xs @ replicate (i + 1 - length xs) J_null else xs)"

definition from_null :: "string \<Rightarrow> json \<Rightarrow> json" where
  "from_null t j =
     (if j = J_null then (if list_all is_digit t \<or> t = ''-'' then J_array [] else J_object []) else j)"

fun with_unchecked :: "(json \<Rightarrow> json) \<Rightarrow> string list \<Rightarrow> json \<Rightarrow> json \<times> fault option" where
  "with_unchecked f [] j = (f j, None)"
| "with_unchecked f (t # ts) j =
     (case from_null t j of
        J_object ms \<Rightarrow>
          (let ms = emplace_null t ms; (v, e) = with_unchecked f ts (the (object_find t ms))
           in (J_object (object_set t v ms), e))
      | J_array xs \<Rightarrow>
          (case (if t = ''-'' then Inr (length xs) else array_index t) of
             Inl e \<Rightarrow> (J_array xs, Some e)
           | Inr i \<Rightarrow>
               (let xs = fill_up i xs; (v, e) = with_unchecked f ts (xs ! i)
                in (J_array (xs[i := v]), e)))
      | j \<Rightarrow> (j, Some (Throw (Json_Out_Of_Range 404))))"

section \<open>Is it there?\<close>

text \<open>The characters of an index are looked at before it is converted.\<close>

definition index_text :: "string \<Rightarrow> bool" where
  "index_text t \<longleftrightarrow>
     t \<noteq> ''-'' \<and> (length t = 1 \<longrightarrow> is_digit (hd t))
     \<and> (1 < length t \<longrightarrow> is_digit (hd t) \<and> hd t \<noteq> CHR ''0'' \<and> list_all is_digit (tl t))"

fun pointer_contains :: "string list \<Rightarrow> json \<Rightarrow> bool result" where
  "pointer_contains [] j = Inr True"
| "pointer_contains (t # ts) j =
     (case j of
        J_object ms \<Rightarrow> (case object_find t ms of None \<Rightarrow> Inr False | Some v \<Rightarrow> pointer_contains ts v)
      | J_array xs \<Rightarrow>
          if \<not> index_text t then Inr False
          else bind_result (array_index t) (\<lambda>i. if length xs \<le> i then Inr False else pointer_contains ts (xs ! i))
      | _ \<Rightarrow> Inr False)"

section \<open>Escapes are undone\<close>

definition escape_char :: "char \<Rightarrow> string" where
  "escape_char c = (if c = CHR ''~'' then ''~0'' else if c = CHR ''/'' then ''~1'' else [c])"

lemma replace_char:
  "replace_substring [f] t s = concat (map (\<lambda>c. if c = f then t else [c]) s)"
proof (induction s)
  case (Cons c s)
  then show ?case by (subst replace_substring.simps) simp
qed (simp add: replace_substring.simps)

lemma escape_chars: "escape s = concat (map escape_char s)"
  unfolding escape_def replace_char by (induction s) (simp_all add: escape_char_def)

text \<open>The slashes come back first, which leaves the tildes escaped.\<close>

lemma replace_pair:
  "a \<noteq> b \<Longrightarrow> replace_substring [a, b] t [] = []"
  "replace_substring [a, b] t (a # b # s) = t @ replace_substring [a, b] t s"
  "c \<noteq> a \<Longrightarrow> replace_substring [a, b] t (c # s) = c # replace_substring [a, b] t s"
  "d \<noteq> b \<Longrightarrow> replace_substring [a, b] t (a # d # s) = a # replace_substring [a, b] t (d # s)"
  by (subst replace_substring.simps; simp)+

lemma slash_back: "replace_substring ''~1'' ''/'' (escape_char c @ s) =
    (if c = CHR ''~'' then ''~0'' else [c]) @ replace_substring ''~1'' ''/'' s"
proof -
  consider "c = CHR ''~''" | "c = CHR ''/''" | "c \<noteq> CHR ''~''" "c \<noteq> CHR ''/''" by blast
  then show ?thesis
  proof cases
    case 1
    then have e: "escape_char c @ s = CHR ''~'' # CHR ''0'' # s" by (simp add: escape_char_def)
    show ?thesis unfolding e using 1 by (subst replace_pair(4), simp, subst replace_pair(3)) simp_all
  next
    case 2
    then have e: "escape_char c @ s = CHR ''~'' # CHR ''1'' # s" by (simp add: escape_char_def)
    show ?thesis unfolding e using 2 by (subst replace_pair(2)) simp
  next
    case 3
    then have e: "escape_char c @ s = c # s" by (simp add: escape_char_def)
    show ?thesis unfolding e using 3 by (subst replace_pair(3)) simp_all
  qed
qed

lemma tilde_back: "replace_substring ''~0'' ''~'' ((if c = CHR ''~'' then ''~0'' else [c]) @ s) =
    c # replace_substring ''~0'' ''~'' s"
  by (cases "c = CHR ''~''") (simp_all add: replace_pair(2,3))

lemma unescape_escape [simp]: "unescape (escape s) = s"
proof -
  have 1: "replace_substring ''~1'' ''/'' (concat (map escape_char s)) =
      concat (map (\<lambda>c. if c = CHR ''~'' then ''~0'' else [c]) s)"
    by (induction s) (simp_all add: slash_back replace_substring.simps [of _ _ "[]"] del: append.simps)
  have "replace_substring ''~0'' ''~'' (concat (map (\<lambda>c. if c = CHR ''~'' then ''~0'' else [c]) s)) = s"
    by (induction s) (simp_all add: tilde_back replace_substring.simps [of _ _ "[]"] del: append.simps)
  with 1 show ?thesis by (simp add: unescape_def escape_chars)
qed

lemma escaped_ok_escape: "escaped_ok (escape s)"
  unfolding escape_chars by (induction s) (simp_all add: escape_char_def)

lemma no_slash_escape: "CHR ''/'' \<notin> set (escape s)"
  unfolding escape_chars by (auto simp: escape_char_def)

lemma escape_unescape: "escaped_ok s \<Longrightarrow> CHR ''/'' \<notin> set s \<Longrightarrow> escape (unescape s) = s"
proof -
  have "escaped_ok s \<Longrightarrow> CHR ''/'' \<notin> set s \<Longrightarrow> \<exists>u. s = escape u"
  proof (induction s rule: escaped_ok.induct)
    case 1
    show ?case by (rule exI [of _ "[]"]) (simp add: escape_chars)
  next
    case (2 c s)
    show ?case
    proof (cases "c = CHR ''~''")
      case True
      obtain d s' where s: "s = d # s'" "d \<in> {CHR ''0'', CHR ''1''}" "escaped_ok s"
        using 2(3) True by (cases s) auto
      have "CHR ''/'' \<notin> set s" using 2(4) by simp
      with 2(1) [OF True s(1)] s obtain u where u: "s = escape u" by metis
      with s obtain v where "s' = escape v"
        by (cases u) (auto simp: escape_chars escape_char_def split: if_splits)
      with s True show ?thesis
        by (intro exI [of _ "(if d = CHR ''0'' then CHR ''~'' else CHR ''/'') # v"])
           (auto simp: escape_chars escape_char_def)
    next
      case False
      with 2 obtain u where u: "s = escape u" by auto
      have "CHR ''/'' \<noteq> c" using 2(4) by simp
      with False u show ?thesis by (intro exI [of _ "c # u"]) (simp add: escape_chars escape_char_def)
    qed
  qed
  then show "escaped_ok s \<Longrightarrow> CHR ''/'' \<notin> set s \<Longrightarrow> ?thesis" by auto
qed

section \<open>Pointers and their text\<close>

lemma pointer_to_string_simps [simp]:
  "pointer_to_string [] = []" "pointer_to_string (ts @ [t]) = pointer_to_string ts @ CHR ''/'' # escape t"
  by (simp_all add: pointer_to_string_def)

lemma pointer_to_string_Cons: "pointer_to_string (t # ts) = CHR ''/'' # escape t @ pointer_to_string ts"
proof (induction ts rule: rev_induct)
  case Nil
  show ?case using pointer_to_string_simps(2) [of "[]" t] by simp
next
  case (snoc u ts)
  then show ?case using pointer_to_string_simps(2) [of "t # ts" u] by simp
qed

lemma split_token:
  "split_tokens (escape t) = Inr [t]"
  "split_tokens (escape t @ CHR ''/'' # rest) = bind_result (split_tokens rest) (\<lambda>ts. Inr (t # ts))"
proof -
  have "\<forall>c \<in> set (escape t). c \<noteq> CHR ''/''" using no_slash_escape [of t] by auto
  then have "takeWhile (\<lambda>c. c \<noteq> CHR ''/'') (escape t) = escape t" "dropWhile (\<lambda>c. c \<noteq> CHR ''/'') (escape t) = []"
    "takeWhile (\<lambda>c. c \<noteq> CHR ''/'') (escape t @ CHR ''/'' # rest) = escape t"
    "dropWhile (\<lambda>c. c \<noteq> CHR ''/'') (escape t @ CHR ''/'' # rest) = CHR ''/'' # rest"
    by (simp_all add: takeWhile_append dropWhile_append)
  then show "split_tokens (escape t) = Inr [t]"
    "split_tokens (escape t @ CHR ''/'' # rest) = bind_result (split_tokens rest) (\<lambda>ts. Inr (t # ts))"
    using split_tokens.simps [of "escape t"] split_tokens.simps [of "escape t @ CHR ''/'' # rest"]
    by (simp_all only: Let_def escaped_ok_escape not_True_eq_False if_False list.case unescape_escape)
qed

lemma split_pointer: "split_tokens (escape t @ pointer_to_string ts) = Inr (t # ts)"
proof (induction ts arbitrary: t)
  case Nil
  show ?case by (simp add: split_token)
next
  case (Cons u ts)
  then show ?case by (simp add: pointer_to_string_Cons split_token)
qed

lemma pointer_parsed: "json_pointer (pointer_to_string ts) = Inr ts"
  by (cases ts) (simp_all add: json_pointer_def pointer_to_string_Cons split_pointer)

lemma split_printed: "split_tokens s = Inr ts \<Longrightarrow> CHR ''/'' # s = pointer_to_string ts"
proof (induction s arbitrary: ts rule: split_tokens.induct)
  case (1 s)
  let ?t = "takeWhile (\<lambda>c. c \<noteq> CHR ''/'') s" and ?d = "dropWhile (\<lambda>c. c \<noteq> CHR ''/'') s"
  have ok: "escaped_ok ?t" using 1(2) by (auto simp: split_tokens.simps [of s] Let_def split: if_splits)
  have t: "escape (unescape ?t) = ?t" using ok by (intro escape_unescape) (auto dest: set_takeWhileD)
  show ?case
  proof (cases ?d)
    case Nil
    with 1(2) ok have "ts = [unescape ?t]" by (simp add: split_tokens.simps [of s] Let_def)
    moreover have "?t = s" using Nil takeWhile_dropWhile_id [of "\<lambda>c. c \<noteq> CHR ''/''" s] by (metis append_Nil2)
    ultimately show ?thesis using t by (metis append_Nil2 pointer_to_string_Cons pointer_to_string_simps(1))
  next
    case (Cons c rest)
    have c: "c = CHR ''/''" using Cons hd_dropWhile [of "\<lambda>c. c \<noteq> CHR ''/''" s] by simp
    from Cons 1(2) ok obtain us where us: "split_tokens rest = Inr us" "ts = unescape ?t # us"
      by (auto simp: split_tokens.simps [of s] Let_def bind_result_Inr_iff)
    from 1(1) [OF refl _ Cons us(1)] ok have "CHR ''/'' # rest = pointer_to_string us" by simp
    moreover have "s = ?t @ c # rest" using Cons takeWhile_dropWhile_id [of "\<lambda>c. c \<noteq> CHR ''/''" s] by simp
    ultimately show ?thesis using us c t by (simp add: pointer_to_string_Cons)
  qed
qed

end
