(* ===== verification/Json_Patch.thy ===== *)
theory Json_Patch
  imports Json_Pointer Json_Serializer
begin

text \<open>
  Comparison of JSON values (\<open>operator==\<close>), JSON patches (\<open>patch\<close>, \<open>diff\<close>) and merge patches of
  \<open>json.hpp\<close>. A patch is an array of objects; its operations are applied one after the other, and an
  exception leaves those done before, which \<open>patch_inplace\<close> shows to its caller.
\<close>

section \<open>Comparison\<close>

datatype value_t =
    T_null | T_object | T_array | T_string | T_boolean | T_integer | T_unsigned | T_float | T_binary | T_discarded

fun json_type :: "json \<Rightarrow> value_t" where
  "json_type J_null = T_null"
| "json_type (J_object ms) = T_object"
| "json_type (J_array xs) = T_array"
| "json_type (J_string s) = T_string"
| "json_type (J_boolean b) = T_boolean"
| "json_type (J_integer n) = T_integer"
| "json_type (J_unsigned n) = T_unsigned"
| "json_type (J_float d) = T_float"
| "json_type (J_binary bs t) = T_binary"
| "json_type J_discarded = T_discarded"

text \<open>\<open>==\<close> on doubles: a NaN is different from everything, the two zeros are equal.\<close>

definition isnan :: "double \<Rightarrow> bool" where
  "isnan d \<longleftrightarrow> take_bit 11 (drop_bit 52 d) = mask 11 \<and> take_bit 52 d \<noteq> 0"

definition double_eq :: "double \<Rightarrow> double \<Rightarrow> bool" where
  "double_eq a b \<longleftrightarrow> \<not> isnan a \<and> \<not> isnan b \<and> (a = b \<or> take_bit 63 a = 0 \<and> take_bit 63 b = 0)"

text \<open>\<open>static_cast<double>\<close> of an integer: the nearest double, the even one of two.\<close>

fun bit_length :: "nat \<Rightarrow> nat" where
  "bit_length n = (if n = 0 then 0 else Suc (bit_length (n div 2)))"

declare bit_length.simps [simp del]

definition round_even :: "nat \<Rightarrow> nat \<Rightarrow> nat" where
  "round_even n k =
     (let q = n div 2 ^ k; r = n mod 2 ^ k
      in if 2 ^ k < 2 * r \<or> 2 * r = 2 ^ k \<and> odd q then q + 1 else q)"

definition double_of_nat :: "nat \<Rightarrow> double" where
  "double_of_nat n =
     (if n = 0 then 0
      else let e = bit_length n - 1;
               significand = (if e \<le> 52 then n * 2 ^ (52 - e) else round_even n (e - 52))
           in word_of_nat ((e + 1023) * 2 ^ 52 + (significand - 2 ^ 52)))"

definition double_of_int :: "int \<Rightarrow> double" where
  "double_of_int i = (if i < 0 then set_bit 63 (double_of_nat (nat (- i))) else double_of_nat (nat i))"

fun json_eq :: "json \<Rightarrow> json \<Rightarrow> bool"
and elements_eq :: "json list \<Rightarrow> json list \<Rightarrow> bool"
and members_eq :: "(string \<times> json) list \<Rightarrow> (string \<times> json) list \<Rightarrow> bool" where
  "json_eq (J_array xs) j = (case j of J_array ys \<Rightarrow> elements_eq xs ys | _ \<Rightarrow> False)"
| "json_eq (J_object ms) j = (case j of J_object ns \<Rightarrow> members_eq ms ns | _ \<Rightarrow> False)"
| "json_eq J_null j = (j = J_null)"
| "json_eq (J_string s) j = (j = J_string s)"
| "json_eq (J_boolean b) j = (j = J_boolean b)"
| "json_eq (J_integer a) j =
     (case j of
        J_integer b \<Rightarrow> a = b
      | J_unsigned b \<Rightarrow> a = b
      | J_float b \<Rightarrow> double_eq (double_of_int (sint a)) b
      | _ \<Rightarrow> False)"
| "json_eq (J_unsigned a) j =
     (case j of
        J_unsigned b \<Rightarrow> a = b
      | J_integer b \<Rightarrow> a = b
      | J_float b \<Rightarrow> double_eq (double_of_nat (unat a)) b
      | _ \<Rightarrow> False)"
| "json_eq (J_float a) j =
     (case j of
        J_float b \<Rightarrow> double_eq a b
      | J_integer b \<Rightarrow> double_eq a (double_of_int (sint b))
      | J_unsigned b \<Rightarrow> double_eq a (double_of_nat (unat b))
      | _ \<Rightarrow> False)"
| "json_eq (J_binary bs t) j = (j = J_binary bs t)"
| "json_eq J_discarded j = False"
| "elements_eq [] ys = (ys = [])"
| "elements_eq (x # xs) ys = (case ys of [] \<Rightarrow> False | y # ys \<Rightarrow> json_eq x y \<and> elements_eq xs ys)"
| "members_eq [] ns = (ns = [])"
| "members_eq ((k, x) # ms) ns =
     (case ns of [] \<Rightarrow> False | (l, y) # ns \<Rightarrow> k = l \<and> json_eq x y \<and> members_eq ms ns)"

section \<open>Patches\<close>

definition object_erase :: "string \<Rightarrow> (string \<times> 'a) list \<Rightarrow> (string \<times> 'a) list" where
  "object_erase k ms = filter (\<lambda>m. fst m \<noteq> k) ms"

definition insert_at :: "nat \<Rightarrow> 'a \<Rightarrow> 'a list \<Rightarrow> 'a list" where
  "insert_at i v xs = take i xs @ v # drop i xs"

definition erase_at :: "nat \<Rightarrow> 'a list \<Rightarrow> 'a list" where
  "erase_at i xs = take i xs @ drop (Suc i) xs"

text \<open>The value is put into the parent.\<close>

definition add_to :: "string \<Rightarrow> json \<Rightarrow> json \<Rightarrow> json result" where
  "add_to last_path val parent =
     (case parent of
        J_null \<Rightarrow> Inr (J_object (object_put last_path val []))
      | J_object ms \<Rightarrow> Inr (J_object (object_put last_path val ms))
      | J_array xs \<Rightarrow>
          if last_path = ''-'' then Inr (J_array (xs @ [val]))
          else bind_result (array_index last_path) (\<lambda>idx.
               if length xs < idx then Inl (Throw (Json_Out_Of_Range 401))
               else Inr (J_array (insert_at idx val xs)))
      | _ \<Rightarrow> Inl (Abort ''assert: false''))"

definition operation_add :: "string list \<Rightarrow> json \<Rightarrow> json \<Rightarrow> json result" where
  "operation_add ptr val doc =
     (if ptr = [] then Inr val
      else bind_result (if ptr \<noteq> [hd ptr] then get_checked [hd ptr] doc else Inr doc) (\<lambda>_.
           with_checked (add_to (last ptr) val) (butlast ptr) doc))"

text \<open>A parent that is neither an object nor an array keeps silent.\<close>

definition remove_from :: "string \<Rightarrow> json \<Rightarrow> json result" where
  "remove_from last_path parent =
     (case parent of
        J_object ms \<Rightarrow>
          if object_find last_path ms \<noteq> None then Inr (J_object (object_erase last_path ms))
          else Inl (Throw (Json_Out_Of_Range 403))
      | J_array xs \<Rightarrow>
          bind_result (array_index last_path) (\<lambda>idx.
          if length xs \<le> idx then Inl (Throw (Json_Out_Of_Range 401)) else Inr (J_array (erase_at idx xs)))
      | _ \<Rightarrow> Inr parent)"

definition operation_remove :: "string list \<Rightarrow> json \<Rightarrow> json result" where
  "operation_remove ptr doc =
     bind_result (pointer_back ptr) (\<lambda>last_path. with_checked (remove_from last_path) (butlast ptr) doc)"

text \<open>\<open>get_value\<close>\<close>

definition patch_member :: "string \<Rightarrow> (string \<times> json) list \<Rightarrow> json result" where
  "patch_member k ms = (case object_find k ms of None \<Rightarrow> Inl (Throw (Json_Parse_Error 105)) | Some v \<Rightarrow> Inr v)"

definition patch_string :: "string \<Rightarrow> (string \<times> json) list \<Rightarrow> string result" where
  "patch_string k ms =
     bind_result (patch_member k ms) (\<lambda>v. case v of J_string s \<Rightarrow> Inr s | _ \<Rightarrow> Inl (Throw (Json_Parse_Error 105)))"

text \<open>What is left of the document, and the exception.\<close>

type_synonym patched = "json \<times> fault option"

definition attempt :: "json \<Rightarrow> json result \<Rightarrow> patched" where
  "attempt doc r = (case r of Inr d \<Rightarrow> (d, None) | Inl e \<Rightarrow> (doc, Some e))"

text \<open>The removal of a move stays when the insertion fails.\<close>

definition patch_move :: "(string \<times> json) list \<Rightarrow> string list \<Rightarrow> json \<Rightarrow> patched" where
  "patch_move ms ptr doc =
     (case bind_result (patch_string ''from'' ms) (\<lambda>from.
           bind_result (json_pointer from) (\<lambda>from_ptr.
           bind_result (get_checked from_ptr doc) (\<lambda>v.
           bind_result (operation_remove from_ptr doc) (\<lambda>d. Inr (v, d))))) of
        Inl e \<Rightarrow> (doc, Some e)
      | Inr (v, d) \<Rightarrow> attempt d (operation_add ptr v d))"

definition patch_copy :: "(string \<times> json) list \<Rightarrow> string list \<Rightarrow> json \<Rightarrow> json result" where
  "patch_copy ms ptr doc =
     bind_result (patch_string ''from'' ms) (\<lambda>from.
     bind_result (json_pointer from) (\<lambda>from_ptr.
     bind_result (get_checked from_ptr doc) (\<lambda>v. operation_add ptr v doc)))"

text \<open>
  Exceptions of the class \<open>out_of_range\<close> count as a failed test. The message of the exception has the text
  of the operation, which may not be dumpable. The operands of the comparison are evaluated from the
  left.
\<close>

definition patch_test :: "floats \<Rightarrow> (string \<times> json) list \<Rightarrow> string list \<Rightarrow> json \<Rightarrow> json result" where
  "patch_test fl ms ptr doc =
     bind_result
       (case bind_result (get_checked ptr doc) (\<lambda>v. bind_result (patch_member ''value'' ms) (\<lambda>w. Inr (json_eq v w))) of
          Inl (Throw (Json_Out_Of_Range n)) \<Rightarrow> Inr False
        | r \<Rightarrow> r)
       (\<lambda>success.
        if success then Inr doc
        else bind_result (json_dump fl (J_object ms)) (\<lambda>_. Inl (Throw (Json_Other_Error 501))))"

definition patch_operation :: "floats \<Rightarrow> json \<Rightarrow> json \<Rightarrow> patched" where
  "patch_operation fl val doc =
     (case val of
        J_object ms \<Rightarrow>
          (case bind_result (patch_string ''op'' ms) (\<lambda>opn.
                bind_result (patch_string ''path'' ms) (\<lambda>path.
                bind_result (json_pointer path) (\<lambda>ptr. Inr (opn, ptr)))) of
             Inl e \<Rightarrow> (doc, Some e)
           | Inr (opn, ptr) \<Rightarrow>
               if opn = ''add'' then
                 attempt doc (bind_result (patch_member ''value'' ms) (\<lambda>v. operation_add ptr v doc))
               else if opn = ''remove'' then attempt doc (operation_remove ptr doc)
               else if opn = ''replace'' then
                 attempt doc (bind_result (patch_member ''value'' ms) (\<lambda>v. with_checked (\<lambda>_. Inr v) ptr doc))
               else if opn = ''move'' then patch_move ms ptr doc
               else if opn = ''copy'' then attempt doc (patch_copy ms ptr doc)
               else if opn = ''test'' then attempt doc (patch_test fl ms ptr doc)
               else (doc, Some (Throw (Json_Parse_Error 105))))
      | _ \<Rightarrow> (doc, Some (Throw (Json_Parse_Error 104))))"

fun patch_operations :: "floats \<Rightarrow> json list \<Rightarrow> json \<Rightarrow> patched" where
  "patch_operations fl [] doc = (doc, None)"
| "patch_operations fl (val # vals) doc =
     (case patch_operation fl val doc of
        (doc, None) \<Rightarrow> patch_operations fl vals doc
      | (doc, Some e) \<Rightarrow> (doc, Some e))"

definition patch_inplace :: "floats \<Rightarrow> json \<Rightarrow> json \<Rightarrow> patched" where
  "patch_inplace fl json_patch doc =
     (case json_patch of
        J_array vals \<Rightarrow> patch_operations fl vals doc
      | _ \<Rightarrow> (doc, Some (Throw (Json_Parse_Error 104))))"

definition patch :: "floats \<Rightarrow> json \<Rightarrow> json \<Rightarrow> json result" where
  "patch fl json_patch doc =
     (case patch_inplace fl json_patch doc of (d, None) \<Rightarrow> Inr d | (d, Some e) \<Rightarrow> Inl e)"

section \<open>Differences\<close>

definition replace_op :: "string \<Rightarrow> json \<Rightarrow> json" where
  "replace_op path v =
     json_of_pairs [(''op'', J_string ''replace''), (''path'', J_string path), (''value'', v)]"

definition add_op :: "string \<Rightarrow> json \<Rightarrow> json" where
  "add_op path v = json_of_pairs [(''op'', J_string ''add''), (''path'', J_string path), (''value'', v)]"

definition remove_op :: "string \<Rightarrow> json" where
  "remove_op path = json_of_pairs [(''op'', J_string ''remove''), (''path'', J_string path)]"

text \<open>The second passes: the elements and members that only one side has.\<close>

definition remove_elements :: "string \<Rightarrow> nat \<Rightarrow> nat \<Rightarrow> json list" where
  "remove_elements path i n = rev (map (\<lambda>i. remove_op (path @ CHR ''/'' # to_string i)) [i..<n])"

definition add_elements :: "string \<Rightarrow> json list \<Rightarrow> json list" where
  "add_elements path ts = map (add_op (path @ ''/-'')) ts"

definition add_members :: "string \<Rightarrow> (string \<times> json) list \<Rightarrow> (string \<times> json) list \<Rightarrow> json list" where
  "add_members path ms ns =
     map (\<lambda>(k, v). add_op (path @ CHR ''/'' # escape k) v) (filter (\<lambda>(k, v). object_find k ms = None) ns)"

function (sequential) diff :: "json \<Rightarrow> json \<Rightarrow> string \<Rightarrow> json list"
and diff_elements :: "nat \<Rightarrow> json list \<Rightarrow> json list \<Rightarrow> string \<Rightarrow> json list"
and diff_members :: "(string \<times> json) list \<Rightarrow> (string \<times> json) list \<Rightarrow> string \<Rightarrow> json list" where
  "diff source target path =
     (if json_eq source target then []
      else if json_type source \<noteq> json_type target then [replace_op path target]
      else case (source, target) of
             (J_array ss, J_array ts) \<Rightarrow>
               diff_elements 0 ss ts path
               @ remove_elements path (length ts) (length ss)
               @ add_elements path (drop (length ss) ts)
           | (J_object ms, J_object ns) \<Rightarrow> diff_members ms ns path @ add_members path ms ns
           | _ \<Rightarrow> [replace_op path target])"
| "diff_elements i (s # ss) (t # ts) path =
     diff s t (path @ CHR ''/'' # to_string i) @ diff_elements (Suc i) ss ts path"
| "diff_elements i ss ts path = []"
| "diff_members [] ns path = []"
| "diff_members ((k, v) # ms) ns path =
     (let path_key = path @ CHR ''/'' # escape k
      in case object_find k ns of
           Some w \<Rightarrow> diff v w path_key
         | None \<Rightarrow> [remove_op path_key])
     @ diff_members ms ns path"
  by pat_completeness auto
termination
  by (relation "measure (\<lambda>x. case x of Inl (s, t, p) \<Rightarrow> size s | Inr (Inl (i, ss, ts, p)) \<Rightarrow> size_list size ss
      | Inr (Inr (ms, ns, p)) \<Rightarrow> size_list (size_prod (\<lambda>_. 0) size) ms)") auto

declare diff.simps [simp del]

definition json_diff :: "json \<Rightarrow> json \<Rightarrow> json" where
  "json_diff source target = J_array (diff source target [])"

section \<open>Merge patches\<close>

function (sequential) merge_patch :: "json \<Rightarrow> json \<Rightarrow> json"
and merge_members :: "(string \<times> json) list \<Rightarrow> (string \<times> json) list \<Rightarrow> (string \<times> json) list" where
  "merge_patch j (J_object ps) = J_object (merge_members (case j of J_object ms \<Rightarrow> ms | _ \<Rightarrow> []) ps)"
| "merge_patch j p = p"
| "merge_members ms [] = ms"
| "merge_members ms ((k, v) # ps) =
     merge_members
       (if v = J_null then object_erase k ms
        else let ms = emplace_null k ms in object_set k (merge_patch (the (object_find k ms)) v) ms)
       ps"
  by pat_completeness auto
termination
  by (relation "measure (\<lambda>x. case x of Inl (j, p) \<Rightarrow> size p | Inr (ms, ps) \<Rightarrow> size_list (size_prod (\<lambda>_. 0) size) ps)") auto

end
