(* ===== verification/Http_Accept.thy ===== *)
theory Http_Accept
  imports Http_Forms Json_Patch
begin

text \<open>
  The header \<open>Accept\<close> as \<open>httplib.h\<close> parses it: media types with their qualities, sorted by quality.
  \<open>std::stod\<close> is a parameter, \<open>None\<close> when it throws.
\<close>

section \<open>Qualities\<close>

text \<open>Comparison of doubles: the sign and the magnitude as an integer; a NaN compares with nothing.\<close>

definition double_rank :: "double \<Rightarrow> int" where
  "double_rank d = (if bit d 63 then - uint (take_bit 63 d) else uint (take_bit 63 d))"

definition double_less :: "double \<Rightarrow> double \<Rightarrow> bool" where
  "double_less a b = (\<not> isnan a \<and> \<not> isnan b \<and> double_rank a < double_rank b)"

definition double_one :: double where "double_one = 0x3FF0000000000000"

lemma isnan_one: "\<not> isnan double_one" by (simp add: isnan_def double_one_def take_bit_eq_mod)

section \<open>Entries\<close>

text \<open>The position of the quality parameter of an entry, or the length of the entry.\<close>

definition quality_position :: "string \<Rightarrow> nat" where
  "quality_position entry =
     (let pos = buf_find '';q='' entry in if pos = length entry then buf_find ''; q='' entry else pos)"

definition quality_text :: "string \<Rightarrow> string" where
  "quality_text entry =
     trim (takeWhile (\<lambda>c. c \<noteq> CHR '';'')
       (tl (dropWhile (\<lambda>c. c \<noteq> CHR ''='') (drop (quality_position entry) entry))))"

definition entry_quality :: "(string \<Rightarrow> double option) \<Rightarrow> string \<Rightarrow> double option" where
  "entry_quality stod entry =
     (if quality_position entry = length entry then Some double_one
      else if quality_text entry = [] then None
      else
        (case stod (quality_text entry) of
           None \<Rightarrow> None
         | Some q \<Rightarrow> if double_less q 0 \<or> double_less double_one q then None else Some q))"

definition accept_entry :: "(string \<Rightarrow> double option) \<Rightarrow> string \<Rightarrow> (string \<times> double) option" where
  "accept_entry stod entry =
     (case entry_quality stod entry of
        None \<Rightarrow> None
      | Some q \<Rightarrow>
          (let pos = quality_position entry;
               media = (if pos = length entry then entry else trim (take pos entry));
               media = (if CHR '';'' \<in> set media then trim (takeWhile (\<lambda>c. c \<noteq> CHR '';'') media) else media)
           in if media = [] \<or> media \<noteq> ''*'' \<and> CHR ''/'' \<notin> set media then None else Some (media, q)))"

section \<open>The header\<close>

fun occurs :: "string \<Rightarrow> string \<Rightarrow> bool" where
  "occurs p [] = (p = [])"
| "occurs p (c # s) = (take (length p) (c # s) = p \<or> occurs p s)"

text \<open>Better qualities first, in the order of the header among equal ones.\<close>

fun insert_entry :: "string \<times> double \<Rightarrow> (string \<times> double) list \<Rightarrow> (string \<times> double) list" where
  "insert_entry x [] = [x]"
| "insert_entry x (y # ys) = (if double_less (snd x) (snd y) then y # insert_entry x ys else x # y # ys)"

definition sort_entries :: "(string \<times> double) list \<Rightarrow> (string \<times> double) list" where
  "sort_entries xs = foldr insert_entry xs []"

text \<open>
  The comparison that \<open>std::sort\<close> is given is no strict weak ordering when a NaN is among at least two
  other qualities: then the behaviour is undefined.
\<close>

datatype accepted = Bad_Accept | Undefined_Order | Accepted "string list"

definition parse_accept_header :: "(string \<Rightarrow> double option) \<Rightarrow> string \<Rightarrow> accepted" where
  "parse_accept_header stod s =
     (if s = [] then Accepted []
      else if hd s = CHR '','' \<or> last s = CHR '','' \<or> occurs '',,'' s then Bad_Accept
      else
        (case those (map (accept_entry stod) (split_pieces (CHR '','') s)) of
           None \<Rightarrow> Bad_Accept
         | Some entries \<Rightarrow>
             if list_ex (\<lambda>e. isnan (snd e)) entries \<and> 2 \<le> length (filter (\<lambda>e. \<not> isnan (snd e)) entries)
             then Undefined_Order
             else Accepted (map fst (sort_entries entries))))"

text \<open>Without a NaN the result is sorted by quality and has every entry.\<close>

lemma insert_entry_sorted:
  "sorted_wrt (\<lambda>a b. double_rank (snd b) \<le> double_rank (snd a)) ys \<Longrightarrow> \<not> isnan (snd x) \<Longrightarrow>
     \<forall>y \<in> set ys. \<not> isnan (snd y) \<Longrightarrow>
     sorted_wrt (\<lambda>a b. double_rank (snd b) \<le> double_rank (snd a)) (insert_entry x ys) \<and>
     set (insert_entry x ys) = insert x (set ys)"
proof (induction x ys rule: insert_entry.induct)
  case (2 x y ys)
  show ?case
  proof (cases "double_less (snd x) (snd y)")
    case True
    with 2 show ?thesis by (auto simp: double_less_def)
  next
    case False
    with 2 have "double_rank (snd y) \<le> double_rank (snd x)" by (simp add: double_less_def)
    moreover have "double_rank (snd z) \<le> double_rank (snd y)" if "z \<in> set ys" for z using 2(2) that by simp
    ultimately have "\<forall>z \<in> set (y # ys). double_rank (snd z) \<le> double_rank (snd x)" by fastforce
    with False 2(2) show ?thesis by simp
  qed
qed simp

lemma accepted_sorted:
  "\<forall>e \<in> set es. \<not> isnan (snd e) \<Longrightarrow>
     sorted_wrt (\<lambda>a b. double_rank (snd b) \<le> double_rank (snd a)) (sort_entries es) \<and> set (sort_entries es) = set es"
  by (induction es) (simp_all add: sort_entries_def insert_entry_sorted)

end
