(* ===== verification/Http_Roundtrip.thy ===== *)
theory Http_Roundtrip
  imports Http_Body "HOL-Library.Multiset"
begin

text \<open>
  What a client of \<open>httplib.h\<close> writes, a server of \<open>httplib.h\<close> reads back: percent encoding, lines,
  the request line, headers, the body.
\<close>

section \<open>Percent encoding\<close>

lemma code_simps:
  "code (CHR 0x0D) = 13" "code (CHR 0x0A) = 10" "code (CHR '' '') = 32" "code (CHR ''%'') = 37"
  "code (CHR ''u'') = 117" "code (CHR ''#'') = 35" "code (CHR ''?'') = 63" "code (CHR '':'') = 58"
  by (simp_all add: code_def)

lemma code_blank: "code c = 32 \<longleftrightarrow> c = CHR '' ''"
  using of_char_eq_iff [of c "CHR '' ''"] by (simp add: code_def)

lemma is_hex_digit: "k < 16 \<Longrightarrow> is_hex (''0123456789ABCDEF'' ! k) = Some k"
proof -
  assume "k < 16"
  moreover have "list_all (\<lambda>k. is_hex (''0123456789ABCDEF'' ! k) = Some k) [0..<16]" by code_simp
  ultimately show ?thesis by (simp add: list_all_iff)
qed

lemma from_hex_bytes: "n < 256 \<Longrightarrow> from_hex_to_i 2 (hex_bytes n @ s) 0 = Some n"
  using is_hex_digit [of "n div 16"] is_hex_digit [of "n mod 16"]
  by (simp add: hex_bytes_def Let_def numeral_2_eq_2)

lemma hex_bytes_chars: "n < 256 \<Longrightarrow> set (hex_bytes n) \<subseteq> set ''0123456789ABCDEF''"
  unfolding hex_bytes_def Let_def using nth_mem [of "n div 16" "''0123456789ABCDEF''"]
    nth_mem [of "n mod 16" "''0123456789ABCDEF''"]
  by simp

lemma decode_plain: "c \<noteq> CHR ''%'' \<Longrightarrow> decode_path_component (c # s) = c # decode_path_component s"
  by (simp add: decode_path_component.simps)

lemma decode_hex:
  assumes "n < 256"
  shows "decode_path_component (CHR ''%'' # hex_bytes n @ s) = char_of n # decode_path_component s"
proof -
  have ne: "hex_bytes n @ s \<noteq> []" "length (hex_bytes n) = 2" by (simp_all add: hex_bytes_def Let_def)
  have "hd (hex_bytes n @ s) \<in> set (hex_bytes n)" using ne(2) by (cases "hex_bytes n") auto
  then have "hd (hex_bytes n @ s) \<noteq> CHR ''u''" using hex_bytes_chars [OF assms] by auto
  with ne from_hex_bytes [OF assms, of s] show ?thesis
    by (subst decode_path_component.simps(2)) simp
qed

text \<open>Every encoded character is one percent escape or itself.\<close>

lemma encode_char_cases:
  obtains "encode_char c = [c]" "code c \<notin> {10, 13, 32}" | "encode_char c = CHR ''%'' # hex_bytes (code c)"
proof -
  have "hex_bytes 32 = ''20''" "hex_bytes 43 = ''2B''" "hex_bytes 13 = ''0D''" "hex_bytes 10 = ''0A''"
    "hex_bytes 39 = ''27''" "hex_bytes 44 = ''2C''" "hex_bytes 59 = ''3B''"
    by (simp_all add: hex_bytes_def)
  then have "encode_char c = [c] \<and> code c \<notin> {10, 13, 32} \<or> encode_char c = CHR ''%'' # hex_bytes (code c)"
    by (auto simp: encode_char_def code_blank) (auto simp: code_def)
  with that show thesis by blast
qed

lemma code_256: "code c < 256"
  by (simp add: code_def)

lemma decode_encode_char:
  "c \<noteq> CHR ''%'' \<Longrightarrow> decode_path_component (encode_char c @ s) = c # decode_path_component s"
  by (cases c rule: encode_char_cases) (simp_all add: decode_plain decode_hex code_256, simp add: code_def)

definition path_char :: "char \<Rightarrow> bool" where
  "path_char c = (code c \<noteq> 0 \<and> code c \<noteq> 9 \<and> c \<notin> set ''%#?'')"

lemma decode_encode_path: "list_all path_char p \<Longrightarrow> decode_path_component (encode_path p) = p"
  by (induction p) (auto simp: decode_encode_char path_char_def)

lemma encode_char_chars: "path_char c \<Longrightarrow> x \<in> set (encode_char c) \<Longrightarrow> code x \<notin> {0, 9, 10, 13, 32} \<and> x \<notin> set ''#?''"
  using hex_bytes_chars [of "code c"] code_256 [of c]
  by (cases c rule: encode_char_cases) (auto simp: path_char_def code_def)

lemma encode_path_chars:
  "list_all path_char p \<Longrightarrow> x \<in> set (encode_path p) \<Longrightarrow> code x \<notin> {0, 9, 10, 13, 32} \<and> x \<notin> set ''#?''"
proof (induction p)
  case (Cons c p)
  then show ?case using encode_char_chars [of c x] by (auto split: if_splits)
qed simp

section \<open>Lines\<close>

lemma getline_from_line:
  "CHR 0x0A \<notin> set l \<Longrightarrow> i + length l + 2 \<le> CPPHTTPLIB_MAX_LINE_LENGTH \<Longrightarrow>
     getline_from i p (l @ CRLF @ rest) = Some (l @ CRLF, rest)"
proof (induction l arbitrary: i p)
  case Nil
  then show ?case by (simp add: getline_from.simps CRLF_def)
next
  case (Cons c l)
  then show ?case by (subst getline_from.simps) auto
qed

lemma getline_line:
  "CHR 0x0A \<notin> set l \<Longrightarrow> length l + 2 \<le> CPPHTTPLIB_MAX_LINE_LENGTH \<Longrightarrow> getline (l @ CRLF @ rest) = Some (l @ CRLF, rest)"
  by (simp add: getline_def getline_from_line)

lemma end_with_crlf_line [simp]: "end_with_crlf (l @ CRLF)"
  by (simp add: end_with_crlf_def CRLF_def)

lemma line_without_end: "length (l @ CRLF) = length l + 2" "take (length (l @ CRLF) - 2) (l @ CRLF) = l"
  by (simp_all add: CRLF_def)

section \<open>The request line\<close>

lemma segments_sep: "d \<notin> set a \<Longrightarrow> segments d (a @ d # b) = a # segments d b"
proof -
  assume "d \<notin> set a"
  then have "takeWhile (\<lambda>c. c \<noteq> d) (a @ d # b) = a" "dropWhile (\<lambda>c. c \<noteq> d) (a @ d # b) = d # b"
    by (auto intro: takeWhile_append2 simp: takeWhile_append dropWhile_append)
  then show ?thesis by (subst segments.simps) simp
qed

lemma segments_end: "d \<notin> set a \<Longrightarrow> segments d a = [a]"
  by (simp add: segments.simps)

lemma drop_no_blank: "list_all (\<lambda>c. \<not> is_space_or_tab c) s \<Longrightarrow> dropWhile is_space_or_tab s = s"
  by (cases s) simp_all

lemma trim_plain: "list_all (\<lambda>c. \<not> is_space_or_tab c) s \<Longrightarrow> trim s = s"
  by (simp add: trim_def drop_no_blank)

lemma method_chars: "m \<in> set methods \<Longrightarrow> m \<noteq> [] \<and> list_all (\<lambda>c. code c \<notin> {0, 9, 10, 13, 32}) m"
proof -
  have "list_all (\<lambda>m. m \<noteq> [] \<and> list_all (\<lambda>c. code c \<notin> {0, 9, 10, 13, 32}) m) methods" by code_simp
  then show "m \<in> set methods \<Longrightarrow> ?thesis" by (simp add: list_all_iff)
qed

lemma parse_pieces:
  assumes "takeWhile (\<lambda>c. code c \<noteq> 0) (l @ CRLF) = l @ CRLF" "split_pieces (CHR '' '') l = [m, t, ''HTTP/1.1'']"
    "m \<in> set methods"
  shows "parse_request_line (l @ CRLF) =
    (let target = takeWhile (\<lambda>c. c \<noteq> CHR ''#'') t
     in Some (m, ''HTTP/1.1'', target, decode_path_component (takeWhile (\<lambda>c. c \<noteq> CHR ''?'') target)))"
  unfolding parse_request_line_def assms(1) Let_def line_without_end(2) assms(2) using assms(3) by simp

text \<open>A target without blanks, line ends and null characters.\<close>

definition target_text :: "string \<Rightarrow> bool" where
  "target_text t \<longleftrightarrow> t \<noteq> [] \<and> (\<forall>c \<in> set t. code c \<notin> {0, 9, 10, 13, 32})"

lemma parse_written_line:
  assumes "m \<in> set methods" "target_text t"
  shows "parse_request_line (write_request_line m t) =
    (let target = takeWhile (\<lambda>c. c \<noteq> CHR ''#'') t
     in Some (m, ''HTTP/1.1'', target, decode_path_component (takeWhile (\<lambda>c. c \<noteq> CHR ''?'') target)))"
proof -
  let ?v = "''HTTP/1.1''"
  have m: "m \<noteq> []" "\<forall>c \<in> set m. code c \<notin> {0, 9, 10, 13, 32}"
    using method_chars [OF assms(1)] by (simp_all add: list_all_iff)
  have t: "t \<noteq> []" "\<forall>c \<in> set t. code c \<notin> {0, 9, 10, 13, 32}" using assms(2) by (simp_all add: target_text_def)
  have v: "\<forall>c \<in> set ?v. code c \<notin> {0, 9, 10, 13, 32}" by (simp add: code_def)
  let ?l = "m @ CHR '' '' # t @ CHR '' '' # ?v"
  have line: "write_request_line m t = ?l @ CRLF" by (simp add: write_request_line_def)
  have "list_all (\<lambda>c. code c \<noteq> 0) m" using m(2) by (simp add: list_all_iff)
  moreover have "list_all (\<lambda>c. code c \<noteq> 0) t" using t(2) by (simp add: list_all_iff)
  moreover have "list_all (\<lambda>c. code c \<noteq> 0) (CHR '' '' # ?v @ CRLF)" by (simp add: CRLF_def code_def)
  ultimately have "list_all (\<lambda>c. code c \<noteq> 0) (?l @ CRLF)" by simp
  then have nul: "takeWhile (\<lambda>c. code c \<noteq> 0) (?l @ CRLF) = ?l @ CRLF"
    unfolding takeWhile_eq_all_conv list_all_iff .
  have sp: "CHR '' '' \<notin> set m" "CHR '' '' \<notin> set t" "CHR '' '' \<notin> set ?v"
    using m(2) t(2) v code_simps(3) by fastforce+
  have "segments (CHR '' '') ?l = [m, t, ?v]"
    unfolding segments_sep [OF sp(1)] segments_sep [OF sp(2)] segments_end [OF sp(3)] ..
  moreover have "trim m = m" "trim t = t" "trim ?v = ?v"
    by (rule trim_plain, use m(2) t(2) v in \<open>simp add: list_all_iff is_space_or_tab_def\<close>)+
  ultimately have pieces: "split_pieces (CHR '' '') ?l = [m, t, ?v]" using m(1) t(1) by (simp add: split_pieces_def)
  show ?thesis unfolding line by (rule parse_pieces [OF nul pieces assms(1)])
qed

lemma encoded_target: "list_all path_char p \<Longrightarrow> p \<noteq> [] \<Longrightarrow> target_text (encode_path p)"
  using encode_path_chars decode_encode_path [of p] by (force simp: target_text_def)

lemma encoded_whole:
  assumes "list_all path_char p"
  shows "takeWhile (\<lambda>c. c \<noteq> CHR ''#'') (encode_path p @ CHR ''#'' # s) = encode_path p"
    and "takeWhile (\<lambda>c. c \<noteq> CHR ''#'') (encode_path p) = encode_path p"
    and "takeWhile (\<lambda>c. c \<noteq> CHR ''?'') (encode_path p) = encode_path p"
proof -
  have "CHR ''#'' \<notin> set (encode_path p)" "CHR ''?'' \<notin> set (encode_path p)"
    using encode_path_chars [OF assms] by auto
  then show "takeWhile (\<lambda>c. c \<noteq> CHR ''#'') (encode_path p @ CHR ''#'' # s) = encode_path p"
    "takeWhile (\<lambda>c. c \<noteq> CHR ''#'') (encode_path p) = encode_path p"
    "takeWhile (\<lambda>c. c \<noteq> CHR ''?'') (encode_path p) = encode_path p"
    by (auto simp: takeWhile_eq_all_conv takeWhile_append)
qed

section \<open>Headers\<close>

definition header_ok :: "string \<times> string \<Rightarrow> bool" where
  "header_ok h =
     (case h of
        (k, v) \<Rightarrow> is_field_name k \<and> is_field_value v \<and> CHR ''%'' \<notin> set v \<and>
          length k + length v + 4 \<le> CPPHTTPLIB_HEADER_MAX_LENGTH)"

lemma decode_no_percent: "CHR ''%'' \<notin> set v \<Longrightarrow> decode_path_component v = v"
  by (induction v) (auto simp: decode_plain)

lemma token_char_code: "is_token_char c \<Longrightarrow> code c \<notin> {0, 9, 10, 13, 32, 58}"
  by (auto simp: is_token_char_def is_alnum_def is_digit_def code_def)

lemma field_value_chars: "is_field_value v \<Longrightarrow> c \<in> set v \<Longrightarrow> is_space_or_tab c \<or> is_field_vchar c"
proof -
  assume v: "is_field_value v" "c \<in> set v"
  then have ne: "v \<noteq> []" by auto
  have "c = hd v \<or> c = last v \<or> c \<in> set (butlast (tl v))"
    using v(2) ne by (cases v; cases "tl v" rule: rev_cases) auto
  then show ?thesis using v(1) ne by (auto simp: is_field_value_def list_all_iff)
qed

lemma vchar_code: "is_field_vchar c \<Longrightarrow> code c \<notin> {9, 10, 13, 32}"
  by (auto simp: is_field_vchar_def)

lemma parse_written_header:
  assumes "header_ok (k, v)"
  shows "parse_header (k @ '': '' @ v) = Some (k, v)"
proof -
  have k: "is_field_name k" "\<forall>c \<in> set k. code c \<notin> {0, 9, 10, 13, 32, 58}"
    using assms token_char_code by (auto simp: header_ok_def is_field_name_def list_all_iff)
  have v: "is_field_value v" "CHR ''%'' \<notin> set v" using assms by (auto simp: header_ok_def)
  let ?line = "if v = [] then k @ '':'' else k @ '': '' @ v"
  have stripped: "rev (dropWhile is_space_or_tab (rev (k @ '': '' @ v))) = ?line"
  proof (cases v rule: rev_cases)
    case Nil
    then show ?thesis by (simp add: is_space_or_tab_def code_def)
  next
    case (snoc w c)
    then have "\<not> is_space_or_tab c" using v(1) vchar_code [of c] by (auto simp: is_field_value_def is_space_or_tab_def)
    with snoc show ?thesis by simp
  qed
  have colon: "\<forall>c \<in> set k. c \<noteq> CHR '':''" using k(2) code_simps(8) by fastforce
  then have key: "takeWhile (\<lambda>c. c \<noteq> CHR '':'') ?line = k" by (auto intro: takeWhile_append2 simp: takeWhile_append)
  have val: "dropWhile is_space_or_tab (drop (length k + 1) ?line) = v"
  proof (cases v)
    case (Cons c w)
    then have "\<not> is_space_or_tab c" using v(1) vchar_code [of c] by (auto simp: is_field_value_def is_space_or_tab_def)
    with Cons show ?thesis by (simp add: is_space_or_tab_def [of "CHR '' ''"] code_simps)
  qed simp
  have "CHR '':'' \<in> set ?line" by simp
  with k(1) v decode_no_percent [OF v(2)] show ?thesis
    unfolding parse_header_def stripped Let_def key val by simp
qed

lemma read_written_headers:
  assumes "list_all header_ok hs" "n + length hs \<le> CPPHTTPLIB_HEADER_MAX_COUNT"
  shows "read_headers n (write_headers hs @ rest) = (Some hs, rest)"
  using assms
proof (induction hs arbitrary: n)
  case Nil
  have "getline ([] @ CRLF @ rest) = Some ([] @ CRLF, rest)"
    by (rule getline_line) (simp_all add: CPPHTTPLIB_MAX_LINE_LENGTH_def)
  then show ?case using end_with_crlf_line [of "[]"]
    by (subst read_headers.simps) (simp add: write_headers_def, simp add: CRLF_def)
next
  case (Cons h hs)
  obtain k v where h: "h = (k, v)" by (cases h)
  let ?l = "k @ '': '' @ v"
  have ok: "header_ok (k, v)" using Cons.prems h by simp
  have len: "k \<noteq> []" "length ?l + 2 \<le> CPPHTTPLIB_HEADER_MAX_LENGTH"
    using ok by (auto simp: header_ok_def is_field_name_def)
  have "CHR 0x0A \<notin> set k" "CHR 0x0A \<notin> set v"
    using ok token_char_code field_value_chars [of v] vchar_code code_simps(2)
    by (fastforce simp: header_ok_def is_field_name_def list_all_iff is_space_or_tab_def)+
  then have "CHR 0x0A \<notin> set ?l" by simp
  then have line: "getline (?l @ CRLF @ write_headers hs @ rest) = Some (?l @ CRLF, write_headers hs @ rest)"
    using len by (intro getline_line) (auto simp: CPPHTTPLIB_HEADER_MAX_LENGTH_def CPPHTTPLIB_MAX_LINE_LENGTH_def)
  have stream: "write_headers (h # hs) @ rest = ?l @ CRLF @ write_headers hs @ rest"
    by (simp add: write_headers_def h)
  note two = line_without_end [of ?l]
  have "read_headers (Suc n) (write_headers hs @ rest) = (Some hs, rest)" using Cons by simp
  then show ?case unfolding stream using line len two Cons.prems parse_written_header [OF ok] h end_with_crlf_line [of ?l]
    by (subst read_headers.simps) (simp only: option.case prod.case two, simp)
qed

section \<open>The whole request\<close>

lemma request_line_read:
  assumes "m \<in> set methods" "target_text t" "length t \<le> CPPHTTPLIB_REQUEST_URI_MAX_LENGTH"
  shows "getline (write_request_line m t @ s) = Some (write_request_line m t, s)"
proof -
  let ?l = "m @ '' '' @ t @ '' HTTP/1.1''"
  have line: "write_request_line m t = ?l @ CRLF" by (simp add: write_request_line_def)
  have "list_all (\<lambda>m. length m \<le> 7) methods" by code_simp
  then have "length m \<le> 7" using assms(1) by (simp add: list_all_iff)
  then have len: "length ?l + 2 \<le> CPPHTTPLIB_MAX_LINE_LENGTH"
    using assms(3) by (simp add: CPPHTTPLIB_REQUEST_URI_MAX_LENGTH_def CPPHTTPLIB_MAX_LINE_LENGTH_def)
  have "CHR 0x0A \<notin> set m" "CHR 0x0A \<notin> set t"
    using method_chars [OF assms(1)] assms(2) code_simps(2) by (fastforce simp: list_all_iff target_text_def)+
  then have "CHR 0x0A \<notin> set ?l" by simp
  from getline_line [OF this len] show ?thesis by (simp add: line)
qed

lemma request_target_plain: "CHR ''?'' \<notin> set p \<Longrightarrow> request_target p = encode_path p"
  by (simp add: request_target_def divide_absent)

lemma path_no_question: "list_all path_char p \<Longrightarrow> CHR ''?'' \<notin> set p"
  by (auto simp: list_all_iff path_char_def)

lemma read_written_target:
  assumes "m \<in> set methods" "target_text (request_target p)"
    "length (request_target p) \<le> CPPHTTPLIB_REQUEST_URI_MAX_LENGTH"
    "list_all header_ok hs" "length hs \<le> CPPHTTPLIB_HEADER_MAX_COUNT"
  shows "read_head (write_request m p hs body) =
    (let target = takeWhile (\<lambda>c. c \<noteq> CHR ''#'') (request_target p)
     in Read_Head m ''HTTP/1.1'' (decode_path_component (takeWhile (\<lambda>c. c \<noteq> CHR ''?'') target)) hs body)"
proof -
  have "getline (write_request m p hs body) = Some (write_request_line m (request_target p), write_headers hs @ body)"
    by (simp add: write_request_def request_line_read [OF assms(1-3)])
  moreover have "length (takeWhile (\<lambda>c. c \<noteq> CHR ''#'') (request_target p)) \<le> CPPHTTPLIB_REQUEST_URI_MAX_LENGTH"
    using assms(3) length_takeWhile_le [of "\<lambda>c. c \<noteq> CHR ''#''" "request_target p"] by simp
  ultimately show ?thesis
    using parse_written_line [OF assms(1,2)] read_written_headers [OF assms(4), of 0 body] assms(5)
    by (simp add: read_head_def Let_def)
qed

lemma read_written_head:
  assumes "m \<in> set methods" "target_text (encode_path p)" "CHR ''?'' \<notin> set p"
    "length (encode_path p) \<le> CPPHTTPLIB_REQUEST_URI_MAX_LENGTH"
    "list_all header_ok hs" "length hs \<le> CPPHTTPLIB_HEADER_MAX_COUNT"
  shows "read_head (write_request m p hs body) =
    (let target = takeWhile (\<lambda>c. c \<noteq> CHR ''#'') (encode_path p)
     in Read_Head m ''HTTP/1.1'' (decode_path_component (takeWhile (\<lambda>c. c \<noteq> CHR ''?'') target)) hs body)"
  using read_written_target [of m p hs body] assms by (simp add: request_target_plain)

text \<open>A header is found wherever it stands, when no other one has its name.\<close>

lemma header_value_unique:
  assumes "(k, v) \<in> set hs" "equal_ignoring_case key k"
    "\<And>k' v'. (k', v') \<in> set hs \<Longrightarrow> equal_ignoring_case key k' \<Longrightarrow> v' = v"
  shows "header_value key hs = Some v"
proof -
  from assms(1,2) obtain h where h: "find (\<lambda>(k, v). equal_ignoring_case key k) hs = Some h"
    by (metis (no_types, lifting) case_prodI find_None_iff not_Some_eq)
  then have "h \<in> set hs" "equal_ignoring_case key (fst h)" by (auto simp: find_Some_iff) (metis nth_mem)
  then have "snd h = v" using assms(3) [of "fst h" "snd h"] by simp
  with h show ?thesis by (simp add: header_value_def)
qed

lemma header_value_none: "(\<And>k v. (k, v) \<in> set hs \<Longrightarrow> \<not> equal_ignoring_case key k) \<Longrightarrow> header_value key hs = None"
  by (auto simp: header_value_def find_None_iff)

definition client_names :: "string list" where
  "client_names = [''Connection'', ''Host'', ''Accept'', ''Accept-Encoding'', ''User-Agent'', ''Content-Type'']"

lemma client_names_differ: "k \<in> set client_names \<Longrightarrow> \<not> equal_ignoring_case ''Content-Length'' k"
proof -
  have "list_all (\<lambda>k. \<not> equal_ignoring_case ''Content-Length'' k) client_names" by code_simp
  then show "k \<in> set client_names \<Longrightarrow> ?thesis" by (simp add: list_all_iff)
qed

lemma to_string_short: "n < 10 ^ k \<Longrightarrow> 0 < k \<Longrightarrow> length (to_string n) \<le> k"
proof (induction n arbitrary: k rule: to_string.induct)
  case (1 n)
  show ?case
  proof (cases "n < 10")
    case True
    with 1 show ?thesis by (subst to_string.simps) simp
  next
    case False
    with 1 obtain j where k: "k = Suc j" "0 < j" by (cases k; cases "k = 1") auto
    with 1 False have "n div 10 < 10 ^ j" by (simp add: less_mult_imp_div_less mult.commute)
    with 1 False k have "length (to_string (n div 10)) \<le> j" by blast
    with False k show ?thesis by (subst to_string.simps) simp
  qed
qed

definition host_ok :: "string \<Rightarrow> bool" where
  "host_ok host \<longleftrightarrow> is_field_value host \<and> CHR ''%'' \<notin> set host \<and> length host \<le> 255"

lemma number_header:
  assumes "n < 2 ^ 64"
  shows "header_ok (''Content-Length'', to_string n)" "CHR ''%'' \<notin> set (to_string n)"
proof -
  have d: "\<forall>c \<in> set (to_string n). is_digit c" using to_string_digits [of n] by (simp add: list_all_iff)
  then show percent: "CHR ''%'' \<notin> set (to_string n)" by (auto simp: is_digit_def)
  have "\<forall>c \<in> set (to_string n). is_field_vchar c" using d by (auto simp: is_field_vchar_def is_digit_def code_def)
  moreover have "set (butlast (tl (to_string n))) \<subseteq> set (to_string n)"
    by (metis in_set_butlastD list.sel(2) list.set_sel(2) subsetI)
  ultimately have "is_field_value (to_string n)"
    by (auto simp: is_field_value_def list_all_iff)
  moreover have "is_field_name ''Content-Length''" by code_simp
  moreover have "length (to_string n) \<le> 20" using assms by (intro to_string_short) simp_all
  ultimately show "header_ok (''Content-Length'', to_string n)" using percent
    by (simp add: header_ok_def CPPHTTPLIB_HEADER_MAX_LENGTH_def)
qed

lemma fixed_headers:
  "list_all header_ok [(''Connection'', ''close''), (''Accept'', ''*/*''), (''Accept-Encoding'', []),
     (''User-Agent'', ''cpp-httplib/0.28.0''), (''Content-Type'', ''application/json''), (''Content-Length'', ''0'')]"
  by code_simp

lemma client_headers_ok:
  assumes "host_ok host" "length (req_body req) < 2 ^ 64"
  shows "list_all header_ok (client_headers host req)"
proof -
  have "is_field_name ''Host''" by code_simp
  then have "header_ok (''Host'', host)" using assms(1)
    by (simp add: host_ok_def header_ok_def CPPHTTPLIB_HEADER_MAX_LENGTH_def)
  with fixed_headers number_header(1) [OF assms(2)] show ?thesis by (simp add: client_headers_def)
qed

lemma client_header_names:
  "(k, v) \<in> set (client_headers host req) \<Longrightarrow> k \<in> set client_names \<or> k = ''Content-Length'' \<and>
     (req_body req \<noteq> [] \<and> v = to_string (length (req_body req)) \<or> req_body req = [] \<and> req_method req = ''POST'' \<and> v = ''0'')"
  by (auto simp: client_headers_def client_names_def split: if_splits)

lemma client_content_length:
  assumes "mset hs = mset (client_headers host req)" "length (req_body req) < 2 ^ 64"
  shows "content_length hs =
    (if req_body req \<noteq> [] \<or> req_method req = ''POST'' then Some (Some (length (req_body req))) else None)"
proof -
  have hs: "set hs = set (client_headers host req)" using assms(1) by (rule mset_eq_setD)
  have self: "equal_ignoring_case ''Content-Length'' ''Content-Length''" by code_simp
  show ?thesis
  proof (cases "req_body req \<noteq> [] \<or> req_method req = ''POST''")
    case True
    let ?v = "if req_body req \<noteq> [] then to_string (length (req_body req)) else ''0''"
    have "(''Content-Length'', ?v) \<in> set hs" unfolding hs using True by (auto simp: client_headers_def)
    then have "header_value ''Content-Length'' hs = Some ?v"
      by (rule header_value_unique [OF _ self])
        (use client_header_names client_names_differ hs in \<open>fastforce\<close>)
    moreover have "decimal_value 0 ''0'' = 0" "is_digit (CHR ''0'')" by code_simp+
    ultimately show ?thesis using True to_string_digits assms(2) by (auto simp: content_length_def)
  next
    case False
    then have "header_value ''Content-Length'' hs = None"
      by (intro header_value_none) (use client_header_names client_names_differ hs in fastforce)
    with False show ?thesis by (simp add: content_length_def)
  qed
qed

lemma client_headers_read:
  assumes "mset hs = mset (client_headers host req)" "host_ok host" "length (req_body req) < 2 ^ 64"
  shows "list_all header_ok hs" "length hs \<le> CPPHTTPLIB_HEADER_MAX_COUNT"
proof -
  have "set hs = set (client_headers host req)" using assms(1) by (rule mset_eq_setD)
  with client_headers_ok [OF assms(2,3)] show "list_all header_ok hs" by (simp add: list_all_iff)
  have "length hs = length (client_headers host req)" using assms(1) by (rule mset_eq_length)
  then show "length hs \<le> CPPHTTPLIB_HEADER_MAX_COUNT"
    by (simp add: client_headers_def CPPHTTPLIB_HEADER_MAX_COUNT_def)
qed

text \<open>No other header is sent, whatever the order.\<close>

lemma client_header_absent:
  assumes "mset hs = mset (client_headers host req)"
    "list_all (\<lambda>k. \<not> equal_ignoring_case key k) (''Content-Length'' # client_names)"
  shows "header_value key hs = None" "get_header_value hs key = []"
proof -
  have "set hs = set (client_headers host req)" using assms(1) by (rule mset_eq_setD)
  then show "header_value key hs = None" using assms(2) client_header_names
    by (intro header_value_none) (fastforce simp: list_all_iff)
  then show "get_header_value hs key = []" by (simp add: get_header_value_def)
qed

lemma client_connection_close:
  assumes "mset hs = mset (client_headers host req)"
  shows "get_header_value hs ''Connection'' = ''close''"
proof -
  have hs: "set hs = set (client_headers host req)" using assms by (rule mset_eq_setD)
  have "list_all (\<lambda>k. \<not> equal_ignoring_case ''Connection'' k)
      [''Host'', ''Accept'', ''Accept-Encoding'', ''User-Agent'', ''Content-Type'', ''Content-Length'']" by code_simp
  then have "v' = ''close''" if "(k', v') \<in> set hs" "equal_ignoring_case ''Connection'' k'" for k' v'
    using that hs by (auto simp: client_headers_def split: if_splits)
  moreover have "equal_ignoring_case ''Connection'' ''Connection''" by code_simp
  moreover have "(''Connection'', ''close'') \<in> set hs" using hs by (simp add: client_headers_def)
  ultimately have "header_value ''Connection'' hs = Some ''close''"
    by (intro header_value_unique) blast+
  moreover have "takeWhile (\<lambda>c. code c \<noteq> 0) ''close'' = ''close''" by code_simp
  ultimately show ?thesis by (simp only: get_header_value_def option.case)
qed

lemma client_body_read:
  assumes "mset hs = mset (client_headers host req)" "length (req_body req) < 2 ^ 64"
    "req_method req = ''GET'' \<and> req_body req = [] \<or> req_method req = ''POST''"
  shows "(if expect_content (req_method req) hs then read_content hs (req_body req @ later) else (Inr [], req_body req @ later))
    = (Inr (req_body req), later)"
proof -
  have "list_all (\<lambda>k. \<not> equal_ignoring_case ''Transfer-Encoding'' k) (''Content-Length'' # client_names)"
    "list_all (\<lambda>k. \<not> equal_ignoring_case ''Content-Encoding'' k) (''Content-Length'' # client_names)" by code_simp+
  note absent = this [THEN client_header_absent(2) [OF assms(1)]]
  have "\<not> is_chunked_transfer_encoding hs" "\<not> unsupported_encoding hs"
    by (simp_all add: is_chunked_transfer_encoding_def unsupported_encoding_def absent equal_ignoring_case_def)
  then show ?thesis using assms(3) client_content_length [OF assms(1,2)]
    by (auto simp: expect_content_def read_content_def read_body_def read_content_with_length_def)
qed

text \<open>The client leaves the number sign alone; what follows it stays in the target.\<close>

lemma encoded_fragment:
  assumes "list_all path_char p" "list_all path_char q" "p \<noteq> []"
  shows "encode_path (p @ CHR ''#'' # q) = encode_path p @ CHR ''#'' # encode_path q"
    and "target_text (encode_path (p @ CHR ''#'' # q))"
proof -
  have number: "encode_char (CHR ''#'') = ''#''" "code (CHR ''#'') = 35" by code_simp+
  show e: "encode_path (p @ CHR ''#'' # q) = encode_path p @ CHR ''#'' # encode_path q"
    using assms(1) by (induction p) (simp_all add: number path_char_def)
  have "\<forall>c \<in> set (encode_path q). code c \<notin> {0, 9, 10, 13, 32}" using encode_path_chars [OF assms(2)] by blast
  moreover have "target_text (encode_path p)" by (rule encoded_target [OF assms(1,3)])
  moreover have "code (CHR ''#'') \<notin> {0, 9, 10, 13, 32}" by code_simp
  ultimately show "target_text (encode_path (p @ CHR ''#'' # q))"
    unfolding e target_text_def by auto
qed

lemma fragment_head:
  assumes "list_all path_char p" "list_all path_char q" "p \<noteq> []"
    "length (encode_path (p @ CHR ''#'' # q)) \<le> CPPHTTPLIB_REQUEST_URI_MAX_LENGTH"
    "host_ok host" "mset hs = mset (client_headers host (http_get path))"
  shows "read_head (write_request ''GET'' (p @ CHR ''#'' # q) hs []) = Read_Head ''GET'' ''HTTP/1.1'' p hs []"
proof -
  have body: "length (req_body (http_get path)) < 2 ^ 64" by (simp add: http_get_def)
  have "''GET'' \<in> set methods" by (simp add: methods_def)
  have "CHR ''?'' \<notin> set (p @ CHR ''#'' # q)" using assms(1,2) [THEN path_no_question] by simp
  from read_written_head [OF \<open>''GET'' \<in> set methods\<close> encoded_fragment(2) [OF assms(1-3)] this assms(4) client_headers_read [OF assms(6,5) body], of "[]"]
  show ?thesis
    by (simp only: encoded_fragment(1) [OF assms(1-3)] encoded_whole [OF assms(1)] decode_encode_path [OF assms(1)] Let_def)
qed

text \<open>A request for the server's path, as the client writes it.\<close>

definition client_request :: "string \<Rightarrow> request \<Rightarrow> bool" where
  "client_request host req \<longleftrightarrow>
     (req_method req = ''GET'' \<and> req_body req = [] \<or> req_method req = ''POST'') \<and>
     list_all path_char (req_path req) \<and> req_path req \<noteq> [] \<and>
     length (encode_path (req_path req)) \<le> CPPHTTPLIB_REQUEST_URI_MAX_LENGTH \<and>
     host_ok host \<and> length (req_body req) < 2 ^ 64"

lemma client_request_head:
  assumes "client_request host req" "mset hs = mset (client_headers host req)"
  shows "read_head (write_request (req_method req) (req_path req) hs (req_body req)) =
    Read_Head (req_method req) ''HTTP/1.1'' (req_path req) hs (req_body req)"
proof -
  have "req_method req \<in> set methods" using assms(1) by (auto simp: methods_def client_request_def)
  moreover have path: "list_all path_char (req_path req)" "req_path req \<noteq> []"
    "length (encode_path (req_path req)) \<le> CPPHTTPLIB_REQUEST_URI_MAX_LENGTH"
    "host_ok host" "length (req_body req) < 2 ^ 64" using assms(1) by (simp_all add: client_request_def)
  ultimately show ?thesis
    using read_written_head [OF _ encoded_target [OF path(1,2)] path_no_question [OF path(1)] path(3) client_headers_read [OF assms(2) path(4,5)],
        of "req_method req" "req_body req"]
    by (simp only: encoded_whole [OF path(1)] decode_encode_path [OF path(1)] Let_def)
qed

section \<open>Properties\<close>

text \<open>
  A request of the program's HTTP client is read by the server as the same method, path and
  body, in whatever order the client's map yields its headers, for paths without percent and
  question marks, fragments, tabs and null characters; blanks and bytes above 127 survive by
  percent encoding.
\<close>

theorem http_request_roundtrip:
  assumes "client_request host req" "mset hs = mset (client_headers host req)"
  shows "read_request (write_request (req_method req) (req_path req) hs (req_body req)) = Some req"
  using client_request_head [OF assms] client_body_read [OF assms(2), of "[]"] assms(1)
  by (auto simp: read_request_def client_request_def split: if_splits)

lemma http_request_roundtrip_witness:
  "read_request (write_request ''POST'' ''/signal/a b'' (rev (client_headers ''h:3000'' (http_post ''/signal/a b'' ''{}''))) ''{}'')
     = Some (http_post ''/signal/a b'' ''{}'')"
proof -
  let ?r = "http_post ''/signal/a b'' ''{}''"
  have r: "req_method ?r = ''POST''" "req_path ?r = ''/signal/a b''" "req_body ?r = ''{}''"
    by (simp_all add: http_post_def)
  have "list_all path_char (req_path ?r)" "length (encode_path (req_path ?r)) \<le> CPPHTTPLIB_REQUEST_URI_MAX_LENGTH"
    "host_ok ''h:3000''" unfolding r by code_simp+
  moreover have "req_path ?r \<noteq> []" "length (req_body ?r) < 2 ^ 64" unfolding r by simp_all
  ultimately have "client_request ''h:3000'' ?r" unfolding client_request_def by (intro conjI disjI2 r)
  moreover have "mset (rev (client_headers ''h:3000'' ?r)) = mset (client_headers ''h:3000'' ?r)" by (rule mset_rev)
  ultimately have "read_request (write_request (req_method ?r) (req_path ?r) (rev (client_headers ''h:3000'' ?r)) (req_body ?r)) = Some ?r"
    by (rule http_request_roundtrip)
  then show ?thesis unfolding r .
qed

end
