(* ===== verification/Http_Exchange.thy ===== *)
theory Http_Exchange
  imports Http_Connection Http_Roundtrip Central_Properties
begin

text \<open>
  The program's client and the central server over a connection: what the client gets back is what the
  server's handlers answered, so that the requests as values of the other theories stand for requests
  as text.
\<close>

section \<open>The server reads the client\<close>

lemma client_header_present:
  assumes "mset hs = mset (client_headers host req)" "(k, v) \<in> set (client_headers host req)"
    "equal_ignoring_case k k" "\<And>k' v'. (k', v') \<in> set (client_headers host req) \<Longrightarrow> equal_ignoring_case k k' \<Longrightarrow> v' = v"
  shows "get_header_value hs k = takeWhile (\<lambda>c. code c \<noteq> 0) v"
proof -
  have hs: "set hs = set (client_headers host req)" using assms(1) by (rule mset_eq_setD)
  have "header_value k hs = Some v"
    using assms(2) unfolding hs [symmetric]
    by (rule header_value_unique [OF _ assms(3)]) (use assms(4) hs in blast)
  then show ?thesis by (simp add: get_header_value_def)
qed

lemma client_accept:
  assumes "mset hs = mset (client_headers host req)"
  shows "get_header_value hs ''Accept'' = ''*/*''"
proof -
  have "list_all (\<lambda>k. \<not> equal_ignoring_case ''Accept'' k)
      [''Host'', ''Connection'', ''Accept-Encoding'', ''User-Agent'', ''Content-Type'', ''Content-Length'']" by code_simp
  then have "v' = ''*/*''" if "(k', v') \<in> set (client_headers host req)" "equal_ignoring_case ''Accept'' k'" for k' v'
    using that by (auto simp: client_headers_def split: if_splits)
  moreover have "equal_ignoring_case ''Accept'' ''Accept''" by code_simp
  moreover have "(''Accept'', ''*/*'') \<in> set (client_headers host req)" by (simp add: client_headers_def)
  ultimately have "get_header_value hs ''Accept'' = takeWhile (\<lambda>c. code c \<noteq> 0) ''*/*''"
    by (intro client_header_present [OF assms]) blast+
  moreover have "takeWhile (\<lambda>c. code c \<noteq> 0) ''*/*'' = ''*/*''" by code_simp
  ultimately show ?thesis by (simp only:)
qed

lemma client_content_type:
  assumes "mset hs = mset (client_headers host req)"
  shows "get_header_value hs ''Content-Type'' \<in> {[], ''application/json''}"
proof (cases "(''Content-Type'', ''application/json'') \<in> set (client_headers host req)")
  case True
  have "list_all (\<lambda>k. \<not> equal_ignoring_case ''Content-Type'' k)
      [''Host'', ''Connection'', ''Accept-Encoding'', ''User-Agent'', ''Accept'', ''Content-Length'']" by code_simp
  then have "v' = ''application/json''"
    if "(k', v') \<in> set (client_headers host req)" "equal_ignoring_case ''Content-Type'' k'" for k' v'
    using that by (auto simp: client_headers_def split: if_splits)
  moreover have "equal_ignoring_case ''Content-Type'' ''Content-Type''" by code_simp
  ultimately have "get_header_value hs ''Content-Type'' = takeWhile (\<lambda>c. code c \<noteq> 0) ''application/json''"
    using True by (intro client_header_present [OF assms]) blast+
  moreover have "takeWhile (\<lambda>c. code c \<noteq> 0) ''application/json'' = ''application/json''" by code_simp
  ultimately show ?thesis by (simp only: insert_iff simp_thms)
next
  case False
  have "list_all (\<lambda>k. \<not> equal_ignoring_case ''Content-Type'' k)
      [''Host'', ''Connection'', ''Accept-Encoding'', ''User-Agent'', ''Accept'', ''Content-Length'']" by code_simp
  moreover have "set hs = set (client_headers host req)" using assms by (rule mset_eq_setD)
  ultimately have "header_value ''Content-Type'' hs = None" using False
    by (intro header_value_none) (auto simp: client_headers_def split: if_splits)
  then show ?thesis by (simp add: get_header_value_def)
qed

text \<open>The client asks for no ranges, no interim response, and sends neither a form nor form fields.\<close>

lemma client_plain:
  assumes "mset hs = mset (client_headers host req)"
  shows "request_ranges hs = Some []" "interim hs = []" "\<not> is_multipart_form_data hs" "\<not> is_form_urlencoded hs"
    "parse_accept_header stod (get_header_value hs ''Accept'') = Accepted [''*/*'']"
proof -
  have "list_all (\<lambda>k. \<not> equal_ignoring_case ''Range'' k) (''Content-Length'' # client_names)"
    "list_all (\<lambda>k. \<not> equal_ignoring_case ''Expect'' k) (''Content-Length'' # client_names)" by code_simp+
  note absent = this [THEN client_header_absent(1) [OF assms]] this [THEN client_header_absent(2) [OF assms]]
  have types: "take 19 [] \<noteq> ''multipart/form-data''" "take 19 ''application/json'' \<noteq> ''multipart/form-data''"
    "take 33 [] \<noteq> ''application/x-www-form-urlencoded''"
    "take 33 ''application/json'' \<noteq> ''application/x-www-form-urlencoded''" "[] \<noteq> ''100-continue''" by code_simp+
  show "request_ranges hs = Some []" "interim hs = []" using absent types by (simp_all add: request_ranges_def interim_def)
  show "\<not> is_multipart_form_data hs" "\<not> is_form_urlencoded hs"
    using client_content_type [OF assms] types by (auto simp: is_multipart_form_data_def is_form_urlencoded_def)
  have "occurs '',,'' ''*/*'' = False" "quality_position ''*/*'' = 3" "split_pieces (CHR '','') ''*/*'' = [''*/*'']"
    by code_simp+
  then show "parse_accept_header stod (get_header_value hs ''Accept'') = Accepted [''*/*'']"
    unfolding client_accept [OF assms]
    by (simp add: parse_accept_header_def accept_entry_def entry_quality_def sort_entries_def isnan_one)
qed

lemma client_content_read:
  assumes "mset hs = mset (client_headers host req)" "length (req_body req) < 2 ^ 64"
    "req_method req = ''GET'' \<and> req_body req = [] \<or> req_method req = ''POST''"
  shows "(if expect_content (req_method req) hs then read_request_content cuts hs (req_body req @ later)
      else (Inr ([], []), req_body req @ later)) = (Inr (req_body req, []), later)"
  using client_body_read [OF assms, of later] client_plain(3,4) [OF assms(1)]
  by (auto simp: read_request_content_def split: if_splits)

text \<open>A request of the client is routed with what it meant, and its connection is closed after the answer.\<close>

lemma served_once:
  assumes "read_head s = Read_Head (req_method req) ''HTTP/1.1'' (req_path req) hs (req_body req)"
    "mset hs = mset (client_headers host req)" "length (req_body req) < 2 ^ 64"
    "req_method req = ''GET'' \<and> req_body req = [] \<or> req_method req = ''POST''"
  shows "serve_once lib env order False s c =
      (case route_request env req c of
         Inl e \<Rightarrow> Crash e
       | Inr (res, c1) \<Rightarrow> Round (write_response order True (req_method req) res) True [] c1)"
proof -
  have close: "wants_close ''HTTP/1.1'' hs" using client_connection_close [OF assms(2)] by (simp add: wants_close_def)
  have req: "\<lparr>req_method = req_method req, req_path = req_path req, req_body = req_body req\<rparr> = req" by simp
  show ?thesis
    unfolding serve_once_def assms(1) reading.case Let_def client_connection_close [OF assms(2)]
      client_content_read [OF assms(2-4), of _ "[]", unfolded append_Nil2] client_plain [OF assms(2)]
      prod.case sum.case accepted.case option.case req answer_without_ranges
    using close by (simp split: sum.split prod.split)
qed

lemma keep_alive_round:
  "0 < n \<Longrightarrow> process_server_socket_core n (True # alive) lib env order s c =
     (case serve_once lib env order (n = 1) s c of
        No_Round \<Rightarrow> Some (Inr ([], c))
      | Undefined_Behaviour \<Rightarrow> None
      | Crash e \<Rightarrow> Some (Inl e)
      | Round out closed rest c1 \<Rightarrow>
          if closed then Some (Inr (out, c1))
          else map_option (map_sum id (map_prod ((@) out) id))
                 (process_server_socket_core (n - 1) alive lib env order rest c1))"
  by (cases n) (auto split: round.split)

lemma served_from_head:
  assumes "read_head s = Read_Head (req_method req) ''HTTP/1.1'' (req_path req) hs (req_body req)"
    "mset hs = mset (client_headers host req)" "length (req_body req) < 2 ^ 64"
    "req_method req = ''GET'' \<and> req_body req = [] \<or> req_method req = ''POST''"
  shows "process_and_close_socket [True] lib env order s c =
    Some (case route_request env req c of
            Inl e \<Rightarrow> Inl e
          | Inr (res, c1) \<Rightarrow> Inr (write_response order True (req_method req) res, c1))"
proof -
  show ?thesis using served_once [OF assms, of lib env order c]
    by (simp add: process_and_close_socket_def CPPHTTPLIB_KEEPALIVE_MAX_COUNT_def keep_alive_round split: sum.split prod.split)
qed

section \<open>The client reads the server\<close>

definition statuses :: "int list" where "statuses = [200, 201, 400, 404, 500]"

definition media_types :: "string list" where "media_types = [[], ''text/plain'', ''application/json'']"

lemma status_line_read:
  assumes "status \<in> set statuses"
  shows "read_response_line m (write_response_line status @ s) = Some (status, s)"
proof -
  let ?l = "\<lambda>status. ''HTTP/1.1 '' @ to_string (nat status) @ '' '' @ status_message status"
  have "list_all (\<lambda>status. CHR 0x0A \<notin> set (?l status) \<and> length (?l status) < 100
      \<and> map_option (fst \<circ> snd) (match_response_line (?l status @ CRLF)) = Some status \<and> status \<noteq> 100) statuses"
    by code_simp
  then have l: "CHR 0x0A \<notin> set (?l status)" "length (?l status) < 100" "status \<noteq> 100"
    "map_option (fst \<circ> snd) (match_response_line (?l status @ CRLF)) = Some status"
    using assms unfolding list_all_iff by blast+
  have "write_response_line status @ s = ?l status @ CRLF @ s" by (simp add: write_response_line_def)
  then have "getline (write_response_line status @ s) = Some (?l status @ CRLF, s)"
    using getline_line [OF l(1), of s] l(2) by (simp add: CPPHTTPLIB_MAX_LINE_LENGTH_def)
  with l(3,4) show ?thesis by (auto simp: read_response_line_def skip_continue.simps)
qed

definition plain_response :: "response \<Rightarrow> bool" where
  "plain_response res \<longleftrightarrow>
     res_status res \<in> set statuses \<and> res_content_type res \<in> set media_types \<and> length (res_body res) < 2 ^ 64"

lemma response_headers_ok:
  assumes "plain_response res"
  shows "list_all header_ok (response_headers close m res)" "length (response_headers close m res) \<le> 5"
proof -
  have "list_all (\<lambda>t. header_ok (''Content-Type'', t)) media_types" by code_simp
  then have "header_ok (''Content-Type'', res_content_type res)"
    using assms by (simp add: plain_response_def list_all_iff)
  moreover have "header_ok (''Connection'', ''close'')" "header_ok (''Accept-Ranges'', ''bytes'')"
    "header_ok (''Keep-Alive'', ''timeout='' @ to_string CPPHTTPLIB_KEEPALIVE_TIMEOUT_SECOND @ '', max=''
       @ to_string CPPHTTPLIB_KEEPALIVE_MAX_COUNT)" by code_simp+
  moreover have "header_ok (''Content-Length'', to_string (length (res_body res)))"
    using assms number_header(1) by (simp add: plain_response_def)
  ultimately show "list_all header_ok (response_headers close m res)" by (simp add: response_headers_def)
  show "length (response_headers close m res) \<le> 5" by (simp add: response_headers_def)
qed

lemma response_header_names:
  assumes "(k, v) \<in> set (response_headers close m res)"
  shows "k = ''Content-Type'' \<and> v = res_content_type res \<or> k = ''Content-Length'' \<and> v = to_string (length (res_body res))
    \<or> k \<in> set [''Connection'', ''Keep-Alive'', ''Accept-Ranges'']"
  using assms by (auto simp: response_headers_def split: if_splits)

definition response_names :: "string list" where
  "response_names = [''Content-Type'', ''Content-Length'', ''Connection'', ''Keep-Alive'', ''Accept-Ranges'']"

text \<open>Of two names of a response only equal ones are equal without case.\<close>

lemma response_names_differ:
  "list_all (\<lambda>a. list_all (\<lambda>b. equal_ignoring_case a b \<longleftrightarrow> a = b) response_names) response_names"
  by code_simp

lemma response_header_absent:
  assumes "set hs = set (response_headers close m res)" "list_all (\<lambda>k. \<not> equal_ignoring_case key k) response_names"
  shows "header_value key hs = None"
  using assms response_header_names [of _ _ close m res]
  by (intro header_value_none) (fastforce simp: list_all_iff response_names_def)

lemma response_header_value:
  assumes "set hs = set (response_headers close m res)" "(k, v) \<in> set (response_headers close m res)"
    "k \<in> {''Content-Type'', ''Content-Length''}"
  shows "header_value k hs = Some v"
proof -
  have k: "k \<in> set response_names" using assms(3) by (auto simp: response_names_def)
  have eq: "equal_ignoring_case k k' \<longleftrightarrow> k = k'" if "(k', v') \<in> set (response_headers close m res)" for k' v'
  proof -
    have "k' \<in> set response_names" using response_header_names [OF that] by (auto simp: response_names_def)
    then show ?thesis using response_names_differ k unfolding list_all_iff by blast
  qed
  have same: "v' = v" if "(k, v') \<in> set (response_headers close m res)" for v'
    using that assms(2,3) response_header_names [OF that] response_header_names [OF assms(2)] by auto
  show ?thesis
    by (rule header_value_unique [of k v]) (use assms(1,2) eq same in blast)+
qed

lemma response_body_read:
  assumes "set hs = set (response_headers close m res)" "plain_response res"
  shows "fst (read_body hs (res_body res)) = Inr (res_body res)"
    and "get_header_value hs ''Content-Type'' = res_content_type res"
proof -
  have "list_all (\<lambda>k. \<not> equal_ignoring_case ''Transfer-Encoding'' k) response_names"
    "list_all (\<lambda>k. \<not> equal_ignoring_case ''Content-Encoding'' k) response_names" by code_simp+
  from this [THEN response_header_absent [OF assms(1)]]
  have absent: "get_header_value hs ''Transfer-Encoding'' = []" "get_header_value hs ''Content-Encoding'' = []"
    by (simp_all add: get_header_value_def)
  have "header_value ''Content-Length'' hs = Some (to_string (length (res_body res)))"
    by (rule response_header_value [OF assms(1)]) (simp_all add: response_headers_def)
  moreover have "length (res_body res) < 2 ^ 64" using assms(2) by (simp add: plain_response_def)
  ultimately have "content_length hs = Some (Some (length (res_body res)))"
    using to_string_digits [of "length (res_body res)"] by (simp add: content_length_def)
  then show "fst (read_body hs (res_body res)) = Inr (res_body res)" using absent
    by (simp add: read_body_def unsupported_encoding_def is_chunked_transfer_encoding_def equal_ignoring_case_def
        read_content_with_length_def)
  show "get_header_value hs ''Content-Type'' = res_content_type res"
  proof (cases "res_content_type res = []")
    case True
    have "list_all (\<lambda>k. equal_ignoring_case ''Content-Type'' k \<longrightarrow> k = ''Content-Type'') response_names"
      using response_names_differ by (simp add: list_all_iff response_names_def)
    then have "header_value ''Content-Type'' hs = None" using True assms(1)
      by (intro header_value_none) (auto simp: response_headers_def response_names_def split: if_splits)
    with True show ?thesis by (simp add: get_header_value_def)
  next
    case False
    then have "header_value ''Content-Type'' hs = Some (res_content_type res)"
      by (intro response_header_value [OF assms(1)]) (simp_all add: response_headers_def)
    moreover have "list_all (\<lambda>t. takeWhile (\<lambda>c. code c \<noteq> 0) t = t) media_types" by code_simp
    then have "takeWhile (\<lambda>c. code c \<noteq> 0) (res_content_type res) = res_content_type res"
      using assms(2) unfolding plain_response_def list_all_iff by blast
    ultimately show ?thesis by (simp only: get_header_value_def option.case)
  qed
qed

lemma response_read:
  assumes "plain_response (complete_response res)" "m \<in> {''GET'', ''POST''}" "\<And>hs. mset (order hs) = mset hs"
  shows "read_response m (write_response order close m res) = Some (complete_response res)"
proof -
  let ?res = "complete_response res"
  let ?hs = "order (response_headers close m ?res)"
  have m: "m \<noteq> ''HEAD''" "m \<noteq> ''CONNECT''" using assms(2) by auto
  have set: "set ?hs = set (response_headers close m ?res)" using assms(3) by (metis mset_eq_setD)
  have len: "length ?hs = length (response_headers close m ?res)" using assms(3) by (metis mset_eq_length)
  have status: "res_status ?res \<in> set statuses" using assms(1) by (simp add: plain_response_def)
  then have keeps: "res_status ?res \<noteq> 204" "res_status ?res \<noteq> 304" by (auto simp: statuses_def)
  have "read_headers 0 (write_headers ?hs @ res_body ?res) = (Some ?hs, res_body ?res)"
    using response_headers_ok [OF assms(1), of close m] set len
    by (intro read_written_headers) (simp_all add: list_all_iff CPPHTTPLIB_HEADER_MAX_COUNT_def)
  moreover have "write_response order close m res =
      write_response_line (res_status ?res) @ write_headers ?hs @ res_body ?res"
    using m by (simp add: write_response_def Let_def)
  ultimately show ?thesis
    using status_line_read [OF status, of m "write_headers ?hs @ res_body ?res"] keeps m
      response_body_read [OF set assms(1)] by (simp add: read_response_def Let_def)
qed

section \<open>What the routes answer\<close>

lemma handler_media:
  assumes "routing env req fresh_response c = (h, r)"
  shows "res_content_type r = []" "h = Some (e, res, c1) \<Longrightarrow> res_content_type res \<in> set media_types"
  using assms
  by (auto simp: routing_def Let_def get_handlers_def post_handlers_def fresh_response_def media_types_def
      handle_lookup_def handle_getfile_def handle_register_def handle_signal_post_def handle_signal_get_def
      handle_health_def set_content_def
      split: if_splits option.splits sum.splits prod.splits fault.splits)

lemma routed_response:
  assumes "route_request env req c = Inr (res, c1)"
  shows "res_status (complete_response res) \<in> set statuses" "res_content_type (complete_response res) \<in> set media_types"
proof -
  have "process_request env req c = Inr (write_response_core req res, c1)"
    using assms by (simp add: process_request_def)
  from process_response [OF this] have "res_status res \<in> {200, 201, 400, 404, 500}"
    using written_response(1) by metis
  then show "res_status (complete_response res) \<in> set statuses"
    by (auto simp: statuses_def complete_response_def error_handler_def set_content_def)
  have "res_content_type res \<in> set media_types" using assms handler_media [of env req c]
    by (auto simp: route_request_def exception_handler_def set_content_def media_types_def
        split: prod.splits option.splits fault.splits if_splits)
  then show "res_content_type (complete_response res) \<in> set media_types"
    by (auto simp: complete_response_def error_handler_def set_content_def media_types_def Let_def)
qed

section \<open>The exchange\<close>

lemma exchange_from_head:
  assumes "read_head s = Read_Head (req_method req) ''HTTP/1.1'' (req_path req) hs (req_body req)"
    "mset hs = mset (client_headers host req)" "length (req_body req) < 2 ^ 64"
    "req_method req = ''GET'' \<and> req_body req = [] \<or> req_method req = ''POST''" "\<And>hs. mset (order hs) = mset hs"
    "\<And>res c1. process_request env req c = Inr (res, c1) \<Longrightarrow> length (res_body res) < 2 ^ 64"
  shows "(case process_and_close_socket [True] lib env order s c of
           Some (Inr (out, c1)) \<Rightarrow> (read_response (req_method req) out, c1)
         | _ \<Rightarrow> (None, c)) = direct env req c"
proof (cases "route_request env req c")
  case (Inl e)
  then show ?thesis by (simp add: served_from_head [OF assms(1-4)] direct_def process_request_def)
next
  case (Inr a)
  obtain res c1 where a: "a = (res, c1)" by (cases a)
  have "write_response_core req res = complete_response res" using assms(4) by (auto simp: write_response_core_def)
  then have process: "process_request env req c = Inr (complete_response res, c1)"
    using Inr a by (simp add: process_request_def)
  have "plain_response (complete_response res)"
    using routed_response Inr a assms(6) [OF process] by (simp add: plain_response_def)
  then have "read_response (req_method req) (write_response order True (req_method req) res) = Some (complete_response res)"
    using assms(4) by (intro response_read assms(5)) auto
  then show ?thesis using Inr a process by (simp add: served_from_head [OF assms(1-4)] direct_def)
qed

lemma fragment_exchange:
  assumes "list_all path_char p" "list_all path_char q" "p \<noteq> []"
    "length (encode_path (p @ CHR ''#'' # q)) \<le> CPPHTTPLIB_REQUEST_URI_MAX_LENGTH"
    "host_ok host" "\<And>hs. mset (client_order hs) = mset hs" "\<And>hs. mset (server_order hs) = mset hs"
    "\<And>res c1. process_request env (http_get p) c = Inr (res, c1) \<Longrightarrow> length (res_body res) < 2 ^ 64"
  shows "via_text lib env host client_order server_order (http_get (p @ CHR ''#'' # q)) c = direct env (http_get p) c"
proof -
  have get: "req_method (http_get p) = ''GET''" "req_path (http_get p) = p" "req_body (http_get p) = []" for p
    by (simp_all add: http_get_def)
  have headers: "client_headers host (http_get q) = client_headers host (http_get p)" for q
    by (simp add: client_headers_def get)
  have head: "read_head (write_request ''GET'' (p @ CHR ''#'' # q) (client_order (client_headers host (http_get p))) []) =
      Read_Head (req_method (http_get p)) ''HTTP/1.1'' (req_path (http_get p))
        (client_order (client_headers host (http_get p))) (req_body (http_get p))"
    unfolding get by (rule fragment_head [OF assms(1-5) assms(6)])
  have "length (req_body (http_get p)) < 2 ^ 64"
    "req_method (http_get p) = ''GET'' \<and> req_body (http_get p) = [] \<or> req_method (http_get p) = ''POST''"
    by (simp_all add: get)
  from exchange_from_head [OF head assms(6) this assms(7,8)]
  show ?thesis unfolding via_text_def Let_def get headers [of "p @ CHR ''#'' # q"] .
qed

text \<open>The answer to a lookup is short.\<close>

lemma complete_short:
  assumes "length (res_body res) < 10000" "res_status res \<in> set statuses"
  shows "length (res_body (complete_response res)) < 2 ^ 64"
proof -
  have "list_all (\<lambda>st. length (''Error Status: '' @ to_string (nat st)) < 10000) statuses" by code_simp
  then have "length (''Error Status: '' @ to_string (nat (res_status res))) < 10000"
    using assms(2) unfolding list_all_iff by blast
  then have "length (res_body (complete_response res)) < 10000" using assms(1)
    by (simp add: complete_response_def error_handler_def set_content_def)
  then show ?thesis by simp
qed

lemma lookup_short:
  assumes "process_request env (http_get (''/lookup/'' @ s)) c = Inr (res, c1)"
  shows "length (res_body res) < 2 ^ 64"
proof -
  obtain r where r: "route_request env (http_get (''/lookup/'' @ s)) c = Inr (r, c1)"
      "res = complete_response r"
    using assms by (auto simp: process_request_def bind_result_Inr_iff write_response_core_def http_get_def)
  have "req_method (http_get p) = ''GET''" "req_path (http_get p) = p" for p by (simp_all add: http_get_def)
  then have "length (res_body r) < 10000" using r(1)
    by (auto simp: route_request_def routing_def get_handlers_def match_token_def match_path_def handle_lookup_def
        fresh_response_def set_content_def exception_handler_def BUFSIZ_def
        split: if_splits option.splits sum.splits fault.splits)
  moreover have "res_status r \<in> set statuses"
    using routed_response(1) [OF r(1)] by (auto simp: complete_response_def error_handler_def set_content_def split: if_splits)
  ultimately show ?thesis unfolding r(2) by (rule complete_short)
qed

lemma refused_status: "read_head s = Refused status m rest \<Longrightarrow> status \<in> {400, 414}"
  by (auto simp: read_head_def split: option.splits prod.splits if_splits)

text \<open>A request line and a header that is none.\<close>

lemma refused_header:
  assumes "m \<in> set methods" "target_text t" "parse_header h = None" "CHR 0x0A \<notin> set h" "h \<noteq> []"
    "length h + 2 \<le> CPPHTTPLIB_HEADER_MAX_LENGTH" "length t \<le> CPPHTTPLIB_REQUEST_URI_MAX_LENGTH"
  shows "read_head (write_request_line m t @ h @ CRLF @ s) = Refused 400 m s"
proof -
  have "length h + 2 \<le> CPPHTTPLIB_MAX_LINE_LENGTH"
    using assms(6) by (simp add: CPPHTTPLIB_HEADER_MAX_LENGTH_def CPPHTTPLIB_MAX_LINE_LENGTH_def)
  from getline_line [OF assms(4) this] have "getline (h @ CRLF @ s) = Some (h @ CRLF, s)" .
  then have "read_headers 0 (h @ CRLF @ s) = (None, s)"
    using assms(3,5,6) line_without_end [of h] by (subst read_headers.simps) (simp add: CPPHTTPLIB_HEADER_MAX_COUNT_def)
  then show ?thesis
    using request_line_read [OF assms(1,2,7)] parse_written_line [OF assms(1,2)] by (simp add: read_head_def Let_def)
qed

text \<open>A library for the examples: stable sorting, bodies in one piece.\<close>

definition toy_http_lib :: http_lib where
  "toy_http_lib = \<lparr>http_stod = Map.empty, http_arrange = sort_key fst, http_boundary = ''b'', http_cuts = \<lambda>s. []\<rparr>"

section \<open>Properties\<close>



text \<open>
  C40: The client does not encode a number sign and the server cuts the target there: over a
  connection, whatever the order of the headers, looking up a secret followed by a number sign
  and more text gives the answer, and leaves the server's state, of looking up the secret alone,
  when neither part holds a NUL, a tab, a percent sign, a question mark or a number sign, and
  the target is not too long for the server.
\<close>

theorem fragment_of_secret_ignored:
  assumes "list_all path_char (''/lookup/'' @ secret)" "list_all path_char junk"
    "length (encode_path (''/lookup/'' @ secret @ ''#'' @ junk)) \<le> CPPHTTPLIB_REQUEST_URI_MAX_LENGTH"
    "host_ok host" "\<And>hs. mset (client_order hs) = mset hs" "\<And>hs. mset (server_order hs) = mset hs"
  shows "look_up (via_text lib env host client_order server_order) (secret @ ''#'' @ junk) c = look_up (direct env) secret c"
proof -
  have path: "''/lookup/'' @ secret @ ''#'' @ junk = (''/lookup/'' @ secret) @ CHR ''#'' # junk"
    by (simp only: append_assoc append_Cons append_Nil)
  have "''/lookup/'' @ secret \<noteq> []" by (simp only: append_is_Nil_conv list.distinct simp_thms)
  from fragment_exchange [OF assms(1,2) this assms(3) [unfolded path] assms(4-6) lookup_short]
  show ?thesis by (simp only: look_up_def path)
qed

lemma fragment_of_secret_ignored_witness:
  "look_up (via_text toy_http_lib toy_central_env ''h:3000'' id rev) (''abc'' @ ''#'' @ ''xyz'') toy_central =
     look_up (direct toy_central_env) ''abc'' toy_central"
proof -
  have "host_ok ''h:3000''" "list_all path_char (''/lookup/'' @ ''abc'')" "list_all path_char ''xyz''" by code_simp+
  moreover have "length (encode_path (''/lookup/'' @ ''abc'' @ ''#'' @ ''xyz'')) \<le> CPPHTTPLIB_REQUEST_URI_MAX_LENGTH"
    by code_simp
  ultimately show ?thesis by (intro fragment_of_secret_ignored) simp_all
qed

text \<open>
  The server announces that it closes the connection after it has refused a head, and does
  not: what follows in the stream is served as the next request of the connection.
\<close>

theorem refused_connection_goes_on:
  assumes "read_head s = Refused status m (write_request (req_method req) (req_path req) hs (req_body req))"
    "client_request host req" "mset hs = mset (client_headers host req)"
  shows "process_and_close_socket [True, True] lib env order s c =
      Some (case route_request env req c of
              Inl e \<Rightarrow> Inl e
            | Inr (res, c1) \<Rightarrow>
                Inr (write_response order False m (refusal status) @ write_response order True (req_method req) res, c1))
    \<and> (''Connection'', ''close'') \<in> set (response_headers False m (complete_response (refusal status)))"
proof
  let ?served = "case route_request env req c of
      Inl e \<Rightarrow> Crash e
    | Inr (res, c1) \<Rightarrow> Round (write_response order True (req_method req) res) True [] c1"
  have req: "length (req_body req) < 2 ^ 64" "req_method req = ''GET'' \<and> req_body req = [] \<or> req_method req = ''POST''"
    using assms(2) by (simp_all add: client_request_def)
  have "serve_once lib env order False s c =
      Round (write_response order False m (refusal status)) False
        (write_request (req_method req) (req_path req) hs (req_body req)) c"
    by (simp add: serve_once_def assms(1))
  moreover note served_once [OF client_request_head [OF assms(2,3)] assms(3) req, of lib env order c]
  ultimately show "process_and_close_socket [True, True] lib env order s c =
      Some (case route_request env req c of
              Inl e \<Rightarrow> Inl e
            | Inr (res, c1) \<Rightarrow>
                Inr (write_response order False m (refusal status) @ write_response order True (req_method req) res, c1))"
    by (simp add: process_and_close_socket_def CPPHTTPLIB_KEEPALIVE_MAX_COUNT_def keep_alive_round split: sum.split prod.split)
  show "(''Connection'', ''close'') \<in> set (response_headers False m (complete_response (refusal status)))"
    using refused_status [OF assms(1)]
    by (auto simp: response_headers_def complete_response_def refusal_def error_handler_def set_content_def)
qed

lemma refused_connection_goes_on_witness:
  "\<exists>res. process_and_close_socket [True, True] toy_http_lib toy_central_env rev
       (write_request_line ''GET'' ''/'' @ '': ?'' @ CRLF
         @ write_request ''GET'' ''/health'' (client_headers ''h:3000'' (http_get ''/health'')) []) toy_central =
     Some (Inr (write_response rev False ''GET'' (refusal 400) @ write_response rev True ''GET'' res, toy_central))"
proof -
  let ?r = "http_get ''/health''"
  let ?s = "write_request (req_method ?r) (req_path ?r) (client_headers ''h:3000'' ?r) (req_body ?r)"
  have r: "req_method ?r = ''GET''" "req_path ?r = ''/health''" "req_body ?r = []"
    by (simp_all add: http_get_def)
  have "list_all path_char (req_path ?r)" "length (encode_path (req_path ?r)) \<le> CPPHTTPLIB_REQUEST_URI_MAX_LENGTH"
    "host_ok ''h:3000''" unfolding r by code_simp+
  moreover have "req_path ?r \<noteq> []" "length (req_body ?r) < 2 ^ 64" unfolding r by simp_all
  ultimately have req: "client_request ''h:3000'' ?r" unfolding client_request_def by (intro conjI disjI1 r)
  have "''GET'' \<in> set methods" "target_text ''/''" "parse_header '': ?'' = None" "CHR 0x0A \<notin> set '': ?''"
    "'': ?'' \<noteq> []" "length '': ?'' + 2 \<le> CPPHTTPLIB_HEADER_MAX_LENGTH" "length ''/'' \<le> CPPHTTPLIB_REQUEST_URI_MAX_LENGTH"
    by code_simp+
  from refused_connection_goes_on [OF refused_header [OF this] req refl, of toy_http_lib toy_central_env rev toy_central]
  have "process_and_close_socket [True, True] toy_http_lib toy_central_env rev (write_request_line ''GET'' ''/'' @ '': ?'' @ CRLF @ ?s) toy_central =
      Some (case route_request toy_central_env ?r toy_central of
              Inl e \<Rightarrow> Inl e
            | Inr (res, c1) \<Rightarrow>
                Inr (write_response rev False ''GET'' (refusal 400) @ write_response rev True (req_method ?r) res, c1))"
    by blast
  moreover have "\<exists>res. route_request toy_central_env ?r toy_central = Inr (res, toy_central)"
    by (simp add: route_request_def routing_def http_get_def get_handlers_def match_token_def match_path_def handle_health_def)
  ultimately show ?thesis unfolding r by auto
qed

end
