(* ===== verification/Http_Query_Roundtrip.thy ===== *)
theory Http_Query_Roundtrip
  imports Http_Roundtrip
begin

text \<open>
  The query of a request: what the client writes for parameters is read back by the server, and the
  normalisation of a query changes neither its parameters nor the path before it.
\<close>

section \<open>Percent encoding of components\<close>

lemma hex_digit_plain: "k < 16 \<Longrightarrow> \<not> is_space (''0123456789ABCDEF'' ! k) \<and> ''0123456789ABCDEF'' ! k \<notin> set ''-+''"
proof -
  assume "k < 16"
  moreover have "list_all (\<lambda>c. \<not> is_space c \<and> c \<notin> set ''-+'') ''0123456789ABCDEF''" by code_simp
  ultimately show ?thesis by (simp only: list_all_length) simp
qed

lemma two_digits_whole:
  assumes "\<not> is_space x" "x \<notin> set ''-+''" "is_hex x = Some a" "is_hex y = Some b" "a < 16" "b < 16"
  shows "strtoul16_whole [x, y] = Some (16 * a + b)"
  using assms by (auto simp: strtoul16_whole_def strtoul16_def strtoul_digits_def hex_prefix_def ULONG_MAX_def)

lemma hex_bytes_whole: "n < 256 \<Longrightarrow> strtoul16_whole (hex_bytes n) = Some n"
  using hex_digit_plain [of "n div 16"]
  by (simp add: hex_bytes_def Let_def two_digits_whole is_hex_digit del: nth_Cons_numeral)

lemma hex_bytes_length: "length (hex_bytes n) = 2"
  by (simp add: hex_bytes_def Let_def)

lemma decode_query_hex:
  "n < 256 \<Longrightarrow> decode_query_component b (CHR ''%'' # hex_bytes n @ s) = char_of n # decode_query_component b s"
  by (subst decode_query_component.simps(2)) (simp add: hex_bytes_length hex_bytes_whole)

lemma encode_query_char_cases:
  obtains "encode_query_char True c = [c]" "c \<notin> set ''+%&=#''" "33 \<le> code c \<and> code c \<le> 126"
  | "encode_query_char True c = ''+''" "c = CHR '' ''"
  | "encode_query_char True c = CHR ''%'' # hex_bytes (code c)"
proof -
  let ?L = "''-._~!$()*,;:@/?''" and ?P = "\<lambda>c. c \<notin> set ''+%&=#'' \<and> 33 \<le> code c \<and> code c \<le> 126"
  consider "c = CHR '' ''" | "c = CHR ''+''" | "is_alnum c \<or> c \<in> set ?L \<or> code c = 39" "c \<noteq> CHR '' ''" "c \<noteq> CHR ''+''"
    | "\<not> is_alnum c" "c \<notin> set ?L" "code c \<noteq> 39" "c \<noteq> CHR '' ''" "c \<noteq> CHR ''+''" by blast
  then show thesis
  proof cases
    case 1
    then show ?thesis by (intro that(2)) (simp_all add: encode_query_char_def is_alnum_def is_digit_def code_def)
  next
    case 2
    then show ?thesis
      by (intro that(3)) (simp add: encode_query_char_def is_alnum_def is_digit_def code_def hex_bytes_def)
  next
    case 3
    have "list_all ?P ?L" by code_simp
    moreover have "?P c" if "is_alnum c" using that by (auto simp: is_alnum_def is_digit_def code_def)
    moreover have "?P c" if "code c = 39" using that by (auto simp: code_def)
    ultimately have "?P c" using 3(1) unfolding list_all_iff by blast
    moreover have "encode_query_char True c = [c]" using 3 by (auto simp: encode_query_char_def)
    ultimately show ?thesis by (intro that(1)) simp_all
  next
    case 4
    then show ?thesis by (intro that(3)) (simp add: encode_query_char_def)
  qed
qed

lemma decode_encode_query_char:
  "decode_query_component True (encode_query_char True c @ s) = c # decode_query_component True s"
proof (cases c rule: encode_query_char_cases)
  case 1
  then show ?thesis by (simp add: decode_query_component.simps(2))
next
  case 2
  then show ?thesis by (simp add: decode_query_component.simps(2))
next
  case 3
  then show ?thesis using decode_query_hex [OF code_256 [of c]] by (simp add: code_def)
qed

lemma decode_encode_query: "decode_query_component True (encode_query_component True s) = s"
  by (induction s) (simp_all add: encode_query_component_def decode_encode_query_char)

definition query_text_char :: "char \<Rightarrow> bool" where
  "query_text_char c = (33 \<le> code c \<and> code c \<le> 126 \<and> c \<notin> set ''&=#'')"

lemma encoded_query_chars: "list_all query_text_char (encode_query_component True s)"
proof -
  have hex: "list_all query_text_char (hex_bytes n)" if "n < 256" for n
  proof -
    have "list_all query_text_char ''0123456789ABCDEF''" by code_simp
    then show ?thesis using hex_bytes_chars [OF that] by (auto simp: list_all_iff)
  qed
  have special: "query_text_char (CHR ''+'')" "query_text_char (CHR ''%'')" by code_simp+
  have "list_all query_text_char (encode_query_char True c)" for c
    using hex [OF code_256 [of c]] special
    by (cases c rule: encode_query_char_cases) (auto simp: query_text_char_def)
  then show ?thesis by (induction s) (simp_all add: encode_query_component_def)
qed

lemma encode_query_empty [simp]: "encode_query_component True s = [] \<longleftrightarrow> s = []"
proof -
  have "encode_query_char True c \<noteq> []" for c by (cases c rule: encode_query_char_cases) auto
  then show ?thesis by (cases s) (simp_all add: encode_query_component_def)
qed

lemma decode_query_empty [simp]: "decode_query_component b s = [] \<longleftrightarrow> s = []"
  by (cases s) (auto simp: decode_query_component.simps(2) split: option.split)

section \<open>Pieces\<close>

lemma segments_join: "ps \<noteq> [] \<Longrightarrow> list_all (\<lambda>p. d \<notin> set p) ps \<Longrightarrow> segments d (join_with d ps) = ps"
  by (induction d ps rule: join_with.induct) (simp_all add: segments_end segments_sep)

definition plain_piece :: "char \<Rightarrow> string \<Rightarrow> bool" where
  "plain_piece d p = (p \<noteq> [] \<and> d \<notin> set p \<and> list_all (\<lambda>c. \<not> is_space_or_tab c) p)"

lemma split_join:
  assumes "list_all (plain_piece d) ps"
  shows "split_pieces d (join_with d ps) = ps"
proof (cases "ps = []")
  case True
  then show ?thesis by (simp add: split_pieces_def segments_end trim_def)
next
  case False
  have "list_all (\<lambda>p. d \<notin> set p) ps" using assms by (simp add: list_all_iff plain_piece_def)
  moreover have "map trim ps = ps" using assms by (intro map_idI) (simp add: list_all_iff plain_piece_def trim_plain)
  ultimately show ?thesis using assms False
    by (simp add: split_pieces_def segments_join filter_id_conv list_all_iff plain_piece_def)
qed

lemma query_char_plain: "query_text_char c \<Longrightarrow> c \<noteq> CHR ''&'' \<and> c \<noteq> CHR ''='' \<and> c \<noteq> CHR ''#'' \<and> \<not> is_space_or_tab c
    \<and> code c \<notin> {0, 9, 10, 13, 32}"
  by (auto simp: query_text_char_def is_space_or_tab_def)

lemma encoded_plain:
  "CHR ''&'' \<notin> set (encode_query_component True s)" "CHR ''='' \<notin> set (encode_query_component True s)"
  "c \<in> set (encode_query_component True s) \<Longrightarrow> \<not> is_space_or_tab c"
  using encoded_query_chars [of s] query_char_plain by (fastforce simp: list_all_iff)+

section \<open>Parameters\<close>

definition pair_of_piece :: "string \<Rightarrow> string \<times> string" where
  "pair_of_piece kv =
     (case divide_at (CHR ''='') kv of (key, val) \<Rightarrow> (decode_query_component True key, decode_query_component True val))"

lemma add_param_pair:
  "add_param kv ps = (if fst (pair_of_piece kv) = [] then ps
     else params_emplace (fst (pair_of_piece kv)) (snd (pair_of_piece kv)) ps)"
  by (simp add: add_param_def pair_of_piece_def split: prod.split)

lemma set_emplace [simp]: "set (params_emplace k v ps) = insert (k, v) (set ps)"
  by (induction k v ps rule: params_emplace.induct) auto

lemma emplace_last: "\<forall>l \<in> set (map fst ps). l \<le> k \<Longrightarrow> params_emplace k v ps = ps @ [(k, v)]"
  by (induction k v ps rule: params_emplace.induct) auto

lemma set_first_ones [simp]: "set (first_ones ps) = set ps"
  by (induction ps rule: first_ones.induct) auto

lemma first_ones_distinct: "distinct ps \<Longrightarrow> first_ones ps = ps"
proof (induction ps rule: first_ones.induct)
  case (2 p ps)
  then have "filter (\<lambda>q. q \<noteq> p) ps = ps" by (auto simp: filter_id_conv)
  with 2 show ?case by simp
qed simp

lemma set_fold_params:
  "set (fold add_param kvs ps) = set ps \<union> {p \<in> pair_of_piece ` set kvs. fst p \<noteq> []}"
  by (induction kvs arbitrary: ps) (auto simp: add_param_pair)

lemma set_parse_query:
  "set (parse_query_text s ps) =
     set ps \<union> {p \<in> pair_of_piece ` set (split_pieces (CHR ''&'') s). fst p \<noteq> []}"
  by (simp add: parse_query_text_def set_fold_params)

lemma pair_of_param_text [simp]: "pair_of_piece (param_text kv) = kv"
  by (simp add: pair_of_piece_def param_text_def divide_found encoded_plain decode_encode_query)

lemma fold_sorted_params:
  assumes "sorted (map fst (qs @ ps))" "\<forall>(k, v) \<in> set ps. k \<noteq> []"
  shows "fold add_param (map param_text ps) qs = qs @ ps"
  using assms
proof (induction ps arbitrary: qs)
  case (Cons kv ps)
  have "\<forall>l \<in> set (map fst qs). l \<le> fst kv" using Cons.prems(1) by (auto simp: sorted_append)
  then have "add_param (param_text kv) qs = qs @ [kv]" using Cons.prems(2)
    by (auto simp: add_param_pair emplace_last split: prod.splits)
  with Cons.IH [of "qs @ [kv]"] Cons.prems show ?case by simp
qed simp

lemma param_text_plain: "plain_piece (CHR ''&'') (param_text kv)"
  using encoded_plain by (auto simp: plain_piece_def param_text_def list_all_iff is_space_or_tab_def code_def)

lemma normalize_piece_plain:
  assumes "fst (divide_at (CHR ''='') kv) \<noteq> []"
  shows "plain_piece (CHR ''&'') (normalize_piece kv)"
  using assms encoded_plain
  by (auto simp: plain_piece_def normalize_piece_def list_all_iff is_space_or_tab_def code_def split: prod.splits)

lemma pair_of_normalized: "pair_of_piece (normalize_piece kv) = pair_of_piece kv"
  by (cases "CHR ''=''" kv rule: divide_cases)
    (simp_all add: pair_of_piece_def normalize_piece_def divide_found divide_absent encoded_plain decode_encode_query)

lemma pair_key_empty: "fst (pair_of_piece kv) = [] \<longleftrightarrow> fst (divide_at (CHR ''='') kv) = []"
  by (simp add: pair_of_piece_def split: prod.split)

lemma normalized_pieces:
  "split_pieces (CHR ''&'') (normalize_query_string q) =
     map normalize_piece (filter (\<lambda>kv. fst (divide_at (CHR ''='') kv) \<noteq> []) (split_pieces (CHR ''&'') q))"
  unfolding normalize_query_string_def
  by (rule split_join) (auto simp: list_all_iff normalize_piece_plain)

text \<open>Normalising a query changes no parameter.\<close>

lemma normalized_params: "set (parse_query_text (normalize_query_string q) ps) = set (parse_query_text q ps)"
proof -
  have "{p \<in> pair_of_piece ` set (split_pieces (CHR ''&'') (normalize_query_string q)). fst p \<noteq> []}
      = {p \<in> pair_of_piece ` set (split_pieces (CHR ''&'') q). fst p \<noteq> []}"
    by (auto simp: normalized_pieces pair_of_normalized pair_key_empty [symmetric] image_iff)
  then show ?thesis by (simp only: set_parse_query)
qed

lemma normalized_chars: "x \<in> set (normalize_query_string q) \<Longrightarrow> code x \<notin> {0, 9, 10, 13, 32} \<and> x \<noteq> CHR ''#''"
proof -
  have join: "set (join_with d ps) \<subseteq> insert d (\<Union>p \<in> set ps. set p)" for d ps
    by (induction d ps rule: join_with.induct) auto
  have enc: "code x \<notin> {0, 9, 10, 13, 32} \<and> x \<noteq> CHR ''#''" if "x \<in> set (encode_query_component True s)" for x s
    using that encoded_query_chars [of s] query_char_plain by (auto simp: list_all_iff)
  have "code x \<notin> {0, 9, 10, 13, 32} \<and> x \<noteq> CHR ''#''" if "x \<in> set (normalize_piece kv)" for x kv
    using that enc by (auto simp: normalize_piece_def code_def split: prod.splits if_splits)
  moreover have "code (CHR ''&'') = 38" by (simp add: code_def)
  ultimately show "x \<in> set (normalize_query_string q) \<Longrightarrow> ?thesis"
    using join [of "CHR ''&''"] unfolding normalize_query_string_def by fastforce
qed

section \<open>Order and multiplicity\<close>

text \<open>A map with several pairs to a key is its pairs sorted by key, those of one key as they came.\<close>

lemma emplace_facts:
  "mset (params_emplace k v ps) = add_mset (k, v) (mset ps)"
  "sorted (map fst ps) \<Longrightarrow> sorted (map fst (params_emplace k v ps))"
  "sorted (map fst ps) \<Longrightarrow>
     filter (\<lambda>x. l = fst x) (params_emplace k v ps) = filter (\<lambda>x. l = fst x) ps @ (if l = k then [(k, v)] else [])"
proof -
  show "mset (params_emplace k v ps) = add_mset (k, v) (mset ps)"
    by (induction k v ps rule: params_emplace.induct) auto
  have keys: "set (map fst (params_emplace k v ps)) = insert k (set (map fst ps))" for k v ps
    by (induction k v ps rule: params_emplace.induct) auto
  show "sorted (map fst ps) \<Longrightarrow> sorted (map fst (params_emplace k v ps))"
  proof (induction k v ps rule: params_emplace.induct)
    case (2 k v k' v' ps)
    then show ?case using keys [of k v ps] by auto
  qed simp
  have none: "filter (\<lambda>x. k = fst x) ps = []" if "\<forall>x \<in> set ps. k < fst x" for k and ps :: params
    using that by (induction ps) auto
  show "sorted (map fst ps) \<Longrightarrow>
     filter (\<lambda>x. l = fst x) (params_emplace k v ps) = filter (\<lambda>x. l = fst x) ps @ (if l = k then [(k, v)] else [])"
  proof (induction k v ps rule: params_emplace.induct)
    case (2 k v k' v' ps)
    have "filter (\<lambda>x. k = fst x) ps = []" if "k < k'" using 2(2) that by (intro none) auto
    with 2 show ?case by auto
  qed simp
qed

lemma fold_params_sorted:
  assumes "\<forall>kv \<in> set kvs. fst (pair_of_piece kv) \<noteq> []"
  shows "fold add_param kvs [] = sort_key fst (map pair_of_piece kvs)"
proof -
  have "mset (fold add_param kvs ps) = mset (ps @ map pair_of_piece kvs) \<and> sorted (map fst (fold add_param kvs ps)) \<and>
      (\<forall>l. filter (\<lambda>x. l = fst x) (fold add_param kvs ps) = filter (\<lambda>x. l = fst x) (ps @ map pair_of_piece kvs))"
    if "sorted (map fst ps)" for ps
    using assms that
  proof (induction kvs arbitrary: ps)
    case (Cons kv kvs)
    obtain k v where kv: "pair_of_piece kv = (k, v)" by fastforce
    with Cons.prems have "add_param kv ps = params_emplace k v ps" by (simp add: add_param_pair)
    with Cons.IH [of "params_emplace k v ps"] Cons.prems kv emplace_facts [where ps = ps] show ?case by simp
  qed simp
  from this [of "[]"] show ?thesis by (intro properties_for_sort_key [symmetric]) simp_all
qed

text \<open>The first of each kind.\<close>

definition firsts :: "'a list \<Rightarrow> 'a list" where
  "firsts xs = rev (remdups (rev xs))"

lemma firsts_Cons: "firsts (x # xs) = x # firsts (filter (\<lambda>y. y \<noteq> x) xs)"
proof -
  have "remdups (ys @ [x]) = remdups (filter (\<lambda>y. y \<noteq> x) ys) @ [x]" for ys
    by (induction ys) auto
  then show ?thesis by (simp add: firsts_def rev_filter)
qed

lemma firsts_of_pieces: "inj_on f (set ps) \<Longrightarrow> map f (first_ones ps) = firsts (map f ps)"
proof (induction ps rule: first_ones.induct)
  case (2 p ps)
  have "filter (\<lambda>y. y \<noteq> f p) (map f ps) = map f (filter (\<lambda>q. q \<noteq> p) ps)"
    using 2(2) by (auto simp: filter_map o_def inj_on_def intro!: arg_cong [of _ _ "map f"] filter_cong)
  moreover have "inj_on f (set (filter (\<lambda>q. q \<noteq> p) ps))" using 2(2) by (rule inj_on_subset) auto
  ultimately show ?case using 2(1) by (simp add: firsts_Cons)
qed (simp add: firsts_def)

text \<open>What a piece stands for: its pair, and whether it has an equals sign.\<close>

definition meaning :: "string \<Rightarrow> (string \<times> string) \<times> bool" where
  "meaning kv = (pair_of_piece kv, CHR ''='' \<in> set kv)"

definition query_meanings :: "string \<Rightarrow> ((string \<times> string) \<times> bool) list" where
  "query_meanings q = map meaning (filter (\<lambda>kv. fst (pair_of_piece kv) \<noteq> []) (split_pieces (CHR ''&'') q))"

lemma normalized_meaning: "meaning (normalize_piece kv) = meaning kv"
  using pair_of_normalized [of kv] encoded_plain
  by (cases "CHR ''=''" kv rule: divide_cases) (auto simp: meaning_def normalize_piece_def divide_found divide_absent)

lemma normalized_by_meaning: "meaning a = meaning b \<Longrightarrow> normalize_piece a = normalize_piece b"
  by (auto simp: meaning_def pair_of_piece_def normalize_piece_def split: prod.splits)

lemma normalized_params_exact:
  "parse_query_text (normalize_query_string q) [] = sort_key fst (map fst (firsts (query_meanings q)))"
proof -
  let ?ps = "filter (\<lambda>kv. fst (pair_of_piece kv) \<noteq> []) (split_pieces (CHR ''&'') q)"
  have pieces: "split_pieces (CHR ''&'') (normalize_query_string q) = map normalize_piece ?ps"
    by (simp add: normalized_pieces pair_key_empty)
  have inj: "inj_on meaning (set (map normalize_piece ?ps))"
    by (auto simp: inj_on_def normalized_meaning dest: normalized_by_meaning)
  have "\<forall>kv \<in> set (first_ones (map normalize_piece ?ps)). fst (pair_of_piece kv) \<noteq> []"
    by (auto simp: pair_of_normalized)
  then have "parse_query_text (normalize_query_string q) []
      = sort_key fst (map pair_of_piece (first_ones (map normalize_piece ?ps)))"
    by (simp add: parse_query_text_def pieces fold_params_sorted)
  also have "map pair_of_piece (first_ones (map normalize_piece ?ps)) = map fst (map meaning (first_ones (map normalize_piece ?ps)))"
    by (simp add: meaning_def o_def)
  also have "\<dots> = map fst (firsts (query_meanings q))"
    unfolding firsts_of_pieces [OF inj] by (simp add: query_meanings_def normalized_meaning o_def)
  finally show ?thesis .
qed

section \<open>Properties\<close>

text \<open>
  The text of parameters is parsed back into the same parameters, for any keys and values that bytes can
  make: nothing in them can be taken for a separator. Only the empty key and a repeated pair are lost.
\<close>

theorem params_roundtrip:
  assumes "sorted (map fst ps)" "distinct ps" "\<forall>(k, v) \<in> set ps. k \<noteq> []"
  shows "parse_query_text (params_to_query_str ps) [] = ps"
proof -
  have "inj_on param_text (set ps)" by (metis inj_onI pair_of_param_text)
  then have "distinct (map param_text ps)" using assms(2) by (simp add: distinct_map)
  moreover have "split_pieces (CHR ''&'') (params_to_query_str ps) = map param_text ps"
    unfolding params_to_query_str_def by (rule split_join) (simp add: list_all_iff param_text_plain)
  ultimately show ?thesis using fold_sorted_params [of "[]" ps] assms(1,3)
    by (simp add: parse_query_text_def first_ones_distinct)
qed

lemma params_roundtrip_witness:
  "parse_query_text (params_to_query_str [(''a&b'', ''c=d''), (''a&b'', [CHR 0x00]), (''e'', [])]) [] =
     [(''a&b'', ''c=d''), (''a&b'', [CHR 0x00]), (''e'', [])]"
  by (rule params_roundtrip) (simp_all add: less_char_def less_eq_char_def)

text \<open>
  C27: The query of a path reaches the server. The client normalises it; for a path without
  number sign, percent sign and question mark the server reads a request for that path; and the
  parameters it finds are the decoded pairs of the query with a key, sorted by key and otherwise
  in the order of the query, where of pieces that stand for the same pair (both with or both
  without an equals sign) only the first counts. As a set they are the parameters of the query
  itself.
\<close>

theorem query_reaches_server:
  assumes "m \<in> set methods" "list_all path_char p" "p \<noteq> []"
    "length (request_target (p @ CHR ''?'' # q)) \<le> CPPHTTPLIB_REQUEST_URI_MAX_LENGTH"
    "list_all header_ok hs" "length hs \<le> CPPHTTPLIB_HEADER_MAX_COUNT"
  shows "read_head (write_request m (p @ CHR ''?'' # q) hs body) = Read_Head m ''HTTP/1.1'' p hs body \<and>
    (\<exists>target. parse_request_line (write_request_line m (request_target (p @ CHR ''?'' # q))) = Some (m, ''HTTP/1.1'', target, p)
      \<and> target_params target = sort_key fst (map fst (firsts (query_meanings q)))
      \<and> set (target_params target) = set (parse_query_text q []))"
proof -
  let ?n = "normalize_query_string q" and ?t = "request_target (p @ CHR ''?'' # q)"
  have "normalize_query_string [] = []"
    by (simp add: normalize_query_string_def split_pieces_def segments_end trim_def)
  then have t: "?t = encode_path p @ (if ?n = [] then [] else CHR ''?'' # ?n)"
    using path_no_question [OF assms(2)] by (auto simp: request_target_def divide_found Let_def)
  have enc: "c \<in> set (encode_path p) \<Longrightarrow> code c \<notin> {0, 9, 10, 13, 32} \<and> c \<noteq> CHR ''#'' \<and> c \<noteq> CHR ''?''" for c
    using encode_path_chars [OF assms(2)] by simp
  have "encode_path p \<noteq> []" using encoded_target [OF assms(2,3)] by (simp add: target_text_def)
  then have chars: "?t \<noteq> []" "\<forall>c \<in> set ?t. code c \<notin> {0, 9, 10, 13, 32} \<and> c \<noteq> CHR ''#''"
    using enc normalized_chars [of _ q] by (auto simp: t code_def)
  then have target: "target_text ?t" by (simp add: target_text_def)
  have whole: "takeWhile (\<lambda>c. c \<noteq> CHR ''#'') ?t = ?t" using chars(2) by (simp add: takeWhile_eq_all_conv)
  have parts: "divide_at (CHR ''?'') ?t = (encode_path p, ?n)"
    using divide_found [of "CHR ''?''" "encode_path p" ?n] divide_absent [of "CHR ''?''" "encode_path p"] enc
    unfolding t by fastforce
  then have path: "takeWhile (\<lambda>c. c \<noteq> CHR ''?'') ?t = encode_path p" by (simp add: divide_at_def Let_def)
  have "read_head (write_request m (p @ CHR ''?'' # q) hs body) = Read_Head m ''HTTP/1.1'' p hs body"
    using read_written_target [OF assms(1) target assms(4-6), of body]
    unfolding whole Let_def path decode_encode_path [OF assms(2)] .
  moreover have "\<exists>target. parse_request_line (write_request_line m ?t) = Some (m, ''HTTP/1.1'', target, p)
      \<and> target_params target = sort_key fst (map fst (firsts (query_meanings q)))
      \<and> set (target_params target) = set (parse_query_text q [])"
    using parse_written_line [OF assms(1) target] normalized_params [of q "[]"] normalized_params_exact [of q]
    unfolding whole Let_def path decode_encode_path [OF assms(2)] by (simp add: target_params_def parts)
  ultimately show ?thesis ..
qed

lemma query_reaches_server_witness:
  "\<exists>target. parse_request_line (write_request_line ''GET'' (request_target (''/lookup/x'' @ CHR ''?'' # ''b=2&a=1+2&a=0&a=1 2''))) =
       Some (''GET'', ''HTTP/1.1'', target, ''/lookup/x'')
     \<and> target_params target = [(''a'', ''1 2''), (''a'', ''0''), (''b'', ''2'')]"
proof -
  have pieces: "query_meanings ''b=2&a=1+2&a=0&a=1 2'' =
      [((''b'', ''2''), True), ((''a'', ''1 2''), True), ((''a'', ''0''), True), ((''a'', ''1 2''), True)]" by code_simp
  have "sort_key fst (map fst (firsts (query_meanings ''b=2&a=1+2&a=0&a=1 2''))) = [(''a'', ''1 2''), (''a'', ''0''), (''b'', ''2'')]"
    unfolding pieces by (simp add: firsts_def less_char_def less_eq_char_def)
  moreover have "''GET'' \<in> set methods" "list_all path_char ''/lookup/x''" "list_all header_ok []" "''/lookup/x'' \<noteq> []"
    "length (request_target (''/lookup/x'' @ CHR ''?'' # ''b=2&a=1+2&a=0&a=1 2'')) \<le> CPPHTTPLIB_REQUEST_URI_MAX_LENGTH"
    "length [] \<le> CPPHTTPLIB_HEADER_MAX_COUNT" by code_simp+
  note query_reaches_server [OF this(1,2,4,5,3,6), of "[]"]
  ultimately show ?thesis by (simp only:) blast
qed

end
