(* ===== verification/Http_Ranges_Properties.thy ===== *)
theory Http_Ranges_Properties
  imports Http_Ranges Http_Query_Roundtrip
begin

text \<open>
  What the ranges of a request lead to: those that are served lie in the content, so that no assertion
  fails, cover exactly the bytes that were asked for, and are not much more than the content, however
  many ranges a request has; and the header the client makes is read as the same ranges.
\<close>

section \<open>Spans\<close>

definition span :: "range \<Rightarrow> int set" where "span r = {fst r..snd r}"

definition spans :: "range list \<Rightarrow> int set" where "spans rs = (\<Union>r \<in> set rs. span r)"

definition range_length :: "range \<Rightarrow> int" where "range_length r = snd r - fst r + 1"

definition total :: "range list \<Rightarrow> int" where "total rs = sum_list (map range_length rs)"

lemma spans_simps [simp]:
  "spans [] = {}" "spans (r # rs) = span r \<union> spans rs" "spans (rs @ ps) = spans rs \<union> spans ps" "spans (rev rs) = spans rs"
  by (auto simp: spans_def)

lemma total_simps [simp]:
  "total [] = 0" "total (r # rs) = range_length r + total rs" "total (rs @ ps) = total rs + total ps" "total (rev rs) = total rs"
  by (simp_all add: total_def rev_map [symmetric] sum_list_rev)

lemma finite_spans: "finite (spans rs)"
  by (simp add: spans_def span_def)

lemma card_span: "within len r \<Longrightarrow> int (card (span r)) = range_length r"
  by (simp add: within_def span_def range_length_def)

lemma spans_within: "\<forall>r \<in> set rs. within len r \<Longrightarrow> spans rs \<subseteq> {0..<len}"
  by (fastforce simp: spans_def span_def within_def)

lemma span_disjoint: "\<not> list_ex (overlaps r) rs \<Longrightarrow> span r \<inter> spans rs = {}"
  by (auto simp: list_ex_iff overlaps_def spans_def span_def)

lemma within_resolved: "within len r \<Longrightarrow> resolve_range len r = r"
  by (cases r) (auto simp: within_def resolve_range_def)

section \<open>Checking\<close>

lemma check_ranges_sound:
  assumes "check_ranges len n seen rs = Some out" "\<forall>r \<in> set seen. within len r" "0 \<le> len" "n \<le> 2"
    "total seen \<le> int n * len + int (card (spans seen))"
  shows "(\<forall>r \<in> set out. within len r) \<and> spans out = spans seen \<union> spans (map (resolve_range len) rs)
    \<and> length out = length seen + length rs \<and> total out \<le> 3 * len"
  using assms
proof (induction len n seen rs rule: check_ranges.induct)
  case (1 len n seen)
  have "card (spans seen) \<le> card {0..<len}" by (rule card_mono) (simp_all add: spans_within 1)
  moreover have "int n * len \<le> 2 * len" using 1 by (intro mult_right_mono) simp_all
  ultimately have "total seen \<le> 3 * len" using 1 by simp
  with 1 show ?case by auto
next
  case (2 len n seen r rs)
  let ?r = "resolve_range len r" and ?again = "list_ex (overlaps (resolve_range len r)) seen"
  have ok: "within len ?r" "?again \<Longrightarrow> n + 1 \<le> 2"
    "check_ranges len (if ?again then n + 1 else n) (seen @ [?r]) rs = Some out"
    using 2(2) by (auto simp: Let_def split: if_splits)
  have len: "range_length ?r \<le> len" using ok(1) by (auto simp: within_def range_length_def)
  have "total (seen @ [?r]) \<le> int (if ?again then n + 1 else n) * len + int (card (spans (seen @ [?r])))"
  proof (cases ?again)
    case True
    have "card (spans seen) \<le> card (spans (seen @ [?r]))" by (rule card_mono) (auto simp: finite_spans, simp add: span_def)
    with True 2(6) len show ?thesis by (simp add: algebra_simps)
  next
    case False
    then have "card (spans (seen @ [?r])) = card (spans seen) + card (span ?r)"
      using span_disjoint [OF False] by (simp add: card_Un_disjoint finite_spans span_def Int_commute)
    with False 2(6) card_span [OF ok(1)] show ?thesis by simp
  qed
  moreover have "\<forall>r \<in> set (seen @ [?r]). within len r" using 2(3) ok(1) by simp
  ultimately show ?case using 2(1) [OF refl refl] ok 2(4,5) by (auto split: if_splits)
qed

section \<open>Merging\<close>

lemma coalesce_step_within:
  assumes "within len r"
  shows "coalesce_step len merged r =
    (case merged of
       [] \<Rightarrow> [r]
     | prev # before \<Rightarrow>
         if fst r \<le> snd prev + 1 \<and> r \<noteq> prev then (fst prev, max (snd prev) (snd r)) # before else r # merged)"
  using assms by (simp add: coalesce_step_def within_resolved split: list.split)

lemma coalesce_step_sound:
  assumes "within len r" "\<forall>p \<in> set merged. within len p" "merged \<noteq> [] \<Longrightarrow> fst (hd merged) \<le> fst r"
  shows "(\<forall>p \<in> set (coalesce_step len merged r). within len p)
    \<and> spans (coalesce_step len merged r) = spans merged \<union> span r
    \<and> total (coalesce_step len merged r) \<le> total merged + range_length r
    \<and> coalesce_step len merged r \<noteq> [] \<and> fst (hd (coalesce_step len merged r)) \<le> fst r"
proof (cases merged)
  case Nil
  then show ?thesis using assms(1) by (simp add: coalesce_step_within)
next
  case (Cons prev before)
  have "span (fst prev, max (snd prev) (snd r)) = span prev \<union> span r" if "fst r \<le> snd prev + 1"
    using that assms Cons by (auto simp: span_def within_def)
  with Cons assms show ?thesis
    by (auto simp: coalesce_step_within within_def range_length_def)
qed

lemma coalesce_fold_sound:
  assumes "\<forall>r \<in> set rs. within len r" "\<forall>p \<in> set merged. within len p" "sorted (map fst rs)"
    "merged \<noteq> [] \<Longrightarrow> \<forall>r \<in> set rs. fst (hd merged) \<le> fst r"
  shows "(\<forall>p \<in> set (foldl (coalesce_step len) merged rs). within len p)
    \<and> spans (foldl (coalesce_step len) merged rs) = spans merged \<union> spans rs
    \<and> total (foldl (coalesce_step len) merged rs) \<le> total merged + total rs
    \<and> (merged \<noteq> [] \<or> rs \<noteq> [] \<longrightarrow> foldl (coalesce_step len) merged rs \<noteq> [])"
  using assms
proof (induction rs arbitrary: merged)
  case (Cons r rs)
  let ?m = "coalesce_step len merged r"
  have step: "\<forall>p \<in> set ?m. within len p" "spans ?m = spans merged \<union> span r"
    "total ?m \<le> total merged + range_length r" "?m \<noteq> []" "fst (hd ?m) \<le> fst r"
    using coalesce_step_sound [of len r merged] Cons.prems by auto
  then have "\<forall>s \<in> set rs. fst (hd ?m) \<le> fst s" using Cons.prems(3) by fastforce
  with Cons.IH [of ?m] step Cons.prems show ?case by auto
qed simp

text \<open>What \<open>std::sort\<close> promises.\<close>

definition sorts_ranges :: "(range list \<Rightarrow> range list) \<Rightarrow> bool" where
  "sorts_ranges arrange = (\<forall>rs. mset (arrange rs) = mset rs \<and> sorted (map fst (arrange rs)))"

lemma sorted_ranges:
  assumes "sorts_ranges arrange"
  shows "set (arrange rs) = set rs" "spans (arrange rs) = spans rs" "total (arrange rs) = total rs" "sorted (map fst (arrange rs))"
    "length (arrange rs) = length rs"
proof -
  have mset: "mset (arrange rs) = mset rs" using assms by (simp add: sorts_ranges_def)
  then show set: "set (arrange rs) = set rs" by (rule mset_eq_setD)
  then show "spans (arrange rs) = spans rs" by (simp add: spans_def)
  show "length (arrange rs) = length rs" using mset by (rule mset_eq_length)
  have "mset (map range_length (arrange rs)) = mset (map range_length rs)" using mset by simp
  then show "total (arrange rs) = total rs" unfolding total_def by (metis sum_mset_sum_list)
  show "sorted (map fst (arrange rs))" using assms by (simp add: sorts_ranges_def)
qed

lemma coalesce_ranges_sound:
  assumes "sorts_ranges arrange" "\<forall>r \<in> set rs. within len r"
  shows "(\<forall>r \<in> set (coalesce_ranges arrange len rs). within len r) \<and> spans (coalesce_ranges arrange len rs) = spans rs
    \<and> total (coalesce_ranges arrange len rs) \<le> total rs \<and> (rs \<noteq> [] \<longrightarrow> coalesce_ranges arrange len rs \<noteq> [])"
proof (cases "length rs \<le> 1")
  case False
  then have "arrange rs \<noteq> []" using sorted_ranges(5) [OF assms(1), of rs] by auto
  with False coalesce_fold_sound [of "arrange rs" len "[]"] assms(2) sorted_ranges [OF assms(1), of rs] show ?thesis
    by (simp add: coalesce_ranges_def)
qed (use assms(2) in \<open>simp add: coalesce_ranges_def\<close>)

lemma range_error_sound:
  assumes "range_error arrange status len ranges = Some rs" "sorts_ranges arrange" "0 \<le> len" "200 \<le> status" "status < 300"
  shows "(\<forall>r \<in> set rs. within len r) \<and> spans rs = spans (map (resolve_range len) ranges) \<and> total rs \<le> 3 * len
    \<and> (ranges \<noteq> [] \<longrightarrow> rs \<noteq> [])"
proof (cases "ranges = []")
  case True
  with assms(1,3) show ?thesis by (simp add: range_error_def)
next
  case False
  then obtain out where out: "check_ranges len 0 [] ranges = Some out" "rs = coalesce_ranges arrange len out"
    using assms(1,4,5) by (auto simp: range_error_def split: if_splits)
  have "(\<forall>r \<in> set out. within len r) \<and> spans out = spans [] \<union> spans (map (resolve_range len) ranges)
    \<and> length out = length [] + length ranges \<and> total out \<le> 3 * len"
    using check_ranges_sound [OF out(1)] assms(3) by simp
  moreover from this False have "out \<noteq> []" by auto
  ultimately show ?thesis using coalesce_ranges_sound [OF assms(2), of out len] out(2) by auto
qed

section \<open>The selected part\<close>

lemma offset_within:
  "within (int n) r \<Longrightarrow> get_range_offset_and_length r n = Inr (nat (fst r), nat (range_length r))"
  by (auto simp: get_range_offset_and_length_def within_def range_length_def nat_add_distrib)

lemma multipart_within:
  "\<forall>r \<in> set rs. within (int (length body)) r \<Longrightarrow>
     \<exists>data. make_multipart_ranges_data boundary content_type body rs = Inr data
       \<and> get_multipart_ranges_data_length boundary content_type (length body) rs = Inr (length data)"
proof (induction rs)
  case (Cons r rs)
  then obtain data where "make_multipart_ranges_data boundary content_type body rs = Inr data"
    "get_multipart_ranges_data_length boundary content_type (length body) rs = Inr (length data)" by auto
  moreover have "nat (range_length r) \<le> length body - nat (fst r)" using Cons.prems
    by (auto simp: within_def range_length_def)
  ultimately show ?case using Cons.prems by (auto simp: offset_within CRLF_def)
qed simp

lemma apply_ranges_within:
  assumes "\<forall>r \<in> set rs. within (int (length (res_body res))) r"
  shows "\<exists>out. apply_ranges boundary rs res = Inr out"
proof -
  let ?type = "if 1 < length rs \<and> res_status res = 206 then res_content_type res else []"
  obtain data where data: "make_multipart_ranges_data boundary ?type (res_body res) rs = Inr data"
    using multipart_within [OF assms] by blast
  show ?thesis
  proof (cases "rs = [] \<or> tl rs = []")
    case True
    then show ?thesis using assms offset_within [of "length (res_body res)" "hd rs"]
      by (cases rs) (auto simp: apply_ranges_def Let_def)
  next
    case False
    then obtain r r' qs where rs: "rs = r # r' # qs" by (metis list.collapse)
    show ?thesis unfolding apply_ranges_def Let_def rs list.case data [unfolded rs] by simp
  qed
qed

section \<open>The meaning of ranges\<close>

text \<open>
  What RFC 9110 says a range asks for: of first and last position, from a position on, the last bytes of the
  content; bytes that the content does not have do not count.
\<close>

definition asked_bytes :: "int \<Rightarrow> range \<Rightarrow> int set" where
  "asked_bytes len r =
     {i. 0 \<le> i \<and> i < len \<and>
         (if fst r = -1 then snd r = -1 \<or> len - snd r \<le> i else fst r \<le> i \<and> (snd r = -1 \<or> i \<le> snd r))}"

lemma resolved_asked: "within len (resolve_range len r) \<Longrightarrow> span (resolve_range len r) = asked_bytes len r"
  by (cases r) (auto simp: resolve_range_def within_def span_def asked_bytes_def Let_def split: if_splits)

lemma check_ranges_each:
  "check_ranges len n seen rs = Some out \<Longrightarrow> \<forall>r \<in> set rs. within len (resolve_range len r)"
  by (induction len n seen rs rule: check_ranges.induct) (auto simp: Let_def split: if_splits)

lemma range_error_asked:
  assumes "range_error arrange status len ranges = Some rs" "sorts_ranges arrange" "0 \<le> len" "200 \<le> status" "status < 300"
  shows "spans rs = (\<Union>r \<in> set ranges. asked_bytes len r)"
proof (cases "ranges = []")
  case True
  with assms(1) show ?thesis by (simp add: range_error_def)
next
  case False
  then obtain out where "check_ranges len 0 [] ranges = Some out"
    using assms(1,4,5) by (auto simp: range_error_def split: if_splits)
  then have "\<forall>r \<in> set ranges. within len (resolve_range len r)" by (rule check_ranges_each)
  then have "spans (map (resolve_range len) ranges) = (\<Union>r \<in> set ranges. asked_bytes len r)"
    by (auto simp: spans_def resolved_asked)
  with range_error_sound [OF assms] show ?thesis by simp
qed

text \<open>The bytes of a range, and what is sent of a content for ranges that lie in it.\<close>

definition bytes_of :: "string \<Rightarrow> range \<Rightarrow> string" where
  "bytes_of body r = nths body {i. fst r \<le> int i \<and> int i \<le> snd r}"

definition content_range :: "range \<Rightarrow> nat \<Rightarrow> string" where
  "content_range r len = ''bytes '' @ to_string (nat (fst r)) @ ''-'' @ to_string (nat (snd r)) @ ''/'' @ to_string len"

definition part_of :: "string \<Rightarrow> response \<Rightarrow> range \<Rightarrow> string" where
  "part_of boundary res r =
     ''--'' @ boundary @ CRLF
       @ (if res_content_type res = [] then [] else ''Content-Type: '' @ res_content_type res @ CRLF)
       @ ''Content-Range: '' @ content_range r (length (res_body res)) @ CRLF @ CRLF
       @ bytes_of (res_body res) r @ CRLF"

definition partial_response :: "string \<Rightarrow> range list \<Rightarrow> response \<Rightarrow> response \<times> headers" where
  "partial_response boundary rs res =
     (case rs of
        [] \<Rightarrow> (res, [])
      | [r] \<Rightarrow>
          (res\<lparr>res_body := bytes_of (res_body res) r\<rparr>, [(''Content-Range'', content_range r (length (res_body res)))])
      | _ \<Rightarrow>
          (res\<lparr>res_body := concat (map (part_of boundary res) rs) @ ''--'' @ boundary @ ''--'',
               res_content_type := ''multipart/byteranges; boundary='' @ boundary\<rparr>, []))"

lemma nths_between: "nths xs {i. a \<le> i \<and> i < a + n} = take n (drop a xs)"
proof (induction xs arbitrary: a n)
  case (Cons x xs)
  show ?case
  proof (cases a)
    case 0
    then show ?thesis
    proof (cases n)
      case (Suc m)
      with 0 Cons [of 0 m] show ?thesis by (simp add: nths_Cons)
    qed (simp add: nths_Cons)
  next
    case (Suc b)
    with Cons [of b n] show ?thesis by (simp add: nths_Cons)
  qed
qed simp

lemma bytes_within:
  assumes "within (int (length body)) r"
  shows "take (nat (range_length r)) (drop (nat (fst r)) body) = bytes_of body r"
proof -
  have "{i. fst r \<le> int i \<and> int i \<le> snd r} = {i. nat (fst r) \<le> i \<and> i < nat (fst r) + nat (range_length r)}"
    using assms by (auto simp: within_def range_length_def)
  then show ?thesis by (simp only: bytes_of_def nths_between)
qed

lemma content_range_within:
  assumes "within (int n) r"
  shows "make_content_range_header_field (nat (fst r), nat (range_length r)) n = content_range r n"
proof -
  have "nat (fst r) + nat (range_length r) - 1 = nat (snd r)" using assms
    by (auto simp: within_def range_length_def)
  then show ?thesis by (simp add: make_content_range_header_field_def content_range_def)
qed

lemma multipart_parts:
  assumes "\<forall>r \<in> set rs. within (int (length (res_body res))) r"
  shows "make_multipart_ranges_data boundary (res_content_type res) (res_body res) rs =
    Inr (concat (map (part_of boundary res) rs) @ ''--'' @ boundary @ ''--'')"
  using assms
  by (induction rs) (simp_all add: offset_within bytes_within range_part_head_def content_range_within part_of_def)

lemma apply_ranges_parts:
  assumes "\<forall>r \<in> set rs. within (int (length (res_body res))) r" "res_status res = 206"
  shows "apply_ranges boundary rs res = Inr (partial_response boundary rs res)"
proof -
  consider (empty) "rs = []" | (single) r where "rs = [r]" | (several) r r' qs where "rs = r # r' # qs"
    by (metis list.exhaust)
  then show ?thesis
  proof cases
    case empty
    then show ?thesis by (simp add: apply_ranges_def partial_response_def)
  next
    case (single r)
    then have "res_body res \<noteq> []" using assms(1) by (auto simp: within_def)
    with single assms show ?thesis
      by (simp add: apply_ranges_def partial_response_def offset_within bytes_within content_range_within Let_def)
  next
    case (several r r' qs)
    then have "res_body res \<noteq> []" using assms(1) by (auto simp: within_def)
    with several assms multipart_parts [OF assms(1), of boundary] show ?thesis
      by (simp add: apply_ranges_def partial_response_def del: make_multipart_ranges_data.simps)
  qed
qed

section \<open>The header\<close>

text \<open>Ranges that a header can stand for.\<close>

definition header_range :: "range \<Rightarrow> bool" where
  "header_range r =
     (-1 \<le> fst r \<and> fst r < 2 ^ 63 \<and> -1 \<le> snd r \<and> snd r < 2 ^ 63 \<and> r \<noteq> (-1, -1)
        \<and> (fst r \<noteq> -1 \<longrightarrow> snd r \<noteq> -1 \<longrightarrow> fst r \<le> snd r))"

lemma position_text: "-1 \<le> i \<Longrightarrow> i < 2 ^ 63 \<Longrightarrow> range_position (if i = -1 then [] else to_string (nat i)) = Some i"
proof (cases "i = -1")
  case False
  moreover assume "-1 \<le> i" "i < 2 ^ 63"
  ultimately have "nat i < 2 ^ 63" "0 \<le> i" by (simp_all add: nat_less_iff)
  with False show ?thesis using to_string_digits [of "nat i"] by (simp add: range_position_def)
qed (simp add: range_position_def)

lemma digit_no_sign: "is_digit c \<Longrightarrow> c \<noteq> CHR ''-'' \<and> c \<noteq> CHR '','' \<and> \<not> is_space_or_tab c"
  by (auto simp: is_digit_def is_space_or_tab_def code_def)

lemma number_no_sign: "c \<in> set (to_string n) \<Longrightarrow> c \<noteq> CHR ''-'' \<and> c \<noteq> CHR '','' \<and> \<not> is_space_or_tab c"
  using to_string_digits [of n] digit_no_sign by (simp add: list_all_iff)

lemma range_text_read: "header_range r \<Longrightarrow> range_of_piece (range_text r) = Some r"
proof -
  assume r: "header_range r"
  have "CHR ''-'' \<notin> set (if fst r = -1 then [] else to_string (nat (fst r)))" using number_no_sign by auto
  then have "divide_at (CHR ''-'') (range_text r) =
      (if fst r = -1 then [] else to_string (nat (fst r)), if snd r = -1 then [] else to_string (nat (snd r)))"
    unfolding range_text_def by (rule divide_found)
  moreover have "CHR ''-'' \<in> set (range_text r)" by (simp add: range_text_def)
  ultimately show ?thesis using position_text [of "fst r"] position_text [of "snd r"] r
    by (cases r) (auto simp: range_of_piece_def header_range_def)
qed

lemma range_text_plain: "plain_piece (CHR '','') (range_text r)"
  using number_no_sign by (auto simp: plain_piece_def range_text_def list_all_iff is_space_or_tab_def code_def)

lemma blank_piece: "split_pieces d s = ps \<Longrightarrow> d \<noteq> CHR '' '' \<Longrightarrow> split_pieces d (CHR '' '' # s) = ps"
proof -
  assume s: "split_pieces d s = ps" and d: "d \<noteq> CHR '' ''"
  have "trim (CHR '' '' # x) = trim x" for x by (simp add: trim_def is_space_or_tab_def code_def)
  moreover obtain x xs where "segments d s = x # xs" by (cases "segments d s") (auto simp: segments.simps split: if_splits)
  moreover from this d have "segments d (CHR '' '' # s) = (CHR '' '' # x) # xs"
    by (subst (asm) segments.simps, subst segments.simps) (auto split: if_splits)
  ultimately show ?thesis using s by (simp add: split_pieces_def)
qed

lemma split_ranges: "split_pieces (CHR '','') (join_ranges rs) = map range_text rs"
proof (induction rs rule: join_ranges.induct)
  case 1
  then show ?case by (simp add: split_pieces_def segments_end trim_def)
next
  case (2 r)
  then show ?case using split_join [of "CHR '',''" "[range_text r]"] range_text_plain by simp
next
  case (3 r r' rs)
  have "CHR '','' \<notin> set (range_text r)" "range_text r \<noteq> []" "trim (range_text r) = range_text r"
    using range_text_plain [of r] by (simp_all add: plain_piece_def trim_plain)
  then have "split_pieces (CHR '','') (range_text r @ CHR '','' # s) = range_text r # split_pieces (CHR '','') s" for s
    by (simp add: split_pieces_def segments_sep)
  then show ?case using blank_piece [OF 3] by simp
qed

section \<open>Properties\<close>

text \<open>The header that the client makes for ranges is read by the server as these ranges.\<close>

lemma range_header_roundtrip:
  assumes "list_all header_range rs" "rs \<noteq> []"
  shows "parse_range_header (snd (make_range_header rs)) = Some rs"
proof -
  have "those (map range_of_piece (map range_text rs)) = Some rs"
    using assms(1) by (induction rs) (simp_all add: range_text_read)
  moreover have "1 < length (join_ranges rs)"
  proof -
    obtain r qs where rs: "rs = r # qs" using assms(2) by (cases rs) auto
    have "to_string n \<noteq> []" for n by simp
    then have "1 < length (range_text r)" using assms(1) rs
      by (cases r) (auto simp: range_text_def header_range_def Suc_lessI)
    then show ?thesis using rs by (cases qs) auto
  qed
  ultimately show ?thesis using assms(2)
    by (simp add: parse_range_header_def make_range_header_def split_ranges)
qed

text \<open>
  C28: Whatever ranges a request has: those that the server goes on to serve ask together for
  exactly the bytes of the content that the request asked for in the sense of RFC 9110, and for
  at most three times as many bytes as the content has, however often ranges repeat or overlap;
  no assertion fails; a partial response is, byte for byte, those parts of the content under
  their Content-Range, and any other response is left as it was.
\<close>

theorem ranges_bounded:
  assumes "range_error arrange (res_status res) (int (length (res_body res))) ranges = Some rs" "sorts_ranges arrange"
    "200 \<le> res_status res" "res_status res < 300"
  shows "spans rs = (\<Union>r \<in> set ranges. asked_bytes (int (length (res_body res))) r)
    \<and> total rs \<le> 3 * int (length (res_body res))
    \<and> apply_ranges boundary rs res = Inr (if res_status res = 206 then partial_response boundary rs res else (res, []))"
proof -
  note sound = range_error_sound [OF assms(1,2) _ assms(3,4)]
  have "apply_ranges boundary rs res = Inr (res, [])" if "res_status res \<noteq> 206"
    using that by (simp add: apply_ranges_def)
  then show ?thesis
    using sound range_error_asked [OF assms(1,2) _ assms(3,4)] apply_ranges_parts [of rs res boundary] by auto
qed

lemma ranges_bounded_witness:
  "\<exists>rs. range_error (sort_key fst) 206 5 [(3, -1), (0, 0), (-1, 3)] = Some rs \<and> total rs \<le> 15
     \<and> spans rs = {0, 2, 3, 4}
     \<and> apply_ranges ''B'' rs \<lparr>res_status = 206, res_body = ''hello'', res_content_type = []\<rparr>
         = Inr (partial_response ''B'' rs \<lparr>res_status = 206, res_body = ''hello'', res_content_type = []\<rparr>)"
proof -
  let ?res = "\<lparr>res_status = 206, res_body = ''hello'', res_content_type = []\<rparr>" and ?ranges = "[(3, -1), (0, 0), (-1, 3)] :: range list"
  have sorts: "sorts_ranges (sort_key fst)" by (simp add: sorts_ranges_def)
  obtain rs where rs: "range_error (sort_key fst) 206 5 ?ranges = Some rs"
    by (simp add: range_error_def CPPHTTPLIB_RANGE_MAX_COUNT_def resolve_range_def within_def overlaps_def)
  have "(\<Union>r \<in> set ?ranges. asked_bytes 5 r) = {0, 2, 3, 4}" by (auto simp: asked_bytes_def)
  with rs ranges_bounded [of "sort_key fst" ?res ?ranges rs "''B''"] sorts show ?thesis by simp
qed

text \<open>A suffix longer than the content is refused, where RFC 9110 asks for the whole content.\<close>

lemma long_suffix_refused: "0 \<le> len \<Longrightarrow> len < n \<Longrightarrow> range_error arrange 206 len [(-1, n)] = None"
  by (auto simp: range_error_def resolve_range_def within_def)

end
