(* ===== verification/Central_Threads.thy ===== *)
theory Central_Threads
  imports Central_Http
begin

text \<open>
  The central server with its worker threads: the handlers of \<open>Central_Http\<close> cut into the stages between
  which other threads run. What threads share is the one connection to the database
  (\<open>static std::unique_ptr<pqxx::connection> connection\<close>), the table behind it, the signalling store and its
  mutex. A connection has at most one open transaction; beginning another one throws, in whichever
  thread. A transaction ends in the step that executes its statement, since nothing else can be
  executed on the connection meanwhile. The access of two threads to the connection at the very same
  time, which \<open>libpqxx\<close> leaves undefined, is outside the model.
\<close>

section \<open>Stages\<close>

text \<open>
  Where a worker stands: with a request it has read; inside \<open>lookup_transfer\<close>; inside
  \<open>get_transfers_metadata\<close> with its own transaction open, between it and the one of
  \<open>mark_transfer_claimed\<close>, inside that; inside \<open>register_transfers\<close>; before and inside the two locked
  regions.
\<close>

datatype stage =
    Received
  | Looking string
  | Reading string
  | Between string "stored_row option"
  | Marking string "stored_row option"
  | Inserting json
  | Wants_store string json
  | Storing string json
  | Wants_fetch string
  | Fetching string

text \<open>A worker waits for a connection, or has request number \<open>k\<close> in hand.\<close>

datatype server_worker = Free | Busy nat request stage

text \<open>
  \<open>served\<close> has the number, the request and the response of every finished request, in order;
  \<open>served_before k\<close> are the requests that were finished when request \<open>k\<close> was read. Both only record
  what happened.
\<close>

record threads_state =
  shared :: central
  open_transaction :: "nat option"
  signal_mutex :: "nat option"
  server_workers :: "server_worker list"
  requests_read :: nat
  served :: "(nat \<times> request \<times> response) list"
  served_before :: "nat \<Rightarrow> nat set"

text \<open>The workers after \<open>main\<close> has come to \<open>listen\<close>.\<close>

definition listening :: "nat \<Rightarrow> central \<Rightarrow> threads_state" where
  "listening num_threads c =
     \<lparr>shared = c, open_transaction = None, signal_mutex = None, server_workers = replicate num_threads Free,
      requests_read = 0, served = [], served_before = (\<lambda>_. {})\<rparr>"

text \<open>\<open>std::max(2, hardware_concurrency())\<close>\<close>

definition num_threads :: "nat \<Rightarrow> nat" where
  "num_threads hardware_concurrency = max 2 hardware_concurrency"

section \<open>Routes\<close>

datatype route =
    To_lookup string
  | To_getfile string
  | To_signal_get string
  | To_health
  | To_register
  | To_signal_post string
  | Not_found
  | Bad_method

text \<open>The handler that \<open>routing\<close> selects.\<close>

definition route_of :: "request \<Rightarrow> route" where
  "route_of req =
     (let m = req_method req; path = req_path req
      in if m = ''GET'' \<or> m = ''HEAD'' then
           (case match_token ''/lookup/'' path of
              Some s \<Rightarrow> To_lookup s
            | None \<Rightarrow>
                (case match_token ''/getfile/'' path of
                   Some s \<Rightarrow> To_getfile s
                 | None \<Rightarrow>
                     (case match_token ''/signal/'' path of
                        Some s \<Rightarrow> To_signal_get s
                      | None \<Rightarrow> (case match_path ''/health'' path of Some _ \<Rightarrow> To_health | None \<Rightarrow> Not_found))))
         else if m = ''POST'' then
           (case match_path ''/register'' path of
              Some _ \<Rightarrow> To_register
            | None \<Rightarrow> (case match_token ''/signal/'' path of Some s \<Rightarrow> To_signal_post s | None \<Rightarrow> Not_found))
         else if m = ''PUT'' \<or> m = ''DELETE'' \<or> m = ''OPTIONS'' \<or> m = ''PATCH'' then Not_found
         else Bad_method)"

section \<open>The connection\<close>

text \<open>The database as a thread finds it while another one has a transaction open.\<close>

definition crowded :: "central_env \<Rightarrow> central_env" where
  "crowded env = env\<lparr>env_postgres := (env_postgres env)\<lparr>can_begin := False\<rparr>\<rparr>"

definition env_at :: "central_env \<Rightarrow> threads_state \<Rightarrow> central_env" where
  "env_at env s = (if open_transaction s = None then env else crowded env)"

text \<open>The constructor of a transaction, in worker \<open>i\<close>.\<close>

definition open_on_connection :: "central_env \<Rightarrow> nat \<Rightarrow> threads_state \<Rightarrow> threads_state result" where
  "open_on_connection env i s =
     bind_result (begin_transaction (env_postgres (env_at env s)) (db (shared s))) (\<lambda>_.
     Inr (s\<lparr>open_transaction := Some i\<rparr>))"

section \<open>Handlers in stages\<close>

text \<open>A worker goes on in another stage, or it has the response (or the process aborts).\<close>

datatype outcome = Next stage | Done "response result"

text \<open>How \<open>process_request\<close> ends after a handler.\<close>

definition after_handler :: "central_env \<Rightarrow> fault option \<Rightarrow> response \<Rightarrow> outcome" where
  "after_handler env f res =
     Done (case f of
             None \<Rightarrow> Inr (if res_status res = -1 then res\<lparr>res_status := 200\<rparr> else res)
           | Some (Throw e) \<Rightarrow> Inr (exception_handler env e res)
           | Some (Abort a) \<Rightarrow> Inl (Abort a))"

text \<open>GET /lookup\<close>

definition start_lookup :: "central_env \<Rightarrow> nat \<Rightarrow> string \<Rightarrow> threads_state \<Rightarrow> outcome \<times> threads_state" where
  "start_lookup env i secret s =
     (case open_on_connection env i s of
        Inl e \<Rightarrow> (after_handler env (Some e) fresh_response, s)
      | Inr s \<Rightarrow> (Next (Looking secret), s))"

definition look :: "central_env \<Rightarrow> string \<Rightarrow> threads_state \<Rightarrow> outcome \<times> threads_state" where
  "look env secret s =
     (let found = catch_exn (bind_result (exec_table (env_postgres env) (db (shared s)))
                    (\<lambda>t. Inr (t secret \<noteq> None))) (\<lambda>_. Inr False);
          s = s\<lparr>open_transaction := None\<rparr>
      in (case found of
            Inl e \<Rightarrow> after_handler env (Some e) fresh_response
          | Inr found \<Rightarrow>
              after_handler env None (set_content (if found then ''True'' else ''False'') ''text/plain'' fresh_response),
          s))"

text \<open>GET /getfile: the end of the handler, then its stages.\<close>

definition end_getfile :: "central_env \<Rightarrow> TransferRow result \<Rightarrow> outcome" where
  "end_getfile env r =
     (case bind_result (rethrow (env_postgres env) r)
             (\<lambda>row. json_dump (env_floats env) (transfer_row_to_json row)) of
        Inr data \<Rightarrow> after_handler env None ((set_content data ''application/json'' fresh_response)\<lparr>res_status := 200\<rparr>)
      | Inl (Throw _) \<Rightarrow> after_handler env None fresh_response
      | Inl (Abort a) \<Rightarrow> after_handler env (Some (Abort a)) fresh_response)"

definition start_getfile :: "central_env \<Rightarrow> nat \<Rightarrow> string \<Rightarrow> threads_state \<Rightarrow> outcome \<times> threads_state" where
  "start_getfile env i secret s =
     (case open_on_connection env i s of
        Inl (Throw e) \<Rightarrow> (after_handler env None fresh_response, s)
      | Inl (Abort a) \<Rightarrow> (after_handler env (Some (Abort a)) fresh_response, s)
      | Inr s \<Rightarrow> (Next (Reading secret), s))"

definition read_row :: "central_env \<Rightarrow> string \<Rightarrow> threads_state \<Rightarrow> outcome \<times> threads_state" where
  "read_row env secret s =
     (case exec_table (env_postgres env) (db (shared s)) of
        Inl e \<Rightarrow> (end_getfile env (Inl e), s\<lparr>open_transaction := None\<rparr>)
      | Inr t \<Rightarrow> (Next (Between secret (t secret)), s\<lparr>open_transaction := None\<rparr>))"

definition start_marking ::
    "central_env \<Rightarrow> nat \<Rightarrow> string \<Rightarrow> stored_row option \<Rightarrow> threads_state \<Rightarrow> outcome \<times> threads_state" where
  "start_marking env i secret row s =
     (case open_on_connection env i s of
        Inl e \<Rightarrow> (end_getfile env (Inl e), s)
      | Inr s \<Rightarrow> (Next (Marking secret row), s))"

definition mark_row ::
    "central_env \<Rightarrow> string \<Rightarrow> stored_row option \<Rightarrow> threads_state \<Rightarrow> outcome \<times> threads_state" where
  "mark_row env secret row s =
     (case rethrow (env_postgres env) (exec_table (env_postgres env) (db (shared s))) of
        Inl e \<Rightarrow> (end_getfile env (Inl e), s\<lparr>open_transaction := None\<rparr>)
      | Inr t \<Rightarrow>
          (end_getfile env
             (case row of
                None \<Rightarrow> Inl (Throw (Db_Error ''unexpected null''))
              | Some row \<Rightarrow> bind_result (to_transfer_row row) (\<lambda>r. Inr (r\<lparr>tr_claimed := True\<rparr>))),
           s\<lparr>open_transaction := None,
             shared := (shared s)\<lparr>db := (db (shared s))\<lparr>transfers := Some (set_claimed secret t)\<rparr>\<rparr>\<rparr>))"

text \<open>POST /register\<close>

definition start_register :: "central_env \<Rightarrow> nat \<Rightarrow> string \<Rightarrow> threads_state \<Rightarrow> outcome \<times> threads_state" where
  "start_register env i body s =
     (case json_parse (env_floats env) body of
        Inl (Throw _) \<Rightarrow> (after_handler env None fresh_response, s)
      | Inl (Abort a) \<Rightarrow> (after_handler env (Some (Abort a)) fresh_response, s)
      | Inr data \<Rightarrow>
          (case open_on_connection env i s of
             Inl (Throw _) \<Rightarrow> (after_handler env None fresh_response, s)
           | Inl (Abort a) \<Rightarrow> (after_handler env (Some (Abort a)) fresh_response, s)
           | Inr s \<Rightarrow> (Next (Inserting data), s)))"

definition insert_row :: "central_env \<Rightarrow> json \<Rightarrow> threads_state \<Rightarrow> outcome \<times> threads_state" where
  "insert_row env data s =
     (case rethrow (env_postgres env)
             (bind_result (transfer_row_from_json (env_floats env) (env_postgres env) data) (\<lambda>payload.
              bind_result (exec_table (env_postgres env) (db (shared s))) (\<lambda>t.
              if \<not> storable (env_postgres env) payload then Inl (Throw (Db_Error ''value''))
              else Inr (upsert (now_text (env_postgres env)) payload t)))) of
        Inl (Throw _) \<Rightarrow> (after_handler env None fresh_response, s\<lparr>open_transaction := None\<rparr>)
      | Inl (Abort a) \<Rightarrow> (after_handler env (Some (Abort a)) fresh_response, s\<lparr>open_transaction := None\<rparr>)
      | Inr t \<Rightarrow>
          (after_handler env None (fresh_response\<lparr>res_status := 201\<rparr>),
           s\<lparr>open_transaction := None, shared := (shared s)\<lparr>db := (db (shared s))\<lparr>transfers := Some t\<rparr>\<rparr>\<rparr>))"

text \<open>POST /signal: the lock is released before the log line; nothing shared is used after it.\<close>

definition start_signal_post :: "central_env \<Rightarrow> string \<Rightarrow> string \<Rightarrow> threads_state \<Rightarrow> outcome \<times> threads_state" where
  "start_signal_post env i body s =
     (case json_parse (env_floats env) body of
        Inr data \<Rightarrow> (Next (Wants_store i data), s)
      | Inl (Throw _) \<Rightarrow> (after_handler env None (fresh_response\<lparr>res_status := 400\<rparr>), s)
      | Inl (Abort a) \<Rightarrow> (after_handler env (Some (Abort a)) fresh_response, s))"

definition store_signal :: "central_env \<Rightarrow> string \<Rightarrow> json \<Rightarrow> threads_state \<Rightarrow> outcome \<times> threads_state" where
  "store_signal env i data s =
     (case json_dump (env_floats env) data of
        Inr _ \<Rightarrow> after_handler env None (fresh_response\<lparr>res_status := 200\<rparr>)
      | Inl (Throw _) \<Rightarrow> after_handler env None (fresh_response\<lparr>res_status := 400\<rparr>)
      | Inl (Abort a) \<Rightarrow> after_handler env (Some (Abort a)) fresh_response,
      s\<lparr>signal_mutex := None, shared := signal_put i data (shared s)\<rparr>)"

text \<open>GET /signal: the whole handler is under the lock.\<close>

definition fetch_signal :: "central_env \<Rightarrow> string \<Rightarrow> threads_state \<Rightarrow> outcome \<times> threads_state" where
  "fetch_signal env i s =
     (case signal_find i (shared s) of
        Some j \<Rightarrow>
          (case json_dump (env_floats env) j of
             Inr x \<Rightarrow> after_handler env None (set_content x ''application/json'' fresh_response)
           | Inl e \<Rightarrow> after_handler env (Some e) fresh_response)
      | None \<Rightarrow> after_handler env None (fresh_response\<lparr>res_status := 404\<rparr>),
      s\<lparr>signal_mutex := None\<rparr>)"

text \<open>\<open>std::lock_guard\<close>: a worker waits while another one has the mutex.\<close>

definition lock_signals :: "nat \<Rightarrow> stage \<Rightarrow> threads_state \<Rightarrow> (outcome \<times> threads_state) option" where
  "lock_signals i st s =
     (if signal_mutex s = None then Some (Next st, s\<lparr>signal_mutex := Some i\<rparr>) else None)"

section \<open>Steps\<close>

text \<open>The first stage of a request, and one stage of worker \<open>i\<close>.\<close>

definition start_request :: "central_env \<Rightarrow> nat \<Rightarrow> request \<Rightarrow> threads_state \<Rightarrow> outcome \<times> threads_state" where
  "start_request env i req s =
     (case route_of req of
        To_lookup secret \<Rightarrow> start_lookup env i secret s
      | To_getfile secret \<Rightarrow> start_getfile env i secret s
      | To_signal_get x \<Rightarrow> (Next (Wants_fetch x), s)
      | To_health \<Rightarrow> (after_handler env None (set_content health_text ''text/plain'' fresh_response), s)
      | To_register \<Rightarrow> start_register env i (req_body req) s
      | To_signal_post x \<Rightarrow> start_signal_post env x (req_body req) s
      | Not_found \<Rightarrow> (Done (Inr (fresh_response\<lparr>res_status := 404\<rparr>)), s)
      | Bad_method \<Rightarrow> (Done (Inr (fresh_response\<lparr>res_status := 400\<rparr>)), s))"

fun worker_stage ::
    "central_env \<Rightarrow> nat \<Rightarrow> request \<Rightarrow> stage \<Rightarrow> threads_state \<Rightarrow> (outcome \<times> threads_state) option" where
  "worker_stage env i req Received s = Some (start_request env i req s)"
| "worker_stage env i req (Looking secret) s = Some (look env secret s)"
| "worker_stage env i req (Reading secret) s = Some (read_row env secret s)"
| "worker_stage env i req (Between secret row) s = Some (start_marking env i secret row s)"
| "worker_stage env i req (Marking secret row) s = Some (mark_row env secret row s)"
| "worker_stage env i req (Inserting data) s = Some (insert_row env data s)"
| "worker_stage env i req (Wants_store x data) s = lock_signals i (Storing x data) s"
| "worker_stage env i req (Storing x data) s = Some (store_signal env x data s)"
| "worker_stage env i req (Wants_fetch x) s = lock_signals i (Fetching x) s"
| "worker_stage env i req (Fetching x) s = Some (fetch_signal env x s)"

definition replied :: "(nat \<times> request \<times> response) list \<Rightarrow> nat set" where
  "replied h = fst ` set h"

definition take_request :: "nat \<Rightarrow> request \<Rightarrow> threads_state \<Rightarrow> threads_state" where
  "take_request i req s =
     s\<lparr>server_workers := (server_workers s)[i := Busy (requests_read s) req Received],
       requests_read := Suc (requests_read s),
       served_before := (served_before s)(requests_read s := replied (served s))\<rparr>"

definition reply :: "nat \<Rightarrow> nat \<Rightarrow> request \<Rightarrow> response \<Rightarrow> threads_state \<Rightarrow> threads_state" where
  "reply i k req res s =
     s\<lparr>server_workers := (server_workers s)[i := Free], served := served s @ [(k, req, write_response_core req res)]\<rparr>"

text \<open>Workers read requests, go on, or reply. A server whose process has aborted takes no step.\<close>

inductive threads_step :: "central_env \<Rightarrow> threads_state \<Rightarrow> threads_state \<Rightarrow> bool" for env where
  step_read: "i < length (server_workers s) \<Longrightarrow> server_workers s ! i = Free \<Longrightarrow>
     threads_step env s (take_request i req s)"
| step_on: "i < length (server_workers s) \<Longrightarrow> server_workers s ! i = Busy k req st \<Longrightarrow>
     worker_stage env i req st s = Some (Next st', s') \<Longrightarrow>
     threads_step env s (s'\<lparr>server_workers := (server_workers s')[i := Busy k req st']\<rparr>)"
| step_reply: "i < length (server_workers s) \<Longrightarrow> server_workers s ! i = Busy k req st \<Longrightarrow>
     worker_stage env i req st s = Some (Done (Inr res), s') \<Longrightarrow>
     threads_step env s (reply i k req res s')"

inductive threads_reach :: "central_env \<Rightarrow> nat \<Rightarrow> central \<Rightarrow> threads_state \<Rightarrow> bool" for env n c where
  reach_listening: "threads_reach env n c (listening n c)"
| reach_more: "threads_reach env n c s \<Longrightarrow> threads_step env s s' \<Longrightarrow> threads_reach env n c s'"

inductive_cases threads_stepE: "threads_step env s s'"

end
