(* ===== verification/Central_Linear.thy ===== *)
theory Central_Linear
  imports Central_Threads Central_Properties "HOL-Library.Multiset"
begin

text \<open>
  The threads of the central server against the server that serves one request after the other:
  every interleaving gives the responses that some order of the requests would have given, with some
  of them finding the database occupied, and that order keeps requests in order that did not overlap.
  Only the claims may differ, which no response shows.
\<close>

section \<open>One request, in one go\<close>

text \<open>What \<open>process_request\<close> does, by route.\<close>

definition end_of_handler :: "central_env \<Rightarrow> handled \<Rightarrow> outcome \<times> central" where
  "end_of_handler env h = (case h of (f, res, c1) \<Rightarrow> (after_handler env f res, c1))"

definition at_once :: "central_env \<Rightarrow> request \<Rightarrow> central \<Rightarrow> outcome \<times> central" where
  "at_once env req c =
     (case route_of req of
        To_lookup x \<Rightarrow> end_of_handler env (handle_lookup env x fresh_response c)
      | To_getfile x \<Rightarrow> end_of_handler env (handle_getfile env x fresh_response c)
      | To_signal_get x \<Rightarrow> end_of_handler env (handle_signal_get env x fresh_response c)
      | To_health \<Rightarrow> end_of_handler env (handle_health fresh_response c)
      | To_register \<Rightarrow> end_of_handler env (handle_register env (req_body req) fresh_response c)
      | To_signal_post x \<Rightarrow> end_of_handler env (handle_signal_post env x (req_body req) fresh_response c)
      | Not_found \<Rightarrow> (Done (Inr (fresh_response\<lparr>res_status := 404\<rparr>)), c)
      | Bad_method \<Rightarrow> (Done (Inr (fresh_response\<lparr>res_status := 400\<rparr>)), c))"

lemma routing_route:
  "routing env req res c =
     (case route_of req of
        To_lookup x \<Rightarrow> (Some (handle_lookup env x res c), res)
      | To_getfile x \<Rightarrow> (Some (handle_getfile env x res c), res)
      | To_signal_get x \<Rightarrow> (Some (handle_signal_get env x res c), res)
      | To_health \<Rightarrow> (Some (handle_health res c), res)
      | To_register \<Rightarrow> (Some (handle_register env (req_body req) res c), res)
      | To_signal_post x \<Rightarrow> (Some (handle_signal_post env x (req_body req) res c), res)
      | Not_found \<Rightarrow> (None, res)
      | Bad_method \<Rightarrow> (None, res\<lparr>res_status := 400\<rparr>))"
  by (simp add: routing_def route_of_def Let_def get_handlers_def post_handlers_def split: option.split)

lemma process_at_once:
  "process_request env req c = Inr (res, c1) \<longleftrightarrow>
     (\<exists>r. at_once env req c = (Done (Inr r), c1) \<and> res = write_response_core req r)"
  unfolding process_request_cases routing_route at_once_def
  by (cases "route_of req")
     (auto simp: end_of_handler_def after_handler_def fresh_response_def
       split: prod.splits option.splits fault.splits if_splits)

section \<open>Up to claims\<close>

definition unclaim :: "stored_row \<Rightarrow> stored_row" where
  "unclaim row = row\<lparr>st_claimed := None\<rparr>"

definition same_rows :: "table \<Rightarrow> table \<Rightarrow> bool" where
  "same_rows t u \<longleftrightarrow> (\<forall>k. map_option unclaim (t k) = map_option unclaim (u k))"

definition agree :: "central \<Rightarrow> central \<Rightarrow> bool" where
  "agree c d \<longleftrightarrow>
     signal_store c = signal_store d \<and> connection_open (db c) = connection_open (db d)
     \<and> rel_option same_rows (transfers (db c)) (transfers (db d))"

lemma same_rows_simps [simp]: "same_rows t t" "same_rows t u \<Longrightarrow> same_rows u t"
  by (simp_all add: same_rows_def)

lemma same_rows_trans: "same_rows t u \<Longrightarrow> same_rows u v \<Longrightarrow> same_rows t v"
  by (simp add: same_rows_def)

lemma agree_refl [simp]: "agree c c"
  by (simp add: agree_def option.rel_refl)

lemma agree_sym: "agree c d \<Longrightarrow> agree d c"
  by (auto simp: agree_def option_rel_Some1 option_rel_Some2 elim!: option.rel_cases)

lemma agree_trans: "agree c d \<Longrightarrow> agree d e \<Longrightarrow> agree c e"
  unfolding agree_def by (auto elim!: option.rel_cases intro: same_rows_trans)

lemma unclaim_eq:
  "unclaim r = unclaim q \<Longrightarrow> \<exists>b. r = q\<lparr>st_claimed := b\<rparr>"
  unfolding unclaim_def by (cases r; cases q) auto

lemma same_rows_at:
  assumes "same_rows t u"
  shows "t k = None \<longleftrightarrow> u k = None" "t k = Some r \<Longrightarrow> \<exists>b q. u k = Some q \<and> r = q\<lparr>st_claimed := b\<rparr>"
proof -
  have e: "map_option unclaim (t k) = map_option unclaim (u k)" using assms by (simp add: same_rows_def)
  then show "t k = None \<longleftrightarrow> u k = None" by (cases "t k"; cases "u k") auto
  show "t k = Some r \<Longrightarrow> \<exists>b q. u k = Some q \<and> r = q\<lparr>st_claimed := b\<rparr>"
    using e unclaim_eq by (cases "u k") auto
qed

lemma unclaim_set_claimed: "map_option unclaim (set_claimed x t k) = map_option unclaim (t k)"
  by (cases "t x") (simp_all add: set_claimed_def unclaim_def)

lemma same_rows_claimed [simp]:
  "same_rows (set_claimed x t) u = same_rows t u" "same_rows u (set_claimed x t) = same_rows u t"
  by (simp_all add: same_rows_def unclaim_set_claimed)

lemma same_rows_upsert: "same_rows t u \<Longrightarrow> same_rows (upsert time p t) (upsert time p u)"
proof -
  assume s: "same_rows t u"
  show ?thesis
    unfolding same_rows_def
  proof
    fix k
    show "map_option unclaim (upsert time p t k) = map_option unclaim (upsert time p u k)"
    proof (cases "k = pl_id p")
      case True
      with same_rows_at [OF s, of k] show ?thesis
        by (cases "t k") (auto simp: upsert_def unclaim_def)
    next
      case False
      with s show ?thesis by (simp add: upsert_def same_rows_def)
    qed
  qed
qed

lemma to_transfer_row_claimed:
  "bind_result (to_transfer_row (q\<lparr>st_claimed := b\<rparr>)) (\<lambda>r. Inr (r\<lparr>tr_claimed := True\<rparr>)) =
   bind_result (to_transfer_row q) (\<lambda>r. Inr (r\<lparr>tr_claimed := True\<rparr>))"
  by (simp add: to_transfer_row_def bind_result_def split: sum.split)


text \<open>A handler cannot tell states that agree.\<close>

lemma rethrow_simps [simp]:
  "rethrow pg (Inr x) = Inr x"
  "rethrow pg (Inl (Throw e)) = Inl (Throw (Runtime_Error (what_text pg e)))"
  "rethrow pg (Inl (Abort a)) = Inl (Abort a)"
  by (simp_all add: rethrow_def)

lemma agree_tables:
  assumes "agree c d"
  obtains (none) "transfers (db c) = None" "transfers (db d) = None"
    | (some) t u where "transfers (db c) = Some t" "transfers (db d) = Some u" "same_rows t u"
  using assms by (cases "transfers (db c)"; cases "transfers (db d)") (auto simp: agree_def)

lemma agree_simps:
  assumes "agree c d"
  shows "signal_find i c = signal_find i d" "connection_open (db c) = connection_open (db d)"
    and "begin_transaction pg (db c) = begin_transaction pg (db d)"
    and "agree (signal_put i j c) (signal_put i j d)"
  using assms by (simp_all add: agree_def signal_find_def signal_put_def begin_transaction_def)

lemma lookup_agrees:
  assumes "agree c d"
  shows "lookup_transfer pg x (db c) = lookup_transfer pg x (db d)"
  using assms
proof (cases rule: agree_tables)
  case (some t u)
  have "t x = None \<longleftrightarrow> u x = None" by (rule same_rows_at(1) [OF some(3)])
  with some show ?thesis using agree_simps(3) [OF assms, of pg]
    by (cases "t x"; cases "u x") (simp_all add: lookup_transfer_def exec_table_def)
qed (use agree_simps(3) [OF assms, of pg] in \<open>simp add: lookup_transfer_def exec_table_def\<close>)

definition agree_dbs :: "database \<Rightarrow> database \<Rightarrow> bool" where
  "agree_dbs d e \<longleftrightarrow> connection_open d = connection_open e \<and> rel_option same_rows (transfers d) (transfers e)"

lemma agree_db: "agree c d \<longleftrightarrow> signal_store c = signal_store d \<and> agree_dbs (db c) (db d)"
  by (simp add: agree_def agree_dbs_def)

lemma getfile_agrees:
  assumes "agree c d"
  shows "fst (get_transfers_metadata pg x (db c)) = fst (get_transfers_metadata pg x (db d))"
    and "agree_dbs (snd (get_transfers_metadata pg x (db c))) (snd (get_transfers_metadata pg x (db d)))"
proof -
  have "get_transfers_metadata pg x (db c) = (r, c1) \<Longrightarrow> get_transfers_metadata pg x (db d) = (q, d1) \<Longrightarrow>
      r = q \<and> agree_dbs c1 d1" for r q c1 d1
    using assms
  proof (cases rule: agree_tables)
    case none
    with agree_simps(3) [OF assms, of pg] assms
    show "get_transfers_metadata pg x (db c) = (r, c1) \<Longrightarrow> get_transfers_metadata pg x (db d) = (q, d1) \<Longrightarrow>
        r = q \<and> agree_dbs c1 d1"
      by (auto simp: get_transfers_metadata_def exec_table_def agree_db split: sum.splits)
  next
    case (some t u)
    assume r: "get_transfers_metadata pg x (db c) = (r, c1)" "get_transfers_metadata pg x (db d) = (q, d1)"
    have row: "(case t x of None \<Rightarrow> Inl (Throw (Db_Error ''unexpected null''))
          | Some row \<Rightarrow> bind_result (to_transfer_row row) (\<lambda>r. Inr (r\<lparr>tr_claimed := True\<rparr>))) =
        (case u x of None \<Rightarrow> Inl (Throw (Db_Error ''unexpected null''))
          | Some row \<Rightarrow> bind_result (to_transfer_row row) (\<lambda>r. Inr (r\<lparr>tr_claimed := True\<rparr>)))"
      using same_rows_at [OF some(3), of x] to_transfer_row_claimed by (cases "t x") fastforce+
    show "r = q \<and> agree_dbs c1 d1"
    proof (cases "begin_transaction pg (db d)")
      case (Inl e)
      with r agree_simps(3) [OF assms, of pg] assms show ?thesis
        by (auto simp: get_transfers_metadata_def agree_db)
    next
      case (Inr b)
      with r agree_simps(3) [OF assms, of pg] assms some row show ?thesis
        by (cases "statements_ok pg")
           (auto simp: get_transfers_metadata_def mark_transfer_claimed_def exec_table_def agree_db agree_dbs_def)
    qed
  qed
  then show "fst (get_transfers_metadata pg x (db c)) = fst (get_transfers_metadata pg x (db d))"
    "agree_dbs (snd (get_transfers_metadata pg x (db c))) (snd (get_transfers_metadata pg x (db d)))"
    by (metis prod.collapse)+
qed

lemma register_agrees:
  assumes "agree c d"
  shows "rel_sum (=) agree_dbs (register_transfers fl pg data (db c)) (register_transfers fl pg data (db d))"
  using assms
proof (cases rule: agree_tables)
  case none
  with agree_simps(3) [OF assms, of pg] show ?thesis
    by (auto simp: register_transfers_def exec_table_def bind_result_def rethrow_def catch_exn_def
        split: sum.splits fault.splits)
next
  case (some t u)
  have "agree_dbs ((db c)\<lparr>transfers := Some (upsert (now_text pg) p t)\<rparr>) ((db d)\<lparr>transfers := Some (upsert (now_text pg) p u)\<rparr>)" for p
    using same_rows_upsert [OF some(3)] assms by (simp add: agree_dbs_def agree_db)
  with some agree_simps(3) [OF assms, of pg] show ?thesis
    by (cases "begin_transaction pg (db d)"; cases "transfer_row_from_json fl pg data"; cases "statements_ok pg")
       (auto simp: register_transfers_def exec_table_def rethrow_def catch_exn_def split: fault.splits)
qed

lemma at_once_agrees:
  assumes "agree c d"
  shows "fst (at_once env req c) = fst (at_once env req d) \<and> agree (snd (at_once env req c)) (snd (at_once env req d))"
proof (cases "route_of req")
  case (To_lookup x)
  with assms lookup_agrees [OF assms] show ?thesis
    by (simp add: at_once_def end_of_handler_def handle_lookup_def split: sum.split)
next
  case (To_getfile x)
  obtain r c1 where c: "get_transfers_metadata (env_postgres env) x (db c) = (r, c1)" by fastforce
  obtain q d1 where d: "get_transfers_metadata (env_postgres env) x (db d) = (q, d1)" by fastforce
  from getfile_agrees [OF assms, of "env_postgres env" x] c d have "r = q" "agree_dbs c1 d1" by simp_all
  with assms To_getfile c d show ?thesis
    by (auto simp: at_once_def end_of_handler_def handle_getfile_def agree_db split: sum.split fault.split)
next
  case (To_signal_get x)
  with assms agree_simps(1) [OF assms] show ?thesis
    by (auto simp: at_once_def end_of_handler_def handle_signal_get_def split: sum.split option.split)
next
  case To_register
  show ?thesis
  proof (cases "json_parse (env_floats env) (req_body req)")
    case (Inl e)
    with To_register assms show ?thesis
      by (auto simp: at_once_def end_of_handler_def handle_register_def split: fault.split)
  next
    case (Inr data)
    from register_agrees [OF assms, of "env_floats env" "env_postgres env" data] To_register assms Inr show ?thesis
      by (cases rule: rel_sum.cases)
         (auto simp: at_once_def end_of_handler_def handle_register_def agree_db split: fault.split)
  qed
next
  case (To_signal_post x)
  with assms agree_simps(4) [OF assms] show ?thesis
    by (auto simp: at_once_def end_of_handler_def handle_signal_post_def Let_def split: sum.split fault.split)
qed (use assms in \<open>simp_all add: at_once_def end_of_handler_def handle_health_def\<close>)

lemma process_agrees:
  assumes "process_request env req c = Inr (res, c1)" "agree c d"
  obtains d1 where "process_request env req d = Inr (res, d1)" "agree c1 d1"
proof -
  obtain o1 d1 where d: "at_once env req d = (o1, d1)" by fastforce
  from assms(1) obtain r where r: "at_once env req c = (Done (Inr r), c1)" "res = write_response_core req r"
    by (auto simp: process_at_once)
  with d at_once_agrees [OF assms(2), of env req] have "o1 = Done (Inr r)" "agree c1 d1" by simp_all
  with d r that show thesis by (simp add: process_at_once)
qed

section \<open>Sequences of requests\<close>

text \<open>
  Serving one request after the other; every one may find the database occupied. The last state
  need only agree.
\<close>

inductive serves :: "central_env \<Rightarrow> central \<Rightarrow> (nat \<times> request \<times> response) list \<Rightarrow> central \<Rightarrow> bool" for env where
  serves_none: "agree c c' \<Longrightarrow> serves env c [] c'"
| serves_more: "process_request env req c = Inr (res, c1) \<or> process_request (crowded env) req c = Inr (res, c1) \<Longrightarrow>
     serves env c1 h c' \<Longrightarrow> serves env c ((k, req, res) # h) c'"

inductive_simps serves_simps: "serves env c [] c'" "serves env c ((k, req, res) # h) c'"

lemma serves_agree: "serves env c h c' \<Longrightarrow> agree c d \<Longrightarrow> agree c' d' \<Longrightarrow> serves env d h d'"
proof (induction arbitrary: d rule: serves.induct)
  case (serves_none c c')
  then show ?case by (intro serves.serves_none) (meson agree_sym agree_trans)
next
  case (serves_more req c res c1 h c' k)
  from serves_more.hyps(1) serves_more.prems(1) obtain d1 where
    "process_request env req d = Inr (res, d1) \<or> process_request (crowded env) req d = Inr (res, d1)" "agree c1 d1"
    by (meson process_agrees)
  with serves_more.IH serves_more.prems(2) show ?case by (intro serves.serves_more) auto
qed

lemma serves_append: "serves env c (h1 @ h2) c' \<longleftrightarrow> (\<exists>c1. serves env c h1 c1 \<and> serves env c1 h2 c')"
proof (induction h1 arbitrary: c)
  case Nil
  show ?case by (auto simp: serves_simps intro: serves_agree [OF _ _ agree_refl] agree_sym) (meson agree_refl)
next
  case (Cons x h1)
  then show ?case by (cases x) (auto simp: serves_simps)
qed

lemma serves_insert:
  assumes "serves env c pre c1" "process_request env req c1 = Inr (res, c2) \<or> process_request (crowded env) req c1 = Inr (res, c2)"
    "agree c1 c2" "serves env c1 post c'"
  shows "serves env c (pre @ (k, req, res) # post) c'"
  using assms serves_agree [OF assms(4,3) agree_refl] by (auto simp: serves_append serves_simps)

section \<open>Stages\<close>

lemma crowded_simps [simp]:
  "env_floats (crowded env) = env_floats env"
  "after_handler (crowded env) f res = after_handler env f res"
  "rethrow (env_postgres (crowded env)) r = rethrow (env_postgres env) r"
proof -
  show f: "env_floats (crowded env) = env_floats env" by (simp add: crowded_def)
  have w: "what_text (env_postgres (crowded env)) = what_text (env_postgres env)" by (simp add: crowded_def)
  show "after_handler (crowded env) f res = after_handler env f res"
    by (simp add: after_handler_def exception_handler_def w split: option.split fault.split)
  show "rethrow (env_postgres (crowded env)) r = rethrow (env_postgres env) r"
    by (simp add: rethrow_def w)
qed

text \<open>
  What a stage presupposes: the route, and that the transactions opened so far could be opened. The
  connection and the existence of the table are those of the start, \<open>c0\<close>.
\<close>

definition opens :: "central_env \<Rightarrow> central \<Rightarrow> bool" where
  "opens env c \<longleftrightarrow> begin_transaction (env_postgres env) (db c) = Inr ()"

fun stage_ok :: "central_env \<Rightarrow> central \<Rightarrow> request \<Rightarrow> stage \<Rightarrow> bool" where
  "stage_ok env c0 req Received = True"
| "stage_ok env c0 req (Looking x) = (route_of req = To_lookup x \<and> opens env c0)"
| "stage_ok env c0 req (Reading x) = (route_of req = To_getfile x \<and> opens env c0)"
| "stage_ok env c0 req (Between x row) =
     (route_of req = To_getfile x \<and> opens env c0 \<and> statements_ok (env_postgres env) \<and> transfers (db c0) \<noteq> None)"
| "stage_ok env c0 req (Marking x row) =
     (route_of req = To_getfile x \<and> opens env c0 \<and> statements_ok (env_postgres env) \<and> transfers (db c0) \<noteq> None)"
| "stage_ok env c0 req (Inserting data) =
     (route_of req = To_register \<and> json_parse (env_floats env) (req_body req) = Inr data \<and> opens env c0)"
| "stage_ok env c0 req (Wants_store x data) =
     (route_of req = To_signal_post x \<and> json_parse (env_floats env) (req_body req) = Inr data)"
| "stage_ok env c0 req (Storing x data) =
     (route_of req = To_signal_post x \<and> json_parse (env_floats env) (req_body req) = Inr data)"
| "stage_ok env c0 req (Wants_fetch x) = (route_of req = To_signal_get x)"
| "stage_ok env c0 req (Fetching x) = (route_of req = To_signal_get x)"

lemma keeps_connection:
  assumes "db_keeps (db c0) (db c)"
  shows "begin_transaction pg (db c) = begin_transaction pg (db c0)" "transfers (db c) = None \<longleftrightarrow> transfers (db c0) = None"
  using assms by (auto simp: db_keeps_def begin_transaction_def split: option.splits)

text \<open>A worker between its two transactions, with the row it read.\<close>

fun pending :: "stage \<Rightarrow> (string \<times> stored_row option) option" where
  "pending (Between x row) = Some (x, row)"
| "pending (Marking x row) = Some (x, row)"
| "pending st = None"

lemma open_cases:
  assumes "open_on_connection env i s = r"
  shows "(\<exists>e. r = Inl (Throw e) \<and> begin_transaction (env_postgres (env_at env s)) (db (shared s)) = Inl (Throw e))
    \<or> r = Inr (s\<lparr>open_transaction := Some i\<rparr>) \<and> opens env (shared s)"
  using assms
  by (auto simp: open_on_connection_def opens_def env_at_def crowded_def begin_transaction_def split: if_splits)

lemma stage_next:
  assumes "worker_stage env i req st s = Some (Next st', s')" "stage_ok env c0 req st" "db_keeps (db c0) (db (shared s))"
  shows "shared s' = shared s" "stage_ok env c0 req st'"
    and "pending st' = None \<or> pending st' = pending st
      \<or> (\<exists>x t. transfers (db (shared s)) = Some t \<and> pending st' = Some (x, t x))"
proof -
  note conn = keeps_connection [OF assms(3)]
  have o: "opens env (shared s) = opens env c0" by (simp add: opens_def conn)
  have "shared s' = shared s \<and> stage_ok env c0 req st'
    \<and> (pending st' = None \<or> pending st' = pending st
      \<or> (\<exists>x t. transfers (db (shared s)) = Some t \<and> pending st' = Some (x, t x)))"
  proof (cases st)
    case Received
    with assms(1) have "start_request env i req s = (Next st', s')" by simp
    then show ?thesis
      using open_cases [OF refl, of env i s] o
      by (auto simp: start_request_def start_lookup_def start_getfile_def start_register_def start_signal_post_def
          after_handler_def split: route.splits sum.splits fault.splits)
  next
    case (Reading x)
    with assms(1,2) conn(2) show ?thesis
      by (auto simp: read_row_def exec_table_def end_getfile_def after_handler_def
          split: sum.splits fault.splits option.splits if_splits)
  next
    case (Between x row)
    with assms(1,2) open_cases [OF refl, of env i s] show ?thesis
      by (auto simp: start_marking_def end_getfile_def after_handler_def split: sum.splits fault.splits)
  qed (use assms in \<open>auto simp: look_def mark_row_def insert_row_def store_signal_def fetch_signal_def
      lock_signals_def after_handler_def end_getfile_def Let_def
      split: sum.splits fault.splits option.splits if_splits prod.splits\<close>)
  then show "shared s' = shared s" "stage_ok env c0 req st'"
    "pending st' = None \<or> pending st' = pending st
      \<or> (\<exists>x t. transfers (db (shared s)) = Some t \<and> pending st' = Some (x, t x))" by blast+
qed

lemma stage_frame:
  assumes "worker_stage env i req st s = Some (out, s')"
  shows "server_workers s' = server_workers s" "requests_read s' = requests_read s"
    "served s' = served s" "served_before s' = served_before s"
proof -
  have "server_workers s' = server_workers s \<and> requests_read s' = requests_read s
    \<and> served s' = served s \<and> served_before s' = served_before s"
  proof (cases st)
    case Received
    with assms have "start_request env i req s = (out, s')" by simp
    then show ?thesis
      using open_cases [OF refl, of env i s]
      by (auto simp: start_request_def start_lookup_def start_getfile_def start_register_def start_signal_post_def
          split: route.splits sum.splits fault.splits)
  next
    case (Between x row)
    with assms open_cases [OF refl, of env i s] show ?thesis
      by (auto simp: start_marking_def split: sum.splits)
  qed (use assms in \<open>auto simp: look_def read_row_def mark_row_def insert_row_def store_signal_def fetch_signal_def
      lock_signals_def Let_def split: sum.splits fault.splits if_splits\<close>)
  then show "server_workers s' = server_workers s" "requests_read s' = requests_read s"
    "served s' = served s" "served_before s' = served_before s" by blast+
qed

text \<open>A stage that replies without a row read before: the request in one go, on the state it finds.\<close>

lemma env_at_simps [simp]:
  "env_floats (env_at env s) = env_floats env"
  "after_handler (env_at env s) f res = after_handler env f res"
  "rethrow (env_postgres (env_at env s)) r = rethrow (env_postgres env) r"
  by (simp_all add: env_at_def)

lemma database_same [simp]: "c\<lparr>db := db c\<rparr> = c"
  by simp

lemma start_done:
  assumes "start_request env i req s = (Done r, s')"
  shows "at_once (env_at env s) req (shared s) = (Done r, shared s')"
proof (cases "route_of req")
  case (To_lookup x)
  with assms open_cases [OF refl, of env i s] show ?thesis
    by (auto simp: start_request_def start_lookup_def at_once_def end_of_handler_def handle_lookup_def
        lookup_transfer_def)
next
  case (To_getfile x)
  with assms open_cases [OF refl, of env i s] show ?thesis
    by (auto simp: start_request_def start_getfile_def at_once_def end_of_handler_def handle_getfile_def
        get_transfers_metadata_def)
next
  case To_register
  with assms open_cases [OF refl, of env i s] show ?thesis
    by (auto simp: start_request_def start_register_def at_once_def end_of_handler_def handle_register_def
        register_transfers_def split: sum.splits fault.splits)
next
  case (To_signal_post x)
  with assms show ?thesis
    by (auto simp: start_request_def start_signal_post_def at_once_def end_of_handler_def handle_signal_post_def
        split: sum.splits fault.splits)
qed (use assms in \<open>auto simp: start_request_def at_once_def end_of_handler_def handle_health_def\<close>)

lemma stage_done:
  assumes "worker_stage env i req st s = Some (Done r, s')" "stage_ok env c0 req st"
    "db_keeps (db c0) (db (shared s))" "pending st = None"
  shows "\<exists>e \<in> {env, crowded env}. at_once e req (shared s) = (Done r, shared s')"
proof -
  have o: "begin_transaction (env_postgres env) (db (shared s)) = Inr ()" if "opens env c0"
    using that keeps_connection(1) [OF assms(3)] by (simp add: opens_def)
  show ?thesis
  proof (cases st)
    case Received
    with assms(1) have "start_request env i req s = (Done r, s')" by simp
    from start_done [OF this] show ?thesis by (auto simp: env_at_def split: if_splits)
  next
    case (Looking x)
    with assms(1,2) o have "at_once env req (shared s) = (Done r, shared s')"
      by (auto simp: look_def Let_def at_once_def end_of_handler_def handle_lookup_def lookup_transfer_def
          split: sum.splits)
    then show ?thesis by simp
  next
    case (Reading x)
    with assms(1,2) o have "at_once env req (shared s) = (Done r, shared s')"
      by (auto simp: read_row_def at_once_def end_of_handler_def handle_getfile_def get_transfers_metadata_def
          end_getfile_def split: sum.splits fault.splits)
    then show ?thesis by simp
  next
    case (Inserting data)
    have e: "register_transfers (env_floats env) (env_postgres env) data (db (shared s)) =
        bind_result (rethrow (env_postgres env)
             (bind_result (transfer_row_from_json (env_floats env) (env_postgres env) data) (\<lambda>payload.
              bind_result (exec_table (env_postgres env) (db (shared s))) (\<lambda>t.
              if \<not> storable (env_postgres env) payload then Inl (Throw (Db_Error ''value''))
              else Inr (upsert (now_text (env_postgres env)) payload t)))))
          (\<lambda>t. Inr ((db (shared s))\<lparr>transfers := Some t\<rparr>))"
      using o Inserting assms(2)
      by (auto simp: register_transfers_def bind_result_def rethrow_def catch_exn_def split: sum.splits fault.splits)
    from Inserting assms(1,2) have "at_once env req (shared s) = (Done r, shared s')"
      by (auto simp: insert_row_def at_once_def end_of_handler_def handle_register_def e
          split: sum.splits fault.splits)
    then show ?thesis by simp
  next
    case (Storing x data)
    with assms(1,2) have "at_once env req (shared s) = (Done r, shared s')"
      by (auto simp: store_signal_def at_once_def end_of_handler_def handle_signal_post_def Let_def
          split: sum.splits fault.splits)
    then show ?thesis by simp
  next
    case (Fetching x)
    with assms(1,2) have "at_once env req (shared s) = (Done r, shared s')"
      by (auto simp: fetch_signal_def at_once_def end_of_handler_def handle_signal_get_def
          split: sum.splits fault.splits option.splits)
    then show ?thesis by simp
  qed (use assms in \<open>auto simp: lock_signals_def split: if_splits\<close>)
qed

text \<open>A reply to GET /getfile: the request in one go, on any state in which the row was as it was read.\<close>

definition claimed_row :: "stored_row option \<Rightarrow> TransferRow result" where
  "claimed_row row =
     (case row of
        None \<Rightarrow> Inl (Throw (Db_Error ''unexpected null''))
      | Some row \<Rightarrow> bind_result (to_transfer_row row) (\<lambda>r. Inr (r\<lparr>tr_claimed := True\<rparr>)))"

lemma claimed_row_unclaimed: "map_option unclaim row = map_option unclaim row1 \<Longrightarrow> claimed_row row = claimed_row row1"
  using unclaim_eq to_transfer_row_claimed by (cases row; cases row1) (fastforce simp: claimed_row_def)+

lemma getfile_at_once:
  assumes "route_of req = To_getfile x"
  shows "begin_transaction (env_postgres env) (db c) = Inl (Throw e) \<Longrightarrow>
      at_once env req c = (end_getfile env (Inl (Throw e)), c)"
    and "opens env c \<Longrightarrow> statements_ok (env_postgres env) \<Longrightarrow> transfers (db c) = Some t \<Longrightarrow>
      at_once env req c = (end_getfile env (claimed_row (t x)), c\<lparr>db := (db c)\<lparr>transfers := Some (set_claimed x t)\<rparr>\<rparr>)"
  using assms
  by (auto simp: at_once_def end_of_handler_def handle_getfile_def get_transfers_metadata_def end_getfile_def
      claimed_row_def mark_transfer_claimed_def exec_table_def opens_def split: sum.split fault.split)

lemma pending_done:
  assumes "worker_stage env i req st s = Some (Done r, s')" "stage_ok env c0 req st"
    "db_keeps (db c0) (db (shared s))" "pending st = Some (x, row)"
    "db_keeps (db c0) (db c1)" "transfers (db c1) = Some t" "map_option unclaim (t x) = map_option unclaim row"
  shows "\<exists>e \<in> {env, crowded env}. \<exists>c2. at_once e req c1 = (Done r, c2) \<and> agree c1 c2" "agree (shared s) (shared s')"
proof -
  have "(\<exists>e \<in> {env, crowded env}. \<exists>c2. at_once e req c1 = (Done r, c2) \<and> agree c1 c2) \<and> agree (shared s) (shared s')"
  proof (cases st)
    case (Between y row1)
    with assms(1,2,4) open_cases [OF refl, of env i s] have route: "route_of req = To_getfile x"
      and r: "Done r = after_handler env None fresh_response" "shared s' = shared s"
      by (auto simp: start_marking_def end_getfile_def split: sum.splits)
    have "\<exists>e. begin_transaction (env_postgres (crowded env)) (db c1) = Inl (Throw e)"
      by (simp add: begin_transaction_def crowded_def)
    then obtain e where e: "begin_transaction (env_postgres (crowded env)) (db c1) = Inl (Throw e)" by blast
    from getfile_at_once(1) [OF route e] r have "at_once (crowded env) req c1 = (Done r, c1)"
      by (simp add: end_getfile_def)
    with r show ?thesis by auto
  next
    case (Marking y row1)
    with assms(2,4) have route: "route_of req = To_getfile x" and ok: "opens env c0" "statements_ok (env_postgres env)"
      "transfers (db c0) \<noteq> None" and y: "y = x" "row1 = row" by auto
    obtain u where u: "transfers (db (shared s)) = Some u" using ok(3) keeps_connection(2) [OF assms(3)] by auto
    have "opens env c1" using ok(1) keeps_connection(1) [OF assms(5)] by (simp add: opens_def)
    from getfile_at_once(2) [OF route this ok(2) assms(6)]
    have once: "at_once env req c1 = (end_getfile env (claimed_row (t x)),
        c1\<lparr>db := (db c1)\<lparr>transfers := Some (set_claimed x t)\<rparr>\<rparr>)" .
    have "Done r = end_getfile env (claimed_row row)"
      and s': "shared s' = (shared s)\<lparr>db := (db (shared s))\<lparr>transfers := Some (set_claimed x u)\<rparr>\<rparr>"
      using assms(1) Marking y u ok(2) by (auto simp: mark_row_def exec_table_def claimed_row_def)
    then have "at_once env req c1 = (Done r, c1\<lparr>db := (db c1)\<lparr>transfers := Some (set_claimed x t)\<rparr>\<rparr>)"
      using once claimed_row_unclaimed [OF assms(7)] by simp
    moreover have "agree c1 (c1\<lparr>db := (db c1)\<lparr>transfers := Some (set_claimed x t)\<rparr>\<rparr>)" "agree (shared s) (shared s')"
      using assms(6) u s' by (simp_all add: agree_def)
    ultimately show ?thesis by auto
  qed (use assms(4) in simp_all)
  then show "\<exists>e \<in> {env, crowded env}. \<exists>c2. at_once e req c1 = (Done r, c2) \<and> agree c1 c2" "agree (shared s) (shared s')"
    by blast+
qed

lemma pending_keeps:
  assumes "worker_stage env i req st s = Some (Done r, s')" "pending st = Some p"
  shows "db_keeps (db (shared s)) (db (shared s'))"
proof (cases st)
  case (Between x row)
  with assms open_cases [OF refl, of env i s] show ?thesis by (auto simp: start_marking_def split: sum.splits)
next
  case (Marking x row)
  with assms show ?thesis
    by (auto simp: mark_row_def exec_table_Inr db_keeps_def set_claimed_keeps split: sum.splits option.splits)
qed (use assms in simp_all)

section \<open>The order\<close>

text \<open>Every request comes after those that were finished when it was read.\<close>

fun ordered_after :: "(nat \<Rightarrow> nat set) \<Rightarrow> nat set \<Rightarrow> (nat \<times> request \<times> response) list \<Rightarrow> bool" where
  "ordered_after before d [] = True"
| "ordered_after before d ((k, x) # h) = (before k \<subseteq> d \<and> ordered_after before (insert k d) h)"

lemma replied_simps [simp]: "replied [] = {}" "replied (x # h) = insert (fst x) (replied h)"
  "replied (h1 @ h2) = replied h1 \<union> replied h2"
  by (auto simp: replied_def)

lemma ordered_append:
  "ordered_after before d (h1 @ h2) \<longleftrightarrow> ordered_after before d h1 \<and> ordered_after before (d \<union> replied h1) h2"
  by (induction before d h1 rule: ordered_after.induct) auto

lemma ordered_mono: "ordered_after before d h \<Longrightarrow> d \<subseteq> d' \<Longrightarrow> ordered_after before d' h"
proof (induction before d h arbitrary: d' rule: ordered_after.induct)
  case (2 before d k x h)
  have "insert k d \<subseteq> insert k d'" using 2(3) by blast
  with 2 show ?case by auto
qed simp

lemma ordered_cong:
  "ordered_after before d h \<Longrightarrow> \<forall>k \<in> replied h. before k = before' k \<Longrightarrow> ordered_after before' d h"
  by (induction before d h rule: ordered_after.induct) auto

lemma ordered_insert:
  assumes "ordered_after before {} (pre @ post)" "before k \<subseteq> replied pre"
  shows "ordered_after before {} (pre @ (k, x) # post)"
  using assms ordered_mono [of before "replied pre" post "insert k (replied pre)"] by (auto simp: ordered_append)

section \<open>The invariant\<close>

text \<open>A row read is the row that was there at some point of the order, after all that was finished before.\<close>

definition row_read :: "central_env \<Rightarrow> central \<Rightarrow> threads_state \<Rightarrow> (nat \<times> request \<times> response) list \<Rightarrow> nat \<Rightarrow>
    string \<times> stored_row option \<Rightarrow> bool" where
  "row_read env c0 s h k p \<longleftrightarrow>
     (\<exists>pre post c1 t. h = pre @ post \<and> serves env c0 pre c1 \<and> serves env c1 post (shared s)
        \<and> db_keeps (db c0) (db c1) \<and> transfers (db c1) = Some t
        \<and> map_option unclaim (t (fst p)) = map_option unclaim (snd p) \<and> served_before s k \<subseteq> replied pre)"

fun worker_ok :: "central_env \<Rightarrow> central \<Rightarrow> threads_state \<Rightarrow> (nat \<times> request \<times> response) list \<Rightarrow> server_worker \<Rightarrow> bool" where
  "worker_ok env c0 s h Free = True"
| "worker_ok env c0 s h (Busy k req st) =
     (k < requests_read s \<and> stage_ok env c0 req st \<and> served_before s k \<subseteq> replied (served s)
      \<and> (case pending st of None \<Rightarrow> True | Some p \<Rightarrow> row_read env c0 s h k p))"

definition threads_inv :: "central_env \<Rightarrow> central \<Rightarrow> threads_state \<Rightarrow> (nat \<times> request \<times> response) list \<Rightarrow> bool" where
  "threads_inv env c0 s h \<longleftrightarrow>
     db_keeps (db c0) (db (shared s))
     \<and> serves env c0 h (shared s) \<and> mset h = mset (served s) \<and> ordered_after (served_before s) {} h
     \<and> (\<forall>k \<in> replied (served s). k < requests_read s)
     \<and> (\<forall>w \<in> set (server_workers s). worker_ok env c0 s h w)"

lemma workers_update: "\<forall>w \<in> set ws. P w \<Longrightarrow> P v \<Longrightarrow> \<forall>w \<in> set (ws[i := v]). P w"
  using set_update_subset_insert [of ws i v] by blast

lemma worker_ok_mono:
  assumes "worker_ok env c0 s h w" "requests_read s \<le> requests_read s'" "replied (served s) \<subseteq> replied (served s')"
    "\<And>k. k < requests_read s \<Longrightarrow> served_before s' k = served_before s k"
    "\<And>k p. k < requests_read s \<Longrightarrow> row_read env c0 s h k p \<Longrightarrow> row_read env c0 s' h' k p"
  shows "worker_ok env c0 s' h' w"
proof (cases w)
  case (Busy k req st)
  with assms show ?thesis by (auto split: option.splits)
qed simp

text \<open>A response tells what was done to the state, claims apart.\<close>

lemma getfile_agree: "at_once env req c = (out, c1) \<Longrightarrow> route_of req = To_getfile x \<Longrightarrow> agree c c1"
  by (auto simp: at_once_def end_of_handler_def handle_getfile_def get_transfers_metadata_def mark_transfer_claimed_def
      exec_table_def bind_result_def agree_def option.rel_refl split: sum.splits fault.splits option.splits prod.splits if_splits)

lemma crowded_begin: "begin_transaction (env_postgres (crowded env)) d \<noteq> Inr x"
  by (simp add: begin_transaction_def crowded_def)

lemma response_effect:
  assumes "process_request env req c = Inr (res, c1)" "process_request (crowded env) req c = Inr (res, d1)"
  shows "agree c1 d1"
proof -
  obtain r where r: "at_once env req c = (Done (Inr r), c1)" "res = write_response_core req r"
    using assms(1) by (auto simp: process_at_once)
  obtain q where q: "at_once (crowded env) req c = (Done (Inr q), d1)" "res = write_response_core req q"
    using assms(2) by (auto simp: process_at_once)
  have status: "res_status r = res_status q" using r(2) q(2) written_response(1) by metis
  show ?thesis
  proof (cases "route_of req")
    case (To_lookup x)
    with r(1) q(1) show ?thesis by (auto simp: at_once_def end_of_handler_def handle_lookup_def split: sum.splits)
  next
    case (To_getfile x)
    from getfile_agree [OF r(1) this] getfile_agree [OF q(1) this] show ?thesis
      by (blast intro: agree_sym agree_trans)
  next
    case (To_signal_get x)
    with r(1) q(1) show ?thesis
      by (auto simp: at_once_def end_of_handler_def handle_signal_get_def split: option.splits sum.splits)
  next
    case To_health
    with r(1) q(1) show ?thesis by (auto simp: at_once_def end_of_handler_def handle_health_def)
  next
    case To_register
    show ?thesis
    proof (cases "json_parse (env_floats env) (req_body req)")
      case (Inl e)
      with r(1) q(1) To_register show ?thesis
        by (auto simp: at_once_def end_of_handler_def handle_register_def split: fault.splits)
    next
      case (Inr data)
      have "register_transfers fl (env_postgres (crowded env)) data d \<noteq> Inr z" for fl d z
        using crowded_begin [of env d] by (auto simp: register_transfers_def bind_result_Inr_iff)
      then obtain e where "register_transfers (env_floats env) (env_postgres (crowded env)) data (db c) = Inl e"
        by (meson sum.exhaust)
      with q(1) To_register Inr have "d1 = c" "res_status q = 200"
        by (auto simp: at_once_def end_of_handler_def handle_register_def after_handler_def fresh_response_def
            split: fault.splits)
      moreover have "c1 = c \<or> res_status r = 201"
        using r(1) To_register Inr
        by (auto simp: at_once_def end_of_handler_def handle_register_def after_handler_def
            split: fault.splits sum.splits)
      ultimately show ?thesis using status by auto
    qed
  next
    case (To_signal_post x)
    with r(1) q(1) show ?thesis
      by (auto simp: at_once_def end_of_handler_def handle_signal_post_def Let_def split: sum.splits fault.splits)
  qed (use r(1) q(1) in \<open>auto simp: at_once_def\<close>)
qed

lemma serves_unique: "serves env c h c1 \<Longrightarrow> serves env d h d1 \<Longrightarrow> agree c d \<Longrightarrow> agree c1 d1"
proof (induction arbitrary: d rule: serves.induct)
  case (serves_none c c')
  then show ?case by (auto simp: serves_simps) (meson agree_sym agree_trans)
next
  case (serves_more req c res c2 h c' k)
  from serves_more.prems(1) obtain d2 where d2: "serves env d2 h d1"
    "process_request env req d = Inr (res, d2) \<or> process_request (crowded env) req d = Inr (res, d2)"
    by (auto simp: serves_simps)
  from d2(2) obtain e2 where e2: "agree d2 e2"
    "process_request env req c = Inr (res, e2) \<or> process_request (crowded env) req c = Inr (res, e2)"
    using process_agrees [OF _ agree_sym [OF serves_more.prems(2)]] by metis
  have "agree c2 e2"
    using serves_more.hyps(1) e2(2) response_effect [of env req c res c2 e2] response_effect [of env req c res e2 c2]
    by (auto intro: agree_sym)
  then have "agree c2 d2" using e2(1) by (meson agree_sym agree_trans)
  with serves_more.IH d2(1) show ?case by blast
qed

text \<open>A request that changes nothing but claims can be put anywhere where it gives its response.\<close>

definition neutral :: "central_env \<Rightarrow> request \<Rightarrow> response \<Rightarrow> central \<Rightarrow> bool" where
  "neutral env req res c \<longleftrightarrow> (\<exists>e \<in> {env, crowded env}. \<exists>c2. process_request e req c = Inr (res, c2) \<and> agree c c2)"

lemma neutral_agree: "neutral env req res c \<Longrightarrow> agree c d \<Longrightarrow> neutral env req res d"
  unfolding neutral_def by (meson process_agrees agree_sym agree_trans)

lemma serves_neutral:
  assumes "serves env c0 pre c1" "neutral env req res c1" "serves env c0 (pre @ post) c'"
  shows "serves env c0 (pre @ (k, req, res) # post) c'"
proof -
  obtain c3 where c3: "serves env c0 pre c3" "serves env c3 post c'" using assms(3) by (auto simp: serves_append)
  have "agree c1 c3" using serves_unique [OF assms(1) c3(1)] by simp
  with c3(2) have "serves env c1 post c'" by (intro serves_agree [OF c3(2)]) (auto intro: agree_sym)
  with assms(1,2) show ?thesis by (auto simp: neutral_def intro: serves_insert)
qed

text \<open>Rows read stay rows read when such a request is put into the order.\<close>

lemma row_read_neutral:
  assumes "row_read env c0 s h k p" "h = pre @ post" "serves env c0 pre c1" "neutral env req res c1"
    "agree (shared s) (shared s')" "served_before s' k = served_before s k"
  shows "row_read env c0 s' (pre @ (k', req, res) # post) k p"
proof -
  obtain pre2 post2 c2 t where p: "h = pre2 @ post2" "serves env c0 pre2 c2" "serves env c2 post2 (shared s)"
    "db_keeps (db c0) (db c2)" "transfers (db c2) = Some t" "map_option unclaim (t (fst p)) = map_option unclaim (snd p)"
    "served_before s k \<subseteq> replied pre2" using assms(1) by (auto simp: row_read_def)
  have end1: "serves env c2 post2 (shared s')" by (rule serves_agree [OF p(3) agree_refl assms(5)])
  from p(1) assms(2) consider m where "pre = pre2 @ m" "post2 = m @ post" | m where "pre2 = pre @ m" "post = m @ post2"
    by (auto simp: append_eq_append_conv2)
  then show ?thesis
  proof cases
    case 1
    with assms(3) obtain cx where cx: "serves env c0 pre2 cx" "serves env cx m c1" by (auto simp: serves_append)
    have "agree cx c2" using serves_unique [OF cx(1) p(2)] by simp
    then have "serves env c2 m c1" by (rule serves_agree [OF cx(2) _ agree_refl])
    with end1 1 have "serves env c2 (m @ (k', req, res) # post) (shared s')"
      using serves_neutral [OF _ assms(4)] by simp
    with p 1 assms(6) show ?thesis
      unfolding row_read_def by (intro exI [of _ pre2] exI [of _ "m @ (k', req, res) # post"] exI [of _ c2] exI [of _ t]) simp
  next
    case 2
    with p(2) have "serves env c0 (pre @ (k', req, res) # m) c2" using serves_neutral [OF assms(3,4)] by simp
    with p 2 assms(6) end1 show ?thesis
      unfolding row_read_def
      by (intro exI [of _ "pre @ (k', req, res) # m"] exI [of _ post2] exI [of _ c2] exI [of _ t]) auto
  qed
qed

lemma row_read_later:
  assumes "row_read env c0 s h k p" "serves env (shared s) h2 (shared s')" "served_before s' k = served_before s k"
  shows "row_read env c0 s' (h @ h2) k p"
proof -
  obtain pre post c1 t where p: "h = pre @ post" "serves env c0 pre c1" "serves env c1 post (shared s)"
    "db_keeps (db c0) (db c1)" "transfers (db c1) = Some t" "map_option unclaim (t (fst p)) = map_option unclaim (snd p)"
    "served_before s k \<subseteq> replied pre" using assms(1) by (auto simp: row_read_def)
  moreover have "serves env c1 (post @ h2) (shared s')" using p(3) assms(2) by (auto simp: serves_append)
  ultimately show ?thesis
    unfolding row_read_def using assms(3)
    by (intro exI [of _ pre] exI [of _ "post @ h2"] exI [of _ c1] exI [of _ t]) simp
qed

section \<open>Every step keeps it\<close>

lemma inv_worker:
  assumes "threads_inv env c0 s h" "i < length (server_workers s)" "server_workers s ! i = Busy k req st"
  shows "k < requests_read s" "stage_ok env c0 req st" "served_before s k \<subseteq> replied (served s)"
    "pending st = Some p \<Longrightarrow> row_read env c0 s h k p" "db_keeps (db c0) (db (shared s))"
proof -
  have "Busy k req st \<in> set (server_workers s)" using nth_mem [OF assms(2)] assms(3) by simp
  then have "worker_ok env c0 s h (Busy k req st)" "db_keeps (db c0) (db (shared s))"
    using assms(1) by (simp_all add: threads_inv_def del: worker_ok.simps)
  then show "k < requests_read s" "stage_ok env c0 req st" "served_before s k \<subseteq> replied (served s)"
    "pending st = Some p \<Longrightarrow> row_read env c0 s h k p" "db_keeps (db c0) (db (shared s))" by simp_all
qed

lemma inv_replied: "threads_inv env c0 s h \<Longrightarrow> replied h = replied (served s)"
  by (auto simp: threads_inv_def replied_def dest: mset_eq_setD)

lemma inv_listening: "threads_inv env c (listening n c) []"
  by (auto simp: threads_inv_def listening_def serves_simps)

lemma inv_read:
  assumes "threads_inv env c0 s h"
  shows "threads_inv env c0 (take_request i req s) h"
proof -
  let ?s = "take_request i req s"
  have sb: "served_before ?s k = served_before s k" if "k < requests_read s" for k
    using that by (simp add: take_request_def)
  have "\<forall>k \<in> replied h. served_before s k = served_before ?s k"
    using assms sb by (auto simp: inv_replied [OF assms] threads_inv_def)
  then have ordered: "ordered_after (served_before ?s) {} h"
    using assms by (auto simp: threads_inv_def intro: ordered_cong)
  have "worker_ok env c0 ?s h w" if "worker_ok env c0 s h w" for w
    using that by (rule worker_ok_mono) (simp_all add: sb row_read_def, simp_all add: take_request_def)
  then have "\<forall>w \<in> set (server_workers s). worker_ok env c0 ?s h w" using assms by (simp add: threads_inv_def)
  then have "\<forall>w \<in> set (server_workers ?s). worker_ok env c0 ?s h w"
    using workers_update [of "server_workers s" "worker_ok env c0 ?s h" "Busy (requests_read s) req Received" i]
    by (simp add: take_request_def)
  with assms ordered show ?thesis by (auto simp: threads_inv_def take_request_def less_Suc_eq)
qed

lemma inv_on:
  assumes "threads_inv env c0 s h" "i < length (server_workers s)" "server_workers s ! i = Busy k req st"
    "worker_stage env i req st s = Some (Next st', s')"
  shows "threads_inv env c0 (s'\<lparr>server_workers := (server_workers s')[i := Busy k req st']\<rparr>) h"
proof -
  let ?s = "s'\<lparr>server_workers := (server_workers s')[i := Busy k req st']\<rparr>"
  note w = inv_worker [OF assms(1-3)]
  note n = stage_next [OF assms(4) w(2,5)] and f = stage_frame [OF assms(4)]
  have read: "row_read env c0 ?s h j p = row_read env c0 s h j p" for j p
    using n(1) f by (simp add: row_read_def)
  have "row_read env c0 s h k p" if "pending st' = Some p" for p
  proof -
    from n(3) that consider "pending st = Some p"
      | x t where "transfers (db (shared s)) = Some t" "p = (x, t x)" by auto
    then show ?thesis
    proof cases
      case 2
      then show ?thesis
        using assms(1) w(3,5) inv_replied [OF assms(1)] unfolding row_read_def
        by (intro exI [of _ h] exI [of _ "[]"] exI [of _ "shared s"] exI [of _ t])
           (auto simp: threads_inv_def serves_simps)
    qed (rule w(4))
  qed
  then have "worker_ok env c0 ?s h (Busy k req st')" using w f n(2) read by (simp split: option.split)
  moreover have "\<forall>v \<in> set (server_workers s). worker_ok env c0 ?s h v"
    using assms(1) f read by (auto simp: threads_inv_def intro: worker_ok_mono)
  ultimately have "\<forall>v \<in> set (server_workers ?s). worker_ok env c0 ?s h v"
    using f(1) workers_update [of "server_workers s" "worker_ok env c0 ?s h" "Busy k req st'" i]
    by (simp del: worker_ok.simps)
  with assms(1) n(1) f show ?thesis by (simp add: threads_inv_def)
qed

lemma inv_replyI:
  assumes "threads_inv env c0 s h" "i < length (server_workers s)" "server_workers s ! i = Busy k req st"
    "worker_stage env i req st s = Some (Done (Inr r), s')"
    and "mset h' = add_mset (k, req, write_response_core req r) (mset h)"
    and "serves env c0 h' (shared s')" "ordered_after (served_before s) {} h'" "db_keeps (db c0) (db (shared s'))"
    and "\<And>j p. row_read env c0 s h j p \<Longrightarrow> row_read env c0 (reply i k req r s') h' j p"
  shows "threads_inv env c0 (reply i k req r s') h'"
proof -
  let ?s = "reply i k req r s'"
  note w = inv_worker [OF assms(1-3)] and f = stage_frame [OF assms(4)]
  have "\<forall>v \<in> set (server_workers s). worker_ok env c0 ?s h' v"
    using assms(1) f assms(9) by (auto simp: threads_inv_def reply_def intro: worker_ok_mono)
  then have "\<forall>v \<in> set (server_workers ?s). worker_ok env c0 ?s h' v"
    using f(1) workers_update [of "server_workers s" "worker_ok env c0 ?s h'" Free i] by (simp add: reply_def)
  then show ?thesis using assms w(1) f by (auto simp: threads_inv_def reply_def)
qed

lemma inv_reply_now:
  assumes "threads_inv env c0 s h" "i < length (server_workers s)" "server_workers s ! i = Busy k req st"
    "worker_stage env i req st s = Some (Done (Inr r), s')" "pending st = None"
  shows "threads_inv env c0 (reply i k req r s') (h @ [(k, req, write_response_core req r)])"
proof -
  note w = inv_worker [OF assms(1-3)] and f = stage_frame [OF assms(4)]
  from stage_done [OF assms(4) w(2,5) assms(5)] obtain e where e: "e \<in> {env, crowded env}"
    "process_request e req (shared s) = Inr (write_response_core req r, shared s')"
    by (auto simp: process_at_once)
  then have now: "serves env (shared s) [(k, req, write_response_core req r)] (shared s')" by (auto simp: serves_simps)
  show ?thesis
  proof (rule inv_replyI [OF assms(1-4)])
    show "serves env c0 (h @ [(k, req, write_response_core req r)]) (shared s')"
      using assms(1) now by (auto simp: threads_inv_def serves_append)
    show "ordered_after (served_before s) {} (h @ [(k, req, write_response_core req r)])"
      using assms(1) w(3) inv_replied [OF assms(1)] by (simp add: threads_inv_def ordered_append)
    show "db_keeps (db c0) (db (shared s'))"
      using process_keeps [OF e(2)] w(5) by (auto simp: central_keeps_def intro: db_keeps_trans)
    show "row_read env c0 (reply i k req r s') (h @ [(k, req, write_response_core req r)]) j p"
      if "row_read env c0 s h j p" for j p
      using now f by (intro row_read_later [OF that]) (simp_all add: reply_def)
  qed simp
qed

lemma inv_reply_pending:
  assumes "threads_inv env c0 s h" "i < length (server_workers s)" "server_workers s ! i = Busy k req st"
    "worker_stage env i req st s = Some (Done (Inr r), s')" "pending st = Some p"
  shows "\<exists>h'. threads_inv env c0 (reply i k req r s') h'"
proof -
  note w = inv_worker [OF assms(1-3)] and f = stage_frame [OF assms(4)]
  let ?res = "write_response_core req r"
  from w(4) [OF assms(5)] obtain pre post c1 t where p: "h = pre @ post" "serves env c0 pre c1" "serves env c1 post (shared s)"
    "db_keeps (db c0) (db c1)" "transfers (db c1) = Some t" "map_option unclaim (t (fst p)) = map_option unclaim (snd p)"
    "served_before s k \<subseteq> replied pre" by (auto simp: row_read_def)
  note fin = pending_done [OF assms(4) w(2,5) _ p(4,5,6)]
  have agree: "agree (shared s) (shared s')" using fin(2) assms(5) by simp
  have neutral: "neutral env req ?res c1"
    using fin(1) assms(5) by (auto simp: neutral_def process_at_once)
  let ?h = "pre @ (k, req, ?res) # post"
  have "threads_inv env c0 (reply i k req r s') ?h"
  proof (rule inv_replyI [OF assms(1-4)])
    have "serves env c0 ?h (shared s)"
      using assms(1) p(1) by (intro serves_neutral [OF p(2) neutral]) (simp add: threads_inv_def)
    then show "serves env c0 ?h (shared s')" using agree by (auto intro: serves_agree)
    show "ordered_after (served_before s) {} ?h"
      using assms(1) p(1,7) by (intro ordered_insert) (simp_all add: threads_inv_def)
    show "db_keeps (db c0) (db (shared s'))"
      using pending_keeps [OF assms(4,5)] w(5) by (auto intro: db_keeps_trans)
    show "row_read env c0 (reply i k req r s') ?h j q" if "row_read env c0 s h j q" for j q
      using that p(1,2) neutral agree f by (intro row_read_neutral [where s = s]) (simp_all add: reply_def)
  qed (use p(1) in simp)
  then show ?thesis by blast
qed

lemma inv_next: "threads_step env s s' \<Longrightarrow> threads_inv env c0 s h \<Longrightarrow> \<exists>h'. threads_inv env c0 s' h'"
proof (induction rule: threads_step.induct)
  case (step_reply i s k req st res s')
  then show ?case
    using inv_reply_now inv_reply_pending by (cases "pending st") blast+
qed (blast intro: inv_read inv_on)+

lemma reach_inv_threads: "threads_reach env n c s \<Longrightarrow> \<exists>h. threads_inv env c s h"
  by (induction rule: threads_reach.induct) (blast intro: inv_listening inv_next)+

end
