(* ===== verification/Central_Aborts.thy ===== *)
theory Central_Aborts
  imports Central_Linear Central_Properties Json_Pretty
begin

text \<open>
  What can stop the central server: no request but a registration, and that only when the constant
  \<open>operator[]\<close> meets a missing key or a number is a floating-point one out of range. Everything else is an
  exception, which somebody catches.
\<close>

section \<open>Results that are no abort\<close>

named_theorems catchable

definition catchable :: "'a result \<Rightarrow> bool" where
  "catchable m \<longleftrightarrow> (\<forall>a. m \<noteq> Inl (Abort a))"

lemma catchable_simps [simp]:
  "catchable (Inr x)" "catchable (Inl (Throw e))" "\<not> catchable (Inl (Abort a))"
  by (simp_all add: catchable_def)

lemma catchable_Inl: "catchable (Inl e) \<longleftrightarrow> (\<forall>a. e \<noteq> Abort a)"
  by (simp add: catchable_def)

lemma catchable_bind [catchable]:
  "catchable m \<Longrightarrow> (\<And>x. m = Inr x \<Longrightarrow> catchable (f x)) \<Longrightarrow> catchable (bind_result m f)"
  by (cases m) (simp_all add: catchable_def)

lemma catchable_catch [catchable]:
  "catchable m \<Longrightarrow> (\<And>e. catchable (h e)) \<Longrightarrow> catchable (catch_exn m h)"
  by (cases m rule: sum.exhaust) (auto simp: catch_exn_def split: fault.splits)

lemma catchable_rethrow [simp]: "catchable (rethrow pg m) \<longleftrightarrow> catchable m"
  by (cases m rule: sum.exhaust) (auto simp: rethrow_def catch_exn_def split: fault.splits)

section \<open>JSON\<close>

lemma parse_value_catchable:
  "catchable (parse_value fl t s st)"
  "catchable (evaluate_state fl v s st)"
proof (induction fl t s st and fl v s st rule: parse_value_evaluate_state.induct)
qed (auto simp: syntax_error_def parse_key_def
      simp del: handle_value.simps container_value.simps set_key.simps
      split: prod.splits sum.splits if_splits token.splits)

lemma json_parse_catchable [simp]: "catchable (json_parse fl s)"
  unfolding json_parse_def
  by (auto intro!: catchable_bind simp: parse_value_catchable syntax_error_def split: prod.splits)

lemma dump_escaped_catchable [simp]: "catchable (dump_escaped ea s)"
  using dump_bytes_throws [of ea UTF8_ACCEPT 0 0 0 s] by (fastforce simp: catchable_def dump_escaped_def)

lemma dump_value_catchable:
  "catchable (dump_value fl ea v)" "catchable (dump_members fl ea ms)" "catchable (dump_elements fl ea xs)"
  by (induction fl ea v and fl ea ms and fl ea xs rule: dump_value_dump_members_dump_elements.induct)
     (auto intro!: catchable_bind)

lemma json_dump_catchable [simp]: "catchable (json_dump fl v)"
  by (simp add: json_dump_def dump_value_catchable)

section \<open>The database\<close>

lemma begin_catchable [simp]: "catchable (begin_transaction pg d)"
  by (simp add: begin_transaction_def)

lemma exec_catchable [simp]: "catchable (exec_table pg d)"
  by (simp add: exec_table_def split: option.split)

lemma lookup_catchable [simp]: "catchable (lookup_transfer pg s d)"
  unfolding lookup_transfer_def by (intro catchable) simp_all

lemma mark_catchable [simp]: "catchable (mark_transfer_claimed pg s d)"
  unfolding mark_transfer_claimed_def by (rule catchable_bind, simp) (simp add: catchable_bind)

lemma transfer_row_catchable [simp]: "catchable (to_transfer_row row)"
  unfolding to_transfer_row_def by (intro catchable) (simp_all add: as_uint32_def as_long_def split: option.split)

lemma metadata_catchable [simp]: "catchable (fst (get_transfers_metadata pg s d))"
proof -
  have "begin_transaction pg d \<noteq> Inl (Abort a)" "exec_table pg d \<noteq> Inl (Abort a)"
    "mark_transfer_claimed pg s d \<noteq> Inl (Abort a)" for a
    using begin_catchable exec_catchable mark_catchable by (simp_all add: catchable_def)
  then show ?thesis
    by (auto simp: get_transfers_metadata_def catchable_Inl intro!: catchable_bind split: sum.split option.split)
qed

section \<open>Registrations\<close>

definition registration_keys :: "string list" where
  "registration_keys =
     [''id'', ''sender_ip'', ''sender_port'', ''protocol'', ''file_name'', ''file_size'', ''file_hash'', ''token'']"

text \<open>An object that lacks a field, or has a floating-point number out of range for one.\<close>

definition stops_server :: "floats \<Rightarrow> json \<Rightarrow> bool" where
  "stops_server fl data =
     (case data of
        J_object ms \<Rightarrow>
          list_ex (\<lambda>k. object_find k ms = None) registration_keys
          \<or> (case object_find ''sender_port'' ms of
               Some (J_float d) \<Rightarrow> \<not> catchable (float_to_unsigned fl 32 d) | _ \<Rightarrow> False)
          \<or> (case object_find ''file_size'' ms of
               Some (J_float d) \<Rightarrow> \<not> catchable (float_to_unsigned fl 64 d) | _ \<Rightarrow> False)
      | _ \<Rightarrow> False)"

lemma json_string_catchable [simp]: "catchable (json_string v)"
  by (simp add: json_string_def split: json.split)

lemma float_conversion_catchable:
  "catchable (map_sum id f (float_to_unsigned fl w d)) \<longleftrightarrow> catchable (float_to_unsigned fl w d)"
  by (cases "float_to_unsigned fl w d") (simp_all add: catchable_def)

lemma registration_catchable:
  assumes "\<not> stops_server fl data"
  shows "catchable (transfer_row_from_json fl pg data)"
proof -
  have key: "catchable (json_index k data)" if "k \<in> set registration_keys" for k
    using assms that by (auto simp: stops_server_def json_index_def list_ex_iff split: json.splits option.splits)
  have string: "catchable (string_at data k)" if "k \<in> set registration_keys" for k
    unfolding string_at_def by (intro catchable_bind key that) simp
  have port: "catchable (json_unsigned fl v :: 32 word result)" if "json_index ''sender_port'' data = Inr v" for v
    using assms that
    by (auto simp: stops_server_def json_index_Inr json_unsigned_def float_conversion_catchable split: json.splits)
  have len: "catchable (json_size fl v)" if "json_index ''file_size'' data = Inr v" for v
    using assms that
    by (auto simp: stops_server_def json_index_Inr json_size_def float_conversion_catchable split: json.splits)
  show ?thesis
    unfolding transfer_row_from_json_def catchable_rethrow
    by (intro catchable_bind string key port len catchable_simps) (simp_all add: registration_keys_def)
qed

lemma register_catchable:
  "\<not> stops_server fl data \<Longrightarrow> catchable (register_transfers fl pg data d)"
  unfolding register_transfers_def
  by (rule catchable_bind, simp)
     (auto intro!: catchable_bind registration_catchable)

section \<open>Requests\<close>

lemma routed_aborts:
  assumes "routing env req res c = (Some (Some (Abort a), res1, c1), r)"
  shows "req_method req = ''POST'' \<and> req_path req = ''/register'' \<and>
    (\<exists>data. json_parse (env_floats env) (req_body req) = Inr data \<and> stops_server (env_floats env) data)"
proof -
  have no: "m \<noteq> Inl (Abort a)" if "catchable m" for m :: "'x result" using that by (simp add: catchable_def)
  have dump: "json_dump fl v \<noteq> Inl (Abort a)" for fl v using json_dump_catchable no by blast
  have parse: "json_parse fl s \<noteq> Inl (Abort a)" for fl s using json_parse_catchable no by blast
  have lookup: "lookup_transfer pg s d \<noteq> Inl (Abort a)" for pg s d using lookup_catchable no by blast
  have metadata: "bind_result m (\<lambda>row. json_dump fl (transfer_row_to_json row)) \<noteq> Inl (Abort a)"
    if "get_transfers_metadata pg s d = (m, d1)" for m fl pg s d d1
    using metadata_catchable [of pg s d] that by (intro no catchable_bind) simp_all
  have register: "\<exists>data. json_parse (env_floats env) (req_body req) = Inr data \<and> stops_server (env_floats env) data"
    if "handle_register env (req_body req) res c = (Some (Abort a), res1, c1)"
  proof (cases "json_parse (env_floats env) (req_body req)")
    case (Inr data)
    with that no [OF register_catchable, of "env_floats env" data "env_postgres env" "db c"] show ?thesis
      by (auto simp: handle_register_def split: sum.splits fault.splits)
  qed (use that parse in \<open>auto simp: handle_register_def split: fault.splits\<close>)
  have "route_of req = To_register"
  proof (cases "route_of req")
    case (To_getfile x)
    with assms show ?thesis using metadata
      by (auto simp: routing_route handle_getfile_def split: prod.splits sum.splits fault.splits)
  next
    case (To_signal_post x)
    with assms dump parse show ?thesis
      by (auto simp: routing_route handle_signal_post_def Let_def split: sum.splits fault.splits)
  qed (use assms dump lookup in \<open>auto simp: routing_route handle_lookup_def handle_signal_get_def handle_health_def
        split: sum.splits option.splits\<close>)
  with assms register show ?thesis by (auto simp: routing_route route_of_def match_path_def Let_def split: if_splits option.splits)
qed

end
