(* ===== verification/Http_Safety.thy ===== *)
theory Http_Safety
  imports Http_Exchange Http_Ranges_Properties Central_Aborts "HOL-Library.Sublist"
begin

text \<open>
  Whatever bytes arrive on a connection: what each reader leaves is the rest of the stream, the ranges of a
  request never fail an assertion, every answer has one of ten statuses, and only a registration can stop
  the server. An \<open>Accept\<close> header can make its behaviour undefined.
\<close>

section \<open>What is left of the stream\<close>



















section \<open>One request\<close>






section \<open>Answers\<close>













section \<open>Undefined behaviour\<close>

text \<open>
  \<open>std::stod\<close> reads \<open>nan\<close>, which is neither below 0 nor above 1: a client that accepts three types, one of
  them with that quality, makes the server sort by a relation that is no order.
\<close>

definition nan :: double where "nan = 0x7FF8000000000000"

lemma nan_quality_undefined:
  assumes "stod ''nan'' = Some nan" "stod ''0.5'' = Some 0x3FE0000000000000"
  shows "parse_accept_header stod ''a/a;q=nan,b/b,c/c;q=0.5'' = Undefined_Order"
proof -
  have pieces: "split_pieces (CHR '','') ''a/a;q=nan,b/b,c/c;q=0.5'' = [''a/a;q=nan'', ''b/b'', ''c/c;q=0.5'']"
    "\<not> occurs '',,'' ''a/a;q=nan,b/b,c/c;q=0.5''" "last ''a/a;q=nan,b/b,c/c;q=0.5'' \<noteq> CHR '',''" by code_simp+
  have positions: "quality_position ''a/a;q=nan'' = 3" "quality_position ''b/b'' = 3" "quality_position ''c/c;q=0.5'' = 3"
    "quality_text ''a/a;q=nan'' = ''nan''" "quality_text ''c/c;q=0.5'' = ''0.5''"
    "trim ''a/a'' = ''a/a''" "trim ''c/c'' = ''c/c''" by code_simp+
  have qualities: "isnan nan" "\<not> double_less nan 0" "\<not> double_less double_one nan"
    "\<not> isnan 0x3FE0000000000000" "\<not> double_less 0x3FE0000000000000 0" "\<not> double_less double_one 0x3FE0000000000000"
    "\<not> isnan double_one" by code_simp+
  have entries: "accept_entry stod ''a/a;q=nan'' = Some (''a/a'', nan)" "accept_entry stod ''b/b'' = Some (''b/b'', double_one)"
    "accept_entry stod ''c/c;q=0.5'' = Some (''c/c'', 0x3FE0000000000000)"
    using assms by (simp_all add: accept_entry_def entry_quality_def positions qualities)
  show ?thesis using pieces(3)
    by (simp add: parse_accept_header_def pieces(1,2) entries qualities)
qed




section \<open>A connection\<close>










end
