(* ===== verification/Http_Chunked.thy ===== *)
theory Http_Chunked
  imports Http_Roundtrip
begin

text \<open>
  Bodies in chunks: what \<open>write_content_chunked\<close> writes, \<open>read_content_chunked\<close> reads back, with the trailers.
\<close>

section \<open>Hexadecimal sizes\<close>

definition hex_chars :: string where "hex_chars = ''0123456789abcdef''"

lemma hex_char_facts:
  "k < 16 \<Longrightarrow> is_hex (hex_chars ! k) = Some k"
  "c \<in> set hex_chars \<Longrightarrow> \<not> is_space c \<and> c \<notin> set ''-+xX'' \<and> code c \<noteq> 10"
proof -
  have "list_all (\<lambda>k. is_hex (hex_chars ! k) = Some k) [0..<16]" by code_simp
  then show "k < 16 \<Longrightarrow> is_hex (hex_chars ! k) = Some k" by (simp add: list_all_iff)
  have "list_all (\<lambda>c. \<not> is_space c \<and> c \<notin> set ''-+xX'' \<and> code c \<noteq> 10) hex_chars" by code_simp
  then show "c \<in> set hex_chars \<Longrightarrow> \<not> is_space c \<and> c \<notin> set ''-+xX'' \<and> code c \<noteq> 10" unfolding list_all_iff by blast
qed

lemma from_i_to_hex_unfold:
  "from_i_to_hex n = (if n < 16 then [hex_chars ! n] else from_i_to_hex (n div 16) @ [hex_chars ! (n mod 16)])"
  by (subst from_i_to_hex.simps) (simp only: hex_chars_def)

lemma from_i_to_hex_chars: "set (from_i_to_hex n) \<subseteq> set hex_chars" "from_i_to_hex n \<noteq> []"
proof -
  have len: "length hex_chars = 16" by code_simp
  show "set (from_i_to_hex n) \<subseteq> set hex_chars"
  proof (induction n rule: from_i_to_hex.induct)
    case (1 n)
    then show ?case using len by (subst from_i_to_hex_unfold) auto
  qed
  show "from_i_to_hex n \<noteq> []" by (subst from_i_to_hex_unfold) simp
qed

lemma from_i_to_hex_length: "n < 16 ^ k \<Longrightarrow> 0 < k \<Longrightarrow> length (from_i_to_hex n) \<le> k"
proof (induction n arbitrary: k rule: from_i_to_hex.induct)
  case (1 n)
  show ?case
  proof (cases "n < 16")
    case True
    with 1 show ?thesis by (subst from_i_to_hex_unfold) simp
  next
    case False
    with 1 obtain j where k: "k = Suc j" "0 < j" by (cases k; cases "k = 1") auto
    with 1 False have "n div 16 < 16 ^ j" by (simp add: less_mult_imp_div_less mult.commute)
    with 1 False k have "length (from_i_to_hex (n div 16)) \<le> j" by blast
    with False k show ?thesis by (subst from_i_to_hex_unfold) simp
  qed
qed

lemma hex_digits_of_size:
  "\<exists>ds. ds \<noteq> [] \<and> hex_digits (from_i_to_hex n @ s) = ds @ hex_digits s \<and> foldl (\<lambda>v d. 16 * v + d) 0 ds = n"
proof (induction n arbitrary: s rule: from_i_to_hex.induct)
  case (1 n)
  show ?case
  proof (cases "n < 16")
    case True
    then have "hex_digits (from_i_to_hex n @ s) = [n] @ hex_digits s"
      by (subst from_i_to_hex_unfold) (simp add: hex_char_facts)
    then show ?thesis by (intro exI [of _ "[n]"]) simp
  next
    case False
    from "1.IH" [OF False, of "hex_chars ! (n mod 16) # s"] obtain ds where
      "ds \<noteq> []" "hex_digits (from_i_to_hex (n div 16) @ hex_chars ! (n mod 16) # s) = ds @ (n mod 16) # hex_digits s"
      "foldl (\<lambda>v d. 16 * v + d) 0 ds = n div 16"
      by (auto simp: hex_char_facts)
    with False show ?thesis
      by (subst from_i_to_hex_unfold) (intro exI [of _ "ds @ [n mod 16]"], simp)
  qed
qed

lemma strtoul16_size:
  assumes "n \<le> ULONG_MAX"
  shows "strtoul16 (from_i_to_hex n @ CRLF) = Some n"
proof -
  let ?s = "from_i_to_hex n @ CRLF"
  obtain c t where c: "from_i_to_hex n = c # t" using from_i_to_hex_chars(2) by (cases "from_i_to_hex n") auto
  have "c \<in> set hex_chars" using from_i_to_hex_chars(1) [of n] c by auto
  note first = hex_char_facts(2) [OF this]
  have "CHR ''x'' \<notin> set ?s" "CHR ''X'' \<notin> set ?s"
    using from_i_to_hex_chars(1) [of n] hex_char_facts(2) by (auto simp: CRLF_def)
  moreover have "?s ! 1 \<in> set ?s" by (rule nth_mem) (simp add: CRLF_def)
  ultimately have prefix: "\<not> hex_prefix ?s" unfolding hex_prefix_def by metis
  obtain ds where ds: "ds \<noteq> []" "hex_digits ?s = ds @ hex_digits CRLF" "foldl (\<lambda>v d. 16 * v + d) 0 ds = n"
    using hex_digits_of_size by blast
  have "hex_digits CRLF = []" by code_simp
  then have digits: "hex_digits ?s = ds" using ds(2) by simp
  have "dropWhile is_space ?s = ?s" "hd ?s \<noteq> CHR ''-''" "hd ?s \<noteq> CHR ''+''" using first by (auto simp: c)
  then show ?thesis unfolding strtoul16_def strtoul_digits_def Let_def
    using prefix digits ds(1,3) assms by (simp only: if_False simp_thms not_le [symmetric] if_True prod.case)
qed

section \<open>Chunks\<close>

lemma read_chunk:
  assumes "d \<noteq> []" "length d < ULONG_MAX"
  shows "read_chunks (chunk_text d @ s) = map_prod (map_option ((@) d)) id (read_chunks s)"
proof -
  let ?l = "from_i_to_hex (length d)"
  have "length d < 16 ^ 16" using assms(2) by (simp add: ULONG_MAX_def)
  then have "length ?l \<le> 16" by (rule from_i_to_hex_length) simp
  moreover have "CHR 0x0A \<notin> set ?l" using from_i_to_hex_chars(1) [of "length d"] hex_char_facts(2) code_simps(2) by blast
  ultimately have line: "getline (?l @ CRLF @ d @ CRLF @ s) = Some (?l @ CRLF, d @ CRLF @ s)"
    by (intro getline_line) (simp_all add: CPPHTTPLIB_MAX_LINE_LENGTH_def)
  have end_line: "getline (CRLF @ s) = Some (CRLF, s)"
    using getline_line [of "[]" s] by (simp add: CPPHTTPLIB_MAX_LINE_LENGTH_def)
  have size: "strtoul16 (?l @ CRLF) = Some (length d)" using assms(2) by (intro strtoul16_size) simp
  have "chunk_text d @ s = ?l @ CRLF @ d @ CRLF @ s" using assms(1) by (simp add: chunk_text_def)
  then show ?thesis using assms
    by (subst read_chunks.simps) (simp add: line size end_line)
qed

lemma read_last_chunk: "read_chunks (''0'' @ CRLF @ s) = (Some [], s)"
proof -
  have "from_i_to_hex 0 = ''0''" by code_simp
  then have "strtoul16 (''0'' @ CRLF) = Some 0" using strtoul16_size [of 0] by simp
  moreover have "getline (''0'' @ CRLF @ s) = Some (''0'' @ CRLF, s)"
    by (rule getline_line) (simp_all add: CPPHTTPLIB_MAX_LINE_LENGTH_def)
  moreover have "ULONG_MAX \<noteq> 0" by (simp add: ULONG_MAX_def)
  ultimately show ?thesis by (subst read_chunks.simps) (simp del: append_Cons append_Nil)
qed

lemma read_written_chunks:
  "list_all (\<lambda>d. length d < ULONG_MAX) pieces \<Longrightarrow>
     read_chunks (concat (map chunk_text pieces) @ ''0'' @ CRLF @ s) = (Some (concat pieces), s)"
proof (induction pieces)
  case Nil
  then show ?case using read_last_chunk by simp
next
  case (Cons d ds)
  then show ?case
    by (cases "d = []") (simp_all add: read_chunk chunk_text_def [of "[]"] del: append_Cons)
qed

section \<open>Trailers\<close>

definition trailer_ok :: "headers \<Rightarrow> string \<times> string \<Rightarrow> bool" where
  "trailer_ok hs t \<longleftrightarrow> header_ok t \<and> contains_name (fst t) (declared_trailers hs)"

lemma header_line_read:
  assumes "header_ok (k, v)"
  shows "getline ((k @ '': '' @ v) @ CRLF @ s) = Some ((k @ '': '' @ v) @ CRLF, s)"
proof -
  have "CHR 0x0A \<notin> set k" "CHR 0x0A \<notin> set v"
    using assms token_char_code field_value_chars [of v] vchar_code code_simps(2)
    by (fastforce simp: header_ok_def is_field_name_def list_all_iff is_space_or_tab_def)+
  then show ?thesis using assms
    by (intro getline_line) (auto simp: header_ok_def CPPHTTPLIB_HEADER_MAX_LENGTH_def CPPHTTPLIB_MAX_LINE_LENGTH_def)
qed

lemma read_written_trailers:
  assumes "list_all (trailer_ok hs) ts" "n + length ts \<le> CPPHTTPLIB_HEADER_MAX_COUNT"
  shows "\<exists>line rest. getline (write_headers ts @ s) = Some (line, rest)
    \<and> parse_trailers (declared_trailers hs) n line rest = (Some ts, s)"
  using assms
proof (induction ts arbitrary: n)
  case Nil
  have "getline (CRLF @ s) = Some (CRLF, s)"
    using getline_line [of "[]" s] by (simp add: CPPHTTPLIB_MAX_LINE_LENGTH_def)
  then show ?case by (simp add: write_headers_def parse_trailers.simps)
next
  case (Cons t ts)
  obtain k v where t: "t = (k, v)" by (cases t)
  let ?l = "k @ '': '' @ v"
  have ok: "header_ok (k, v)" "contains_name k (declared_trailers hs)"
    using Cons.prems t by (simp_all add: trailer_ok_def)
  have "list_all (trailer_ok hs) ts" "Suc n + length ts \<le> CPPHTTPLIB_HEADER_MAX_COUNT" using Cons.prems by simp_all
  from Cons.IH [OF this] obtain line rest where next_line: "getline (write_headers ts @ s) = Some (line, rest)"
    "parse_trailers (declared_trailers hs) (Suc n) line rest = (Some ts, s)"
    by blast
  have "write_headers (t # ts) @ s = ?l @ CRLF @ write_headers ts @ s" by (simp add: write_headers_def t)
  then have line: "getline (write_headers (t # ts) @ s) = Some (?l @ CRLF, write_headers ts @ s)"
    using header_line_read [OF ok(1)] by simp
  have "k \<noteq> []" "length ?l + 2 \<le> CPPHTTPLIB_HEADER_MAX_LENGTH" using ok(1) by (auto simp: header_ok_def is_field_name_def)
  then have "parse_trailers (declared_trailers hs) n (?l @ CRLF) (write_headers ts @ s) = (Some (t # ts), s)"
    using Cons.prems next_line ok(2) parse_written_header [OF ok(1)] line_without_end [of ?l]
    by (subst parse_trailers.simps) (simp add: t)
  with line show ?case by blast
qed

section \<open>Properties\<close>

text \<open>
  A body written in chunks is read back whole, whatever its pieces are, with every trailer
  that was announced, and the stream is left right behind it.
\<close>

theorem chunked_roundtrip:
  assumes "list_all (\<lambda>d. length d < ULONG_MAX) pieces" "list_all (trailer_ok hs) trailers"
    "length trailers \<le> CPPHTTPLIB_HEADER_MAX_COUNT"
  shows "read_content_chunked hs (write_content_chunked pieces trailers @ rest) = (Some (concat pieces, trailers), rest)"
proof -
  have "write_content_chunked pieces trailers @ rest =
      concat (map chunk_text pieces) @ ''0'' @ CRLF @ write_headers trailers @ rest"
    by (simp add: write_content_chunked_def)
  moreover obtain line s where "getline (write_headers trailers @ rest) = Some (line, s)"
    "parse_trailers (declared_trailers hs) 0 line s = (Some trailers, rest)"
    using read_written_trailers [OF assms(2), of 0 rest] assms(3) by force
  ultimately show ?thesis
    using read_written_chunks [OF assms(1)] by (simp add: read_content_chunked_def del: append_Cons append_Nil)
qed

lemma chunked_roundtrip_witness:
  "read_content_chunked [(''Trailer'', ''X-Hash'')]
     (write_content_chunked [''hello '', [], ''world''] [(''X-Hash'', ''abc'')] @ ''GET /'')
   = (Some (''hello world'', [(''X-Hash'', ''abc'')]), ''GET /'')"
proof -
  have "list_all (\<lambda>d. length d < ULONG_MAX) [''hello '', [], ''world'']" by (simp add: ULONG_MAX_def)
  moreover have "list_all (trailer_ok [(''Trailer'', ''X-Hash'')]) [(''X-Hash'', ''abc'')]" by code_simp
  moreover have "length [(''X-Hash'', ''abc'')] \<le> CPPHTTPLIB_HEADER_MAX_COUNT" by code_simp
  ultimately have "read_content_chunked [(''Trailer'', ''X-Hash'')]
       (write_content_chunked [''hello '', [], ''world''] [(''X-Hash'', ''abc'')] @ ''GET /'')
     = (Some (concat [''hello '', [], ''world''], [(''X-Hash'', ''abc'')]), ''GET /'')"
    by (rule chunked_roundtrip)
  moreover have "concat [''hello '', [], ''world''] = ''hello world''" by code_simp
  ultimately show ?thesis by (simp only:)
qed

end
