(* ===== verification/Thread_Pool.thy ===== *)
theory Thread_Pool
  imports Prelude "HOL-Library.Multiset"
begin

text \<open>
  \<open>ThreadPool\<close> of \<open>httplib.h\<close>, which runs the connections of the central server: a queue under a mutex, a
  condition variable, and workers. A step is what a thread does while it holds the mutex, a
  notification, or the end of a job; they interleave in any order, and sleeping workers may wake up by
  themselves. The lists \<open>accepted\<close>, \<open>started\<close> and \<open>finished\<close> only record what happened.
\<close>

section \<open>The pool\<close>

text \<open>
  A worker is about to lock the mutex and test the condition, sleeps on the condition variable, runs a
  job, or has left its loop.
\<close>

datatype 'j worker = Testing | Asleep | Running 'j | Exited

record 'j pool =
  jobs :: "'j list"
  shutting_down :: bool
  max_queued_requests :: nat
  threads :: "'j worker list"
  notify_one_due :: nat
  notify_all_due :: bool
  accepted :: "'j list"
  started :: "'j list"
  finished :: "'j list"

definition ThreadPool :: "nat \<Rightarrow> nat \<Rightarrow> 'j pool" where
  "ThreadPool n mqr =
     \<lparr>jobs = [], shutting_down = False, max_queued_requests = mqr, threads = replicate n Testing,
      notify_one_due = 0, notify_all_due = False, accepted = [], started = [], finished = []\<rparr>"

text \<open>The part under the mutex; the notification comes after it.\<close>

definition enqueue :: "'j \<Rightarrow> 'j pool \<Rightarrow> bool \<times> 'j pool" where
  "enqueue j p =
     (if 0 < max_queued_requests p \<and> max_queued_requests p \<le> length (jobs p) then (False, p)
      else (True, p\<lparr>jobs := jobs p @ [j], notify_one_due := Suc (notify_one_due p), accepted := accepted p @ [j]\<rparr>))"

definition begin_shutdown :: "'j pool \<Rightarrow> 'j pool" where
  "begin_shutdown p = p\<lparr>shutting_down := True, notify_all_due := True\<rparr>"

definition wake :: "'j worker \<Rightarrow> 'j worker" where
  "wake w = (case w of Asleep \<Rightarrow> Testing | _ \<Rightarrow> w)"

text \<open>\<open>notify_one\<close> wakes one of the sleeping workers, if there is any; \<open>i\<close> is the choice.\<close>

definition notify_one :: "nat \<Rightarrow> 'j pool \<Rightarrow> 'j pool" where
  "notify_one i p = p\<lparr>notify_one_due := notify_one_due p - 1, threads := (threads p)[i := wake (threads p ! i)]\<rparr>"

definition notify_all :: "'j pool \<Rightarrow> 'j pool" where
  "notify_all p = p\<lparr>notify_all_due := False, threads := map wake (threads p)\<rparr>"

text \<open>Under the mutex: sleep, leave the loop, or take the first job.\<close>

definition test_condition :: "nat \<Rightarrow> 'j pool \<Rightarrow> 'j pool" where
  "test_condition i p =
     (case jobs p of
        [] \<Rightarrow> p\<lparr>threads := (threads p)[i := if shutting_down p then Exited else Asleep]\<rparr>
      | fn # rest \<Rightarrow> p\<lparr>jobs := rest, threads := (threads p)[i := Running fn], started := started p @ [fn]\<rparr>)"

definition end_job :: "nat \<Rightarrow> 'j \<Rightarrow> 'j pool \<Rightarrow> 'j pool" where
  "end_job i fn p = p\<lparr>threads := (threads p)[i := Testing], finished := finished p @ [fn]\<rparr>"

text \<open>\<open>shutdown\<close> returns when every thread has been joined.\<close>

definition joined :: "'j pool \<Rightarrow> bool" where
  "joined p = list_all (\<lambda>w. w = Exited) (threads p)"

section \<open>Steps\<close>

text \<open>What the pool does by itself.\<close>

inductive pool_work :: "'j pool \<Rightarrow> 'j pool \<Rightarrow> bool" where
  work_notify_one: "0 < notify_one_due p \<Longrightarrow> i < length (threads p) \<Longrightarrow> threads p ! i = Asleep \<Longrightarrow>
     pool_work p (notify_one i p)"
| work_notify_none: "0 < notify_one_due p \<Longrightarrow> Asleep \<notin> set (threads p) \<Longrightarrow>
     pool_work p (p\<lparr>notify_one_due := notify_one_due p - 1\<rparr>)"
| work_notify_all: "notify_all_due p \<Longrightarrow> pool_work p (notify_all p)"
| work_test: "i < length (threads p) \<Longrightarrow> threads p ! i = Testing \<Longrightarrow> pool_work p (test_condition i p)"
| work_end: "i < length (threads p) \<Longrightarrow> threads p ! i = Running fn \<Longrightarrow> pool_work p (end_job i fn p)"

text \<open>
  Everything that happens: its own work, wake-ups without a reason, and the calls of \<open>listen_internal\<close>,
  which enqueues and then shuts down in one thread.
\<close>

inductive pool_step :: "'j pool \<Rightarrow> 'j pool \<Rightarrow> bool" where
  step_work: "pool_work p q \<Longrightarrow> pool_step p q"
| step_wake: "i < length (threads p) \<Longrightarrow> threads p ! i = Asleep \<Longrightarrow>
     pool_step p (p\<lparr>threads := (threads p)[i := Testing]\<rparr>)"
| step_enqueue: "\<not> shutting_down p \<Longrightarrow> enqueue j p = (b, q) \<Longrightarrow> pool_step p q"
| step_shutdown: "\<not> shutting_down p \<Longrightarrow> pool_step p (begin_shutdown p)"

inductive pool_reach :: "nat \<Rightarrow> nat \<Rightarrow> 'j pool \<Rightarrow> bool" for n mqr where
  reach_start: "pool_reach n mqr (ThreadPool n mqr)"
| reach_step: "pool_reach n mqr p \<Longrightarrow> pool_step p q \<Longrightarrow> pool_reach n mqr q"

inductive_cases pool_workE: "pool_work p q"
inductive_cases pool_stepE: "pool_step p q"

section \<open>The invariant\<close>

fun running_job :: "'j worker \<Rightarrow> 'j multiset" where
  "running_job (Running fn) = {#fn#}"
| "running_job w = {#}"

definition running :: "'j pool \<Rightarrow> 'j multiset" where
  "running p = sum_list (map running_job (threads p))"

text \<open>A worker that will test the condition before it sleeps.\<close>

definition awake :: "'j worker \<Rightarrow> nat" where
  "awake w = (case w of Testing \<Rightarrow> 1 | Running _ \<Rightarrow> 1 | _ \<Rightarrow> 0)"

definition awake_workers :: "'j pool \<Rightarrow> nat" where
  "awake_workers p = sum_list (map awake (threads p))"

definition pool_inv :: "nat \<Rightarrow> nat \<Rightarrow> 'j pool \<Rightarrow> bool" where
  "pool_inv n mqr p \<longleftrightarrow>
     length (threads p) = n \<and> max_queued_requests p = mqr
     \<and> accepted p = started p @ jobs p
     \<and> mset (started p) = mset (finished p) + running p
     \<and> (0 < mqr \<longrightarrow> length (jobs p) \<le> mqr)
     \<and> (Asleep \<in> set (threads p) \<longrightarrow> length (jobs p) \<le> notify_one_due p + awake_workers p)
     \<and> (Asleep \<in> set (threads p) \<and> shutting_down p \<longrightarrow> notify_all_due p)
     \<and> (Exited \<in> set (threads p) \<longrightarrow> shutting_down p \<and> jobs p = [])"

lemma sum_list_update_nat:
  "i < length xs \<Longrightarrow> f (xs ! i) + sum_list (map f (xs[i := y])) = sum_list (map f xs) + (f y :: 'a :: comm_monoid_add)"
proof (induction xs arbitrary: i)
  case (Cons x xs)
  then show ?case by (cases i) (simp_all add: add.left_commute add.assoc, metis add.commute add.left_commute)
qed simp

text \<open>What changing one worker changes.\<close>

lemma running_update:
  "i < length (threads p) \<Longrightarrow>
     running_job (threads p ! i) + running (p\<lparr>threads := (threads p)[i := w]\<rparr>) = running p + running_job w"
  unfolding running_def by (simp add: sum_list_update_nat)

lemma awake_update:
  "i < length (threads p) \<Longrightarrow>
     awake (threads p ! i) + awake_workers (p\<lparr>threads := (threads p)[i := w]\<rparr>) = awake_workers p + awake w"
  unfolding awake_workers_def by (simp add: sum_list_update_nat)

lemma awake_le_1: "awake w \<le> 1"
  by (cases w) (simp_all add: awake_def)

lemma wake_simps [simp]:
  "running_job (wake w) = running_job w" "wake w \<noteq> Asleep" "wake w = Exited \<longleftrightarrow> w = Exited"
  "Asleep \<noteq> wake w" "Exited = wake w \<longleftrightarrow> w = Exited"
  by (cases w; simp add: wake_def)+

lemma running_wake: "map running_job (map wake ws) = map running_job ws"
  by simp

lemma Asleep_update:
  "Asleep \<in> set (ws[i := w]) \<Longrightarrow> w \<noteq> Asleep \<Longrightarrow> Asleep \<in> set ws"
  "Exited \<in> set (ws[i := w]) \<Longrightarrow> w \<noteq> Exited \<Longrightarrow> Exited \<in> set ws"
  using set_update_subset_insert [of ws i w] by auto

lemma inv_start: "pool_inv n mqr (ThreadPool n mqr)"
  by (induction n) (auto simp: pool_inv_def ThreadPool_def running_def)

lemma inv_wake_one:
  assumes "pool_inv n mqr p" "i < length (threads p)" "threads p ! i = Asleep"
  shows "pool_inv n mqr (p\<lparr>threads := (threads p)[i := Testing]\<rparr>)"
    and "pool_inv n mqr (notify_one i p)"
proof -
  have asleep: "Asleep \<in> set (threads p)" using assms(2,3) by (metis nth_mem)
  have w: "running (p\<lparr>threads := (threads p)[i := Testing]\<rparr>) = running p"
    "awake_workers (p\<lparr>threads := (threads p)[i := Testing]\<rparr>) = Suc (awake_workers p)"
    using running_update [OF assms(2), of Testing] awake_update [OF assms(2), of Testing] assms(3)
    by (simp_all add: awake_def)
  then show "pool_inv n mqr (p\<lparr>threads := (threads p)[i := Testing]\<rparr>)"
    using assms(1) asleep by (auto simp: pool_inv_def dest: Asleep_update)
  have "wake (threads p ! i) = Testing" using assms(3) by (simp add: wake_def)
  moreover have "running (notify_one i p) = running p" "awake_workers (notify_one i p) = Suc (awake_workers p)"
    using w assms(3) by (simp_all add: notify_one_def running_def awake_workers_def wake_def)
  ultimately show "pool_inv n mqr (notify_one i p)"
    using assms(1) asleep by (auto simp: pool_inv_def notify_one_def dest: Asleep_update)
qed

lemma inv_notify_none:
  "pool_inv n mqr p \<Longrightarrow> Asleep \<notin> set (threads p) \<Longrightarrow> pool_inv n mqr (p\<lparr>notify_one_due := notify_one_due p - 1\<rparr>)"
  by (auto simp: pool_inv_def running_def)

lemma inv_notify_all: "pool_inv n mqr p \<Longrightarrow> pool_inv n mqr (notify_all p)"
proof -
  assume inv: "pool_inv n mqr p"
  have "running (notify_all p) = running p"
    unfolding running_def notify_all_def by (simp add: comp_def)
  moreover have "Asleep \<notin> set (map wake (threads p))" "Exited \<in> set (map wake (threads p)) \<longleftrightarrow> Exited \<in> set (threads p)"
    by (auto simp: image_iff)
  ultimately show ?thesis using inv by (simp add: pool_inv_def notify_all_def)
qed

lemma inv_test:
  assumes inv: "pool_inv n mqr p" and i: "i < length (threads p)" "threads p ! i = Testing"
  shows "pool_inv n mqr (test_condition i p)"
proof (cases "jobs p")
  case Nil
  let ?w = "if shutting_down p then Exited else Asleep"
  have "running (p\<lparr>threads := (threads p)[i := ?w]\<rparr>) = running p"
    using running_update [OF i(1), of ?w] i(2) by simp
  then show ?thesis using inv Nil i(1)
    by (auto simp: pool_inv_def test_condition_def set_update_memI dest: Asleep_update split: if_splits)
next
  case (Cons fn rest)
  have "running (p\<lparr>threads := (threads p)[i := Running fn]\<rparr>) = running p + {#fn#}"
    "awake_workers (p\<lparr>threads := (threads p)[i := Running fn]\<rparr>) = awake_workers p"
    using running_update [OF i(1), of "Running fn"] awake_update [OF i(1), of "Running fn"] i(2)
    by (simp_all add: awake_def)
  then have "running (test_condition i p) = running p + {#fn#}" "awake_workers (test_condition i p) = awake_workers p"
    using Cons by (simp_all add: test_condition_def running_def awake_workers_def)
  then show ?thesis using inv Cons
    by (auto simp: pool_inv_def test_condition_def dest: Asleep_update)
qed

lemma inv_end:
  assumes inv: "pool_inv n mqr p" and i: "i < length (threads p)" "threads p ! i = Running fn"
  shows "pool_inv n mqr (end_job i fn p)"
proof -
  have "{#fn#} + running (p\<lparr>threads := (threads p)[i := Testing]\<rparr>) = running p"
    "awake_workers (p\<lparr>threads := (threads p)[i := Testing]\<rparr>) = awake_workers p"
    using running_update [OF i(1), of Testing] awake_update [OF i(1), of Testing] i(2) by (simp_all add: awake_def)
  then have "{#fn#} + running (end_job i fn p) = running p" "awake_workers (end_job i fn p) = awake_workers p"
    by (simp_all add: end_job_def running_def awake_workers_def)
  then show ?thesis using inv
    by (auto simp: pool_inv_def end_job_def add.assoc simp flip: add_mset_add_single dest: Asleep_update)
qed

lemma inv_enqueue: "pool_inv n mqr p \<Longrightarrow> \<not> shutting_down p \<Longrightarrow> enqueue j p = (b, q) \<Longrightarrow> pool_inv n mqr q"
  by (auto simp: pool_inv_def enqueue_def running_def awake_workers_def split: if_splits)

lemma inv_shutdown: "pool_inv n mqr p \<Longrightarrow> \<not> shutting_down p \<Longrightarrow> pool_inv n mqr (begin_shutdown p)"
  by (auto simp: pool_inv_def begin_shutdown_def running_def awake_workers_def)

lemma inv_work: "pool_work p q \<Longrightarrow> pool_inv n mqr p \<Longrightarrow> pool_inv n mqr q"
  by (induction rule: pool_work.induct)
    (simp_all add: inv_wake_one(2) inv_notify_none inv_notify_all inv_test inv_end del: One_nat_def)

lemma inv_step: "pool_step p q \<Longrightarrow> pool_inv n mqr p \<Longrightarrow> pool_inv n mqr q"
  by (erule pool_stepE) (auto intro: inv_work inv_wake_one(1) inv_enqueue inv_shutdown)

lemma reach_inv: "pool_reach n mqr p \<Longrightarrow> pool_inv n mqr p"
  by (induction rule: pool_reach.induct) (auto intro: inv_start inv_step)

section \<open>Progress\<close>

text \<open>An upper bound of the steps the pool can take by itself.\<close>

definition worker_load :: "'j worker \<Rightarrow> nat" where
  "worker_load w = (case w of Testing \<Rightarrow> 1 | Running _ \<Rightarrow> 2 | _ \<Rightarrow> 0)"

definition pool_load :: "'j pool \<Rightarrow> nat" where
  "pool_load p =
     2 * length (jobs p) + 2 * notify_one_due p + (if notify_all_due p then Suc (length (threads p)) else 0)
       + sum_list (map worker_load (threads p))"

lemma load_update:
  "i < length (threads p) \<Longrightarrow>
     worker_load (threads p ! i) + sum_list (map worker_load ((threads p)[i := w])) =
       sum_list (map worker_load (threads p)) + worker_load w"
  by (simp add: sum_list_update_nat)

lemma work_load: "pool_work p q \<Longrightarrow> pool_load q < pool_load p"
proof (induction rule: pool_work.induct)
  case (work_notify_one p i)
  then show ?case using load_update [of i p Testing]
    by (simp add: pool_load_def notify_one_def wake_def worker_load_def)
next
  case (work_notify_none p)
  then show ?case by (simp add: pool_load_def)
next
  case (work_notify_all p)
  have "sum_list (map worker_load (map wake ws)) \<le> sum_list (map worker_load ws) + length ws" for ws :: "'a worker list"
    by (induction ws) (auto simp: wake_def worker_load_def split: worker.split)
  from this [of "threads p"] work_notify_all show ?case
    by (simp add: pool_load_def notify_all_def comp_def)
next
  case (work_test i p)
  then show ?case using load_update [of i p Asleep] load_update [of i p Exited] load_update [of i p "Running (hd (jobs p))"]
    by (auto simp: pool_load_def test_condition_def worker_load_def split: list.split)
next
  case (work_end i p fn)
  then show ?case using load_update [of i p Testing]
    by (simp add: pool_load_def end_job_def worker_load_def)
qed

lemma work_bounded: "(pool_work ^^ m) p q \<Longrightarrow> m + pool_load q \<le> pool_load p"
proof (induction m arbitrary: q)
  case (Suc m)
  then obtain r where "(pool_work ^^ m) p r" "pool_work r q" by auto
  with Suc.IH [of r] work_load [of r q] show ?case by simp
qed simp

text \<open>Where the pool can do nothing more, nothing is left to do.\<close>

lemma idle_pool:
  assumes inv: "pool_inv n mqr p" and idle: "\<And>q. \<not> pool_work p q" and n: "0 < n"
  shows "jobs p = []" "running p = {#}" "shutting_down p \<Longrightarrow> joined p"
proof -
  have workers: "w = Asleep \<or> w = Exited" if w: "w \<in> set (threads p)" for w
  proof -
    from w obtain i where "i < length (threads p)" "w = threads p ! i" by (metis in_set_conv_nth)
    with idle work_test [of i p] work_end [of i p] show ?thesis by (cases w) metis+
  qed
  have "sum_list (map running_job ws) = {#} \<and> sum_list (map awake ws) = 0"
    if "\<forall>w \<in> set ws. w = Asleep \<or> w = Exited" for ws :: "'a worker list"
    using that by (induction ws) (auto simp: awake_def)
  from this [of "threads p"] workers have none: "running p = {#}" "awake_workers p = 0"
    unfolding running_def awake_workers_def by blast+
  have due: "\<not> notify_all_due p" using idle work_notify_all by blast
  have none_due: "notify_one_due p = 0"
    using idle work_notify_one [of p] work_notify_none [of p] by (metis gr0I in_set_conv_nth)
  show "running p = {#}" by (rule none)
  have "threads p \<noteq> []" using inv n by (auto simp: pool_inv_def)
  then obtain w where w: "w \<in> set (threads p)" by (cases "threads p") auto
  show "jobs p = []" using workers [OF w] w inv none none_due by (auto simp: pool_inv_def)
  show "joined p" if "shutting_down p"
    using that workers inv due by (auto simp: joined_def list_all_iff pool_inv_def)
qed

lemma work_reach: "(pool_work ^^ m) p q \<Longrightarrow> pool_reach n mqr p \<Longrightarrow> pool_reach n mqr q"
proof (induction m arbitrary: q)
  case (Suc m)
  then obtain r where "pool_reach n mqr r" "pool_work r q" by auto
  then show ?case by (blast intro: reach_step step_work)
qed simp

lemma running_bound: "size (running p) \<le> length (threads p)"
proof -
  have "size (sum_list (map running_job ws)) \<le> length ws" for ws :: "'a worker list"
  proof (induction ws)
    case (Cons w ws)
    then show ?case by (cases w) simp_all
  qed simp
  then show ?thesis by (simp add: running_def)
qed

section \<open>Properties\<close>

text \<open>
  C21: Whatever the interleaving, jobs are started in the order in which they were accepted and
  each once, every started job has ended or runs, no more run than there are threads, and the
  queue keeps its bound.
\<close>

theorem pool_serves_in_order:
  assumes "pool_reach n mqr p"
  shows "accepted p = started p @ jobs p \<and> mset (started p) = mset (finished p) + running p
    \<and> size (running p) \<le> n \<and> (0 < mqr \<longrightarrow> length (jobs p) \<le> mqr)"
  using reach_inv [OF assms] running_bound [of p] by (simp add: pool_inv_def)

definition toy_pool :: "nat pool" where "toy_pool = snd (enqueue 7 (ThreadPool 2 1))"

lemma toy_pool_reach: "pool_reach 2 1 toy_pool"
proof -
  have "pool_step (ThreadPool 2 1 :: nat pool) toy_pool"
    by (rule step_enqueue [of _ 7 True]) (simp_all add: toy_pool_def enqueue_def ThreadPool_def)
  with reach_start show ?thesis by (rule reach_step)
qed

lemma pool_serves_in_order_witness: "accepted toy_pool = [7] \<and> size (running toy_pool) \<le> 2"
  using pool_serves_in_order [OF toy_pool_reach] by (simp add: toy_pool_def enqueue_def ThreadPool_def)

text \<open>
  C22: No wake-up is lost and nothing blocks: left to itself a pool with at least one thread
  stops after boundedly many steps, and where it stops every accepted job has been run to its
  end, and after a shutdown every thread has left, so that \<open>shutdown\<close> returns.
\<close>

theorem pool_drains:
  assumes "pool_reach n mqr p" "0 < n" "(pool_work ^^ m) p q"
  shows "m \<le> pool_load p
    \<and> ((\<forall>r. \<not> pool_work q r) \<longrightarrow> mset (finished q) = mset (accepted q) \<and> jobs q = [] \<and> (shutting_down q \<longrightarrow> joined q))"
proof (intro conjI impI)
  show "m \<le> pool_load p" using work_bounded [OF assms(3)] by simp
next
  assume idle: "\<forall>r. \<not> pool_work q r"
  have reach: "pool_reach n mqr q" by (rule work_reach [OF assms(3,1)])
  note left = idle_pool [OF reach_inv [OF reach] _ assms(2)]
  show "joined q" if "shutting_down q" using left(3) idle that by blast
  show "jobs q = []" using left(1) idle by blast
  then show "mset (finished q) = mset (accepted q)"
    using left(2) idle pool_serves_in_order [OF reach] by simp
qed

lemma pool_drains_witness:
  "\<exists>q. (pool_work ^^ 5) toy_pool q \<and> 5 \<le> pool_load toy_pool \<and> (\<forall>r. \<not> pool_work q r) \<and>
     mset (finished q) = {#7#} \<and> jobs q = []"
proof -
  let ?p1 = "test_condition 0 toy_pool"
  let ?p2 = "end_job 0 7 ?p1"
  let ?p3 = "?p2\<lparr>notify_one_due := notify_one_due ?p2 - 1\<rparr>"
  let ?p4 = "test_condition 0 ?p3"
  let ?q = "test_condition 1 ?p4"
  note defs = toy_pool_def enqueue_def ThreadPool_def test_condition_def end_job_def numeral_2_eq_2
  have "pool_work toy_pool ?p1" by (rule work_test) (simp_all add: defs)
  moreover have "pool_work ?p1 ?p2" by (rule work_end) (simp_all add: defs)
  moreover have "pool_work ?p2 ?p3" by (rule work_notify_none) (simp_all add: defs)
  moreover have "pool_work ?p3 ?p4" by (rule work_test) (simp_all add: defs)
  moreover have "pool_work ?p4 ?q" by (rule work_test) (simp_all add: defs)
  ultimately have run: "(pool_work ^^ 5) toy_pool ?q"
    by (simp add: eval_nat_numeral OO_def) blast
  have idle: "\<not> pool_work ?q r" for r
    by (auto elim!: pool_workE simp: defs nth_Cons split: nat.splits)
  moreover have "accepted ?q = [7]" by (simp add: defs)
  ultimately show ?thesis using run pool_drains [OF toy_pool_reach _ run] by (intro exI [of _ ?q]) simp
qed

end
