(* ===== verification/Central_Concurrency.thy ===== *)
theory Central_Concurrency
  imports Central_Linear
begin

text \<open>
  What the threads of the central server guarantee each other: the connection and the mutex are each
  held by the one worker that is in a stage that needs it, every request read is answered exactly
  once, and from every reachable state all the workers can finish.
\<close>

section \<open>Resources\<close>

text \<open>
  A resource of the threads: who holds it, and the stages in which a worker holds it. A worker enters
  such a stage only when nobody holds the resource, and gives it back when it leaves. The connection with
  its transaction is one, the mutex of the signals another.
\<close>

locale thread_resource =
  fixes held :: "threads_state \<Rightarrow> nat option"
    and needs :: "stage \<Rightarrow> bool"
  assumes enter: "worker_stage env i req st s = Some (Next st', s') \<Longrightarrow> needs st' \<Longrightarrow> \<not> needs st \<Longrightarrow> held s = None"
    and go_on: "worker_stage env i req st s = Some (Next st', s') \<Longrightarrow>
      held s' = (if needs st' then Some i else if needs st then None else held s)"
    and leave: "worker_stage env i req st s = Some (Done r, s') \<Longrightarrow> held s' = (if needs st then None else held s)"
    and frame: "held (s\<lparr>server_workers := ws\<rparr>) = held s" "held (take_request i req s) = held s"
      "held (reply i k req res s) = held s" "held (listening n c) = None"
    and not_at_first: "\<not> needs Received"
begin

definition holds :: "threads_state \<Rightarrow> nat \<Rightarrow> bool" where
  "holds s i \<longleftrightarrow> i < length (server_workers s) \<and> (\<exists>k req st. server_workers s ! i = Busy k req st \<and> needs st)"

text \<open>Replacing the worker \<open>i\<close> changes what is known of \<open>i\<close> only.\<close>

lemma holds_update:
  assumes "i < length (server_workers s)"
  shows "holds (s\<lparr>server_workers := (server_workers s)[i := w]\<rparr>) j \<longleftrightarrow>
    (if j = i then \<exists>k req st. w = Busy k req st \<and> needs st else holds s j)"
  using assms by (auto simp: holds_def)

lemma holds_cong: "server_workers s' = server_workers s \<Longrightarrow> holds s' = holds s"
  by (intro ext) (simp add: holds_def)

lemma step_exclusive:
  assumes "threads_step env s s'" "\<forall>j. held s = Some j \<longleftrightarrow> holds s j"
  shows "\<forall>j. held s' = Some j \<longleftrightarrow> holds s' j"
  using assms
proof (induction rule: threads_step.induct)
  case (step_read i s req)
  have "holds (take_request i req s) j \<longleftrightarrow> holds s j" for j
    using step_read not_at_first by (cases "j = i") (auto simp: holds_def take_request_def)
  with step_read show ?case by (simp add: frame)
next
  case (step_on i s k req st st' s')
  note f = stage_frame [OF step_on(3)]
  have "holds s i \<longleftrightarrow> needs st" using step_on(1,2) by (simp add: holds_def)
  moreover have "holds (s'\<lparr>server_workers := (server_workers s')[i := Busy k req st']\<rparr>) j \<longleftrightarrow>
      (if j = i then needs st' else holds s j)" for j
    using holds_update [of i s' "Busy k req st'" j] holds_cong [OF f(1)] step_on(1) f(1) by simp
  ultimately show ?case
    using step_on(4) go_on [OF step_on(3)] enter [OF step_on(3)] by (simp add: frame) (metis option.distinct(1) option.inject)
next
  case (step_reply i s k req st res s')
  note f = stage_frame [OF step_reply(3)]
  have "holds s i \<longleftrightarrow> needs st" using step_reply(1,2) by (simp add: holds_def)
  moreover have "holds (reply i k req res s') j \<longleftrightarrow> j \<noteq> i \<and> holds s j" for j
    using step_reply(1) f(1) by (cases "j = i") (simp_all add: holds_def reply_def)
  ultimately show ?case
    using step_reply(4) leave [OF step_reply(3)] by (simp add: frame) (metis option.distinct(1) option.inject)
qed

lemma exclusive: "threads_reach env n c s \<Longrightarrow> held s = Some j \<longleftrightarrow> holds s j"
proof (induction arbitrary: j rule: threads_reach.induct)
  case reach_listening
  show ?case by (simp add: frame) (auto simp: holds_def listening_def)
next
  case (reach_more s s')
  then show ?case using step_exclusive by blast
qed

lemma one_holder: "threads_reach env n c s \<Longrightarrow> holds s i \<Longrightarrow> holds s j \<Longrightarrow> i = j"
  using exclusive by (metis option.inject)

end

text \<open>The stages with a transaction open, and those with the lock.\<close>

fun in_transaction :: "stage \<Rightarrow> bool" where
  "in_transaction (Looking x) = True"
| "in_transaction (Reading x) = True"
| "in_transaction (Marking x row) = True"
| "in_transaction (Inserting data) = True"
| "in_transaction st = False"

fun in_lock :: "stage \<Rightarrow> bool" where
  "in_lock (Storing x data) = True"
| "in_lock (Fetching x) = True"
| "in_lock st = False"

lemma open_only_alone:
  "open_on_connection env i s = Inr s1 \<Longrightarrow> open_transaction s = None \<and> s1 = s\<lparr>open_transaction := Some i\<rparr>"
  by (auto simp: open_on_connection_def env_at_def crowded_def begin_transaction_def bind_result_def
      split: if_splits)

lemma stage_resources:
  assumes "worker_stage env i req st s = Some (out, s')"
  shows "case out of
      Next st' \<Rightarrow>
        (in_transaction st' \<and> \<not> in_transaction st \<longrightarrow> open_transaction s = None)
        \<and> (in_lock st' \<and> \<not> in_lock st \<longrightarrow> signal_mutex s = None)
        \<and> open_transaction s' = (if in_transaction st' then Some i else if in_transaction st then None else open_transaction s)
        \<and> signal_mutex s' = (if in_lock st' then Some i else if in_lock st then None else signal_mutex s)
    | Done r \<Rightarrow>
        open_transaction s' = (if in_transaction st then None else open_transaction s)
        \<and> signal_mutex s' = (if in_lock st then None else signal_mutex s)"
proof (cases st)
  case Received
  with assms have "start_request env i req s = (out, s')" by simp
  with Received show ?thesis
    using open_only_alone [of env i s]
    by (auto simp: start_request_def start_lookup_def start_getfile_def start_register_def start_signal_post_def
        after_handler_def split: route.splits sum.splits fault.splits)
next
  case (Between x row)
  with assms open_only_alone [of env i s] show ?thesis
    by (auto simp: start_marking_def end_getfile_def after_handler_def split: sum.splits fault.splits)
qed (use assms in \<open>auto simp: look_def read_row_def mark_row_def insert_row_def store_signal_def fetch_signal_def
      lock_signals_def after_handler_def end_getfile_def Let_def
      split: sum.splits fault.splits option.splits if_splits prod.splits\<close>)

interpretation connection: thread_resource open_transaction in_transaction
proof unfold_locales
  fix env i req st s st' s' r
  show "worker_stage env i req st s = Some (Next st', s') \<Longrightarrow> in_transaction st' \<Longrightarrow> \<not> in_transaction st \<Longrightarrow>
      open_transaction s = None" by (drule stage_resources) simp
  show "worker_stage env i req st s = Some (Next st', s') \<Longrightarrow>
      open_transaction s' = (if in_transaction st' then Some i else if in_transaction st then None else open_transaction s)"
    by (drule stage_resources) simp
  show "worker_stage env i req st s = Some (Done r, s') \<Longrightarrow>
      open_transaction s' = (if in_transaction st then None else open_transaction s)"
    by (drule stage_resources) simp
qed (simp_all add: take_request_def reply_def listening_def)

interpretation signal_lock: thread_resource signal_mutex in_lock
proof unfold_locales
  fix env i req st s st' s' r
  show "worker_stage env i req st s = Some (Next st', s') \<Longrightarrow> in_lock st' \<Longrightarrow> \<not> in_lock st \<Longrightarrow>
      signal_mutex s = None" by (drule stage_resources) simp
  show "worker_stage env i req st s = Some (Next st', s') \<Longrightarrow>
      signal_mutex s' = (if in_lock st' then Some i else if in_lock st then None else signal_mutex s)"
    by (drule stage_resources) simp
  show "worker_stage env i req st s = Some (Done r, s') \<Longrightarrow>
      signal_mutex s' = (if in_lock st then None else signal_mutex s)"
    by (drule stage_resources) simp
qed (simp_all add: take_request_def reply_def listening_def)

section \<open>Requests\<close>

text \<open>The request that a worker has in hand, and all that are in hand.\<close>

fun in_hand :: "server_worker \<Rightarrow> nat list" where
  "in_hand Free = []"
| "in_hand (Busy k req st) = [k]"

definition requests_in_hand :: "threads_state \<Rightarrow> nat list" where
  "requests_in_hand s = concat (map in_hand (server_workers s))"

lemma mset_concat_update:
  "i < length ws \<Longrightarrow> mset (concat (map f (ws[i := w]))) + mset (f (ws ! i)) = mset (concat (map f ws)) + mset (f w)"
proof (induction ws arbitrary: i)
  case (Cons v ws)
  then show ?case by (cases i) (simp_all add: add.commute add.left_commute)
qed simp

lemma accounted:
  "threads_reach env n c s \<Longrightarrow> mset (requests_in_hand s) + mset (map fst (served s)) = mset [0..<requests_read s]"
proof (induction rule: threads_reach.induct)
  case reach_listening
  show ?case by (simp add: requests_in_hand_def listening_def)
next
  case (reach_more s s')
  from reach_more(2,3) show ?case
  proof (induction rule: threads_step.induct)
    case (step_read i s req)
    then show ?case
      using mset_concat_update [of i "server_workers s" in_hand "Busy (requests_read s) req Received"]
      by (simp add: requests_in_hand_def take_request_def)
  next
    case (step_on i s k req st st' s')
    then show ?case
      using mset_concat_update [of i "server_workers s" in_hand "Busy k req st'"] stage_frame [OF step_on(3)]
      by (simp add: requests_in_hand_def)
  next
    case (step_reply i s k req st res s')
    note f = stage_frame [OF step_reply(3)]
    have "mset (requests_in_hand s) = add_mset k (mset (requests_in_hand (reply i k req res s')))"
      using mset_concat_update [of i "server_workers s" in_hand Free] step_reply(1,2) f
      by (simp add: requests_in_hand_def reply_def)
    moreover have "mset (map fst (served (reply i k req res s'))) = add_mset k (mset (map fst (served s)))"
      using f by (simp add: reply_def)
    ultimately show ?case using step_reply(4) f by (simp add: reply_def)
  qed
qed

section \<open>Progress\<close>

text \<open>How many steps a stage has before it at most.\<close>

fun stage_rank :: "stage \<Rightarrow> nat" where
  "stage_rank Received = 4"
| "stage_rank (Reading x) = 3"
| "stage_rank (Between x row) = 2"
| "stage_rank (Wants_store x data) = 2"
| "stage_rank (Wants_fetch x) = 2"
| "stage_rank st = 1"

fun worker_rank :: "server_worker \<Rightarrow> nat" where
  "worker_rank Free = 0"
| "worker_rank (Busy k req st) = stage_rank st"

definition work_left :: "threads_state \<Rightarrow> nat" where
  "work_left s = sum_list (map worker_rank (server_workers s))"

lemma rank_positive: "0 < stage_rank st"
  by (cases st) simp_all

lemma rank_decreases:
  assumes "worker_stage env i req st s = Some (Next st', s')"
  shows "stage_rank st' < stage_rank st"
proof (cases st)
  case Received
  with assms have "start_request env i req s = (Next st', s')" by simp
  with Received show ?thesis
    by (auto simp: start_request_def start_lookup_def start_getfile_def start_register_def start_signal_post_def
        after_handler_def split: route.splits sum.splits fault.splits)
qed (use assms in \<open>auto simp: look_def read_row_def start_marking_def mark_row_def insert_row_def store_signal_def
      fetch_signal_def lock_signals_def after_handler_def end_getfile_def Let_def
      split: sum.splits fault.splits option.splits if_splits prod.splits\<close>)

lemma sum_list_update_rank:
  "i < length ws \<Longrightarrow> sum_list (map worker_rank (ws[i := w])) + worker_rank (ws ! i) = sum_list (map worker_rank ws) + worker_rank w"
proof (induction ws arbitrary: i)
  case (Cons v ws)
  then show ?case by (cases i) (simp_all add: add.commute add.left_commute)
qed simp

lemma step_work:
  assumes "threads_step env s s'"
  shows "Suc (work_left s') \<le> work_left s + 5 * (requests_read s' - requests_read s) \<and> requests_read s \<le> requests_read s'"
  using assms
proof (induction rule: threads_step.induct)
  case (step_read i s req)
  then show ?case
    using sum_list_update_rank [of i "server_workers s" "Busy (requests_read s) req Received"]
    by (simp add: work_left_def take_request_def)
next
  case (step_on i s k req st st' s')
  then show ?case
    using sum_list_update_rank [of i "server_workers s" "Busy k req st'"] stage_frame [OF step_on(3)]
      rank_decreases [OF step_on(3)] by (simp add: work_left_def)
next
  case (step_reply i s k req st res s')
  then show ?case
    using sum_list_update_rank [of i "server_workers s" Free] stage_frame [OF step_reply(3)] rank_positive [of st]
    by (simp add: work_left_def reply_def)
qed

text \<open>A worker whose stage ends the process.\<close>

definition process_aborts :: "central_env \<Rightarrow> threads_state \<Rightarrow> bool" where
  "process_aborts env s \<longleftrightarrow>
     (\<exists>i k req st a s'. i < length (server_workers s) \<and> server_workers s ! i = Busy k req st
        \<and> worker_stage env i req st s = Some (Done (Inl a), s'))"

lemma stage_enabled:
  "worker_stage env i req st s = None \<longleftrightarrow> signal_mutex s \<noteq> None \<and> ((\<exists>x d. st = Wants_store x d) \<or> (\<exists>x. st = Wants_fetch x))"
  by (cases st) (auto simp: lock_signals_def)

text \<open>While a worker is busy, one can go on: who waits for the lock waits for one that has it.\<close>

lemma someone_goes_on:
  assumes "threads_reach env n c s" "work_left s \<noteq> 0"
  shows "\<exists>i k req st out s'. i < length (server_workers s) \<and> server_workers s ! i = Busy k req st
    \<and> worker_stage env i req st s = Some (out, s')"
proof -
  from assms(2) obtain w where w: "w \<in> set (server_workers s)" "worker_rank w \<noteq> 0"
    by (auto simp: work_left_def)
  from w(1) obtain i where i: "i < length (server_workers s)" "server_workers s ! i = w"
    by (auto simp: in_set_conv_nth)
  from w(2) obtain k req st where b: "w = Busy k req st" by (cases w) auto
  show ?thesis
  proof (cases "worker_stage env i req st s")
    case None
    then obtain j where "signal_mutex s = Some j" by (auto simp: stage_enabled)
    then have "signal_lock.holds s j" using signal_lock.exclusive [OF assms(1)] by blast
    then obtain k2 req2 st2 where j: "j < length (server_workers s)" "server_workers s ! j = Busy k2 req2 st2" "in_lock st2"
      by (auto simp: signal_lock.holds_def)
    have "worker_stage env j req2 st2 s \<noteq> None" using j(3) by (auto simp: stage_enabled)
    with j show ?thesis by fast
  next
    case (Some x)
    with i b show ?thesis by (cases x) blast
  qed
qed

lemma finishes:
  "threads_reach env n c s \<Longrightarrow>
   \<exists>s'. (threads_step env)\<^sup>*\<^sup>* s s' \<and> threads_reach env n c s' \<and> requests_read s' = requests_read s
     \<and> (work_left s' = 0 \<or> process_aborts env s')"
proof (induction "work_left s" arbitrary: s rule: less_induct)
  case less
  show ?case
  proof (cases "work_left s = 0 \<or> process_aborts env s")
    case True
    with less(2) show ?thesis by blast
  next
    case False
    then obtain i k req st out t where i: "i < length (server_workers s)" "server_workers s ! i = Busy k req st"
      "worker_stage env i req st s = Some (out, t)" using someone_goes_on [OF less(2)] by blast
    have "\<exists>s1. threads_step env s s1 \<and> requests_read s1 = requests_read s"
    proof (cases out)
      case (Next st')
      with i(3) step_on [OF i(1,2)] stage_frame(2) show ?thesis by fastforce
    next
      case (Done r)
      with i False obtain res where "r = Inr res" by (cases r) (auto simp: process_aborts_def)
      with Done i(3) step_reply [OF i(1,2)] have "threads_step env s (reply i k req res t)" by simp
      moreover have "requests_read (reply i k req res t) = requests_read s"
        using stage_frame(2) [OF i(3)] by (simp add: reply_def)
      ultimately show ?thesis by blast
    qed
    then obtain s1 where s1: "threads_step env s s1" "requests_read s1 = requests_read s" by blast
    then have "work_left s1 < work_left s" using step_work [OF s1(1)] by simp
    from less(1) [OF this reach_more [OF less(2) s1(1)]] s1 show ?thesis
      by (metis converse_rtranclp_into_rtranclp)
  qed
qed

lemma idle_no_requests: "work_left s = 0 \<Longrightarrow> requests_in_hand s = []"
  using rank_positive by (auto simp: work_left_def requests_in_hand_def) (metis in_hand.elims less_numeral_extra(3) worker_rank.simps(2))

section \<open>Properties\<close>

text \<open>
  C4: The threads implement the server that serves one request after the other, up to claims:
  whatever the workers have done, there is an order of the requests answered in which that
  server, which may find the database occupied for some of them, gives every one the same
  response and comes to the same database and signals; and a request that was answered before
  another was read comes before it in that order.
\<close>

theorem threads_serve_in_some_order:
  assumes "threads_reach env n c s"
  shows "\<exists>h. serves env c h (shared s) \<and> mset h = mset (served s) \<and>
    (\<forall>pre k req res post. h = pre @ (k, req, res) # post \<longrightarrow> served_before s k \<subseteq> replied pre)"
proof -
  from reach_inv_threads [OF assms] obtain h where "threads_inv env c s h" ..
  then have "serves env c h (shared s)" "mset h = mset (served s)" "ordered_after (served_before s) {} h"
    by (simp_all add: threads_inv_def)
  then show ?thesis by (intro exI [of _ h]) (auto simp: ordered_append)
qed

text \<open>
  C13: At every moment the database connection has a transaction open exactly when one worker is
  inside \<open>lookup_transfer\<close>, \<open>get_transfers_metadata\<close>,
  \<open>mark_transfer_claimed\<close> or \<open>register_transfers\<close>, and the mutex of
  the signals is locked exactly when one worker is in one of its two regions; it is never two
  workers.
\<close>

theorem threads_exclude_each_other:
  assumes "threads_reach env n c s"
    and "i < length (server_workers s)" "server_workers s ! i = Busy k req st"
  shows "(open_transaction s = Some i \<longleftrightarrow> in_transaction st) \<and> (signal_mutex s = Some i \<longleftrightarrow> in_lock st)"
  using connection.exclusive [OF assms(1), of i] signal_lock.exclusive [OF assms(1), of i] assms(2,3)
  by (simp add: connection.holds_def signal_lock.holds_def)

text \<open>
  C14: No deadlock and no request lost: from every state the server can go on, without reading
  further requests, until each request it has read is answered exactly once, unless a handler
  aborts the process.
\<close>

theorem every_request_answered:
  assumes "threads_reach env n c s"
  shows "\<exists>s'. (threads_step env)\<^sup>*\<^sup>* s s' \<and> requests_read s' = requests_read s \<and>
    (process_aborts env s' \<or>
     (requests_in_hand s' = [] \<and> mset (map fst (served s')) = mset [0..<requests_read s]))"
  using finishes [OF assms] accounted idle_no_requests by fastforce

text \<open>
  C15: Another worker's transaction is an error of this one: while one is open on the only
  connection, a lookup is answered with status 500, a request for a file with status 200 and an
  empty body, and a registration, whose row is lost, with status 200 and an empty body too.
\<close>

theorem occupied_connection_refuses:
  assumes "open_transaction s \<noteq> None" "connection_open (db (shared s))"
    and "route_of req = To_lookup x \<or> route_of req = To_getfile x
      \<or> route_of req = To_register \<and> json_parse (env_floats env) (req_body req) = Inr data"
  shows "\<exists>r. worker_stage env i req Received s = Some (Done (Inr r), s)
    \<and> (case route_of req of To_lookup x \<Rightarrow> res_status r = 500 | _ \<Rightarrow> res_status r = 200 \<and> res_body r = [])"
  using assms
  by (auto simp: start_request_def start_lookup_def start_getfile_def start_register_def open_on_connection_def
      begin_transaction_def env_at_def crowded_def after_handler_def exception_handler_def fresh_response_def set_content_def)

section \<open>Runs\<close>

lemma reach_take:
  "threads_reach env n c s \<Longrightarrow> i < length (server_workers s) \<Longrightarrow> server_workers s ! i = Free \<Longrightarrow>
   threads_reach env n c (take_request i req s)"
  by (erule reach_more) (rule step_read)

lemma reach_on:
  "threads_reach env n c s \<Longrightarrow> i < length (server_workers s) \<Longrightarrow> server_workers s ! i = Busy k req st \<Longrightarrow>
   worker_stage env i req st s = Some (Next st', s') \<Longrightarrow>
   t = s'\<lparr>server_workers := (server_workers s')[i := Busy k req st']\<rparr> \<Longrightarrow> threads_reach env n c t"
  by (blast intro: reach_more step_on)

lemma reach_reply:
  "threads_reach env n c s \<Longrightarrow> i < length (server_workers s) \<Longrightarrow> server_workers s ! i = Busy k req st \<Longrightarrow>
   worker_stage env i req st s = Some (Done (Inr res), s') \<Longrightarrow> t = reply i k req res s' \<Longrightarrow> threads_reach env n c t"
  by (blast intro: reach_more step_reply)

text \<open>Two workers with a request each.\<close>

definition two_busy ::
    "central \<Rightarrow> nat option \<Rightarrow> server_worker \<Rightarrow> server_worker \<Rightarrow> (nat \<times> request \<times> response) list \<Rightarrow> threads_state" where
  "two_busy c txn v w sv =
     \<lparr>shared = c, open_transaction = txn, signal_mutex = None, server_workers = [v, w],
      requests_read = 2, served = sv, served_before = (\<lambda>_. {})\<rparr>"

lemma two_busy_simps [simp]:
  "shared (two_busy c txn v w sv) = c" "open_transaction (two_busy c txn v w sv) = txn"
  "server_workers (two_busy c txn v w sv) = [v, w]" "served (two_busy c txn v w sv) = sv"
  "requests_read (two_busy c txn v w sv) = 2" "served_before (two_busy c txn v w sv) = (\<lambda>_. {})"
  "signal_mutex (two_busy c txn v w sv) = None"
  "two_busy c txn v w sv\<lparr>open_transaction := o'\<rparr> = two_busy c o' v w sv"
  "two_busy c txn v w sv\<lparr>shared := c'\<rparr> = two_busy c' txn v w sv"
  "two_busy c txn v w sv\<lparr>server_workers := [v', w']\<rparr> = two_busy c txn v' w' sv"
  "reply 0 k req r (two_busy c txn v w sv) = two_busy c txn Free w (sv @ [(k, req, write_response_core req r)])"
  "reply (Suc 0) k req r (two_busy c txn v w sv) = two_busy c txn v Free (sv @ [(k, req, write_response_core req r)])"
  by (simp_all add: two_busy_def reply_def)

lemma reach_two:
  "threads_reach env 2 c (two_busy c None (Busy 0 r0 Received) (Busy 1 r1 Received) [])"
proof -
  have "threads_reach env 2 c (take_request 1 r1 (take_request 0 r0 (listening 2 c)))"
    by (intro reach_take reach_listening) (simp_all add: listening_def take_request_def nth_list_update numeral_2_eq_2)
  moreover have "take_request 1 r1 (take_request 0 r0 (listening 2 c)) =
      two_busy c None (Busy 0 r0 Received) (Busy 1 r1 Received) []"
    by (simp add: two_busy_def listening_def take_request_def numeral_2_eq_2 fun_eq_iff)
  ultimately show ?thesis by simp
qed

lemma two_on:
  "threads_reach env n c (two_busy d txn (Busy k req st) w sv) \<Longrightarrow>
   worker_stage env 0 req st (two_busy d txn (Busy k req st) w sv) =
     Some (Next st', two_busy d' txn' (Busy k req st) w sv) \<Longrightarrow>
   threads_reach env n c (two_busy d' txn' (Busy k req st') w sv)"
  "threads_reach env n c (two_busy d txn v (Busy k req st) sv) \<Longrightarrow>
   worker_stage env 1 req st (two_busy d txn v (Busy k req st) sv) =
     Some (Next st', two_busy d' txn' v (Busy k req st) sv) \<Longrightarrow>
   threads_reach env n c (two_busy d' txn' v (Busy k req st') sv)"
  by (erule reach_on [rotated 3], simp_all)+

lemma two_reply:
  "threads_reach env n c (two_busy d txn (Busy k req st) w sv) \<Longrightarrow>
   worker_stage env 0 req st (two_busy d txn (Busy k req st) w sv) =
     Some (Done (Inr r), two_busy d' txn' (Busy k req st) w sv) \<Longrightarrow>
   threads_reach env n c (two_busy d' txn' Free w (sv @ [(k, req, write_response_core req r)]))"
  "threads_reach env n c (two_busy d txn v (Busy k req st) sv) \<Longrightarrow>
   worker_stage env 1 req st (two_busy d txn v (Busy k req st) sv) =
     Some (Done (Inr r), two_busy d' txn' v (Busy k req st) sv) \<Longrightarrow>
   threads_reach env n c (two_busy d' txn' v Free (sv @ [(k, req, write_response_core req r)]))"
  by (erule reach_reply [rotated 3], simp_all)+

text \<open>A lookup that has its transaction open, beside a request that is only read.\<close>

definition toy_lookup :: request where
  "toy_lookup = http_get ''/lookup/k''"

lemma reach_looking:
  "threads_reach toy_central_env 2 toy_central
     (two_busy toy_central (Some 0) (Busy 0 toy_lookup (Looking ''k'')) (Busy 1 req Received) [])"
proof -
  have "route_of toy_lookup = To_lookup ''k''"
    by (simp add: route_of_def toy_lookup_def http_get_def match_token_def token_char_def)
  then show ?thesis
    by (intro two_on(1) [OF reach_two])
       (simp add: start_request_def start_lookup_def open_on_connection_def env_at_def begin_transaction_def
        toy_central_env_def toy_postgres_def toy_central_def)
qed

lemma threads_exclude_each_other_witness:
  "\<exists>s. threads_reach toy_central_env 2 toy_central s \<and> open_transaction s = Some 0 \<and> open_transaction s \<noteq> Some 1"
proof -
  let ?s = "two_busy toy_central (Some 0) (Busy 0 toy_lookup (Looking ''k'')) (Busy 1 toy_lookup Received) []"
  have "open_transaction ?s = Some 0" "open_transaction ?s \<noteq> Some 1"
    using threads_exclude_each_other [OF reach_looking, of 0 _ 0 toy_lookup "Looking ''k''"]
      threads_exclude_each_other [OF reach_looking, of 1 _ 1 toy_lookup Received] by simp_all
  with reach_looking show ?thesis by blast
qed

lemma occupied_connection_refuses_witness:
  "\<exists>s r. threads_reach toy_central_env 2 toy_central s \<and>
     worker_stage toy_central_env 1 toy_lookup Received s = Some (Done (Inr r), s) \<and> res_status r = 500"
proof -
  let ?s = "two_busy toy_central (Some 0) (Busy 0 toy_lookup (Looking ''k'')) (Busy 1 toy_lookup Received) []"
  have route: "route_of toy_lookup = To_lookup ''k''"
    by (simp add: route_of_def toy_lookup_def http_get_def match_token_def token_char_def)
  have "\<exists>r. worker_stage toy_central_env 1 toy_lookup Received ?s = Some (Done (Inr r), ?s) \<and> res_status r = 500"
    using occupied_connection_refuses [of ?s toy_lookup "''k''" toy_central_env undefined 1]
    by (simp add: route toy_central_def)
  with reach_looking show ?thesis by blast
qed

text \<open>The lookup goes on after the other worker has been answered.\<close>

lemma reach_answered:
  obtains res where "threads_reach toy_central_env 2 toy_central
     (two_busy toy_central (Some 0) (Busy 0 toy_lookup (Looking ''k'')) Free [(1, http_get ''/health'', res)])"
proof -
  have "route_of (http_get ''/health'') = To_health"
    by (simp add: route_of_def http_get_def match_token_def match_path_def)
  then obtain r where "worker_stage toy_central_env 1 (http_get ''/health'') Received s = Some (Done (Inr r), s)" for s
    by (simp add: start_request_def after_handler_def)
  from two_reply(2) [OF reach_looking this] show thesis by (intro that) simp
qed

lemma threads_serve_in_some_order_witness:
  "\<exists>s h. threads_reach toy_central_env 2 toy_central s \<and> map fst (served s) = [1] \<and>
     serves toy_central_env toy_central h (shared s) \<and> mset h = mset (served s)"
proof -
  obtain res where r: "threads_reach toy_central_env 2 toy_central
     (two_busy toy_central (Some 0) (Busy 0 toy_lookup (Looking ''k'')) Free [(1, http_get ''/health'', res)])"
    by (rule reach_answered)
  from threads_serve_in_some_order [OF r] r show ?thesis by fastforce
qed

lemma every_request_answered_witness:
  "\<exists>s s'. (threads_step toy_central_env)\<^sup>*\<^sup>* s s' \<and> requests_in_hand s = [0] \<and> requests_read s' = 2 \<and>
    (process_aborts toy_central_env s' \<or> (requests_in_hand s' = [] \<and> mset (map fst (served s')) = mset [0..<2]))"
proof -
  obtain res where r: "threads_reach toy_central_env 2 toy_central
     (two_busy toy_central (Some 0) (Busy 0 toy_lookup (Looking ''k'')) Free [(1, http_get ''/health'', res)])"
    (is "threads_reach _ _ _ ?s") by (rule reach_answered)
  have "requests_in_hand ?s = [0]" "requests_read ?s = 2" by (simp_all add: requests_in_hand_def)
  with every_request_answered [OF r] show ?thesis by metis
qed

section \<open>A claim that nobody made\<close>

text \<open>
  A request for a file that is not registered yet reads no row; when the registration comes between its
  two transactions, the second one marks the new row as claimed, though the response is empty.
\<close>

lemma claimed_without_being_got:
  assumes c: "connection_open (db c)" "can_begin (env_postgres env)" "statements_ok (env_postgres env)"
      "transfers (db c) = Some t" "t x = None"
    and get: "route_of get = To_getfile x" "req_method get = ''GET''"
    and reg: "route_of reg = To_register" "json_parse (env_floats env) (req_body reg) = Inr data"
      "transfer_row_from_json (env_floats env) (env_postgres env) data = Inr p"
      "storable (env_postgres env) p" "pl_id p = x"
  shows "\<exists>s res row. threads_reach env 2 c s \<and> map fst (served s) = [1, 0]
    \<and> served s ! 1 = (0, get, res) \<and> res_status res = 200 \<and> res_body res = []
    \<and> (\<exists>u. transfers (db (shared s)) = Some u \<and> u x = Some row \<and> st_claimed row = Some True)"
proof -
  note eval = start_request_def start_getfile_def start_register_def read_row_def start_marking_def mark_row_def
    insert_row_def end_getfile_def after_handler_def open_on_connection_def env_at_def begin_transaction_def
    exec_table_def fresh_response_def
  let ?row = "upsert (now_text (env_postgres env)) p t"
  let ?c = "c\<lparr>db := (db c)\<lparr>transfers := Some ?row\<rparr>\<rparr>"
  let ?r = "write_response_core reg (fresh_response\<lparr>res_status := 201\<rparr>)"
  let ?d = "?c\<lparr>db := (db ?c)\<lparr>transfers := Some (set_claimed x ?row)\<rparr>\<rparr>"
  let ?q = "write_response_core get (fresh_response\<lparr>res_status := 200\<rparr>)"
  have "threads_reach env 2 c (two_busy c (Some 0) (Busy 0 get (Reading x)) (Busy 1 reg Received) [])"
    by (rule two_on(1) [OF reach_two]) (simp add: c get eval)
  then have "threads_reach env 2 c (two_busy c None (Busy 0 get (Between x None)) (Busy 1 reg Received) [])"
    by (rule two_on(1)) (simp add: c eval)
  then have "threads_reach env 2 c (two_busy c (Some 1) (Busy 0 get (Between x None)) (Busy 1 reg (Inserting data)) [])"
    by (rule two_on(2)) (simp add: c reg eval)
  from two_reply(2) [OF this, of "fresh_response\<lparr>res_status := 201\<rparr>" ?c None]
  have "threads_reach env 2 c (two_busy ?c None (Busy 0 get (Between x None)) Free [(1, reg, ?r)])"
    by (simp add: c reg eval)
  then have "threads_reach env 2 c (two_busy ?c (Some 0) (Busy 0 get (Marking x None)) Free [(1, reg, ?r)])"
    by (rule two_on(1)) (simp add: c eval)
  from two_reply(1) [OF this, of "fresh_response\<lparr>res_status := 200\<rparr>" ?d None]
  have run: "threads_reach env 2 c (two_busy ?d None Free Free [(1, reg, ?r), (0, get, ?q)])"
    by (simp add: c eval)
  have "\<exists>row. set_claimed x ?row x = Some row \<and> st_claimed row = Some True"
    using reg(5) by (simp add: set_claimed_def upsert_def)
  moreover have "res_status ?q = 200" "res_body ?q = []"
    using get(2) by (simp_all add: write_response_core_def complete_response_def fresh_response_def Let_def)
  ultimately show ?thesis
    by (intro exI [of _ "two_busy ?d None Free Free [(1, reg, ?r), (0, get, ?q)]"] exI [of _ ?q]) (use run in simp)
qed

end
