(* ===== verification/Json_Places.thy ===== *)
theory Json_Places
  imports Json_Pointer
begin

text \<open>
  Pointers as places in a value: reading and writing through a pointer obey the laws of a lens, \<open>contains\<close>
  is the question whether \<open>at\<close> finds something, and what \<open>operator[]\<close> makes is what it leads to.
\<close>

section \<open>Places\<close>

locale place =
  fixes get :: "'s \<Rightarrow> 'v result"
    and put :: "'v \<Rightarrow> 's \<Rightarrow> 's result"
  assumes put_ok: "get s = Inr v \<Longrightarrow> \<exists>t. put u s = Inr t"
    and put_get: "put u s = Inr t \<Longrightarrow> get t = Inr u"
    and get_put: "get s = Inr v \<Longrightarrow> put v s = Inr s"
    and put_put: "put u s = Inr t \<Longrightarrow> put v t = put v s"
begin

text \<open>Changing what is at the place.\<close>

definition change :: "('v \<Rightarrow> 'v result) \<Rightarrow> 's \<Rightarrow> 's result" where
  "change f s = bind_result (get s) (\<lambda>v. bind_result (f v) (\<lambda>u. put u s))"

lemma change_Inr:
  "get s = Inr v \<Longrightarrow> f v = Inr u \<Longrightarrow> put u s = Inr t \<Longrightarrow> change f s = Inr t"
  by (simp add: change_def)

lemma change_id: "get s = Inr v \<Longrightarrow> change Inr s = Inr s"
  by (simp add: change_def get_put)

text \<open>Two changes are one.\<close>

lemma change_change:
  assumes "get s = Inr v" "f v = Inr u"
  shows "bind_result (change f s) (change g) = change (\<lambda>v. bind_result (f v) g) s"
proof -
  obtain t where t: "put u s = Inr t" using put_ok [OF assms(1)] by blast
  then have "change f s = Inr t" using assms by (simp add: change_def)
  with t assms show ?thesis by (simp add: change_def put_get put_put)
qed

end

section \<open>Members and elements\<close>

lemma object_find_set:
  "object_find k (object_set k' v ms) = (if k = k' then map_option (\<lambda>_. v) (object_find k ms) else object_find k ms)"
  unfolding object_find_def by (induction k' v ms rule: object_set.induct) auto

lemma object_set_same: "object_find k ms = Some v \<Longrightarrow> object_set k v ms = ms"
  unfolding object_find_def by (induction k v ms rule: object_set.induct) (auto split: if_splits)

lemma object_set_set [simp]: "object_set k v (object_set k u ms) = object_set k v ms"
  by (induction k u ms rule: object_set.induct) auto

lemma object_set_keys [simp]: "map fst (object_set k v ms) = map fst ms"
  by (induction k v ms rule: object_set.induct) auto

lemma at_key_Inr: "at_key k ms = Inr v \<longleftrightarrow> object_find k ms = Some v"
  by (simp add: at_key_def split: option.split)

lemma at_index_Inr: "at_index i xs = Inr v \<longleftrightarrow> i < length xs \<and> v = xs ! i"
  by (auto simp: at_index_def)

section \<open>Pointers\<close>

definition put_checked :: "string list \<Rightarrow> json \<Rightarrow> json \<Rightarrow> json result" where
  "put_checked p v = with_checked (\<lambda>_. Inr v) p"

lemma put_checked_Cons:
  "put_checked (t # ts) v j =
     (case j of
        J_object ms \<Rightarrow>
          bind_result (at_key t ms) (\<lambda>x. bind_result (put_checked ts v x) (\<lambda>v'. Inr (J_object (object_set t v' ms))))
      | J_array xs \<Rightarrow>
          if t = ''-'' then Inl (Throw (Json_Out_Of_Range 402))
          else bind_result (array_index t) (\<lambda>i. bind_result (at_index i xs) (\<lambda>x.
               bind_result (put_checked ts v x) (\<lambda>v'. Inr (J_array (xs[i := v'])))))
      | _ \<Rightarrow> Inl (Throw (Json_Out_Of_Range 404)))"
  by (simp add: put_checked_def split: json.split)

lemma put_checked_Nil [simp]: "put_checked [] v j = Inr v"
  by (simp add: put_checked_def)

text \<open>A pointer leads to a member, to an element, or nowhere.\<close>

lemma get_checked_Cons_Inr:
  "get_checked (t # ts) j = Inr v \<longleftrightarrow>
     (\<exists>ms x. j = J_object ms \<and> object_find t ms = Some x \<and> get_checked ts x = Inr v)
     \<or> (\<exists>xs i. j = J_array xs \<and> t \<noteq> ''-'' \<and> array_index t = Inr i \<and> i < length xs \<and> get_checked ts (xs ! i) = Inr v)"
  by (cases j) (auto simp: bind_result_Inr_iff at_key_Inr at_index_Inr)

lemma put_checked_Cons_Inr:
  "put_checked (t # ts) v j = Inr j' \<longleftrightarrow>
     (\<exists>ms x x'. j = J_object ms \<and> object_find t ms = Some x \<and> put_checked ts v x = Inr x'
        \<and> j' = J_object (object_set t x' ms))
     \<or> (\<exists>xs i x'. j = J_array xs \<and> t \<noteq> ''-'' \<and> array_index t = Inr i \<and> i < length xs
        \<and> put_checked ts v (xs ! i) = Inr x' \<and> j' = J_array (xs[i := x']))"
  by (cases j) (auto simp: put_checked_Cons bind_result_Inr_iff at_key_Inr at_index_Inr)

lemma checked_put_ok: "get_checked p j = Inr v \<Longrightarrow> \<exists>j'. put_checked p u j = Inr j'"
proof (induction p arbitrary: j)
  case (Cons t ts)
  from Cons.prems show ?case
    unfolding get_checked_Cons_Inr by (auto dest!: Cons.IH simp: put_checked_Cons at_key_def at_index_def)
qed simp

lemma checked_put_get: "put_checked p u j = Inr j' \<Longrightarrow> get_checked p j' = Inr u"
proof (induction p arbitrary: j j')
  case (Cons t ts)
  from Cons.prems show ?case
    unfolding put_checked_Cons_Inr by (auto dest!: Cons.IH simp: at_key_def at_index_def object_find_set)
qed simp

lemma checked_get_put: "get_checked p j = Inr v \<Longrightarrow> put_checked p v j = Inr j"
proof (induction p arbitrary: j)
  case (Cons t ts)
  from Cons.prems show ?case
    unfolding get_checked_Cons_Inr
    by (auto dest!: Cons.IH simp: put_checked_Cons at_key_def at_index_def object_set_same)
qed simp

lemma checked_put_put: "put_checked p u j = Inr j' \<Longrightarrow> put_checked p v j' = put_checked p v j"
proof (induction p arbitrary: j j')
  case (Cons t ts)
  from Cons.prems show ?case
    unfolding put_checked_Cons_Inr
    by (auto simp: put_checked_Cons at_key_def at_index_def object_find_set Cons.IH bind_result_def split: sum.split)
qed simp

interpretation pointer: place "get_checked p" "put_checked p" for p
  by unfold_locales (use checked_put_ok checked_put_get checked_get_put checked_put_put in blast)+

text \<open>The reference is reading and writing.\<close>

lemma with_checked_bind:
  "with_checked f p j = bind_result (get_checked p j) (\<lambda>v. bind_result (f v) (\<lambda>u. put_checked p u j))"
proof (induction p arbitrary: j)
  case Nil
  show ?case by (cases "f j") simp_all
next
  case (Cons t ts)
  have bind: "bind_result (bind_result m f) g = bind_result m (\<lambda>x. bind_result (f x) g)" for m :: "'x result" and f g
    by (cases m) simp_all
  show ?case
  proof (cases j)
    case (J_object ms)
    then show ?thesis
      by (cases "object_find t ms")
         (simp_all add: Cons put_checked_Cons at_key_def bind)
  next
    case (J_array xs)
    then show ?thesis
      by (cases "array_index t")
         (simp_all add: Cons put_checked_Cons at_index_def bind)
  qed simp_all
qed

lemma with_checked_change: "with_checked f p j = pointer.change p f j"
  unfolding pointer.change_def by (rule with_checked_bind)

lemma get_checked_append: "get_checked (p @ q) j = bind_result (get_checked p j) (get_checked q)"
  by (induction p arbitrary: j) (auto simp: bind_result_def split: json.split sum.split)

lemma with_checked_append: "with_checked f (p @ q) j = with_checked (with_checked f q) p j"
  by (induction p arbitrary: j) (auto simp: bind_result_def split: json.split sum.split)

section \<open>Indices\<close>

lemma to_string_leading: "0 < n \<Longrightarrow> hd (to_string n) \<noteq> CHR ''0''"
proof (induction n rule: to_string.induct)
  case (1 n)
  show ?case
  proof (cases "n < 10")
    case True
    have "digit_char n \<noteq> CHR ''0''"
    proof
      assume "digit_char n = CHR ''0''"
      with digit_char_value [OF True] have "n = digit_value (CHR ''0'')" by simp
      with 1(2) show False by (simp add: digit_value_def)
    qed
    then show ?thesis using True by (subst to_string.simps) simp
  next
    case False
    with 1 show ?thesis by (subst to_string.simps) simp
  qed
qed

lemma to_string_one: "n < 10 \<Longrightarrow> length (to_string n) = 1"
  by (subst to_string.simps) simp

lemma array_index_to_string [simp]:
  assumes "n < 2 ^ 64 - 1"
  shows "array_index (to_string n) = Inr n"
proof -
  have d: "is_digit (hd (to_string n))" "takeWhile is_digit (to_string n) = to_string n"
    using to_string_digits [of n] by (simp_all add: list_all_iff takeWhile_eq_all_conv)
  have "hd (to_string n) \<noteq> CHR ''0''" if "1 < length (to_string n)"
    using that to_string_one [of n] to_string_leading [of n] by (cases "n < 10") auto
  with assms d(1) show ?thesis unfolding array_index_def Let_def d(2) by auto
qed

lemma to_string_0: "to_string 0 = ''0''"
  by code_simp

lemma to_string_not_dash: "to_string n \<noteq> ''-''"
  using to_string_digits [of n] by (auto simp: is_digit_def)

section \<open>Contains\<close>

lemma index_text_false: "\<not> index_text t \<Longrightarrow> t = ''-'' \<or> (\<exists>e. array_index t = Inl e)"
proof (cases "1 < length t")
  case True
  assume "\<not> index_text t"
  then consider "t = ''-''" | "\<not> is_digit (hd t)" | "hd t = CHR ''0''" | "\<not> list_all is_digit t"
    using True by (cases t) (auto simp: index_text_def)
  then show ?thesis
  proof cases
    case 4
    then have "takeWhile is_digit t \<noteq> t" by (metis list_all_iff takeWhile_eq_all_conv)
    then have "length (takeWhile is_digit t) \<noteq> length t" using takeWhile_eq_take [of is_digit t] by auto
    with True show ?thesis by (auto simp: array_index_def Let_def)
  qed (use True in \<open>auto simp: array_index_def\<close>)
next
  case False
  assume "\<not> index_text t"
  with False have "t = ''-'' \<or> length t = 1 \<and> \<not> is_digit (hd t)" by (auto simp: index_text_def)
  then show ?thesis by (cases t) (auto simp: array_index_def)
qed

lemma index_text_cases:
  assumes "index_text t"
  shows "t \<noteq> ''-''" "(\<exists>i. array_index t = Inr i) \<or> array_index t = Inl (Throw (Json_Out_Of_Range 404)) \<or>
    array_index t = Inl (Throw (Json_Out_Of_Range 410))"
  using assms by (auto simp: index_text_def array_index_def Let_def)

text \<open>
  \<open>contains\<close> tells what \<open>at\<close> would do. Its comment promises an exception for ill-formed indices only, but
  an empty token or an index beyond 64 bits on an array throws \<open>out_of_range\<close>.
\<close>

lemma contains_at:
  "pointer_contains p j = Inr b \<Longrightarrow> b \<longleftrightarrow> (\<exists>v. get_checked p j = Inr v)"
proof (induction p j rule: pointer_contains.induct)
  case (2 t ts j)
  show ?case
  proof (cases j)
    case (J_array xs)
    show ?thesis
    proof (cases "index_text t")
      case True
      note t = index_text_cases(1) [OF True]
      from 2(3) J_array True obtain i where i: "array_index t = Inr i"
        "(if length xs \<le> i then Inr False else pointer_contains ts (xs ! i)) = Inr b"
        by (auto simp: bind_result_Inr_iff)
      show ?thesis
      proof (cases "i < length xs")
        case False
        with i t J_array show ?thesis by (simp add: at_index_def)
      next
        case inside: True
        with i(2) have "pointer_contains ts (xs ! i) = Inr b" by simp
        from 2(2) [OF J_array _ _ this] True inside have "b \<longleftrightarrow> (\<exists>v. get_checked ts (xs ! i) = Inr v)" by simp
        with i(1) t J_array inside show ?thesis by (simp add: at_index_def)
      qed
    next
      case False
      with 2 J_array index_text_false [OF False] show ?thesis by auto
    qed
  next
    case (J_object ms)
    with 2 show ?thesis by (auto simp: at_key_def split: option.splits)
  qed (use 2 in auto)
qed simp

lemma contains_throws:
  "pointer_contains p j = Inl e \<Longrightarrow> e = Throw (Json_Out_Of_Range 404) \<or> e = Throw (Json_Out_Of_Range 410)"
proof (induction p j rule: pointer_contains.induct)
  case (2 t ts j)
  show ?case
  proof (cases j)
    case (J_array xs)
    with 2 index_text_cases [of t] show ?thesis by (auto split: if_splits)
  next
    case (J_object ms)
    with 2 show ?thesis by (auto split: option.splits)
  qed (use 2 in auto)
qed simp

section \<open>What \<open>operator[]\<close> makes\<close>

lemma emplace_null_find: "\<exists>v. object_find k (emplace_null k ms) = Some v"
  by (cases "object_find k ms") (simp_all add: emplace_null_def object_find_put)

lemma length_fill_up: "i < length (fill_up i xs)"
  by (simp add: fill_up_def)

text \<open>What was assigned through a pointer is found there, unless it had to go behind the end of an array.\<close>

lemma assigned_found:
  "with_unchecked (\<lambda>_. v) p j = (j', None) \<Longrightarrow> ''-'' \<notin> set p \<Longrightarrow> get_checked p j' = Inr v"
proof (induction p arbitrary: j j')
  case (Cons t ts)
  show ?case
  proof (cases "from_null t j")
    case (J_object ms)
    obtain w where "object_find t (emplace_null t ms) = Some w" using emplace_null_find by blast
    with Cons J_object show ?thesis
      by (auto simp: Let_def at_key_def object_find_set split: prod.splits)
  next
    case (J_array xs)
    with Cons.prems obtain i where i: "array_index t = Inr i" by (auto split: sum.splits)
    with Cons J_array length_fill_up [of i xs] show ?thesis
      by (auto simp: Let_def at_index_def split: prod.splits)
  qed (use Cons.prems in auto)
qed simp

end
