(* ===== verification/Json_Patch_Properties.thy ===== *)
theory Json_Patch_Properties
  imports Json_Places Json_Patch Json_Theorems
begin

text \<open>
  What patches guarantee: the difference of two values, applied to the first, gives the second; a merge
  patch does what RFC 7396 says and does nothing the second time; pointers are their text; and where an
  addition under a value that is no container ends.
\<close>

section \<open>Values as \<open>std::map\<close> and \<open>std::vector\<close> hold them\<close>

fun storable_json :: "json \<Rightarrow> bool" where
  "storable_json (J_object ms) = (sorted_members ms \<and> (\<forall>(k, v) \<in> set ms. storable_json v))"
| "storable_json (J_array xs) = (length xs < 2 ^ 64 - 1 \<and> (\<forall>x \<in> set xs. storable_json x))"
| "storable_json _ = True"

section \<open>Equality\<close>

lemma elements_eq_length: "elements_eq xs ys \<Longrightarrow> length xs = length ys"
  by (induction xs arbitrary: ys) (auto split: list.splits)

lemma elements_eq_append:
  "length xs = length ys \<Longrightarrow> elements_eq (xs @ us) (ys @ vs) \<longleftrightarrow> elements_eq xs ys \<and> elements_eq us vs"
  by (induction xs ys rule: list_induct2) auto

lemma elements_eq_nth: "elements_eq xs xs \<Longrightarrow> x \<in> set xs \<Longrightarrow> json_eq x x"
  by (induction xs) auto

lemma elements_eq_refl: "elements_eq xs xs \<longleftrightarrow> (\<forall>x \<in> set xs. json_eq x x)"
  by (induction xs) auto

lemma members_eq_refl: "members_eq ms ms \<longleftrightarrow> (\<forall>(k, v) \<in> set ms. json_eq v v)"
  by (induction ms) auto

lemma sorted_members_Cons: "sorted_members ((k, v) # ms) \<longleftrightarrow> (\<forall>l \<in> set (map fst ms). k < l) \<and> sorted_members ms"
  by (simp add: sorted_members_def)

lemma find_Cons: "object_find k ((l, v) # ms) = (if k = l then Some v else object_find k ms)"
  by (simp add: object_find_def)

lemma find_None: "object_find k ms = None \<longleftrightarrow> k \<notin> set (map fst ms)"
  by (simp add: object_find_def map_of_eq_None_iff)

lemma find_Some_in: "object_find k ms = Some v \<Longrightarrow> (k, v) \<in> set ms"
  by (simp add: object_find_def map_of_SomeD)

lemma find_in_sorted: "sorted_members ms \<Longrightarrow> (k, v) \<in> set ms \<Longrightarrow> object_find k ms = Some v"
proof (induction ms)
  case (Cons m ms)
  obtain l w where m: "m = (l, w)" by fastforce
  show ?case
  proof (cases "(k, v) = m")
    case False
    with Cons(3) have "(k, v) \<in> set ms" by auto
    moreover from this Cons(2) m have "l < k" by (force simp: sorted_members_Cons)
    ultimately show ?thesis using Cons m by (auto simp: sorted_members_Cons find_Cons)
  qed (auto simp: find_Cons)
qed simp

text \<open>Objects are equal when they have equal values at the same keys.\<close>

lemma members_eq_find:
  "sorted_members ms \<Longrightarrow> sorted_members ns \<Longrightarrow>
   (\<And>k. rel_option json_eq (object_find k ms) (object_find k ns)) \<Longrightarrow> members_eq ms ns"
proof (induction ms arbitrary: ns)
  case Nil
  have "object_find k ns = None" for k using Nil(3) [of k] by (simp add: object_find_def)
  then have "ns = []" unfolding find_None by (cases ns) auto
  then show ?case by simp
next
  case (Cons m ms)
  obtain k v where m: "m = (k, v)" by fastforce
  from Cons(4) [of k] m obtain w where w: "object_find k ns = Some w" "json_eq v w"
    by (auto simp: find_Cons option_rel_Some1)
  then obtain l u ns' where ns: "ns = (l, u) # ns'" by (cases ns) (auto simp: object_find_def)
  have "l = k"
  proof (rule ccontr)
    assume "l \<noteq> k"
    with w ns have "k \<in> set (map fst ns')" by (auto simp: find_Cons dest!: find_Some_in) force
    with Cons(3) ns have "l < k" by (auto simp: sorted_members_Cons)
    from Cons(4) [of l] ns have "object_find l (m # ms) \<noteq> None"
      by (cases "object_find l (m # ms)") (simp_all add: find_Cons)
    with m \<open>l \<noteq> k\<close> have "l \<in> set (map fst ms)" by (simp add: find_Cons find_None)
    with Cons(2) m have "k < l" by (auto simp: sorted_members_Cons)
    with \<open>l < k\<close> show False by simp
  qed
  moreover have "members_eq ms ns'"
  proof (rule Cons.IH)
    show "rel_option json_eq (object_find j ms) (object_find j ns')" for j
    proof (cases "j = k")
      case True
      with Cons(2,3) m ns \<open>l = k\<close> have "object_find j ms = None" "object_find j ns' = None"
        unfolding find_None by (auto simp: sorted_members_Cons)
      then show ?thesis by simp
    next
      case False
      with Cons(4) [of j] m ns \<open>l = k\<close> show ?thesis by (simp add: find_Cons)
    qed
  qed (use Cons m ns in \<open>simp_all add: sorted_members_Cons\<close>)
  ultimately show ?case using w ns m by (simp add: find_Cons)
qed

section \<open>Operations at a place\<close>

lemma op_members:
  "replace_op path v = J_object [(''op'', J_string ''replace''), (''path'', J_string path), (''value'', v)]"
  "add_op path v = J_object [(''op'', J_string ''add''), (''path'', J_string path), (''value'', v)]"
  "remove_op path = J_object [(''op'', J_string ''remove''), (''path'', J_string path)]"
  by (simp_all add: replace_op_def add_op_def remove_op_def json_of_pairs_def object_find_def less_char_def)

lemma operations_run:
  assumes "json_pointer path = Inr ptr"
  shows "patch_operation fl (replace_op path v) doc = attempt doc (with_checked (\<lambda>_. Inr v) ptr doc)"
    "patch_operation fl (add_op path v) doc = attempt doc (operation_add ptr v doc)"
    "patch_operation fl (remove_op path) doc = attempt doc (operation_remove ptr doc)"
  using assms by (simp_all add: op_members patch_operation_def patch_string_def patch_member_def find_Cons)

lemma add_at_parent:
  assumes "get_checked p doc = Inr parent"
  shows "operation_add (p @ [k]) v doc = with_checked (add_to k v) p doc"
proof (cases p)
  case (Cons t ts)
  have "\<exists>x. get_checked [t] doc = Inr x"
    using assms get_checked_append [of "[t]" ts doc] Cons by (cases "get_checked [t] doc") auto
  with Cons show ?thesis by (auto simp: operation_add_def)
qed (simp add: operation_add_def)

lemma remove_at_parent: "operation_remove (p @ [k]) doc = with_checked (remove_from k) p doc"
  by (simp add: operation_remove_def pointer_back_def)

text \<open>Operations that turn the value at a place from \<open>s\<close> into \<open>r\<close>, in whatever document.\<close>

definition turns :: "floats \<Rightarrow> string list \<Rightarrow> json list \<Rightarrow> json \<Rightarrow> json \<Rightarrow> bool" where
  "turns fl p ops s r \<longleftrightarrow>
     (\<forall>doc. get_checked p doc = Inr s \<longrightarrow>
        (\<exists>doc'. put_checked p r doc = Inr doc' \<and> patch_operations fl ops doc = (doc', None)))"

lemma turns_none [intro]: "turns fl p [] s s"
  by (auto simp: turns_def pointer.get_put)

lemma operations_append:
  "patch_operations fl a doc = (doc', None) \<Longrightarrow> patch_operations fl (a @ b) doc = patch_operations fl b doc'"
  by (induction fl a doc rule: patch_operations.induct) (auto split: prod.splits option.splits)

lemma turns_append: "turns fl p a s m \<Longrightarrow> turns fl p b m r \<Longrightarrow> turns fl p (a @ b) s r"
  unfolding turns_def by (metis operations_append pointer.put_get pointer.put_put)

lemma turns_one:
  assumes "\<And>doc. get_checked p doc = Inr s \<Longrightarrow> patch_operation fl op1 doc = attempt doc (with_checked f p doc)"
    and "f s = Inr r"
  shows "turns fl p [op1] s r"
  unfolding turns_def
proof (intro allI impI)
  fix doc
  assume d: "get_checked p doc = Inr s"
  obtain doc' where "put_checked p r doc = Inr doc'" using pointer.put_ok [OF d] by blast
  with d assms show "\<exists>doc'. put_checked p r doc = Inr doc' \<and> patch_operations fl [op1] doc = (doc', None)"
    by (simp add: with_checked_bind attempt_def)
qed

lemma turns_replace: "turns fl p [replace_op (pointer_to_string p) v] s v"
  by (rule turns_one [where f = "\<lambda>_. Inr v"]) (simp_all only: operations_run(1) [OF pointer_parsed])

lemma turns_add:
  "add_to k v s = Inr r \<Longrightarrow> turns fl p [add_op (pointer_to_string (p @ [k])) v] s r"
  by (rule turns_one [where f = "add_to k v"])
     (simp_all only: operations_run(2) [OF pointer_parsed] add_at_parent)

lemma turns_remove:
  "remove_from k s = Inr r \<Longrightarrow> turns fl p [remove_op (pointer_to_string (p @ [k]))] s r"
  by (rule turns_one [where f = "remove_from k"])
     (simp_all only: operations_run(3) [OF pointer_parsed] remove_at_parent)

lemma turns_inside:
  assumes "turns fl (p @ [k]) ops v w" "get_checked [k] s = Inr v" "put_checked [k] w s = Inr r"
  shows "turns fl p ops s r"
  unfolding turns_def
proof (intro allI impI)
  fix doc
  assume d: "get_checked p doc = Inr s"
  with assms(2) have "get_checked (p @ [k]) doc = Inr v" by (simp only: get_checked_append bind_result_simps)
  with assms(1) obtain doc' where doc': "put_checked (p @ [k]) w doc = Inr doc'" "patch_operations fl ops doc = (doc', None)"
    unfolding turns_def by blast
  have "put_checked (p @ [k]) w doc = with_checked (put_checked [k] w) p doc"
    by (simp only: put_checked_def with_checked_append)
  also have "\<dots> = put_checked p r doc" using d assms(3) by (simp only: with_checked_bind bind_result_simps)
  finally show "\<exists>doc'. put_checked p r doc = Inr doc' \<and> patch_operations fl ops doc = (doc', None)"
    using doc' by simp
qed

lemma turns_member:
  assumes "turns fl (p @ [k]) ops v w" "object_find k ms = Some v"
  shows "turns fl p ops (J_object ms) (J_object (object_set k w ms))"
  using assms(2) by (intro turns_inside [OF assms(1)]) (simp_all add: put_checked_Cons at_key_def)

lemma turns_element:
  assumes "turns fl (p @ [to_string i]) ops x w" "i < length xs" "xs ! i = x" "i < 2 ^ 64 - 1"
  shows "turns fl p ops (J_array xs) (J_array (xs[i := w]))"
  using assms(2-4) by (intro turns_inside [OF assms(1)]) (simp_all add: put_checked_Cons at_index_def to_string_not_dash)

section \<open>The second passes\<close>

lemma escape_plain: "CHR ''~'' \<notin> set s \<Longrightarrow> CHR ''/'' \<notin> set s \<Longrightarrow> escape s = s"
  unfolding escape_chars by (induction s) (auto simp: escape_char_def)

lemma escape_dash: "escape ''-'' = ''-''"
  by (rule escape_plain) simp_all

lemma escape_digits: "escape (to_string n) = to_string n"
  using to_string_digits [of n] by (intro escape_plain) (auto simp: list_all_iff is_digit_def)

lemma turns_remove_elements:
  "n + k < 2 ^ 64 - 1 \<Longrightarrow> length xs = n \<Longrightarrow> length ys = k \<Longrightarrow>
   turns fl p (remove_elements (pointer_to_string p) n (n + k)) (J_array (xs @ ys)) (J_array xs)"
proof (induction k arbitrary: ys)
  case 0
  then show ?case by (auto simp: remove_elements_def)
next
  case (Suc k)
  obtain zs z where ys: "ys = zs @ [z]" "length zs = k" using Suc(4) by (metis length_Suc_conv_rev)
  have "remove_from (to_string (n + k)) (J_array (xs @ ys)) = Inr (J_array (xs @ zs))"
    using Suc(2,3) ys by (simp add: remove_from_def erase_at_def)
  then have "turns fl p [remove_op (pointer_to_string (p @ [to_string (n + k)]))] (J_array (xs @ ys)) (J_array (xs @ zs))"
    by (rule turns_remove)
  from turns_append [OF this Suc.IH [OF _ Suc(3) ys(2)]] Suc(2) show ?case
    by (simp add: remove_elements_def escape_digits)
qed

lemma turns_add_elements:
  "turns fl p (add_elements (pointer_to_string p) ys) (J_array xs) (J_array (xs @ ys))"
proof (induction ys arbitrary: xs)
  case Nil
  show ?case by (auto simp: add_elements_def)
next
  case (Cons y ys)
  have "turns fl p [add_op (pointer_to_string (p @ [''-''])) y] (J_array xs) (J_array (xs @ [y]))"
    by (rule turns_add) (simp add: add_to_def)
  from turns_append [OF this Cons [of "xs @ [y]"]] show ?case
    by (simp add: add_elements_def escape_dash)
qed

lemma object_find_erase: "object_find k (object_erase l ms) = (if k = l then None else object_find k ms)"
  by (induction ms) (auto simp: object_erase_def object_find_def)

lemma object_erase_sorted: "sorted_members ms \<Longrightarrow> sorted_members (object_erase l ms)"
  by (induction ms) (auto simp: object_erase_def sorted_members_def)

lemma object_set_sorted: "sorted_members (object_set k v ms) = sorted_members ms"
  by (simp add: sorted_members_def)

text \<open>Members that are only in the target are added.\<close>

lemma turns_add_members:
  "sorted_members cur \<Longrightarrow> distinct (map fst us) \<Longrightarrow>
   \<exists>cur'. turns fl p (map (\<lambda>(k, v). add_op (pointer_to_string p @ CHR ''/'' # escape k) v) us) (J_object cur) (J_object cur')
     \<and> sorted_members cur'
     \<and> (\<forall>k. object_find k cur' = (case map_of us k of Some v \<Rightarrow> Some v | None \<Rightarrow> object_find k cur))"
proof (induction us arbitrary: cur)
  case Nil
  then show ?case by auto
next
  case (Cons u us)
  obtain k v where u: "u = (k, v)" by fastforce
  let ?cur = "object_put k v cur"
  have "turns fl p [add_op (pointer_to_string (p @ [k])) v] (J_object cur) (J_object ?cur)"
    by (rule turns_add) (simp add: add_to_def)
  moreover obtain cur' where c: "turns fl p (map (\<lambda>(k, v). add_op (pointer_to_string p @ CHR ''/'' # escape k) v) us) (J_object ?cur) (J_object cur')"
    "sorted_members cur'" "\<forall>k. object_find k cur' = (case map_of us k of Some v \<Rightarrow> Some v | None \<Rightarrow> object_find k ?cur)"
    using Cons.IH [OF object_put_sorted [OF Cons.prems(1)], of k v] Cons.prems(2) by auto
  ultimately have "turns fl p (map (\<lambda>(k, v). add_op (pointer_to_string p @ CHR ''/'' # escape k) v) (u # us)) (J_object cur) (J_object cur')"
    using turns_append u by fastforce
  moreover have "map_of us k = None" using Cons.prems u by (simp add: map_of_eq_None_iff)
  ultimately show ?case
    using c u by (intro exI [of _ cur']) (auto simp: object_find_put split: option.split)
qed

section \<open>The difference\<close>

lemma sorted_keys_distinct: "sorted_wrt (<) (map fst ms) \<Longrightarrow> distinct (map fst (filter P ms))" for ms :: "(string \<times> 'a) list"
  by (induction ms) auto

lemma diff_correct:
  "storable_json s \<Longrightarrow> storable_json t \<Longrightarrow> json_eq t t \<Longrightarrow> path = pointer_to_string p \<Longrightarrow>
   \<exists>r. turns fl p (diff s t path) s r \<and> json_eq r t"
  and diff_elements_correct:
  "\<forall>x \<in> set ss. storable_json x \<Longrightarrow> \<forall>y \<in> set ts. storable_json y \<Longrightarrow> \<forall>y \<in> set ts. json_eq y y \<Longrightarrow>
   path = pointer_to_string p \<Longrightarrow> length pre = i \<Longrightarrow> i + length ss < 2 ^ 64 - 1 \<Longrightarrow>
   \<exists>rs. turns fl p (diff_elements i ss ts path) (J_array (pre @ ss)) (J_array (pre @ rs @ drop (length ts) ss))
     \<and> elements_eq rs (take (length ss) ts)"
  and diff_members_correct:
  "\<forall>(k, v) \<in> set ms. storable_json v \<Longrightarrow> \<forall>(k, v) \<in> set ns. storable_json v \<Longrightarrow> \<forall>(k, v) \<in> set ns. json_eq v v \<Longrightarrow>
   path = pointer_to_string p \<Longrightarrow> sorted_members cur \<Longrightarrow> sorted_members ms \<Longrightarrow>
   (\<forall>(k, v) \<in> set ms. object_find k cur = Some v) \<Longrightarrow>
   \<exists>cur'. turns fl p (diff_members ms ns path) (J_object cur) (J_object cur') \<and> sorted_members cur'
     \<and> (\<forall>k. if k \<in> set (map fst ms) then rel_option json_eq (object_find k cur') (object_find k ns)
            else object_find k cur' = object_find k cur)"
proof (induction s t path and i ss ts path and ms ns path
    arbitrary: p and p pre and p cur rule: diff_diff_elements_diff_members.induct)
  case (1 source target path)
  show ?case
  proof (cases "json_eq source target")
    case True
    then show ?thesis by (auto simp: diff.simps)
  next
    case unequal: False
    have replace: "\<exists>r. turns fl p [replace_op path target] source r \<and> json_eq r target"
      using 1(5,6) turns_replace by (metis)
    show ?thesis
    proof (cases "json_type source = json_type target")
      case False
      with unequal replace show ?thesis by (simp add: diff.simps)
    next
      case same: True
      consider ss ts where "source = J_array ss" "target = J_array ts"
        | ms ns where "source = J_object ms" "target = J_object ns"
        | "diff source target path = [replace_op path target]"
        using same unequal by (cases source; cases target) (simp_all add: diff.simps)
      then show ?thesis
      proof cases
        case a: 1
        note ih = 1(2) [OF unequal _ refl a, where p = p and pre = "[]"]
        have wf: "\<forall>x \<in> set ss. storable_json x" "\<forall>y \<in> set ts. storable_json y" "\<forall>y \<in> set ts. json_eq y y"
          "length ss < 2 ^ 64 - 1" using 1(3-5) a by (auto simp: elements_eq_refl)
        from ih same wf 1(6) obtain rs where rs: "turns fl p (diff_elements 0 ss ts path) (J_array ss) (J_array (rs @ drop (length ts) ss))"
          "elements_eq rs (take (length ss) ts)" by auto
        have len: "length rs = min (length ss) (length ts)" using elements_eq_length [OF rs(2)] by simp
        have "turns fl p (remove_elements path (length ts) (length ss)) (J_array (rs @ drop (length ts) ss)) (J_array rs)"
        proof (cases "length ts \<le> length ss")
          case True
          with turns_remove_elements [of "length ts" "length ss - length ts" rs "drop (length ts) ss" fl p] wf(4) len 1(6)
          show ?thesis by simp
        qed (auto simp: remove_elements_def)
        moreover have "turns fl p (add_elements path (drop (length ss) ts)) (J_array rs) (J_array (rs @ drop (length ss) ts))"
          unfolding 1(6) by (rule turns_add_elements)
        ultimately have "turns fl p (diff source target path) source (J_array (rs @ drop (length ss) ts))"
          using rs(1) a unequal by (auto simp: diff.simps intro: turns_append)
        moreover have "elements_eq (rs @ drop (length ss) ts) (take (length ss) ts @ drop (length ss) ts)"
          using rs(2) wf(3) len by (subst elements_eq_append) (auto simp: elements_eq_refl dest: in_set_dropD)
        ultimately show ?thesis using a by auto
      next
        case o: 2
        note ih = 1(1) [OF unequal _ refl o, where p = p and cur = ms]
        have wf: "\<forall>(k, v) \<in> set ms. storable_json v" "\<forall>(k, v) \<in> set ns. storable_json v"
          "\<forall>(k, v) \<in> set ns. json_eq v v" "sorted_members ms" "sorted_members ns"
          using 1(3-5) o by (simp_all add: members_eq_refl)
        have "\<forall>(k, v) \<in> set ms. object_find k ms = Some v" using find_in_sorted [OF wf(4)] by auto
        with ih same wf 1(6) obtain cur where cur: "turns fl p (diff_members ms ns path) (J_object ms) (J_object cur)"
          "sorted_members cur" "\<forall>k. if k \<in> set (map fst ms) then rel_option json_eq (object_find k cur) (object_find k ns)
            else object_find k cur = object_find k ms" by auto
        let ?us = "filter (\<lambda>(k, v). object_find k ms = None) ns"
        have us: "map_of ?us k = (if object_find k ms = None then object_find k ns else None)" for k
          by (induction ns) (auto simp: object_find_def)
        have "distinct (map fst ?us)" using wf(5) by (auto simp: sorted_members_def intro: sorted_keys_distinct)
        from turns_add_members [OF cur(2) this] obtain cur' where cur': "turns fl p (add_members path ms ns) (J_object cur) (J_object cur')"
          "sorted_members cur'" "\<forall>k. object_find k cur' = (case map_of ?us k of Some v \<Rightarrow> Some v | None \<Rightarrow> object_find k cur)"
          unfolding add_members_def 1(6) by blast
        have "rel_option json_eq (object_find k cur') (object_find k ns)" for k
        proof (cases "k \<in> set (map fst ms)")
          case True
          then have "object_find k ms \<noteq> None" by (simp add: find_None)
          then have "map_of ?us k = None" by (simp only: us if_False)
          with cur'(3) have "object_find k cur' = object_find k cur" by (simp del: map_of_eq_None_iff)
          with True cur(3) show ?thesis by simp
        next
          case False
          then have "object_find k ms = None" by (simp add: find_None)
          with False cur(3) cur'(3) us have "object_find k cur' = object_find k ns" by (auto split: option.split)
          with wf(3) show ?thesis by (cases "object_find k ns") (auto dest!: find_Some_in)
        qed
        then have "members_eq cur' ns" by (rule members_eq_find [OF cur'(2) wf(5)])
        moreover have "turns fl p (diff source target path) source (J_object cur')"
          using cur(1) cur'(1) o unequal by (auto simp: diff.simps intro: turns_append)
        ultimately show ?thesis using o by auto
      next
        case 3
        with replace show ?thesis by simp
      qed
    qed
  qed
next
  case (2 i s ss t ts path)
  have "path @ CHR ''/'' # to_string i = pointer_to_string (p @ [to_string i])" using 2(6) by (simp add: escape_digits)
  with 2(1) [where p = "p @ [to_string i]"] 2(3-5) obtain w where
    w: "turns fl (p @ [to_string i]) (diff s t (path @ CHR ''/'' # to_string i)) s w" "json_eq w t" by auto
  have "turns fl p (diff s t (path @ CHR ''/'' # to_string i)) (J_array (pre @ s # ss)) (J_array ((pre @ s # ss)[i := w]))"
    using 2(7,8) by (intro turns_element [OF w(1)]) auto
  then have step: "turns fl p (diff s t (path @ CHR ''/'' # to_string i)) (J_array (pre @ s # ss)) (J_array (pre @ w # ss))"
    using 2(7) by (simp add: list_update_append)
  from 2(2) [where p = p and pre = "pre @ [w]"] 2(3-8) obtain rs where
    "turns fl p (diff_elements (Suc i) ss ts path) (J_array ((pre @ [w]) @ ss)) (J_array ((pre @ [w]) @ rs @ drop (length ts) ss))"
    "elements_eq rs (take (length ss) ts)" by auto
  with step w(2) show ?case by (intro exI [of _ "w # rs"]) (auto intro: turns_append)
next
  case (4 ns path)
  then show ?case by auto
next
  case (5 k v ms ns path)
  let ?key = "path @ CHR ''/'' # escape k"
  have key: "?key = pointer_to_string (p @ [k])" using 5(6) by simp
  have k: "object_find k cur = Some v" "k \<notin> set (map fst ms)" "sorted_members ms"
    using 5(8,9) by (auto simp: sorted_members_Cons)
  have others: "\<forall>(l, u) \<in> set ms. l \<noteq> k \<and> object_find l cur = Some u" using 5(9) k(2) by force
  obtain cur1 where cur1: "turns fl p (case object_find k ns of Some w \<Rightarrow> diff v w ?key | None \<Rightarrow> [remove_op ?key])
      (J_object cur) (J_object cur1)" "sorted_members cur1" "rel_option json_eq (object_find k cur1) (object_find k ns)"
    "\<forall>l. l \<noteq> k \<longrightarrow> object_find l cur1 = object_find l cur"
  proof (cases "object_find k ns")
    case None
    have "remove_from k (J_object cur) = Inr (J_object (object_erase k cur))" using k(1) by (simp add: remove_from_def)
    from turns_remove [OF this, of fl p] None 5(7) show thesis
      by (intro that [of "object_erase k cur"]) (simp_all add: object_find_erase object_erase_sorted key)
  next
    case (Some w)
    then have "(k, w) \<in> set ns" by (rule find_Some_in)
    with 5(3-5) have "storable_json v" "storable_json w" "json_eq w w" by auto
    from 5(1) [OF refl Some this key] obtain r where
      r: "turns fl (p @ [k]) (diff v w ?key) v r" "json_eq r w" by blast
    from turns_member [OF r(1) k(1)] r(2) k(1) Some 5(7) show thesis
      by (intro that [of "object_set k r cur"]) (simp_all add: object_set_sorted object_find_set)
  qed
  have "\<forall>(l, u) \<in> set ms. object_find l cur1 = Some u" using others cur1(4) by auto
  with 5(2) [where p = p and cur = cur1] 5(3-6) cur1(2) k(3) obtain cur' where
    cur': "turns fl p (diff_members ms ns path) (J_object cur1) (J_object cur')" "sorted_members cur'"
    "\<forall>l. if l \<in> set (map fst ms) then rel_option json_eq (object_find l cur') (object_find l ns)
       else object_find l cur' = object_find l cur1" by auto
  from turns_append [OF cur1(1) cur'(1)] have "turns fl p (diff_members ((k, v) # ms) ns path) (J_object cur) (J_object cur')"
    by (simp add: Let_def)
  with cur' cur1(3,4) k(2) show ?case by (intro exI [of _ cur']) auto
qed (rule exI [of _ "[]"], auto)+

section \<open>Merge patches\<close>

lemma merge_members_find:
  "distinct (map fst ps) \<Longrightarrow>
   object_find k (merge_members ms ps) =
     (case object_find k ps of
        None \<Rightarrow> object_find k ms
      | Some v \<Rightarrow>
          if v = J_null then None
          else Some (merge_patch (case object_find k ms of None \<Rightarrow> J_null | Some u \<Rightarrow> u) v))"
proof (induction ps arbitrary: ms)
  case Nil
  then show ?case by (simp add: object_find_def)
next
  case (Cons p ps)
  obtain l v where p: "p = (l, v)" by fastforce
  define ms1 where "ms1 = (if v = J_null then object_erase l ms
    else let ms = emplace_null l ms in object_set l (merge_patch (the (object_find l ms)) v) ms)"
  have new: "object_find j ms1 = (if j = l then if v = J_null then None
      else Some (merge_patch (case object_find l ms of None \<Rightarrow> J_null | Some u \<Rightarrow> u) v) else object_find j ms)" for j
    unfolding ms1_def by (cases "object_find l ms")
       (auto simp: Let_def object_find_erase object_find_set emplace_null_def object_find_put)
  have l: "object_find l ps = None" using Cons.prems p by (simp add: find_None)
  have "object_find k (merge_members ms (p # ps)) = object_find k (merge_members ms1 ps)" using p by (simp add: ms1_def)
  also have "\<dots> = (case object_find k ps of None \<Rightarrow> object_find k ms1
      | Some v \<Rightarrow> if v = J_null then None
          else Some (merge_patch (case object_find k ms1 of None \<Rightarrow> J_null | Some u \<Rightarrow> u) v))"
    using Cons.prems by (intro Cons.IH) simp
  finally have "object_find k (merge_members ms (p # ps)) = \<dots>" .
  moreover have "object_find k ms1 = object_find k ms" if "k \<noteq> l" using that by (simp only: new if_False)
  ultimately show ?case using p l new [of l] by (cases "k = l"; cases "object_find k ps") (simp_all add: find_Cons del: merge_members.simps)
qed

lemma emplace_null_sorted: "sorted_members ms \<Longrightarrow> sorted_members (emplace_null k ms)"
  by (simp add: emplace_null_def object_put_sorted)

lemma merge_members_sorted: "sorted_members ms \<Longrightarrow> sorted_members (merge_members ms ps)"
  by (induction ps arbitrary: ms)
     (auto simp: Let_def object_set_sorted object_erase_sorted emplace_null_sorted)

lemma sorted_find_eq:
  "sorted_members ms \<Longrightarrow> sorted_members ns \<Longrightarrow> (\<And>k. object_find k ms = object_find k ns) \<Longrightarrow> ms = ns"
proof (induction ms arbitrary: ns)
  case Nil
  then have "object_find k ns = None" for k by (simp add: object_find_def)
  then show ?case unfolding find_None by (cases ns) auto
next
  case (Cons m ms)
  obtain k v where m: "m = (k, v)" by fastforce
  from Cons(4) [of k] m have w: "object_find k ns = Some v" by (simp add: find_Cons)
  then obtain l u ns' where ns: "ns = (l, u) # ns'" by (cases ns) (auto simp: object_find_def)
  have "l = k"
  proof (rule ccontr)
    assume "l \<noteq> k"
    with w ns have "k \<in> set (map fst ns')" by (auto simp: find_Cons dest!: find_Some_in) force
    with Cons(3) ns have "l < k" by (auto simp: sorted_members_Cons)
    from Cons(4) [of l] ns m \<open>l \<noteq> k\<close> have "object_find l ms \<noteq> None" by (simp add: find_Cons)
    then have "l \<in> set (map fst ms)" by (simp add: find_None)
    with Cons(2) m have "k < l" by (auto simp: sorted_members_Cons)
    with \<open>l < k\<close> show False by simp
  qed
  moreover have "object_find j ms = object_find j ns'" for j
  proof (cases "j = k")
    case True
    with Cons(2,3) m ns \<open>l = k\<close> have "object_find j ms = None" "object_find j ns' = None"
      unfolding find_None by (auto simp: sorted_members_Cons)
    then show ?thesis by simp
  next
    case False
    with Cons(4) [of j] m ns \<open>l = k\<close> show ?thesis by (simp add: find_Cons)
  qed
  ultimately show ?case using Cons m ns w by (auto simp: sorted_members_Cons find_Cons)
qed

lemma sorted_distinct: "sorted_members ms \<Longrightarrow> distinct (map fst ms)"
  by (auto simp: sorted_members_def strict_sorted_iff)

lemma merge_twice: "storable_json p \<Longrightarrow> storable_json j \<Longrightarrow> merge_patch (merge_patch j p) p = merge_patch j p"
proof (induction p arbitrary: j)
  case (J_object ps)
  have ps: "sorted_members ps" "\<forall>(k, v) \<in> set ps. storable_json v" using J_object(2) by simp_all
  define ms where "ms = (case j of J_object ms \<Rightarrow> ms | _ \<Rightarrow> [])"
  have ms: "sorted_members ms" "\<forall>(k, v) \<in> set ms. storable_json v"
    using J_object(3) by (auto simp: ms_def sorted_members_def split: json.splits)
  let ?m = "merge_members ms ps"
  note find = merge_members_find [OF sorted_distinct [OF ps(1)]]
  have "object_find k (merge_members ?m ps) = object_find k ?m" for k
  proof (cases "object_find k ps")
    case (Some v)
    then have v: "(k, v) \<in> set ps" by (rule find_Some_in)
    have u: "storable_json (case object_find k ms of None \<Rightarrow> J_null | Some u \<Rightarrow> u)"
      using ms(2) by (auto split: option.split dest!: find_Some_in)
    from J_object(1) [OF v, of v] ps(2) v u
    have "merge_patch (merge_patch (case object_find k ms of None \<Rightarrow> J_null | Some u \<Rightarrow> u) v) v =
        merge_patch (case object_find k ms of None \<Rightarrow> J_null | Some u \<Rightarrow> u) v" by auto
    with Some show ?thesis unfolding find by simp
  qed (simp add: find)
  then have "merge_members ?m ps = ?m"
    by (intro sorted_find_eq merge_members_sorted ms(1))
  then show ?case by (simp add: ms_def)
qed simp_all

section \<open>Properties\<close>

text \<open>
  JSON pointers and their text correspond one to one: a text is accepted exactly when it is the text
  of a pointer, and of the one it is read as.
\<close>

theorem pointer_is_its_text: "json_pointer s = Inr ts \<longleftrightarrow> s = pointer_to_string ts"
proof
  assume s: "json_pointer s = Inr ts"
  show "s = pointer_to_string ts"
  proof (cases s)
    case (Cons c rest)
    with s split_printed [of rest ts] show ?thesis by (auto simp: json_pointer_def split: if_splits)
  qed (use s in \<open>simp add: json_pointer_def\<close>)
qed (simp add: pointer_parsed)

text \<open>
  C19: The difference of two values is a patch that applies to the first without an exception
  and makes it equal to the second, provided the second is equal to itself (it has no NaN and
  nothing discarded).
\<close>

theorem diff_then_patch:
  assumes "storable_json source" "storable_json target" "json_eq target target"
  shows "\<exists>r. patch fl (json_diff source target) source = Inr r \<and> json_eq r target"
proof -
  obtain r where "turns fl [] (diff source target []) source r" "json_eq r target"
    using diff_correct [OF assms, of "[]" "[]"] by auto
  then show ?thesis by (auto simp: turns_def patch_def patch_inplace_def json_diff_def)
qed

definition toy_source :: json where
  "toy_source = J_object [(''a~'', J_array [J_null, J_unsigned 1, J_boolean True]), (''b'', J_string ''x'')]"

definition toy_target :: json where
  "toy_target = J_object [(''a~'', J_array [J_null, J_integer 1]), (''c/d'', J_object [])]"

lemma diff_then_patch_witness:
  "\<exists>r. patch no_floats (json_diff toy_source toy_target) toy_source = Inr r \<and> json_eq r toy_target"
  by (rule diff_then_patch)
     (simp_all add: toy_source_def toy_target_def sorted_members_def less_char_def)

text \<open>
  C34: A merge patch does what RFC 7396 says: a patch that is no object replaces the value
  whatever it was; with one that is an object the result is an object, member by member: a
  member that is not named stays, one named with null goes, and any other becomes the merge of
  what was there with the patch. Merging the same patch again changes nothing.
\<close>

theorem merge_patch_as_in_rfc:
  assumes "storable_json j" "storable_json (J_object ps)"
  shows "(\<forall>p. (\<forall>ms. p \<noteq> J_object ms) \<longrightarrow> merge_patch j p = p) \<and>
    (\<exists>ms. merge_patch j (J_object ps) = J_object ms \<and> merge_patch (J_object ms) (J_object ps) = J_object ms \<and>
    (\<forall>k. object_find k ms =
      (let old = (case j of J_object ns \<Rightarrow> object_find k ns | _ \<Rightarrow> None)
       in case object_find k ps of
            None \<Rightarrow> old
          | Some J_null \<Rightarrow> None
          | Some v \<Rightarrow> Some (merge_patch (case old of None \<Rightarrow> J_null | Some u \<Rightarrow> u) v))))"
proof (intro conjI allI impI)
  show "merge_patch j p = p" if "\<forall>ms. p \<noteq> J_object ms" for p using that by (cases p) simp_all
next
  define ns where "ns = (case j of J_object ns \<Rightarrow> ns | _ \<Rightarrow> [])"
  have m: "merge_patch j (J_object ps) = J_object (merge_members ns ps)" by (simp add: ns_def)
  have old: "(case j of J_object ns \<Rightarrow> object_find k ns | _ \<Rightarrow> None) = object_find k ns" for k
    by (simp add: ns_def object_find_def split: json.split)
  have "distinct (map fst ps)" using assms(2) by (simp add: sorted_distinct)
  note find = merge_members_find [OF this]
  show "\<exists>ms. merge_patch j (J_object ps) = J_object ms \<and> merge_patch (J_object ms) (J_object ps) = J_object ms \<and>
    (\<forall>k. object_find k ms =
      (let old = (case j of J_object ns \<Rightarrow> object_find k ns | _ \<Rightarrow> None)
       in case object_find k ps of
            None \<Rightarrow> old
          | Some J_null \<Rightarrow> None
          | Some v \<Rightarrow> Some (merge_patch (case old of None \<Rightarrow> J_null | Some u \<Rightarrow> u) v)))"
    using merge_twice [OF assms(2,1)] unfolding m
    by (intro exI [of _ "merge_members ns ps"]) (auto simp: old find Let_def split: option.split json.split)
qed

lemma merge_patch_as_in_rfc_witness:
  "\<exists>ms. merge_patch toy_source (J_object [(''b'', J_null), (''c'', J_null)]) = J_object ms
     \<and> object_find ''b'' ms = None \<and> object_find ''a~'' ms \<noteq> None \<and> merge_patch toy_source (J_string ''x'') = J_string ''x''"
proof -
  have "storable_json toy_source" "storable_json (J_object [(''b'', J_null), (''c'', J_null)])"
    by (simp_all add: toy_source_def sorted_members_def less_char_def)
  note rfc = merge_patch_as_in_rfc [OF this]
  then obtain ms where
    "merge_patch toy_source (J_object [(''b'', J_null), (''c'', J_null)]) = J_object ms"
    "\<forall>k. object_find k ms =
      (let old = (case toy_source of J_object ns \<Rightarrow> object_find k ns | _ \<Rightarrow> None)
       in case object_find k [(''b'', J_null), (''c'', J_null)] of
            None \<Rightarrow> old
          | Some J_null \<Rightarrow> None
          | Some v \<Rightarrow> Some (merge_patch (case old of None \<Rightarrow> J_null | Some u \<Rightarrow> u) v))" by blast
  then show ?thesis by (intro exI [of _ ms]) (simp add: toy_source_def find_Cons Let_def object_find_def)
qed

text \<open>
  Adding below a value that is no container runs into an assertion that no exception
  handler sees, and removing something below it is silently accepted: the patch is reported as
  applied.
\<close>

theorem patch_below_primitive:
  assumes "get_checked p doc = Inr v"
    and "json_type v \<notin> {T_null, T_object, T_array}"
  shows "patch fl (J_array [add_op (pointer_to_string (p @ [k])) w]) doc = Inl (Abort ''assert: false'') \<and>
    patch fl (J_array [remove_op (pointer_to_string (p @ [k]))]) doc = Inr doc"
proof -
  have "add_to k w v = Inl (Abort ''assert: false'')" "remove_from k v = Inr v"
    using assms(2) by (cases v; simp add: add_to_def remove_from_def)+
  with assms(1) pointer.get_put [OF assms(1)] show ?thesis
    unfolding patch_def patch_inplace_def
    by (simp add: operations_run [OF pointer_parsed] add_at_parent [OF assms(1)] remove_at_parent
        with_checked_bind attempt_def del: pointer_to_string_simps)
qed

lemma patch_below_primitive_witness:
  "patch no_floats (J_array [add_op ''/b/x'' J_null]) toy_source = Inl (Abort ''assert: false'')
   \<and> patch no_floats (J_array [remove_op ''/b/x'']) toy_source = Inr toy_source"
proof -
  have p: "pointer_to_string ([''b''] @ [''x'']) = ''/b/x''"
    using escape_plain [of "''b''"] escape_plain [of "''x''"] by (simp add: pointer_to_string_def)
  have "get_checked [''b''] toy_source = Inr (J_string ''x'')"
    by (simp add: toy_source_def at_key_def object_find_def)
  from patch_below_primitive [OF this, of no_floats "''x''" J_null] show ?thesis unfolding p by simp
qed

text \<open>
  \<open>contains\<close> says what \<open>at\<close> would find; it throws only where the token of an array is empty or a number
  beyond 64 bits, which its documentation does not mention.
\<close>

theorem contains_is_at:
  "case pointer_contains p j of
     Inr b \<Rightarrow> b \<longleftrightarrow> (\<exists>v. get_checked p j = Inr v)
   | Inl e \<Rightarrow> e \<in> {Throw (Json_Out_Of_Range 404), Throw (Json_Out_Of_Range 410)}"
  using contains_at [of p j] contains_throws [of p j] by (simp split: sum.split)

text \<open>
  What was assigned through a pointer with \<open>operator[]\<close>, which makes the containers that are missing, is
  what \<open>at\<close> finds there afterwards, unless the pointer goes behind the end of an array.
\<close>

theorem assignment_is_found:
  assumes "with_unchecked (\<lambda>_. v) p j = (j', None)" "''-'' \<notin> set p"
  shows "get_checked p j' = Inr v"
  using assms by (rule assigned_found)

lemma assignment_is_found_witness:
  "\<exists>j'. with_unchecked (\<lambda>_. J_boolean True) [''a'', ''1''] J_null = (j', None) \<and> get_checked [''a'', ''1''] j' = Inr (J_boolean True)"
proof -
  have "array_index ''1'' = Inr 1" by (simp add: array_index_def is_digit_def decimal_value_def digit_value_def)
  then obtain j' where "with_unchecked (\<lambda>_. J_boolean True) [''a'', ''1''] J_null = (j', None)"
    by (simp add: from_null_def emplace_null_def object_find_def is_digit_def Let_def split: prod.split)
  from this assignment_is_found [OF this] show ?thesis by auto
qed

text \<open>An empty token makes \<open>contains\<close> throw.\<close>

lemma contains_empty_token: "pointer_contains [[]] (J_array xs) = Inl (Throw (Json_Out_Of_Range 404))"
  by (simp add: index_text_def array_index_def)

text \<open>Unsigned and signed numbers are compared as signed ones.\<close>

lemma large_unsigned_is_negative: "json_eq (J_unsigned (- 1)) (J_integer (- 1))"
  by simp

end
