(* ===== verification/Json_Flatten.thy ===== *)
theory Json_Flatten
  imports Json_Patch_Properties
begin

text \<open>
  \<open>flatten\<close> and \<open>unflatten\<close> of \<open>json.hpp\<close>: a value as an object from pointers to primitive values, and back.
\<close>

section \<open>The code\<close>

fun flatten :: "string \<Rightarrow> json \<Rightarrow> (string \<times> json) list \<Rightarrow> (string \<times> json) list"
and flatten_elements :: "string \<Rightarrow> nat \<Rightarrow> json list \<Rightarrow> (string \<times> json) list \<Rightarrow> (string \<times> json) list"
and flatten_members :: "string \<Rightarrow> (string \<times> json) list \<Rightarrow> (string \<times> json) list \<Rightarrow> (string \<times> json) list" where
  "flatten ref (J_array xs) result =
     (if xs = [] then object_put ref J_null result else flatten_elements ref 0 xs result)"
| "flatten ref (J_object ms) result =
     (if ms = [] then object_put ref J_null result else flatten_members ref ms result)"
| "flatten ref v result = object_put ref v result"
| "flatten_elements ref i [] result = result"
| "flatten_elements ref i (x # xs) result =
     flatten_elements ref (Suc i) xs (flatten (ref @ CHR ''/'' # to_string i) x result)"
| "flatten_members ref [] result = result"
| "flatten_members ref ((k, v) # ms) result =
     flatten_members ref ms (flatten (ref @ CHR ''/'' # escape k) v result)"

definition json_flatten :: "json \<Rightarrow> json" where
  "json_flatten j = J_object (flatten [] j [])"

text \<open>\<open>get_and_create\<close>, and the assignment to the reference it returns.\<close>

fun with_created :: "(json \<Rightarrow> json) \<Rightarrow> string list \<Rightarrow> json \<Rightarrow> json result" where
  "with_created f [] j = Inr (f j)"
| "with_created f (t # ts) j =
     (case j of
        J_null \<Rightarrow>
          bind_result (with_created f ts J_null) (\<lambda>v.
            Inr (if t = ''0'' then J_array [v] else J_object [(t, v)]))
      | J_object ms \<Rightarrow>
          (let ms = emplace_null t ms
           in bind_result (with_created f ts (the (object_find t ms))) (\<lambda>v. Inr (J_object (object_set t v ms))))
      | J_array xs \<Rightarrow>
          bind_result (array_index t) (\<lambda>i.
            let xs = fill_up i xs
            in bind_result (with_created f ts (xs ! i)) (\<lambda>v. Inr (J_array (xs[i := v]))))
      | _ \<Rightarrow> Inl (Throw (Json_Type_Error 313 ''invalid value to unflatten'')))"

definition is_primitive :: "json \<Rightarrow> bool" where
  "is_primitive j \<longleftrightarrow> json_type j \<notin> {T_object, T_array, T_discarded}"

fun unflatten_members :: "(string \<times> json) list \<Rightarrow> json \<Rightarrow> json result" where
  "unflatten_members [] result = Inr result"
| "unflatten_members ((k, v) # ms) result =
     (if \<not> is_primitive v then Inl (Throw (Json_Type_Error 315 ''values in object must be primitive''))
      else bind_result (json_pointer k) (\<lambda>p.
           bind_result (with_created (\<lambda>_. v) p result) (unflatten_members ms)))"

definition json_unflatten :: "json \<Rightarrow> json result" where
  "json_unflatten value =
     (case value of
        J_object ms \<Rightarrow> unflatten_members ms J_null
      | _ \<Rightarrow> Inl (Throw (Json_Type_Error 314 ''only objects can be unflattened'')))"

section \<open>Leaves\<close>

text \<open>
  Values that survive: no empty containers, which become null, and no key 0, which would start an
  array.
\<close>

fun flattenable :: "json \<Rightarrow> bool" where
  "flattenable (J_object ms) \<longleftrightarrow> ms \<noteq> [] \<and> (\<forall>(k, v) \<in> set ms. k \<noteq> ''0'' \<and> flattenable v)"
| "flattenable (J_array xs) \<longleftrightarrow> xs \<noteq> [] \<and> (\<forall>x \<in> set xs. flattenable x)"
| "flattenable J_discarded \<longleftrightarrow> False"
| "flattenable _ \<longleftrightarrow> True"

text \<open>The primitive value at a pointer.\<close>

fun leaf_at :: "string list \<Rightarrow> json \<Rightarrow> json option" where
  "leaf_at [] j = (if is_primitive j then Some j else None)"
| "leaf_at (t # ts) j =
     (case j of
        J_object ms \<Rightarrow> Option.bind (object_find t ms) (leaf_at ts)
      | J_array xs \<Rightarrow>
          (case array_index t of
             Inr i \<Rightarrow> if i < length xs \<and> t = to_string i then leaf_at ts (xs ! i) else None
           | Inl _ \<Rightarrow> None)
      | _ \<Rightarrow> None)"

lemma primitive_simps [simp]:
  "\<not> is_primitive (J_object ms)" "\<not> is_primitive (J_array xs)" "is_primitive J_null" "is_primitive (J_string s)"
  "is_primitive (J_boolean b)" "is_primitive (J_integer n)" "is_primitive (J_unsigned n)" "is_primitive (J_float d)"
  "is_primitive (J_binary bs t)" "\<not> is_primitive J_discarded"
  by (simp_all add: is_primitive_def)

lemma leaf_primitive: "leaf_at p j = Some v \<Longrightarrow> is_primitive v"
  by (induction p j rule: leaf_at.induct)
     (auto split: json.splits sum.splits if_splits simp: bind_eq_Some_conv)

text \<open>Among the elements from index \<open>i\<close> on, and among members.\<close>

fun leaf_from :: "nat \<Rightarrow> json list \<Rightarrow> string list \<Rightarrow> json option" where
  "leaf_from i [] p = None"
| "leaf_from i (x # xs) p = (if p \<noteq> [] \<and> hd p = to_string i then leaf_at (tl p) x else leaf_from (Suc i) xs p)"

fun leaf_in :: "(string \<times> json) list \<Rightarrow> string list \<Rightarrow> json option" where
  "leaf_in [] p = None"
| "leaf_in ((k, x) # ms) p = (if p \<noteq> [] \<and> hd p = k then leaf_at (tl p) x else leaf_in ms p)"

lemma to_string_eq [simp]: "to_string m = to_string n \<longleftrightarrow> m = n"
  by (metis decimal_value_to_string)

lemma leaf_from_index:
  "i + length xs < 2 ^ 64 - 1 \<Longrightarrow> leaf_from i xs (t # ts) =
     (case array_index t of
        Inr k \<Rightarrow> if i \<le> k \<and> k < i + length xs \<and> t = to_string k then leaf_at ts (xs ! (k - i)) else None
      | Inl _ \<Rightarrow> None)"
proof (induction xs arbitrary: i)
  case (Cons x xs)
  show ?case
  proof (cases "t = to_string i")
    case True
    with Cons.prems show ?thesis by simp
  next
    case False
    with Cons.prems Cons.IH [of "Suc i"] show ?thesis
      by (auto simp: Suc_le_eq nth_Cons' split: sum.split)
  qed
qed (auto split: sum.split)

lemma leaf_array: "length xs < 2 ^ 64 - 1 \<Longrightarrow> leaf_at p (J_array xs) = leaf_from 0 xs p"
proof (cases p)
  case Nil
  have "leaf_from i xs [] = None" for i by (induction xs arbitrary: i) simp_all
  with Nil show ?thesis by simp
next
  case (Cons t ts)
  assume "length xs < 2 ^ 64 - 1"
  with Cons leaf_from_index [of 0 xs t ts] show ?thesis by (simp split: sum.split)
qed

lemma leaf_object: "leaf_at p (J_object ms) = leaf_in ms p"
proof (cases p)
  case Nil
  have "leaf_in ms [] = None" by (induction ms) auto
  with Nil show ?thesis by simp
next
  case (Cons t ts)
  have "leaf_in ms (t # ts) = Option.bind (object_find t ms) (leaf_at ts)"
    by (induction ms) (auto simp: find_Cons object_find_def)
  with Cons show ?thesis by simp
qed

section \<open>What flattening gives\<close>

text \<open>What is beneath a pointer.\<close>

definition beneath :: "string list \<Rightarrow> (string list \<Rightarrow> json option) \<Rightarrow> string list \<Rightarrow> json option" where
  "beneath r l q = (if take (length r) q = r then l (drop (length r) q) else None)"

lemma beneath_snoc: "beneath (r @ [t]) l q = beneath r (\<lambda>p. if p \<noteq> [] \<and> hd p = t then l (tl p) else None) q"
proof (cases "take (length r) q = r")
  case True
  then have q: "q = r @ drop (length r) q" by (metis append_take_drop_id)
  show ?thesis
  proof (cases "drop (length r) q")
    case Nil
    then show ?thesis using q by (simp add: beneath_def)
  next
    case (Cons u us)
    with q have "q = r @ u # us" by simp
    then show ?thesis by (simp add: beneath_def)
  qed
next
  case False
  then have "take (length (r @ [t])) q \<noteq> r @ [t]" by (metis append_eq_conv_conj length_append take_add append_take_drop_id take_append append_Nil2 diff_is_0_eq' le_add1 take0 take_take min.absorb1)
  with False show ?thesis by (simp add: beneath_def)
qed

lemma pointer_text_inj [simp]: "pointer_to_string p = pointer_to_string q \<longleftrightarrow> p = q"
  by (metis pointer_parsed sum.inject(2))

definition or_else :: "'a option \<Rightarrow> 'a option \<Rightarrow> 'a option" where
  "or_else a b = (case a of Some v \<Rightarrow> Some v | None \<Rightarrow> b)"

lemma beneath_or:
  assumes "\<And>p. p \<noteq> [] \<Longrightarrow> hd p = t \<Longrightarrow> l p = None"
  shows "or_else (beneath r l q) (or_else (beneath (r @ [t]) m q) z) =
    or_else (beneath r (\<lambda>p. if p \<noteq> [] \<and> hd p = t then m (tl p) else l p) q) z"
  unfolding beneath_snoc using assms [of "drop (length r) q"] by (simp add: beneath_def or_else_def split: option.split)

lemma leaf_split:
  "leaf_from i (x # xs) = (\<lambda>p. if p \<noteq> [] \<and> hd p = to_string i then leaf_at (tl p) x else leaf_from (Suc i) xs p)"
  "leaf_in ((k, v) # ms) = (\<lambda>p. if p \<noteq> [] \<and> hd p = k then leaf_at (tl p) v else leaf_in ms p)"
  by (simp_all add: fun_eq_iff)

lemma put_leaf:
  "object_find (pointer_to_string q) (object_put (pointer_to_string r) v result) =
     or_else (beneath r (\<lambda>p. if p = [] then Some v else None) q) (object_find (pointer_to_string q) result)"
  by (auto simp: object_find_put beneath_def or_else_def)

lemma leaf_primitive_at: "is_primitive v \<Longrightarrow> leaf_at p v = (if p = [] then Some v else None)"
  by (cases p; cases v) simp_all

lemma flattened:
  "flattenable j \<Longrightarrow> storable_json j \<Longrightarrow> ref = pointer_to_string r \<Longrightarrow>
     object_find (pointer_to_string q) (flatten ref j result) =
       or_else (beneath r (\<lambda>p. leaf_at p j) q) (object_find (pointer_to_string q) result)"
  and flattened_elements:
  "\<forall>x \<in> set xs. flattenable x \<and> storable_json x \<Longrightarrow> i + length xs < 2 ^ 64 - 1 \<Longrightarrow> ref = pointer_to_string r \<Longrightarrow>
     object_find (pointer_to_string q) (flatten_elements ref i xs result) =
       or_else (beneath r (leaf_from i xs) q) (object_find (pointer_to_string q) result)"
  and flattened_members:
  "\<forall>(k, x) \<in> set ms. flattenable x \<and> storable_json x \<Longrightarrow> distinct (map fst ms) \<Longrightarrow> ref = pointer_to_string r \<Longrightarrow>
     object_find (pointer_to_string q) (flatten_members ref ms result) =
       or_else (beneath r (leaf_in ms) q) (object_find (pointer_to_string q) result)"
proof (induction ref j result and ref i xs result and ref ms result
    arbitrary: r and r and r rule: flatten_flatten_elements_flatten_members.induct)
  case (1 ref xs result)
  then show ?case by (simp add: leaf_array [symmetric])
next
  case (2 ref ms result)
  then show ?case by (simp add: leaf_object [symmetric] sorted_distinct split_beta)
next
  case (5 ref i x xs result)
  have r: "ref @ CHR ''/'' # to_string i = pointer_to_string (r @ [to_string i])" using 5(5) by (simp add: escape_digits)
  have "object_find (pointer_to_string q) (flatten_elements ref i (x # xs) result) =
      or_else (beneath r (leaf_from (Suc i) xs) q)
        (or_else (beneath (r @ [to_string i]) (\<lambda>p. leaf_at p x) q) (object_find (pointer_to_string q) result))"
    using 5(2) [OF _ _ 5(5)] 5(1) [OF _ _ r] 5(3,4) by simp
  moreover have "leaf_from (Suc i) xs (to_string i # ts) = None" for ts
    using 5(4) leaf_from_index [of "Suc i" xs "to_string i" ts] by (auto split: sum.split)
  then have "leaf_from (Suc i) xs p = None" if "p \<noteq> []" "hd p = to_string i" for p
    using that by (cases p) auto
  note none = this
  moreover have "or_else (beneath r (leaf_from (Suc i) xs) q) (or_else (beneath (r @ [to_string i]) (\<lambda>p. leaf_at p x) q) (object_find (pointer_to_string q) result)) =
      or_else (beneath r (leaf_from i (x # xs)) q) (object_find (pointer_to_string q) result)"
    unfolding leaf_split by (rule beneath_or) (rule none)
  ultimately show ?case by (simp only:)
next
  case (7 ref k v ms result)
  have r: "ref @ CHR ''/'' # escape k = pointer_to_string (r @ [k])" using 7(5) by simp
  have "object_find (pointer_to_string q) (flatten_members ref ((k, v) # ms) result) =
      or_else (beneath r (leaf_in ms) q)
        (or_else (beneath (r @ [k]) (\<lambda>p. leaf_at p v) q) (object_find (pointer_to_string q) result))"
    using 7(2) [OF _ _ 7(5)] 7(1) [OF _ _ r] 7(3,4) by simp
  moreover have "leaf_in ms p = None" if "p \<noteq> []" "hd p = k" for p
    using that 7(4) by (induction ms) auto
  note none = this
  moreover have "or_else (beneath r (leaf_in ms) q) (or_else (beneath (r @ [k]) (\<lambda>p. leaf_at p v) q) (object_find (pointer_to_string q) result)) =
      or_else (beneath r (leaf_in ((k, v) # ms)) q) (object_find (pointer_to_string q) result)"
    unfolding leaf_split by (rule beneath_or) (rule none)
  ultimately show ?case by (simp only:)
qed (simp_all add: put_leaf leaf_primitive_at beneath_def or_else_def)

lemma flatten_keys:
  "set (map fst result) \<subseteq> range pointer_to_string \<Longrightarrow> ref \<in> range pointer_to_string \<Longrightarrow>
     set (map fst (flatten ref j result)) \<subseteq> range pointer_to_string"
  "set (map fst result) \<subseteq> range pointer_to_string \<Longrightarrow> ref \<in> range pointer_to_string \<Longrightarrow>
     set (map fst (flatten_elements ref i xs result)) \<subseteq> range pointer_to_string"
  "set (map fst result) \<subseteq> range pointer_to_string \<Longrightarrow> ref \<in> range pointer_to_string \<Longrightarrow>
     set (map fst (flatten_members ref ms result)) \<subseteq> range pointer_to_string"
proof (induction ref j result and ref i xs result and ref ms result rule: flatten_flatten_elements_flatten_members.induct)
  case (5 ref i x xs result)
  then obtain r where "ref = pointer_to_string r" by auto
  then have "ref @ CHR ''/'' # to_string i = pointer_to_string (r @ [to_string i])" by (simp add: escape_digits)
  then have "ref @ CHR ''/'' # to_string i \<in> range pointer_to_string" by (rule range_eqI)
  with 5 show ?case by simp
next
  case (7 ref k v ms result)
  then obtain r where "ref = pointer_to_string r" by auto
  then have "ref @ CHR ''/'' # escape k = pointer_to_string (r @ [k])" by simp
  then have "ref @ CHR ''/'' # escape k \<in> range pointer_to_string" by (rule range_eqI)
  with 7 show ?case by simp
qed (simp_all add: object_put_keys del: set_map)

lemma flatten_sorted:
  "sorted_members result \<Longrightarrow> sorted_members (flatten ref j result)"
  "sorted_members result \<Longrightarrow> sorted_members (flatten_elements ref i xs result)"
  "sorted_members result \<Longrightarrow> sorted_members (flatten_members ref ms result)"
  by (induction ref j result and ref i xs result and ref ms result rule: flatten_flatten_elements_flatten_members.induct)
     (simp_all add: object_put_sorted)

lemma flatten_leaves:
  assumes "flattenable j" "storable_json j"
  shows "object_find (pointer_to_string q) (flatten [] j []) = leaf_at q j"
    "(k, v) \<in> set (flatten [] j []) \<longleftrightarrow> (\<exists>q. k = pointer_to_string q \<and> leaf_at q j = Some v)"
    "sorted_members (flatten [] j [])"
proof -
  have none: "object_find k ([] :: (string \<times> json) list) = None" for k by (simp add: object_find_def)
  show f: "object_find (pointer_to_string q) (flatten [] j []) = leaf_at q j" for q
    using flattened [OF assms, of "[]" "[]" q "[]"] by (simp add: beneath_def or_else_def none split: option.split)
  show s: "sorted_members (flatten [] j [])" by (rule flatten_sorted) (simp add: sorted_members_def)
  show "(k, v) \<in> set (flatten [] j []) \<longleftrightarrow> (\<exists>q. k = pointer_to_string q \<and> leaf_at q j = Some v)"
  proof
    assume kv: "(k, v) \<in> set (flatten [] j [])"
    have "set (map fst (flatten [] j [])) \<subseteq> range pointer_to_string"
      by (rule flatten_keys(1)) (auto intro: range_eqI [of _ _ "[]"])
    with kv obtain q where "k = pointer_to_string q" by force
    with find_in_sorted [OF s kv] f [of q] show "\<exists>q. k = pointer_to_string q \<and> leaf_at q j = Some v" by auto
  next
    assume "\<exists>q. k = pointer_to_string q \<and> leaf_at q j = Some v"
    then obtain q where "k = pointer_to_string q" "leaf_at q j = Some v" by blast
    with f [of q] find_Some_in show "(k, v) \<in> set (flatten [] j [])" by metis
  qed
qed

section \<open>Growing back\<close>

text \<open>The value that is there when the leaves of a set have come.\<close>

definition below :: "string \<Rightarrow> string list set \<Rightarrow> string list set" where
  "below t S = {p. t # p \<in> S}"

lemma below_simps [simp]:
  "below t {} = {}" "below t (insert (t # ts) S) = insert ts (below t S)"
  "u \<noteq> t \<Longrightarrow> below u (insert (t # ts) S) = below u S"
  by (auto simp: below_def)

function (sequential) grown :: "string list set \<Rightarrow> json \<Rightarrow> json \<Rightarrow> bool" where
  "grown S (J_array xs) r =
     (if S = {} then r = J_null
      else \<exists>rs. r = J_array rs \<and> length rs \<le> length xs
        \<and> (\<forall>i<length xs. if i < length rs then grown (below (to_string i) S) (xs ! i) (rs ! i)
             else below (to_string i) S = {}))"
| "grown S (J_object ms) r =
     (if S = {} then r = J_null
      else \<exists>rs. r = J_object rs \<and> sorted_members rs \<and> set (map fst rs) \<subseteq> set (map fst ms)
        \<and> (\<forall>(k, x) \<in> set ms. case object_find k rs of
             None \<Rightarrow> below k S = {}
           | Some y \<Rightarrow> below k S \<noteq> {} \<and> grown (below k S) x y))"
| "grown S v r = (r = (if S = {} then J_null else v))"
  by pat_completeness auto
termination
proof (relation "measure (\<lambda>(S, j, r). size j)")
  fix S :: "string list set" and xs r i and rs :: "json list"
  show "i < length xs \<Longrightarrow> ((below (to_string i) S, xs ! i, rs ! i), S, J_array xs, r) \<in> measure (\<lambda>(S, j, r). size j)"
    using size_list_estimation' [of "xs ! i" xs "size (xs ! i)" size] by (simp add: less_Suc_eq_le)
next
  fix S :: "string list set" and ms :: "(string \<times> json) list" and r m k x y
  assume "m \<in> set ms" "(k, x) = m"
  then have "(k, x) \<in> set ms" by simp
  then show "((below k S, x, y), S, J_object ms, r) \<in> measure (\<lambda>(S, j, r). size j)"
    using size_list_estimation' [of "(k, x)" ms "size x" "size_prod (\<lambda>_. 0) size"] by (simp add: less_Suc_eq_le)
qed simp

lemma grown_none: "grown {} j r \<longleftrightarrow> r = J_null"
  by (cases j) simp_all

text \<open>The first leaf of an array that comes has index 0.\<close>

definition first_ok :: "string list \<Rightarrow> string list set \<Rightarrow> json \<Rightarrow> bool" where
  "first_ok p S j \<longleftrightarrow>
     (\<forall>P t ts xs. p = P @ t # ts \<longrightarrow> get_checked P j = Inr (J_array xs) \<longrightarrow> t \<noteq> ''0'' \<longrightarrow> (\<exists>q. P @ q \<in> S))"

lemma first_ok_step:
  assumes "first_ok (t # ts) S j" "\<And>P. get_checked (t # P) j = get_checked P x"
  shows "first_ok ts (below t S) x"
  unfolding first_ok_def
proof (intro allI impI)
  fix P u us xs
  assume "ts = P @ u # us" "get_checked P x = Inr (J_array xs)" "u \<noteq> ''0''"
  with assms(2) [of P] assms(1) [unfolded first_ok_def, rule_format, of "t # P" u us xs]
  show "\<exists>q. P @ q \<in> below t S" by (simp add: below_def)
qed

lemma grow_member:
  assumes "grown S (J_object ms) r" "object_find t ms = Some x" "sorted_members ms" "t \<noteq> ''0''"
    and IH: "\<And>y. grown (below t S) x y \<Longrightarrow> \<exists>w. with_created f ts y = Inr w \<and> grown (insert ts (below t S)) x w"
  shows "\<exists>r'. with_created f (t # ts) r = Inr r' \<and> grown (insert (t # ts) S) (J_object ms) r'"
proof -
  have same: "y = x" if "(t, y) \<in> set ms" for y using find_in_sorted [OF assms(3) that] assms(2) by simp
  have key: "t \<in> set (map fst ms)" using find_Some_in [OF assms(2)] by force
  show ?thesis
  proof (cases "S = {}")
    case True
    with assms(1) have r: "r = J_null" by simp
    from IH [of J_null] True obtain w where w: "with_created f ts J_null = Inr w" "grown {ts} x w"
      by (auto simp: grown_none)
    have "case object_find k [(t, w)] of None \<Rightarrow> below k {t # ts} = {}
        | Some y \<Rightarrow> below k {t # ts} \<noteq> {} \<and> grown (below k {t # ts}) u y" if "(k, u) \<in> set ms" for k u
      using w same that by (cases "k = t") (simp_all add: object_find_def)
    with True key have "grown (insert (t # ts) S) (J_object ms) (J_object [(t, w)])"
      by (auto simp: sorted_members_def)
    with r w assms(4) show ?thesis by simp
  next
    case False
    with assms(1) obtain rs where rs: "r = J_object rs" "sorted_members rs" "set (map fst rs) \<subseteq> set (map fst ms)"
      "\<forall>(k, x) \<in> set ms. case object_find k rs of None \<Rightarrow> below k S = {} | Some y \<Rightarrow> below k S \<noteq> {} \<and> grown (below k S) x y"
      by auto
    let ?e = "emplace_null t rs"
    have e: "object_find k ?e = (if k = t then Some (case object_find t rs of None \<Rightarrow> J_null | Some y \<Rightarrow> y) else object_find k rs)" for k
      by (cases "object_find t rs") (auto simp: emplace_null_def object_find_put)
    have "case object_find t rs of None \<Rightarrow> below t S = {} | Some y \<Rightarrow> below t S \<noteq> {} \<and> grown (below t S) x y"
      using rs(4) find_Some_in [OF assms(2)] by auto
    then have "grown (below t S) x (the (object_find t ?e))"
      by (cases "object_find t rs") (simp_all add: e grown_none)
    from IH [OF this] obtain w where w: "with_created f ts (the (object_find t ?e)) = Inr w"
      "grown (insert ts (below t S)) x w" by blast
    let ?rs = "object_set t w ?e"
    have find: "object_find k ?rs = (if k = t then Some w else object_find k rs)" for k
      by (simp add: object_find_set e)
    have "sorted_members ?rs" by (simp add: object_set_sorted emplace_null_sorted rs(2))
    moreover have "set (map fst ?rs) \<subseteq> set (map fst ms)"
      using rs(3) key object_put_keys [of t J_null rs] by (auto simp: emplace_null_def simp del: set_map split: if_splits)
    moreover have "case object_find k ?rs of None \<Rightarrow> below k (insert (t # ts) S) = {}
        | Some y \<Rightarrow> below k (insert (t # ts) S) \<noteq> {} \<and> grown (below k (insert (t # ts) S)) u y" if "(k, u) \<in> set ms" for k u
    proof (cases "k = t")
      case True
      with w same that show ?thesis by (simp add: find)
    next
      case False
      from rs(4) that have "case object_find k rs of None \<Rightarrow> below k S = {}
          | Some y \<Rightarrow> below k S \<noteq> {} \<and> grown (below k S) u y" by blast
      with False show ?thesis by (cases "object_find k rs") (simp_all add: find)
    qed
    ultimately have "grown (insert (t # ts) S) (J_object ms) (J_object ?rs)"
      by (simp del: set_map object_set_keys) blast
    with rs(1) w show ?thesis by (simp add: Let_def)
  qed
qed

lemma grow_element:
  assumes "grown S (J_array xs) r" "array_index t = Inr i" "i < length xs" "t = to_string i" "S = {} \<Longrightarrow> i = 0"
    and IH: "\<And>y. grown (below t S) (xs ! i) y \<Longrightarrow> \<exists>w. with_created f ts y = Inr w \<and> grown (insert ts (below t S)) (xs ! i) w"
  shows "\<exists>r'. with_created f (t # ts) r = Inr r' \<and> grown (insert (t # ts) S) (J_array xs) r'"
proof (cases "S = {}")
  case True
  with assms have r: "r = J_null" "i = 0" by simp_all
  from IH [of J_null] True obtain w where w: "with_created f ts J_null = Inr w" "grown {ts} (xs ! i) w"
    by (auto simp: grown_none)
  have "t = ''0''" using assms(4) r(2) by (simp add: to_string_0)
  with w(1) r(1) have "with_created f (t # ts) r = Inr (J_array [w])" by simp
  moreover have "grown (insert (t # ts) S) (J_array xs) (J_array [w])"
    using True w assms(3,4) r(2) by (auto simp: Suc_le_eq)
  ultimately show ?thesis by blast
next
  case False
  with assms(1) obtain rs where rs: "r = J_array rs" "length rs \<le> length xs"
    "\<forall>k<length xs. if k < length rs then grown (below (to_string k) S) (xs ! k) (rs ! k) else below (to_string k) S = {}"
    by auto
  let ?e = "fill_up i rs"
  have e: "?e ! k = (if k < length rs then rs ! k else J_null)" if "k < length ?e" for k
    using that by (auto simp: fill_up_def nth_append split: if_splits)
  have len: "length ?e = max (length rs) (Suc i)" by (auto simp: fill_up_def)
  have "grown (below t S) (xs ! i) (?e ! i)"
    using rs(3) assms(3,4) e [of i] len by (auto simp: grown_none split: if_splits)
  from IH [OF this] obtain w where w: "with_created f ts (?e ! i) = Inr w" "grown (insert ts (below t S)) (xs ! i) w" by blast
  have "grown (insert (t # ts) S) (J_array xs) (J_array (?e[i := w]))"
  proof -
    have "if k < length (?e[i := w]) then grown (below (to_string k) (insert (t # ts) S)) (xs ! k) (?e[i := w] ! k)
        else below (to_string k) (insert (t # ts) S) = {}" if k: "k < length xs" for k
    proof (cases "k = i")
      case True
      with w assms(4) len show ?thesis by simp
    next
      case False
      then have "below (to_string k) (insert (t # ts) S) = below (to_string k) S" using assms(4) by simp
      with False rs(3) k len e [of k] show ?thesis by (auto simp: grown_none split: if_splits)
    qed
    with len rs(2) assms(3) show ?thesis by auto
  qed
  with rs(1) w assms(2) show ?thesis by (simp add: Let_def)
qed

lemma grow:
  "leaf_at p j = Some v \<Longrightarrow> storable_json j \<Longrightarrow> flattenable j \<Longrightarrow> grown S j r \<Longrightarrow> first_ok p S j \<Longrightarrow>
   \<exists>r'. with_created (\<lambda>_. v) p r = Inr r' \<and> grown (insert p S) j r'"
proof (induction p arbitrary: j r S)
  case Nil
  then show ?case by (cases j) auto
next
  case (Cons t ts)
  show ?case
  proof (cases j)
    case (J_object ms)
    with Cons.prems obtain x where x: "object_find t ms = Some x" "leaf_at ts x = Some v"
      by (auto simp: bind_eq_Some_conv)
    from find_Some_in [OF x(1)] Cons.prems J_object have "storable_json x" "flattenable x" "t \<noteq> ''0''" by auto
    moreover have "first_ok ts (below t S) x"
      by (rule first_ok_step [OF Cons.prems(5)]) (simp add: J_object at_key_def x)
    ultimately show ?thesis
      using Cons.prems x J_object by (intro grow_member [of S ms r t x, folded J_object] Cons.IH) simp_all
  next
    case (J_array xs)
    with Cons.prems obtain i where i: "array_index t = Inr i" "i < length xs" "t = to_string i" "leaf_at ts (xs ! i) = Some v"
      by (auto split: sum.splits if_splits)
    from i(2) Cons.prems J_array have "storable_json (xs ! i)" "flattenable (xs ! i)" by auto
    moreover have "first_ok ts (below t S) (xs ! i)"
      using i to_string_not_dash by (intro first_ok_step [OF Cons.prems(5)]) (simp add: J_array at_index_def)
    moreover have "i = 0" if "S = {}"
      using Cons.prems(5) [unfolded first_ok_def, rule_format, of "[]" t ts xs] that J_array i(3) to_string_eq [of i 0]
      by (auto simp: to_string_0)
    ultimately show ?thesis
      using Cons.prems i J_array by (intro grow_element [of S xs r t i, folded J_array] Cons.IH) simp_all
  qed (use Cons.prems in simp_all)
qed

section \<open>All leaves\<close>

lemma has_leaf: "flattenable j \<Longrightarrow> storable_json j \<Longrightarrow> \<exists>q v. leaf_at q j = Some v"
proof (induction j)
  case (J_object ms)
  then obtain k x ms' where ms: "ms = (k, x) # ms'" by (cases ms) auto
  with J_object obtain q v where "leaf_at q x = Some v" by fastforce
  with ms show ?case by (intro exI [of _ "k # q"] exI [of _ v]) (simp add: find_Cons)
next
  case (J_array xs)
  then obtain x xs' where xs: "xs = x # xs'" by (cases xs) auto
  with J_array obtain q v where "leaf_at q x = Some v" by fastforce
  with xs show ?case by (intro exI [of _ "to_string 0 # q"] exI [of _ v]) simp
qed (auto intro!: exI [of _ "[]"])

definition leaf_set :: "json \<Rightarrow> string list set" where
  "leaf_set j = {q. leaf_at q j \<noteq> None}"

lemma leaf_set_nonempty: "flattenable j \<Longrightarrow> storable_json j \<Longrightarrow> leaf_set j \<noteq> {}"
  using has_leaf by (auto simp: leaf_set_def)

lemma grown_all: "flattenable j \<Longrightarrow> storable_json j \<Longrightarrow> grown (leaf_set j) j r \<Longrightarrow> r = j"
proof (induction j arbitrary: r)
  case (J_array xs)
  note ne = leaf_set_nonempty [OF J_array(2,3)]
  have below: "below (to_string i) (leaf_set (J_array xs)) = leaf_set (xs ! i)" if "i < length xs" for i
    using that J_array(3) by (auto simp: below_def leaf_set_def)
  from J_array(4) ne obtain rs where rs: "r = J_array rs" "length rs \<le> length xs"
    "\<forall>i<length xs. if i < length rs then grown (below (to_string i) (leaf_set (J_array xs))) (xs ! i) (rs ! i)
      else below (to_string i) (leaf_set (J_array xs)) = {}" by auto
  have rs3: "if i < length rs then grown (leaf_set (xs ! i)) (xs ! i) (rs ! i) else leaf_set (xs ! i) = {}"
    if "i < length xs" for i using rs(3) [rule_format, OF that] by (simp only: below [OF that])
  have len: "length rs = length xs"
  proof (rule ccontr)
    assume "length rs \<noteq> length xs"
    then have short: "length rs < length xs" using rs(2) by simp
    from rs3 [OF short] have "leaf_set (xs ! length rs) = {}" by simp
    with leaf_set_nonempty [of "xs ! length rs"] J_array(2,3) short show False by simp
  qed
  have "rs ! i = xs ! i" if "i < length xs" for i
    using J_array(1) [of "xs ! i" "rs ! i"] J_array(2,3) rs3 [OF that] that len by auto
  with len rs(1) show ?case by (simp add: list_eq_iff_nth_eq)
next
  case (J_object ms)
  note ne = leaf_set_nonempty [OF J_object(2,3)]
  have sorted: "sorted_members ms" using J_object(3) by simp
  have below: "below k (leaf_set (J_object ms)) = leaf_set x" if "(k, x) \<in> set ms" for k x
    using find_in_sorted [OF sorted that] by (auto simp: below_def leaf_set_def)
  from J_object(4) ne obtain rs where rs: "r = J_object rs" "sorted_members rs" "set (map fst rs) \<subseteq> set (map fst ms)"
    "\<forall>(k, x) \<in> set ms. case object_find k rs of None \<Rightarrow> below k (leaf_set (J_object ms)) = {}
       | Some y \<Rightarrow> below k (leaf_set (J_object ms)) \<noteq> {} \<and> grown (below k (leaf_set (J_object ms))) x y"
    by auto
  have rs4: "case object_find k rs of None \<Rightarrow> leaf_set x = {} | Some y \<Rightarrow> leaf_set x \<noteq> {} \<and> grown (leaf_set x) x y"
    if "(k, x) \<in> set ms" for k x using bspec [OF rs(4) that] by (simp only: prod.case below [OF that])
  have "object_find k rs = object_find k ms" for k
  proof (cases "object_find k ms")
    case None
    then have "k \<notin> set (map fst ms)" by (simp only: find_None not_False_eq_True)
    with rs(3) have "object_find k rs = None" unfolding find_None by blast
    with None show ?thesis by simp
  next
    case (Some x)
    then have x: "(k, x) \<in> set ms" by (rule find_Some_in)
    with J_object(2,3) have "flattenable x" "storable_json x" by auto
    from leaf_set_nonempty [OF this] J_object(1) [OF x, of x] this rs4 [OF x] Some show ?thesis
      by (auto split: option.splits)
  qed
  with sorted_find_eq [OF rs(2) sorted] rs(1) show ?case by simp
qed (simp_all add: leaf_set_nonempty)

section \<open>In the order of the map\<close>

lemma pointer_text_append: "pointer_to_string (p @ q) = pointer_to_string p @ pointer_to_string q"
  by (induction p) (simp_all add: pointer_to_string_Cons)

lemma leaf_beneath:
  "leaf_at (P @ p) j = Some v \<Longrightarrow> flattenable j \<Longrightarrow> storable_json j \<Longrightarrow>
   \<exists>x. get_checked P j = Inr x \<and> (\<forall>q. leaf_at (P @ q) j = leaf_at q x) \<and> flattenable x \<and> storable_json x"
proof (induction P arbitrary: j)
  case (Cons t P)
  show ?case
  proof (cases j)
    case (J_object ms)
    with Cons.prems obtain x where x: "object_find t ms = Some x" "leaf_at (P @ p) x = Some v"
      by (auto simp: bind_eq_Some_conv)
    with find_Some_in [OF x(1)] Cons.prems J_object have "flattenable x" "storable_json x" by auto
    from Cons.IH [OF x(2) this] J_object x(1) show ?thesis by (auto simp: at_key_def)
  next
    case (J_array xs)
    with Cons.prems obtain i where i: "array_index t = Inr i" "i < length xs" "t = to_string i" "leaf_at (P @ p) (xs ! i) = Some v"
      by (auto split: sum.splits if_splits)
    with Cons.prems J_array have "flattenable (xs ! i)" "storable_json (xs ! i)" by auto
    from Cons.IH [OF i(4) this] J_array i(1-3) show ?thesis by (auto simp: at_index_def to_string_not_dash)
  qed (use Cons.prems in simp_all)
qed simp

lemma less_append [simp]: "xs @ ys < xs @ zs \<longleftrightarrow> ys < zs" for xs :: string
  by (induction xs) simp_all

lemma index_order:
  assumes "0 < k"
  shows "pointer_to_string (''0'' # q) < pointer_to_string (to_string k # ts)"
proof -
  obtain c cs where c: "to_string k = c # cs" by (cases "to_string k") auto
  have "is_digit c" "c \<noteq> CHR ''0''" using to_string_digits [of k] to_string_leading [OF assms] c by simp_all
  then have "of_char (CHR ''0'') < (of_char c :: nat)"
    using of_char_eq_iff [of c "CHR ''0''", where ?'a = nat] by (simp add: is_digit_def)
  then have "CHR ''0'' < c" by (simp add: less_char_def)
  then show ?thesis
    using escape_digits [of 0] escape_digits [of k] c by (simp add: pointer_to_string_Cons to_string_0)
qed

lemma first_in_order:
  assumes "leaf_at p j = Some v" "flattenable j" "storable_json j"
    and S: "\<And>q. leaf_at q j \<noteq> None \<Longrightarrow> pointer_to_string q < pointer_to_string p \<Longrightarrow> q \<in> S"
  shows "first_ok p S j"
  unfolding first_ok_def
proof (intro allI impI)
  fix P t ts xs
  assume p: "p = P @ t # ts" and x: "get_checked P j = Inr (J_array xs)" and t: "t \<noteq> ''0''"
  from leaf_beneath [OF assms(1) [unfolded p] assms(2,3)] x
  have at: "leaf_at (P @ q) j = leaf_at q (J_array xs)" "flattenable (J_array xs)" "storable_json (J_array xs)" for q
    by auto
  from at(1) [of "t # ts"] assms(1) p obtain k where k: "t = to_string k" "k < length xs"
    by (auto split: sum.splits if_splits)
  with t have "0 < k" by (cases k) (auto simp: to_string_0)
  from at(2,3) obtain q u where "leaf_at q (xs ! 0) = Some u"
    using has_leaf [of "xs ! 0"] by (cases xs) auto
  then have "leaf_at (P @ ''0'' # q) j \<noteq> None"
    using at(1) [of "''0'' # q"] k array_index_to_string [of 0] by (auto simp: to_string_0)
  moreover have "pointer_to_string (P @ ''0'' # q) < pointer_to_string p"
    unfolding p pointer_text_append k(1) using index_order [OF \<open>0 < k\<close>] by simp
  ultimately have "P @ (''0'' # q) \<in> S" by (rule S)
  then show "\<exists>q. P @ q \<in> S" by blast
qed

lemma unflatten_grows:
  assumes "flattenable j" "storable_json j"
  shows "flatten [] j [] = past @ rest \<Longrightarrow> grown {q. pointer_to_string q \<in> set (map fst past)} j r \<Longrightarrow>
    unflatten_members rest r = Inr j"
proof (induction rest arbitrary: past r)
  case Nil
  have "q \<in> leaf_set j \<longleftrightarrow> pointer_to_string q \<in> set (map fst (flatten [] j []))" for q
    using flatten_leaves(1) [OF assms, of q] find_None [of "pointer_to_string q" "flatten [] j []"]
    by (auto simp: leaf_set_def)
  with Nil have "{q. pointer_to_string q \<in> set (map fst past)} = leaf_set j" by auto
  with Nil(2) grown_all [OF assms] show ?case by simp
next
  case (Cons m rest)
  obtain k v where m: "m = (k, v)" by fastforce
  let ?S = "{q. pointer_to_string q \<in> set (map fst past)}"
  have "(k, v) \<in> set (flatten [] j [])" using Cons(2) m by simp
  then obtain p where p: "k = pointer_to_string p" "leaf_at p j = Some v"
    using flatten_leaves(2) [OF assms, of k v] by blast
  have sorted: "sorted_wrt (<) (map fst (past @ m # rest))"
    using flatten_leaves(3) [OF assms] Cons(2) by (simp add: sorted_members_def)
  have "q \<in> ?S" if q: "leaf_at q j \<noteq> None" "pointer_to_string q < pointer_to_string p" for q
  proof -
    obtain u where "leaf_at q j = Some u" using q(1) by blast
    then have "(pointer_to_string q, u) \<in> set (past @ m # rest)"
      using flatten_leaves(2) [OF assms, of "pointer_to_string q" u] Cons(2) by auto
    moreover have "(pointer_to_string q, u) \<notin> set (m # rest)"
      using sorted q(2) m p(1) by (auto simp: sorted_wrt_append dest!: bspec)
    ultimately show ?thesis by force
  qed
  from grow [OF p(2) assms(2,1) Cons(3) first_in_order [OF p(2) assms this]] obtain r' where
    r': "with_created (\<lambda>_. v) p r = Inr r'" "grown (insert p ?S) j r'" by blast
  have "insert p ?S = {q. pointer_to_string q \<in> set (map fst (past @ [m]))}" using m p(1) by auto
  with r'(2) Cons.IH [of "past @ [m]" r'] Cons(2) have "unflatten_members rest r' = Inr j" by simp
  with m p r'(1) leaf_primitive [OF p(2)] show ?case by (simp add: pointer_parsed)
qed

text \<open>
  C25: A value that is flattened and unflattened is the same again, provided it has no empty
  arrays and objects, which become null, and no object with a key 0, which becomes an array.
\<close>

theorem unflatten_flatten:
  assumes "flattenable j" "storable_json j"
  shows "json_unflatten (json_flatten j) = Inr j"
  using unflatten_grows [OF assms, of "[]" _ J_null]
  by (simp add: json_unflatten_def json_flatten_def grown_none)

lemma unflatten_flatten_witness:
  "json_unflatten (json_flatten (J_object [(''a'', J_array [J_null, J_unsigned 1]), (''b'', J_string ''x'')])) =
     Inr (J_object [(''a'', J_array [J_null, J_unsigned 1]), (''b'', J_string ''x'')])"
  by (rule unflatten_flatten) (simp_all add: sorted_members_def less_char_def)

text \<open>The two exceptions are ones.\<close>

lemma empty_array_flattens_to_null: "json_unflatten (json_flatten (J_array [])) = Inr J_null"
  by (simp add: json_unflatten_def json_flatten_def json_pointer_def)

end
