(* ===== verification/Http_Form_Roundtrip.thy ===== *)
theory Http_Form_Roundtrip
  imports Http_Forms Http_Ranges_Properties
begin

text \<open>
  A form that a client writes is read back by the server's parser, in whatever pieces it arrives: an
  invariant relates the state of the parser to what is left of the text.
\<close>

section \<open>The headers of a part\<close>

lemma trim_blank: "trim (CHR '' '' # s) = trim s"
  by (simp add: trim_def is_space_or_tab_def code_def)

lemma trim_ends: "s \<noteq> [] \<Longrightarrow> \<not> is_space_or_tab (hd s) \<Longrightarrow> \<not> is_space_or_tab (last s) \<Longrightarrow> trim s = s"
proof -
  assume s: "s \<noteq> []" "\<not> is_space_or_tab (hd s)" "\<not> is_space_or_tab (last s)"
  then have "dropWhile is_space_or_tab s = s" by (cases s) simp_all
  moreover have "rev s = last s # rev (butlast s)" using s(1) by (metis append_butlast_last_id rev_eq_Cons_iff rev_rev_ident)
  then have "dropWhile is_space_or_tab (rev s) = rev s" using s(3) by (metis dropWhile.simps(2))
  ultimately show "trim s = s" by (simp add: trim_def)
qed

lemma trim_quotes_quoted [simp]: "trim_double_quotes (quoted s) = s"
  by (simp add: trim_double_quotes_def quoted_def)

lemma blank_codes: "\<not> is_space_or_tab (CHR 0x22)" "\<not> is_space_or_tab (CHR ''n'')" "\<not> is_space_or_tab (CHR ''f'')"
  by (simp_all add: is_space_or_tab_def code_def)

lemma trim_parameter: "k \<noteq> [] \<Longrightarrow> \<not> is_space_or_tab (hd k) \<Longrightarrow> trim (k @ CHR ''='' # quoted s) = k @ CHR ''='' # quoted s"
  by (rule trim_ends) (simp_all add: quoted_def blank_codes)

definition no_separator :: "string \<Rightarrow> bool" where
  "no_separator s = (CHR '';'' \<notin> set s \<and> CHR ''='' \<notin> set s)"

lemma split_parameter:
  assumes "no_separator s" "k \<noteq> []" "list_all (\<lambda>c. \<not> is_space_or_tab c) k" "CHR ''='' \<notin> set k"
  shows "split_pieces (CHR ''='') (k @ CHR ''='' # quoted s) = [k, quoted s]"
proof -
  have "CHR ''='' \<notin> set (quoted s)" using assms(1) by (simp add: no_separator_def quoted_def)
  then have "segments (CHR ''='') (k @ CHR ''='' # quoted s) = [k, quoted s]"
    using assms(4) by (simp add: segments_sep segments_end)
  moreover have "trim (quoted s) = quoted s" by (rule trim_ends) (simp_all add: quoted_def blank_codes)
  ultimately show ?thesis using assms(2,3) by (simp add: split_pieces_def trim_plain) (simp add: quoted_def)
qed

definition disposition_params :: "form_data \<Rightarrow> string" where
  "disposition_params item =
     ''name'' @ CHR ''='' # quoted (form_name item)
       @ (if form_filename item = [] then [] else ''; filename'' @ CHR ''='' # quoted (form_filename item))"

lemma disposition_split: "disposition item = ''form-data; '' @ disposition_params item"
  by (simp add: disposition_def disposition_params_def)

lemma params_of_disposition:
  assumes "no_separator (form_name item)" "no_separator (form_filename item)"
  shows "parse_disposition_params (disposition_params item) =
    (if form_filename item = [] then [] else [(''filename'', form_filename item)]) @ [(''name'', form_name item)]"
proof -
  let ?n = "''name'' @ CHR ''='' # quoted (form_name item)" and ?f = "''filename'' @ CHR ''='' # quoted (form_filename item)"
  have plain: "list_all (\<lambda>c. \<not> is_space_or_tab c) ''name''" "list_all (\<lambda>c. \<not> is_space_or_tab c) ''filename''" by code_simp+
  have semi: "CHR '';'' \<notin> set ?n" "CHR '';'' \<notin> set (CHR '' '' # ?f)" using assms by (simp_all add: no_separator_def quoted_def)
  have trim_name: "trim ?n = ?n" by (rule trim_parameter) (simp_all add: blank_codes)
  have "trim ?f = ?f" by (rule trim_parameter) (simp_all add: blank_codes)
  then have trims: "trim ?n = ?n" "trim (CHR '' '' # ?f) = ?f" using trim_name by (simp_all only: trim_blank)
  have pieces: "split_pieces (CHR ''='') ?n = [''name'', quoted (form_name item)]"
    "split_pieces (CHR ''='') ?f = [''filename'', quoted (form_filename item)]"
    using assms by (intro split_parameter plain; simp)+
  have "trim_double_quotes ''name'' = ''name''" "trim_double_quotes ''filename'' = ''filename''"
    by (simp_all add: trim_double_quotes_def)
  then have adds: "add_disposition_param ?n ps = params_emplace ''name'' (form_name item) ps"
    "add_disposition_param ?f ps = params_emplace ''filename'' (form_filename item) ps" for ps
    unfolding add_disposition_param_def pieces by simp_all
  show ?thesis
  proof (cases "form_filename item = []")
    case True
    then have "split_pieces (CHR '';'') (disposition_params item) = [?n]"
      using segments_end [OF semi(1)] trims(1) by (simp add: split_pieces_def disposition_params_def)
    then show ?thesis using True adds(1) [of "[]"] by (simp add: parse_disposition_params_def)
  next
    case False
    then have "disposition_params item = ?n @ CHR '';'' # CHR '' '' # ?f" by (simp add: disposition_params_def)
    then have "split_pieces (CHR '';'') (disposition_params item) = [?n, ?f]"
      using segments_sep [OF semi(1)] segments_end [OF semi(2)] trims by (simp add: split_pieces_def)
    moreover have "?f \<noteq> ?n" by simp
    ultimately show ?thesis using False adds by (simp add: parse_disposition_params_def less_char_def)
  qed
qed

text \<open>
  What can be uploaded: names without a semicolon, an equals sign and a percent sign, and values that are
  those of a header.
\<close>

definition upload_ok :: "form_data \<Rightarrow> bool" where
  "upload_ok item =
     (header_ok (''Content-Disposition'', disposition item) \<and> no_separator (form_name item) \<and> no_separator (form_filename item)
      \<and> (form_content_type item = [] \<or> header_ok (''Content-Type'', form_content_type item)))"

lemma field_value_line: "is_field_value v \<Longrightarrow> c \<in> set v \<Longrightarrow> code c \<noteq> 10 \<and> code c \<noteq> 13"
  using field_value_chars [of v c] by (auto simp: is_space_or_tab_def is_field_vchar_def)

lemma disposition_line:
  assumes "upload_ok item"
  shows "form_header_line (''Content-Disposition: '' @ disposition item) file =
    Some (file\<lparr>form_headers := form_headers file @ [(''Content-Disposition'', disposition item)],
               form_name := form_name item,
               form_filename := (if form_filename item = [] then form_filename file else form_filename item)\<rparr>)"
proof -
  let ?h = "''Content-Disposition: '' @ disposition item"
  have ok: "header_ok (''Content-Disposition'', disposition item)" "no_separator (form_name item)"
    "no_separator (form_filename item)" using assms by (simp_all add: upload_ok_def)
  then have "no_line_end (disposition item)" using field_value_line [of "disposition item"]
    by (auto simp: header_ok_def no_line_end_def list_all_iff)
  then have lines: "no_line_end (disposition_params item)" by (simp add: disposition_split no_line_end_def)
  have parsed: "parse_header ?h = Some (''Content-Disposition'', disposition item)"
    using parse_written_header [OF ok(1)] by simp
  have "\<not> equal_ignoring_case ''Content-Dispo'' ''Content-Type:''" by code_simp
  then have other: "\<not> start_with_case_ignore ?h ''Content-Type:''" by (simp add: start_with_case_ignore_def)
  have "equal_ignoring_case ''Content-Disposition:'' ''Content-Disposition:''" "equal_ignoring_case ''form-data;'' ''form-data;''"
    by code_simp+
  then have starts: "start_with_case_ignore ?h ''Content-Disposition:''"
    "start_with_case_ignore (''form-data;'' @ s) ''form-data;''" for s by (simp_all add: start_with_case_ignore_def)
  have space: "is_space (CHR '' '')" "\<not> is_space (CHR ''f'')" "\<not> is_space (CHR ''n'')" by code_simp+
  have "dropWhile is_space (drop 20 ?h) = ''form-data;'' @ CHR '' '' # disposition_params item"
    using space by (simp add: disposition_split)
  moreover have "dropWhile is_space (drop 10 (''form-data;'' @ CHR '' '' # disposition_params item)) = disposition_params item"
    using space by (simp add: disposition_params_def)
  ultimately have "match_disposition ?h = Some (disposition_params item)"
    using starts lines by (simp only: match_disposition_def Let_def if_True simp_thms if_False)
  then show ?thesis using parsed other params_of_disposition [OF ok(2,3)]
    by (simp add: form_header_line_def Let_def)
qed

lemma content_type_line:
  assumes "header_ok (''Content-Type'', t)" "t \<noteq> []"
  shows "form_header_line (''Content-Type: '' @ t) file =
    Some (file\<lparr>form_headers := form_headers file @ [(''Content-Type'', t)], form_content_type := t\<rparr>)"
proof -
  have "equal_ignoring_case ''Content-Type:'' ''Content-Type:''" by code_simp
  then have "start_with_case_ignore (''Content-Type: '' @ t) ''Content-Type:''" by (simp add: start_with_case_ignore_def)
  moreover have "parse_header (''Content-Type: '' @ t) = Some (''Content-Type'', t)"
    using parse_written_header [OF assms(1)] by simp
  moreover have "trim t = t"
  proof (rule trim_ends [OF assms(2)])
    have "is_field_value t" using assms(1) by (simp add: header_ok_def)
    then have "is_field_vchar (hd t)" "is_field_vchar (last t)" using assms(2) by (auto simp: is_field_value_def)
    then show "\<not> is_space_or_tab (hd t)" "\<not> is_space_or_tab (last t)"
      using vchar_code by (auto simp: is_space_or_tab_def)
  qed
  ultimately show ?thesis by (simp add: form_header_line_def trim_blank)
qed

section \<open>Searching\<close>

lemma take_prefix: "n \<le> length s \<Longrightarrow> take n (s @ x) = take n s"
  by simp

lemma buf_find_prefix:
  assumes "p \<noteq> []"
  shows "buf_find p u = (if buf_find p (u @ x) + length p \<le> length u then buf_find p (u @ x) else length u)"
proof (induction u)
  case (Cons c u)
  show ?case
  proof (cases "length p \<le> length (c # u)")
    case True
    then have "take (length p) ((c # u) @ x) = take (length p) (c # u)" by (rule take_prefix)
    with Cons True show ?thesis by auto
  next
    case False
    then have "take (length p) (c # u) \<noteq> p" using length_take [of "length p" "c # u"] by (metis min.absorb_iff2 nat_le_linear)
    with False Cons show ?thesis by (auto split: if_splits)
  qed
qed (use assms in simp)

lemma buf_find_le: "buf_find p s \<le> length s"
  by (induction s) auto

lemma find_at_start: "p \<noteq> [] \<Longrightarrow> buf_find p (p @ x) = 0"
  by (cases p) simp_all

text \<open>The text has no occurrence.\<close>

definition absent :: "string \<Rightarrow> string \<Rightarrow> bool" where
  "absent p s = (buf_find p s = length s)"

lemma absent_suffix: "absent p (a @ b) \<Longrightarrow> absent p b"
  by (induction a) (auto simp: absent_def split: if_splits)

lemma buf_find_first:
  assumes "absent p s" "p \<noteq> []" "hd p \<notin> set (tl p)"
  shows "buf_find p (s @ p @ x) = length s"
  using assms(1)
proof (induction s)
  case Nil
  obtain c q where "p = c # q" using assms(2) by (cases p) auto
  then show ?case by simp
next
  case (Cons a s)
  have no: "take (length p) (a # s @ p @ x) \<noteq> p"
  proof
    assume eq: "take (length p) (a # s @ p @ x) = p"
    show False
    proof (cases "length p \<le> length (a # s)")
      case True
      then have "take (length p) (a # s) = p" using take_prefix [OF True, of "p @ x"] eq by simp
      with Cons.prems show False by (simp add: absent_def split: if_splits)
    next
      case False
      let ?n = "length (a # s)"
      have "p ! ?n = (a # s @ p @ x) ! ?n" using False by (subst eq [symmetric]) simp
      moreover have "(a # s @ p @ x) ! ?n = hd p" using assms(2) by (simp add: nth_append hd_conv_nth)
      moreover have "p ! ?n = tl p ! length s" using assms(2) False by (cases p) auto
      ultimately show False using False assms(3) by (metis (no_types, lifting) Suc_less_eq length_Cons length_tl
          less_diff_conv linorder_not_le nth_mem plus_1_eq_Suc add.commute)
    qed
  qed
  moreover have "absent p s" using Cons.prems by (rule absent_suffix [of p "[a]" s, simplified])
  ultimately show ?case using Cons.IH by simp
qed

lemma absent_first: "p \<noteq> [] \<Longrightarrow> hd p \<notin> set s \<Longrightarrow> absent p s"
proof (induction s)
  case (Cons a s)
  then have "take (length p) (a # s) \<noteq> p" by (cases p) auto
  with Cons show ?case by (simp add: absent_def)
qed (simp add: absent_def)

lemma find_in_prefix:
  assumes "absent p s" "p \<noteq> []" "hd p \<notin> set (tl p)" "u @ y = s @ p @ x"
  shows "buf_find p u = (if length s + length p \<le> length u then length s else length u)"
  using buf_find_prefix [OF assms(2), of u y] buf_find_first [OF assms(1-3), of x] unfolding assms(4) by simp

lemma crlf_search: "CRLF \<noteq> []" "hd CRLF \<notin> set (tl CRLF)" "hd CRLF = CHR 0x0D" "length CRLF = 2"
  by (simp_all add: CRLF_def)

section \<open>The text of a form\<close>

definition header_lines :: "form_data \<Rightarrow> string list" where
  "header_lines item =
     (''Content-Disposition: '' @ disposition item)
       # (if form_content_type item = [] then [] else [''Content-Type: '' @ form_content_type item])"

definition lines_text :: "string list \<Rightarrow> string" where
  "lines_text ls = concat (map (\<lambda>l. l @ CRLF) ls) @ CRLF"

fun tail_text :: "string \<Rightarrow> form_data list \<Rightarrow> string" where
  "tail_text b [] = ''--'' @ CRLF"
| "tail_text b (i # is) = CRLF @ lines_text (header_lines i) @ form_content i @ crlf_dash_boundary b @ tail_text b is"

lemma serialized_text: "serialize_multipart_formdata items b = ''--'' @ b @ tail_text b items"
  by (induction items)
    (simp_all add: serialize_multipart_formdata_def serialize_finish_def serialize_item_begin_def header_lines_def
      lines_text_def crlf_dash_boundary_def)

text \<open>What the headers of an item stand for, and what is collected for it.\<close>

definition header_part :: "form_data \<Rightarrow> form_data" where
  "header_part item =
     item\<lparr>form_content := [],
          form_headers := (''Content-Disposition'', disposition item)
            # (if form_content_type item = [] then [] else [(''Content-Type'', form_content_type item)])\<rparr>"

definition received :: "form_data \<Rightarrow> form_data" where
  "received item =
     (let file = header_part item in if form_filename item = [] then file\<lparr>form_content_type := []\<rparr> else file)"

definition read_item :: "form_data \<Rightarrow> form_data" where
  "read_item item = (received item)\<lparr>form_content := form_content item\<rparr>"

fun apply_lines :: "string list \<Rightarrow> form_data \<Rightarrow> form_data option" where
  "apply_lines [] f = Some f"
| "apply_lines (l # ls) f = (case form_header_line l f of None \<Rightarrow> None | Some g \<Rightarrow> apply_lines ls g)"

definition line_ok :: "string \<Rightarrow> bool" where
  "line_ok l = (l \<noteq> [] \<and> CHR 0x0D \<notin> set l \<and> length l + 2 \<le> CPPHTTPLIB_HEADER_MAX_LENGTH)"

lemma header_lines_read: "upload_ok item \<Longrightarrow> apply_lines (header_lines item) no_form_data = Some (header_part item)"
  using disposition_line [of item no_form_data] content_type_line [of "form_content_type item"]
  by (auto simp: header_lines_def upload_ok_def header_part_def no_form_data_def)

lemma header_line_ok: "header_ok (k, v) \<Longrightarrow> line_ok (k @ '': '' @ v)"
proof -
  assume ok: "header_ok (k, v)"
  then have v: "is_field_value v" and k: "is_field_name k" by (simp_all add: header_ok_def)
  have cr: "code (CHR 0x0D) = 13" by (simp add: code_def)
  have "CHR 0x0D \<notin> set v" using field_value_line [OF v] cr by blast
  moreover have "CHR 0x0D \<notin> set k" using k token_char_code cr by (fastforce simp: is_field_name_def list_all_iff)
  ultimately show ?thesis using ok by (simp add: line_ok_def header_ok_def)
qed

lemma header_lines_ok: "upload_ok item \<Longrightarrow> list_all line_ok (header_lines item)"
  using header_line_ok [of "''Content-Disposition''"] header_line_ok [of "''Content-Type''"]
  by (auto simp: header_lines_def upload_ok_def)

section \<open>The invariant of the parser\<close>

text \<open>
  \<open>all\<close> are the items of the form, and the text is what the parser has not consumed: its buffer and what is still
  to arrive.
\<close>

inductive form_inv :: "string \<Rightarrow> form_data list \<Rightarrow> form_parser \<Rightarrow> string \<Rightarrow> bool" for b all where
  at_start:
    "fp_state p = Initial_Boundary \<Longrightarrow> fp_items p = [] \<Longrightarrow> fp_count p = 0 \<Longrightarrow> all \<noteq> [] \<Longrightarrow>
       form_inv b all p (''--'' @ b @ tail_text b all)"
| at_entry:
    "fp_state p = New_Entry \<Longrightarrow> fp_items p = map read_item seen \<Longrightarrow> fp_count p = length seen \<Longrightarrow>
       all = seen @ i # todo \<Longrightarrow>
       form_inv b all p (lines_text (header_lines i) @ form_content i @ crlf_dash_boundary b @ tail_text b todo)"
| at_headers:
    "fp_state p = Part_Headers \<Longrightarrow> fp_items p = map read_item seen \<Longrightarrow> fp_count p = length seen \<Longrightarrow>
       all = seen @ i # todo \<Longrightarrow> list_all line_ok ls \<Longrightarrow> apply_lines ls (fp_file p) = Some (header_part i) \<Longrightarrow>
       form_inv b all p (lines_text ls @ form_content i @ crlf_dash_boundary b @ tail_text b todo)"
| at_body:
    "fp_state p = Part_Body \<Longrightarrow> fp_items p = map read_item seen @ [(received i)\<lparr>form_content := c\<rparr>] \<Longrightarrow>
       fp_count p = length seen + 1 \<Longrightarrow> all = seen @ i # todo \<Longrightarrow> form_content i = c @ d \<Longrightarrow>
       form_inv b all p (d @ crlf_dash_boundary b @ tail_text b todo)"
| at_boundary:
    "fp_state p = After_Boundary \<Longrightarrow> fp_items p = map read_item seen \<Longrightarrow> fp_count p = length seen \<Longrightarrow>
       all = seen @ todo \<Longrightarrow> form_inv b all p (tail_text b todo)"
| at_end:
    "fp_valid p \<Longrightarrow> fp_items p = map read_item all \<Longrightarrow> fp_state p = After_Boundary \<and> t \<in> {CRLF, tl CRLF, []}
       \<or> fp_state p = New_Entry \<and> t = [] \<Longrightarrow> form_inv b all p t"

definition all_read :: "form_data list \<Rightarrow> form_parser \<Rightarrow> bool" where
  "all_read all p = (fp_valid p \<and> fp_items p = map read_item all)"

lemma tail_nonempty: "4 \<le> length (tail_text b is)"
  by (cases "is") (simp_all add: CRLF_def lines_text_def)

lemma tail_some [simp]: "tail_text b is \<noteq> []" "[] \<noteq> tail_text b is"
  using tail_nonempty [of b "is"] by auto

lemma inv_at_end: "form_inv b all p [] \<Longrightarrow> all_read all p"
  by (erule form_inv.cases) (auto simp: all_read_def)

text \<open>The buffer is not part of the invariant.\<close>

lemma inv_any_buffer:
  assumes "form_inv b all p t"
  shows "form_inv b all (p\<lparr>fp_buf := u\<rparr>) t"
  using assms
proof cases
  case at_start
  then show ?thesis by (simp only:) (rule form_inv.at_start; simp)
next
  case (at_entry seen i todo)
  then show ?thesis by (simp only:) (rule form_inv.at_entry; simp)
next
  case (at_headers seen i todo ls)
  show ?thesis unfolding at_headers(1) by (rule form_inv.at_headers) (use at_headers in simp_all)
next
  case (at_body seen i c todo d)
  show ?thesis unfolding at_body(1) by (rule form_inv.at_body) (use at_body in simp_all)
next
  case (at_boundary seen todo)
  show ?thesis unfolding at_boundary(1) by (rule form_inv.at_boundary) (use at_boundary in simp_all)
next
  case at_end
  then show ?thesis by (intro form_inv.at_end) simp_all
qed

section \<open>Steps of the parser\<close>

text \<open>\<open>q\<close> has consumed a part of the buffer, and keeps the invariant.\<close>

definition advances :: "string \<Rightarrow> form_data list \<Rightarrow> form_parser \<Rightarrow> string \<Rightarrow> form_parser \<Rightarrow> bool" where
  "advances b all p t q =
     (\<exists>k \<le> length (fp_buf p). fp_buf q = drop k (fp_buf p) \<and> form_inv b all q (drop k t))"

lemma advancesI:
  "k \<le> length (fp_buf p) \<Longrightarrow> fp_buf q = drop k (fp_buf p) \<Longrightarrow> drop k t = u \<Longrightarrow> form_inv b all q u \<Longrightarrow> advances b all p t q"
  by (auto simp: advances_def)

lemma headers_loop:
  assumes "list_all line_ok ls" "apply_lines ls (fp_file p) = Some (header_part i)" "fp_state p = Part_Headers"
    "fp_buf p @ y = lines_text ls @ rest" "fp_count p < CPPHTTPLIB_MULTIPART_FORM_DATA_FILE_MAX_COUNT"
  shows "\<exists>q k. form_headers_loop p = (True, q) \<and> k \<le> length (fp_buf p) \<and> fp_buf q = drop k (fp_buf p) \<and>
    ((\<exists>ls'. fp_state q = Part_Headers \<and> y \<noteq> [] \<and> drop k (lines_text ls @ rest) = lines_text ls' @ rest
        \<and> list_all line_ok ls' \<and> apply_lines ls' (fp_file q) = Some (header_part i)
        \<and> fp_items q = fp_items p \<and> fp_count q = fp_count p)
     \<or> fp_state q = Part_Body \<and> drop k (lines_text ls @ rest) = rest
        \<and> fp_items q = fp_items p @ [received i] \<and> fp_count q = fp_count p + 1)"
  using assms
proof (induction ls arbitrary: p)
  case Nil
  have buf: "fp_buf p @ y = [] @ CRLF @ rest" using Nil(4) by (simp add: lines_text_def)
  have found: "buf_find CRLF (fp_buf p) = (if 2 \<le> length (fp_buf p) then 0 else length (fp_buf p))"
    using find_in_prefix [OF _ crlf_search(1,2) buf] by (simp add: absent_def CRLF_def)
  show ?case
  proof (cases "2 \<le> length (fp_buf p)")
    case True
    have "fp_file p = header_part i" using Nil(2) by simp
    then have "header_callback p = Some (p\<lparr>fp_count := fp_count p + 1, fp_items := fp_items p @ [received i]\<rparr>)"
      using Nil(5) by (auto simp: header_callback_def received_def Let_def header_part_def)
    moreover have "drop 2 (lines_text [] @ rest) = rest" by (simp add: lines_text_def CRLF_def)
    moreover have "fp_buf p \<noteq> []" using True by auto
    ultimately show ?thesis using True found
      by (intro exI [of _ "(buf_erase 2 (p\<lparr>fp_count := fp_count p + 1, fp_items := fp_items p @ [received i]\<rparr>))
            \<lparr>fp_state := Part_Body\<rparr>"] exI [of _ 2])
         (subst form_headers_loop.simps, simp add: Let_def buf_erase_def)
  next
    case False
    then have "y \<noteq> []" using arg_cong [OF buf, of length] by (auto simp: CRLF_def)
    moreover have "form_headers_loop p = (True, p)" using found False by (subst form_headers_loop.simps) simp
    ultimately show ?thesis using Nil(1-3)
      by (intro exI [of _ p] exI [of _ 0] conjI disjI1 exI [of _ "[]"]) simp_all
  qed
next
  case (Cons l ls)
  let ?u = "fp_buf p"
  have l: "l \<noteq> []" "absent CRLF l" using Cons.prems(1) absent_first [of CRLF l] crlf_search by (simp_all add: line_ok_def)
  have whole: "lines_text (l # ls) @ rest = l @ CRLF @ lines_text ls @ rest" by (simp add: lines_text_def)
  then have buf: "?u @ y = l @ CRLF @ lines_text ls @ rest" using Cons.prems(4) by simp
  have found: "buf_find CRLF ?u = (if length l + 2 \<le> length ?u then length l else length ?u)"
    using find_in_prefix [OF l(2) crlf_search(1,2) buf] by (simp add: CRLF_def)
  obtain f where f: "form_header_line l (fp_file p) = Some f" "apply_lines ls f = Some (header_part i)"
    using Cons.prems(2) by (auto split: option.splits)
  show ?case
  proof (cases "length l + 2 \<le> length ?u")
    case True
    let ?p = "buf_erase (length l + 2) (p\<lparr>fp_file := f\<rparr>)"
    have crlf: "length CRLF = 2" by (simp add: CRLF_def)
    have "take (length l) ?u = l"
      using arg_cong [OF buf, of "take (length l)"] True by simp
    moreover have "length l \<noteq> 0" using l(1) by simp
    ultimately have loop: "form_headers_loop p = form_headers_loop ?p"
      using found True f(1) by (subst form_headers_loop.simps) (simp add: Let_def)
    have "drop (length l + 2) ?u @ y = lines_text ls @ rest"
      using arg_cong [OF buf, of "drop (length l + 2)"] True crlf by simp
    then have "\<exists>q k. form_headers_loop ?p = (True, q) \<and> k \<le> length (fp_buf ?p) \<and> fp_buf q = drop k (fp_buf ?p) \<and>
      ((\<exists>ls'. fp_state q = Part_Headers \<and> y \<noteq> [] \<and> drop k (lines_text ls @ rest) = lines_text ls' @ rest
          \<and> list_all line_ok ls' \<and> apply_lines ls' (fp_file q) = Some (header_part i)
          \<and> fp_items q = fp_items ?p \<and> fp_count q = fp_count ?p)
       \<or> fp_state q = Part_Body \<and> drop k (lines_text ls @ rest) = rest
          \<and> fp_items q = fp_items ?p @ [received i] \<and> fp_count q = fp_count ?p + 1)"
      using Cons.prems f(2) by (intro Cons.IH) (simp_all add: buf_erase_def)
    then obtain q k where q: "form_headers_loop p = (True, q)" "k \<le> length ?u - (length l + 2)"
      "fp_buf q = drop (length l + 2 + k) ?u"
      "(\<exists>ls'. fp_state q = Part_Headers \<and> y \<noteq> [] \<and> drop k (lines_text ls @ rest) = lines_text ls' @ rest
          \<and> list_all line_ok ls' \<and> apply_lines ls' (fp_file q) = Some (header_part i)
          \<and> fp_items q = fp_items p \<and> fp_count q = fp_count p)
       \<or> fp_state q = Part_Body \<and> drop k (lines_text ls @ rest) = rest
          \<and> fp_items q = fp_items p @ [received i] \<and> fp_count q = fp_count p + 1"
      unfolding loop by (auto simp: buf_erase_def add.commute)
    moreover have "drop (length l + 2 + k) (lines_text (l # ls) @ rest) = drop k (lines_text ls @ rest)"
      unfolding whole using crlf by simp
    ultimately show ?thesis using True by (intro exI [of _ q] exI [of _ "length l + 2 + k"]) simp
  next
    case False
    then have "y \<noteq> []" using arg_cong [OF buf, of length] by (auto simp: CRLF_def)
    moreover have "form_headers_loop p = (True, p)" using found False by (subst form_headers_loop.simps) simp
    ultimately show ?thesis using Cons.prems(1-3)
      by (intro exI [of _ p] exI [of _ 0] conjI disjI1 exI [of _ "l # ls"]) simp_all
  qed
qed

text \<open>What is assumed of a form: its items, their number, and a boundary that no content has.\<close>

definition form_ok :: "string \<Rightarrow> form_data list \<Rightarrow> bool" where
  "form_ok b items =
     (items \<noteq> [] \<and> length items \<le> CPPHTTPLIB_MULTIPART_FORM_DATA_FILE_MAX_COUNT \<and> CHR 0x0D \<notin> set b \<and>
      list_all upload_ok items \<and> list_all (\<lambda>i. absent (crlf_dash_boundary b) (form_content i)) items)"

text \<open>A round keeps the invariant; when everything has arrived, it ends with the whole form.\<close>

definition good_round :: "string \<Rightarrow> form_data list \<Rightarrow> form_parser \<Rightarrow> string \<Rightarrow> string \<Rightarrow> form_round \<Rightarrow> bool" where
  "good_round b all p t y r =
     (case r of
        Go q \<Rightarrow> advances b all p t q
      | Halt ok q \<Rightarrow> ok \<and> advances b all p t q \<and> (y = [] \<longrightarrow> all_read all q))"

lemma stays: "form_inv b all p t \<Longrightarrow> advances b all p t p"
  unfolding advances_def by (intro exI [of _ 0]) simp

lemma step_at_start:
  assumes "fp_state p = Initial_Boundary" "fp_items p = []" "fp_count p = 0" "form_ok b all"
    "fp_buf p @ y = ''--'' @ b @ tail_text b all"
  shows "good_round b all p (''--'' @ b @ tail_text b all) y (form_step b p)"
proof -
  let ?d = "dash_boundary_crlf b" and ?t = "''--'' @ b @ tail_text b all"
  obtain i todo where all: "all = i # todo" using assms(4) by (cases all) (auto simp: form_ok_def)
  let ?rest = "lines_text (header_lines i) @ form_content i @ crlf_dash_boundary b @ tail_text b todo"
  have t: "?t = ?d @ ?rest" by (simp add: dash_boundary_crlf_def all)
  have d: "?d \<noteq> []" by (simp add: dash_boundary_crlf_def)
  have found: "buf_find ?d (fp_buf p) = (if length ?d \<le> length (fp_buf p) then 0 else length (fp_buf p))"
    using buf_find_prefix [OF d, of "fp_buf p" y] find_at_start [OF d, of ?rest] unfolding assms(5) t by simp
  have inv: "form_inv b all p ?t" using assms(1-4) by (intro form_inv.at_start) (simp_all add: form_ok_def)
  show ?thesis
  proof (cases "length ?d \<le> length (fp_buf p)")
    case True
    let ?q = "(buf_erase (length ?d) p)\<lparr>fp_state := New_Entry\<rparr>"
    have "fp_buf p \<noteq> []" using True d by auto
    then have "form_step b p = Go ?q" using found True assms(1) by (simp add: form_step_def Let_def)
    moreover have "form_inv b all ?q ?rest"
      by (rule form_inv.at_entry [where seen = "[]"]) (use assms all in \<open>simp_all add: buf_erase_def\<close>)
    moreover have "drop (length ?d) ?t = ?rest" unfolding t by simp
    ultimately show ?thesis using True by (auto simp: good_round_def advances_def buf_erase_def intro!: exI [of _ "length ?d"])
  next
    case False
    then have "form_step b p = Halt True p" using found assms(1) by (simp add: form_step_def Let_def)
    moreover have "y \<noteq> []" using False arg_cong [OF assms(5) [unfolded t], of length] by auto
    ultimately show ?thesis using stays [OF inv] by (simp add: good_round_def)
  qed
qed

lemma step_at_headers:
  assumes "fp_state p = Part_Headers" "fp_items p = map read_item seen" "fp_count p = length seen" "all = seen @ i # todo"
    "list_all line_ok ls" "apply_lines ls (fp_file p) = Some (header_part i)" "form_ok b all"
    "fp_buf p @ y = lines_text ls @ form_content i @ crlf_dash_boundary b @ tail_text b todo"
  shows "good_round b all p (lines_text ls @ form_content i @ crlf_dash_boundary b @ tail_text b todo) y (form_step b p)"
proof -
  let ?rest = "form_content i @ crlf_dash_boundary b @ tail_text b todo"
  have "fp_count p < CPPHTTPLIB_MULTIPART_FORM_DATA_FILE_MAX_COUNT" using assms(3,4,7) by (simp add: form_ok_def)
  from headers_loop [OF assms(5,6,1,8) this] obtain q k where q: "form_headers_loop p = (True, q)"
    "k \<le> length (fp_buf p)" "fp_buf q = drop k (fp_buf p)"
    "(\<exists>ls'. fp_state q = Part_Headers \<and> y \<noteq> [] \<and> drop k (lines_text ls @ ?rest) = lines_text ls' @ ?rest
        \<and> list_all line_ok ls' \<and> apply_lines ls' (fp_file q) = Some (header_part i)
        \<and> fp_items q = fp_items p \<and> fp_count q = fp_count p)
     \<or> fp_state q = Part_Body \<and> drop k (lines_text ls @ ?rest) = ?rest
        \<and> fp_items q = fp_items p @ [received i] \<and> fp_count q = fp_count p + 1" by blast
  have short: "\<not> CPPHTTPLIB_HEADER_MAX_LENGTH < buf_find CRLF (fp_buf p)"
  proof (cases ls)
    case Nil
    then have "fp_buf p @ y = [] @ CRLF @ ?rest" using assms(8) by (simp add: lines_text_def)
    from find_in_prefix [OF _ crlf_search(1,2) this] show ?thesis
      by (simp add: absent_def CRLF_def CPPHTTPLIB_HEADER_MAX_LENGTH_def split: if_splits)
  next
    case (Cons l ls')
    then have l: "absent CRLF l" "length l + 2 \<le> CPPHTTPLIB_HEADER_MAX_LENGTH"
      using assms(5) absent_first [of CRLF l] crlf_search by (simp_all add: line_ok_def)
    have "fp_buf p @ y = l @ CRLF @ lines_text ls' @ ?rest" using assms(8) Cons by (simp add: lines_text_def)
    from find_in_prefix [OF l(1) crlf_search(1,2) this] l(2) show ?thesis by (simp add: CRLF_def)
  qed
  have step: "form_step b p = (if fp_state q = Part_Body then Go q else Halt True q)"
    using assms(1) short q(1) by (simp add: form_step_def)
  have "form_inv b all q (lines_text ls' @ ?rest)"
    if "fp_state q = Part_Headers" "list_all line_ok ls'" "apply_lines ls' (fp_file q) = Some (header_part i)"
      "fp_items q = fp_items p" "fp_count q = fp_count p" for ls'
    by (rule form_inv.at_headers) (use that assms in simp_all)
  moreover have "form_inv b all q (form_content i @ crlf_dash_boundary b @ tail_text b todo)"
    if "fp_state q = Part_Body" "fp_items q = fp_items p @ [received i]" "fp_count q = fp_count p + 1"
  proof (rule form_inv.at_body [where c = "[]"])
    show "fp_items q = map read_item seen @ [(received i)\<lparr>form_content := []\<rparr>]"
      using that assms(2) by (simp add: received_def header_part_def Let_def)
  qed (use that assms(3,4) in simp_all)
  ultimately have "advances b all p (lines_text ls @ ?rest) q"
    using q(2-4) unfolding advances_def by (intro exI [of _ k]) auto
  moreover have "fp_state q = Part_Body \<or> y \<noteq> []" using q(4) by blast
  ultimately show ?thesis unfolding step by (auto simp: good_round_def)
qed

lemma delimiter_search:
  assumes "form_ok b all"
  shows "crlf_dash_boundary b \<noteq> []" "hd (crlf_dash_boundary b) \<notin> set (tl (crlf_dash_boundary b))"
  using assms by (simp_all add: form_ok_def crlf_dash_boundary_def CRLF_def)

lemma callback_items:
  "fp_items p = xs @ [i\<lparr>form_content := c\<rparr>] \<Longrightarrow> fp_items (content_callback e p) = xs @ [i\<lparr>form_content := c @ e\<rparr>]"
  by (simp add: content_callback_def)

lemma callback_keeps:
  "fp_state (content_callback e p) = fp_state p" "fp_count (content_callback e p) = fp_count p"
  "fp_buf (content_callback e p) = fp_buf p"
  by (simp_all add: content_callback_def)

lemma step_at_body:
  assumes "fp_state p = Part_Body" "fp_items p = map read_item seen @ [(received i)\<lparr>form_content := c\<rparr>]"
    "fp_count p = length seen + 1" "all = seen @ i # todo" "form_content i = c @ d" "form_ok b all"
    "fp_buf p @ y = d @ crlf_dash_boundary b @ tail_text b todo"
  shows "good_round b all p (d @ crlf_dash_boundary b @ tail_text b todo) y (form_step b p)"
proof -
  let ?m = "crlf_dash_boundary b" and ?u = "fp_buf p"
  let ?t = "d @ ?m @ tail_text b todo"
  have "absent ?m (form_content i)" using assms(4,6) by (simp add: form_ok_def)
  then have "absent ?m d" unfolding assms(5) by (rule absent_suffix)
  from find_in_prefix [OF this delimiter_search [OF assms(6)] assms(7)]
  have found: "buf_find ?m ?u = (if length d + length ?m \<le> length ?u then length d else length ?u)" .
  have inv: "form_inv b all p ?t" using assms by (intro form_inv.at_body)
  have m: "0 < length ?m" by (simp add: crlf_dash_boundary_def CRLF_def)
  show ?thesis
  proof (cases "length d + length ?m \<le> length ?u")
    case True
    let ?q = "(buf_erase (length d + length ?m) (content_callback d p))\<lparr>fp_state := After_Boundary\<rparr>"
    have "take (length d) ?u = d" using arg_cong [OF assms(7), of "take (length d)"] True by simp
    moreover have "length d < length ?u" "length ?m \<le> length ?u" using True m by linarith+
    ultimately have "form_step b p = Go ?q" using True found assms(1) by (simp add: form_step_def Let_def)
    moreover have "form_inv b all ?q (tail_text b todo)"
      by (rule form_inv.at_boundary [where seen = "seen @ [i]"])
        (use assms callback_items [OF assms(2), of d] in \<open>simp_all add: buf_erase_def callback_keeps read_item_def\<close>)
    moreover have "drop (length d + length ?m) ?t = tail_text b todo" by simp
    ultimately show ?thesis using True
      by (auto simp: good_round_def advances_def buf_erase_def callback_keeps intro!: exI [of _ "length d + length ?m"])
  next
    case False
    then have y: "y \<noteq> []" using arg_cong [OF assms(7), of length] by auto
    show ?thesis
    proof (cases "length ?u \<le> length ?m")
      case True
      then have "form_step b p = Halt True p" using found False assms(1) by (auto simp: form_step_def Let_def)
      with y stays [OF inv] show ?thesis by (simp add: good_round_def)
    next
      case longer: False
      let ?len = "length ?u - length ?m"
      let ?q = "buf_erase ?len (content_callback (take ?len ?u) p)"
      have step: "form_step b p = Halt True ?q" using found False longer assms(1) by (simp add: form_step_def Let_def)
      have len: "?len \<le> length d" using False by simp
      have taken: "take ?len ?u = take ?len d" using arg_cong [OF assms(7), of "take ?len"] len by simp
      have "form_inv b all ?q (drop ?len d @ ?m @ tail_text b todo)"
        by (rule form_inv.at_body [where seen = seen and i = i and c = "c @ take ?len d"])
          (use assms callback_items [OF assms(2), of "take ?len d"] in \<open>simp_all add: buf_erase_def callback_keeps taken\<close>)
      moreover have "drop ?len ?t = drop ?len d @ ?m @ tail_text b todo" using len by simp
      ultimately have "advances b all p ?t ?q"
        by (intro advancesI [of ?len]) (simp_all add: buf_erase_def callback_keeps)
      then show ?thesis using y step by (simp add: good_round_def)
    qed
  qed
qed

lemma step_at_boundary:
  assumes "fp_state p = After_Boundary" "fp_items p = map read_item seen" "fp_count p = length seen" "all = seen @ todo"
    "fp_buf p @ y = tail_text b todo"
  shows "good_round b all p (tail_text b todo) y (form_step b p)"
proof (cases "length (fp_buf p) < 2")
  case True
  have "form_inv b all p (tail_text b todo)" using assms by (intro form_inv.at_boundary)
  moreover have "y \<noteq> []" using True arg_cong [OF assms(5), of length] tail_nonempty [of b todo] by auto
  moreover have "form_step b p = Halt True p" using True assms(1) by (simp add: form_step_def)
  ultimately show ?thesis using stays by (simp add: good_round_def)
next
  case False
  then have two: "take 2 (fp_buf p) = take 2 (tail_text b todo)" using arg_cong [OF assms(5), of "take 2"] by simp
  show ?thesis
  proof (cases todo)
    case Nil
    let ?q = "p\<lparr>fp_valid := True, fp_buf := []\<rparr>" and ?k = "length (fp_buf p)"
    have "form_step b p = Go ?q" using False two Nil assms(1) by (simp add: form_step_def CRLF_def)
    moreover have "drop ?k (tail_text b todo) \<in> {CRLF, tl CRLF, []}"
    proof -
      have "?k = 2 \<or> ?k = 3 \<or> 4 \<le> ?k" using False by auto
      then show ?thesis using Nil by (auto simp: CRLF_def)
    qed
    then have "form_inv b all ?q (drop ?k (tail_text b todo))"
      using assms Nil by (intro form_inv.at_end) simp_all
    ultimately show ?thesis by (auto simp: good_round_def advances_def intro!: exI [of _ ?k])
  next
    case (Cons i js)
    let ?q = "(buf_erase 2 p)\<lparr>fp_state := New_Entry\<rparr>"
    let ?rest = "lines_text (header_lines i) @ form_content i @ crlf_dash_boundary b @ tail_text b js"
    have "take 2 (fp_buf p) = CRLF" using two Cons by (simp add: CRLF_def)
    then have "form_step b p = Go ?q" using False assms(1) by (simp add: form_step_def)
    moreover have "form_inv b all ?q ?rest"
      by (rule form_inv.at_entry [where seen = seen]) (use assms Cons in \<open>simp_all add: buf_erase_def\<close>)
    moreover have "drop 2 (tail_text b todo) = ?rest" by (simp add: Cons CRLF_def)
    ultimately show ?thesis using False by (auto simp: good_round_def advances_def buf_erase_def intro!: exI [of _ 2])
  qed
qed

lemma step_at_end:
  assumes "fp_valid p" "fp_items p = map read_item all" "fp_state p = After_Boundary" "t \<in> {CRLF, tl CRLF}"
    "fp_buf p @ y = t"
  shows "good_round b all p t y (form_step b p)"
proof -
  have inv: "form_inv b all p t" using assms by (intro form_inv.at_end) auto
  show ?thesis
  proof (cases "length (fp_buf p) < 2")
    case True
    then have "form_step b p = Halt True p" using assms(3) by (simp add: form_step_def)
    then show ?thesis using stays [OF inv] assms by (simp add: good_round_def all_read_def)
  next
    case False
    then have "fp_buf p = CRLF" "t = CRLF" using assms(4,5) by (auto simp: CRLF_def Cons_eq_append_conv append_eq_Cons_conv)
    moreover have "form_inv b all ((buf_erase 2 p)\<lparr>fp_state := New_Entry\<rparr>) []"
      using assms by (intro form_inv.at_end) (simp_all add: buf_erase_def)
    ultimately show ?thesis using assms(3)
      by (auto simp: form_step_def good_round_def advances_def buf_erase_def CRLF_def intro!: exI [of _ 2])
  qed
qed

lemma parser_step_inv:
  assumes "form_inv b all p t" "fp_buf p @ y = t" "fp_buf p \<noteq> []" "form_ok b all"
  shows "good_round b all p t y (form_step b p)"
  using assms(1)
proof cases
  case at_start
  then show ?thesis using step_at_start assms by blast
next
  case (at_entry seen i todo)
  have "form_inv b all (p\<lparr>fp_file := no_form_data, fp_state := Part_Headers\<rparr>) t"
    unfolding at_entry(1)
    by (rule form_inv.at_headers [where seen = seen])
      (use at_entry assms(4) header_lines_ok header_lines_read in \<open>simp_all add: form_ok_def\<close>)
  then show ?thesis using at_entry(2) by (auto simp: form_step_def good_round_def advances_def intro!: exI [of _ 0])
next
  case (at_headers seen i todo ls)
  then show ?thesis using step_at_headers [OF at_headers(2-7) assms(4)] assms(2) by simp
next
  case (at_body seen i c todo d)
  then show ?thesis using step_at_body [OF at_body(2-6) assms(4)] assms(2) by simp
next
  case (at_boundary seen todo)
  then show ?thesis using step_at_boundary assms by blast
next
  case at_end
  then have "t \<noteq> []" using assms(2,3) by auto
  then show ?thesis using at_end step_at_end [OF at_end(1,2)] assms(2) by auto
qed

section \<open>Pieces\<close>

lemma parser_run_inv:
  assumes "form_inv b all p t" "fp_buf p @ y = t" "form_ok b all"
  shows "\<exists>q. form_run b p = (True, q) \<and> advances b all p t q \<and> (y = [] \<longrightarrow> all_read all q)"
  using assms
proof (induction b p arbitrary: t rule: form_run.induct)
  case (1 b p)
  show ?case
  proof (cases "fp_buf p = []")
    case True
    then have "y = [] \<longrightarrow> all_read all p" using 1(2,3) inv_at_end by auto
    with True stays [OF 1(2)] show ?thesis by (simp add: form_run.simps [of b p])
  next
    case False
    have good: "good_round b all p t y (form_step b p)" by (rule parser_step_inv [OF 1(2,3) False 1(4)])
    show ?thesis
    proof (cases "form_step b p")
      case (Go q)
      obtain k where k: "k \<le> length (fp_buf p)" "fp_buf q = drop k (fp_buf p)" "form_inv b all q (drop k t)"
        using good Go by (auto simp: good_round_def advances_def)
      have "fp_buf q @ y = drop k t" using 1(3) k(1,2) by auto
      from 1(1) [OF False Go k(3) this 1(4)] obtain r l where r: "form_run b q = (True, r)" "l \<le> length (fp_buf q)"
        "fp_buf r = drop l (fp_buf q)" "form_inv b all r (drop l (drop k t))" "y = [] \<longrightarrow> all_read all r"
        by (auto simp: advances_def)
      have "advances b all p t r"
        by (rule advancesI [of "k + l" _ _ _ "drop l (drop k t)"]) (use k r in \<open>simp_all add: add.commute\<close>)
      with False Go r show ?thesis by (simp add: form_run.simps [of b p])
    next
      case (Halt ok q)
      with False good show ?thesis by (simp add: form_run.simps [of b p] good_round_def)
    qed
  qed
qed

lemma feed_inv:
  assumes "form_inv b all p t" "fp_buf p @ concat ds = t" "form_ok b all" "ds = [] \<Longrightarrow> all_read all p"
  shows "\<exists>q. feed_form b ds p = (True, q, []) \<and> all_read all q"
  using assms
proof (induction ds arbitrary: p t)
  case (Cons d ds)
  let ?p = "p\<lparr>fp_buf := fp_buf p @ d\<rparr>"
  have buf: "fp_buf ?p @ concat ds = t" using Cons.prems(2) by simp
  from parser_run_inv [OF inv_any_buffer [OF Cons.prems(1)] buf Cons.prems(3)] obtain q k where q:
    "parse_form b d p = (True, q)" "k \<le> length (fp_buf ?p)" "fp_buf q = drop k (fp_buf ?p)" "form_inv b all q (drop k t)"
    "concat ds = [] \<longrightarrow> all_read all q" by (auto simp: parse_form_def advances_def)
  have "fp_buf q @ concat ds = drop k t" using q(2,3) buf by auto
  from Cons.IH [OF q(4) this Cons.prems(3)] q(1,5) show ?case by simp
qed simp

section \<open>Properties\<close>

text \<open>
  C26: A form of 1 to 1024 items is read by the server as the same fields and files, whatever
  the pieces in which its text arrives, provided that the dispositions and content types are
  valid header values, the names and file names have no semicolon, equals sign or percent sign,
  the boundary has no carriage return, and no content holds the boundary's line.
\<close>

theorem form_roundtrip:
  assumes "form_ok b items" "concat ds = serialize_multipart_formdata items b"
  shows "\<exists>p. feed_form b ds fresh_parser = (True, p, []) \<and> fp_valid p
    \<and> form_fields (fp_items p) = map read_item (form_fields items) \<and> form_files (fp_items p) = map read_item (form_files items)"
proof -
  have "form_inv b items fresh_parser (''--'' @ b @ tail_text b items)"
    using assms(1) by (intro form_inv.at_start) (simp_all add: fresh_parser_def form_ok_def)
  moreover have "fp_buf fresh_parser @ concat ds = ''--'' @ b @ tail_text b items"
    using assms(2) by (simp add: fresh_parser_def serialized_text)
  moreover have "ds \<noteq> []" using assms(2) by (auto simp: serialized_text)
  ultimately obtain p where p: "feed_form b ds fresh_parser = (True, p, [])" "all_read items p"
    using feed_inv [of b items fresh_parser _ ds] assms(1) by blast
  have "form_filename (read_item i) = form_filename i" for i
    by (simp add: read_item_def received_def header_part_def Let_def)
  then show ?thesis using p by (auto simp: all_read_def form_fields_def form_files_def filter_map o_def)
qed

lemma form_roundtrip_witness:
  "\<exists>p. feed_form ''B'' [serialize_multipart_formdata
       [\<lparr>form_name = ''a'', form_content = ''x'' @ CRLF @ ''--'', form_filename = [], form_content_type = [], form_headers = []\<rparr>] ''B'', []]
     fresh_parser = (True, p, []) \<and> map form_content (form_fields (fp_items p)) = [''x'' @ CRLF @ ''--'']"
proof -
  let ?i = "\<lparr>form_name = ''a'', form_content = ''x'' @ CRLF @ ''--'', form_filename = [], form_content_type = [], form_headers = []\<rparr>"
  have "form_ok ''B'' [?i]" by code_simp
  from form_roundtrip [OF this, of "[serialize_multipart_formdata [?i] ''B'', []]"] show ?thesis
    by (auto simp: form_fields_def read_item_def)
qed

text \<open>The boundary that a client announces is found.\<close>

lemma announced_boundary:
  assumes "is_multipart_boundary_chars_valid b" "b \<noteq> []"
  shows "parse_multipart_boundary (multipart_content_type b) = Some b"
proof -
  have b: "CHR '';'' \<notin> set b" "CHR 0x22 \<notin> set b"
    using assms(1) by (auto simp: is_multipart_boundary_chars_valid_def list_all_iff is_alnum_def is_digit_def code_def)
  have found: "buf_find ''boundary='' (multipart_content_type b) = 21" by (simp add: multipart_content_type_def)
  have rest: "drop 30 (multipart_content_type b) = b" "length (multipart_content_type b) \<noteq> 21"
    by (simp_all add: multipart_content_type_def)
  have whole: "takeWhile (\<lambda>c. c \<noteq> CHR '';'') b = b" using b(1) by (auto simp: takeWhile_eq_all_conv)
  have "hd b \<noteq> CHR 0x22" using b(2) hd_in_set [OF assms(2)] by metis
  then have "trim_double_quotes b = b" by (simp add: trim_double_quotes_def)
  then have trimmed: "trim_double_quotes (takeWhile (\<lambda>c. c \<noteq> CHR '';'') b) = b" unfolding whole .
  show ?thesis unfolding parse_multipart_boundary_def Let_def found using rest assms(2) trimmed by simp
qed

text \<open>
  What follows the last boundary is dropped when it arrives together with it, and parsed as one more part when it
  arrives later: the same request is accepted or refused, depending on how the network cuts it.
\<close>

lemma epilogue_depends_on_pieces:
  "let item = \<lparr>form_name = ''a'', form_content = ''x'', form_filename = [], form_content_type = [], form_headers = []\<rparr>;
       form = serialize_multipart_formdata [item] ''B''; epilogue = CRLF @ ''end'' @ CRLF
   in fst (feed_form ''B'' [form @ epilogue] fresh_parser) \<and> \<not> fst (feed_form ''B'' [form, epilogue] fresh_parser)"
  by code_simp

text \<open>A semicolon in a name is taken for a separator, though the name is quoted.\<close>

lemma semicolon_cuts_name:
  "map_of (parse_disposition_params (''name='' @ quoted ''a;b'')) ''name'' = Some (CHR 0x22 # ''a'')"
  by code_simp

end
