(* ===== verification/Spec2Isabelle.thy ===== *)
theory Spec2Isabelle
  imports End_To_End Json_Theorems Json_Text Http_Safety Http_Chunked Thread_Pool Central_Concurrency
    Json_Flatten Http_Form_Roundtrip
begin

text \<open>
  A verification library for zapshare, a program that sends a file to one receiver over UDP with the
  help of a central server.

  The program. \<open>zapshare send\<close> (\<open>cli_tool/main.cpp\<close>) hashes a file, finds its public address by STUN, draws
  a token and registers the transfer with the central server; it polls the server for the receiver's
  address, punches holes and serves the file in a \<open>Session\<close>. \<open>zapshare get\<close> looks the token up, finds its
  own public address, leaves it with the server, fetches the transfer's metadata, greets the sender and
  runs a stop-and-wait protocol that writes the file. The central server (\<open>central_server/main.cpp\<close>) keeps
  transfers in PostgreSQL and receivers' addresses in memory, behind \<open>httplib\<close> and \<open>nlohmann::json\<close>, which the
  repository holds in source.

  Theories, from the bottom. \<open>Prelude\<close>: faults as values (\<open>Throw\<close> for an exception, \<open>Abort\<close> for a failed
  assertion or an access out of bounds), decimal and hexadecimal numbers, the locales \<open>coding\<close> and
  \<open>machine\<close>. \<open>File_Stream\<close>: \<open>std::ifstream\<close>. \<open>Transfer_Types\<close>: \<open>types.h\<close>. \<open>Wire\<close>: the messages of \<open>proto/v1\<close>; the
  generated serialisers are the parameter \<open>codec\<close> with the law \<open>codec_ok\<close>. \<open>Session_Crypto\<close>:
  \<open>session_crypto.cpp\<close> over a record of libsodium's functions. \<open>File_Hash\<close>: \<open>crypto.hpp\<close> over a record of
  OpenSSL's SHA-256.

  Transfer. \<open>Sender_Session\<close> is class \<open>Session\<close> (\<open>session.hpp\<close>): the record \<open>session\<close> has its member variables,
  \<open>handle_packet\<close> is its entry point. \<open>Receiver\<close> is \<open>client.cpp\<close>: the handshake and the loop of
  \<open>receive_file\<close>, over one \<open>socket_event\<close> per call of \<open>recv_with_timeout\<close>. \<open>Sender_Proofs\<close>, \<open>Sender_Properties\<close> and
  \<open>Receiver_Proofs\<close> hold their invariants and the behaviour of every branch. \<open>Network\<close> joins the two by a step
  relation in which datagrams are lost, repeated, reordered and forged by strangers: the output is a
  prefix of the file, success means the whole file, an authenticated session for a readable file closes
  only after delivery, and a timeout resumes a stalled transfer. Strangers send what they like to the
  receiver; to the sender they send no acknowledgements or errors (\<open>harmless\<close>), which the session would
  obey from any address.

  JSON. \<open>Json_Value\<close>, \<open>Json_Lexer\<close>, \<open>Json_Parser\<close>, \<open>Json_Serializer\<close> are the parts of \<open>json.hpp\<close> the program runs:
  values, the lexer with its number automaton and UTF-8 checks, the parser with its explicit stack, and
  \<open>dump\<close> as the program calls it. \<open>Json_Escape\<close> and \<open>Json_Pretty\<close> are the serializer with its options: the
  buffered string routine with its reactions to ill-formed UTF-8, and indented text cut from the
  indentation string. \<open>Json_Roundtrip\<close>, \<open>Json_Utf8\<close> and \<open>Json_Ascii\<close> have the lexer's side (numbers, UTF-8,
  escapes and surrogate pairs); \<open>Json_Theorems\<close> shows that text dumped with any options parses back, \<open>Json_Text\<close>
  that a value can be dumped exactly when its strings are UTF-8, and that everything parsed can be dumped.
  \<open>Json_Pointer\<close> has JSON pointers with their text and the ways they lead into a value, \<open>Json_Places\<close> the
  laws of reading and writing through them (locale \<open>place\<close>). \<open>Json_Patch\<close> has comparison, patches, differences and
  merge patches, \<open>Json_Patch_Properties\<close> what they guarantee: a difference applied as a patch gives the
  target (\<open>turns\<close>: operations at a place, in whatever document), a merge patch is the one of RFC 7396.
  \<open>Json_Flatten\<close> flattens values and grows them back, leaf by leaf in the order of the map.

  Central server. \<open>Central_DB\<close> is \<open>database.hpp\<close> on a table that is a map from identifiers to rows;
  PostgreSQL is the record \<open>postgres\<close>. \<open>Central_Http\<close> has the routes and handlers and the dispatch, exception
  handling and completion of responses of \<open>httplib.h\<close>. \<open>Central_Properties\<close> shows what every request keeps. \<open>Directory\<close> states the server's contract, a directory with a mailbox, and that
  the routes implement it (\<open>simulates\<close>, one lemma per operation). \<open>Central_Threads\<close> cuts the handlers into the
  stages between which other worker threads run, on the one database connection and the mutex of the
  signals; \<open>Central_Linear\<close> finds, for every interleaving, an order in which serving the requests one after
  the other gives the same responses and the same state up to claims, and \<open>Central_Concurrency\<close> shows mutual
  exclusion (locale \<open>thread_resource\<close>), that from every reachable state all requests can be completed, and
  what a request gets that finds the connection occupied.

  HTTP. \<open>Http_Encoding\<close> has the text helpers of \<open>httplib.h\<close>, \<open>Http_Query\<close> query strings and their parameters.
  \<open>Http_Message\<close> is what \<open>httplib.h\<close> writes for a request of the program and how heads are read from a
  stream: lines, request line, headers. \<open>Http_Body\<close> has the bodies, \<open>Http_Form_Body\<close> bodies that are forms,
  \<open>Http_Accept\<close> the header \<open>Accept\<close>, \<open>Http_Connection\<close> the text of responses, the server's handling of one request
  and its loop over the requests of a connection, and the reading side of the client; what the library asks of
  its environment is the record \<open>http_lib\<close>.
  \<open>Http_Roundtrip\<close> and \<open>Http_Exchange\<close> show that a connection carries requests and responses unchanged: the
  client \<open>via_text\<close> behaves as the client \<open>direct\<close> that the theorems on the command line are about, apart from
  secrets with a number sign. \<open>Central_Aborts\<close> and \<open>Http_Safety\<close> show what whatever bytes can do to the server: it answers
  all requests with known statuses, or the bytes contain a registration with a value of the wrong kind,
  which stops it, or a header \<open>Accept\<close> with a quality that is not a number, whose effect is undefined. \<open>Http_Chunked\<close> is the round trip of bodies in chunks,
  \<open>Http_Query_Roundtrip\<close> that of queries: the server has the first of equal parameters, sorted by key. \<open>Http_Ranges\<close> has byte ranges and the parts of a
  response they select, \<open>Http_Ranges_Properties\<close> that what is served is, byte for byte, what RFC 9110 lets a
  range ask for (\<open>asked_bytes\<close>, stated without the code), and is bounded. \<open>Http_Forms\<close> has multipart forms and the parser that is fed with
  their pieces, \<open>Http_Form_Roundtrip\<close> that it reads what a client wrote however it is cut (\<open>form_inv\<close>). \<open>Thread_Pool\<close> is the
  pool that runs the connections, with the interleavings of its threads: order, no lost wake-up, shutdown.

  Command line. \<open>Stun\<close> and \<open>Uuid\<close> are the address discovery and the tokens of \<open>utils.hpp\<close>, \<open>Rendezvous\<close> its requests
  to the server, with the HTTP client as a function from requests to responses. \<open>Server\<close> is class \<open>Server\<close>
  (\<open>server.cpp\<close>), \<open>Cli\<close> is \<open>main.cpp\<close> and \<open>run_client_session\<close>. \<open>Rendezvous_Properties\<close>, \<open>Announcement\<close>,
  \<open>Cli_Properties\<close> and \<open>Meeting\<close> run them against the central server of \<open>Central_Http\<close> (the client \<open>direct\<close>):
  what was registered is told, the two sides find each other, and what each exit code is worth.
  \<open>End_To_End\<close> goes from the two command lines to the file on the receiver's disk.

  Conventions. Machine integers are words of their width, strings are lists of bytes, fallible
  operations return \<open>fault + 'a\<close>. Operations that send return the datagrams in order. Where the code
  waits for the outside (sockets, files, random device, the server), what happens is an argument. Loops
  are recursive functions with measures; there is no fuel but the code's own bounds: 20 retries, 30
  polls, 5 rounds of punches. \<open>Toy_Codec\<close> and the \<open>toy_\<close> definitions are small instances of the parameters for
  the examples that follow theorems with hypotheses.

  Hypotheses on what is not in the repository: the laws of libsodium (\<open>aead_ok\<close>, \<open>sign_ok\<close>, \<open>kx_ok\<close>, \<open>random_ok\<close>),
  SHA-256 fed piecewise (\<open>sha_stream\<close>), generated serialisers that parse what they wrote (\<open>codec_ok\<close>), a
  database that answers and stores the texts in question (\<open>serving\<close>, \<open>storable_send\<close>), address parsing that
  throws and does not abort, \<open>std::sort\<close> on ranges (\<open>sorts_ranges\<close>).

  Not modelled: console output, sockets, resolvers and timers themselves (a call of \<open>recv_with_timeout\<close> is
  one event, although a datagram of a stranger restarts its 200 ms), two threads
  inside one call of the database connection at the same time, compression, TLS and the other parts of the JSON library the program does not call, the
  decimal conversion of doubles (a parameter, \<open>floats\<close>), the tests and the build files.
\<close>

end
